(* ===== verification/Prelude.thy ===== *)
theory Prelude
  imports Main "HOL-Library.Word" "HOL-Library.Multiset" "HOL-Library.AList"
begin

text \<open>
  Shared vocabulary of the development: results of fallible Go functions, the order in
  which a Go map is ranged over, the string functions of Go's standard library the proxy
  calls, decimal conversion, and the generic notion of a machine driven by a list of
  operations together with the interface locale for its invariants.

  Go strings and byte slices are both \<open>string\<close> (a list of 8-bit characters): the code
  converts freely between them and \<open>len\<close> counts bytes in both cases.
\<close>

unbundle bit_operations_syntax

section \<open>Definitions\<close>

subsection \<open>Fallible results\<close>

text \<open>A Go pair \<open>(value, error)\<close> is a sum: \<open>Inl\<close> carries the text of the error.\<close>

type_synonym bytes = string
type_synonym 'a res = "string + 'a"

definition bind_res :: "'a res \<Rightarrow> ('a \<Rightarrow> 'b res) \<Rightarrow> 'b res" where
  "bind_res m f = (case m of Inl e \<Rightarrow> Inl e | Inr x \<Rightarrow> f x)"

text \<open>
  A function body that is a sequence of \<open>if err := step(&c); err != nil { return err }\<close>.
\<close>

fun seq_steps :: "('c \<Rightarrow> 'c res) list \<Rightarrow> 'c \<Rightarrow> 'c res" where
  "seq_steps [] c = Inr c"
| "seq_steps (f # fs) c = (case f c of Inl e \<Rightarrow> Inl e | Inr c' \<Rightarrow> seq_steps fs c')"

text \<open>Calling a method on a nested struct field: \<open>c.F.step()\<close>.\<close>

definition on_field ::
  "('c \<Rightarrow> 'f) \<Rightarrow> (('f \<Rightarrow> 'f) \<Rightarrow> 'c \<Rightarrow> 'c) \<Rightarrow> ('f \<Rightarrow> 'f res) \<Rightarrow> 'c \<Rightarrow> 'c res" where
  "on_field get upd step c = (case step (get c) of Inl e \<Rightarrow> Inl e | Inr x \<Rightarrow> Inr (upd (\<lambda>_. x) c))"

subsection \<open>Ranging over a Go map\<close>

text \<open>
  The iteration order of a Go map is unspecified. A loop over a map takes the order the
  runtime happens to choose as a list of keys; the theorems quantify over every list that
  enumerates the map.
\<close>

definition enumerates :: "'k list \<Rightarrow> ('k \<rightharpoonup> 'v) \<Rightarrow> bool" where
  "enumerates ks m \<longleftrightarrow> distinct ks \<and> set ks = dom m"

subsection \<open>Machines driven by operations\<close>

definition run_ops :: "('s \<Rightarrow> 'e \<Rightarrow> 's) \<Rightarrow> 's \<Rightarrow> 'e list \<Rightarrow> 's" where
  "run_ops step s es = foldl step s es"

fun admissible :: "('s \<Rightarrow> 'e \<Rightarrow> 's) \<Rightarrow> ('s \<Rightarrow> 'e \<Rightarrow> bool) \<Rightarrow> 's \<Rightarrow> 'e list \<Rightarrow> bool" where
  "admissible step ok s [] = True"
| "admissible step ok s (e # es) = (ok s e \<and> admissible step ok (step s e) es)"

text \<open>
  A concurrent component is a relation labelled with the events it takes part in; a run is a
  list of events.
\<close>

primrec lts_run :: "('s \<Rightarrow> 'e \<Rightarrow> 's \<Rightarrow> bool) \<Rightarrow> 's \<Rightarrow> 'e list \<Rightarrow> 's \<Rightarrow> bool" where
  "lts_run step s [] s' \<longleftrightarrow> s' = s"
| "lts_run step s (e # es) s' \<longleftrightarrow> (\<exists>t. step s e t \<and> lts_run step t es s')"

subsection \<open>Strings\<close>

abbreviation quote_char :: char where "quote_char \<equiv> CHR 0x27"
abbreviation newline_char :: char where "newline_char \<equiv> CHR 0x0A"

text \<open>\<open>'x'\<close>: the single-quoted form the error messages use.\<close>

definition quoted :: "string \<Rightarrow> string" where
  "quoted s = quote_char # s @ [quote_char]"

definition has_prefix :: "string \<Rightarrow> string \<Rightarrow> bool" where
  "has_prefix s p \<longleftrightarrow> take (length p) s = p"

definition has_suffix :: "string \<Rightarrow> string \<Rightarrow> bool" where
  "has_suffix s p \<longleftrightarrow> length p \<le> length s \<and> drop (length s - length p) s = p"

definition trim_prefix :: "string \<Rightarrow> string \<Rightarrow> string" where
  "trim_prefix s p = (if has_prefix s p then drop (length p) s else s)"

definition trim_suffix :: "string \<Rightarrow> string \<Rightarrow> string" where
  "trim_suffix s p = (if has_suffix s p then take (length s - length p) s else s)"

fun str_contains :: "string \<Rightarrow> string \<Rightarrow> bool" where
  "str_contains [] p = (p = [])"
| "str_contains (c # s) p = (has_prefix (c # s) p \<or> str_contains s p)"

text \<open>\<open>strings.Split\<close> with a one-byte separator.\<close>

fun split_on :: "char \<Rightarrow> string \<Rightarrow> string list" where
  "split_on c [] = [[]]"
| "split_on c (x # xs) =
     (if x = c then [] # split_on c xs
      else (case split_on c xs of [] \<Rightarrow> [[x]] | y # ys \<Rightarrow> (x # y) # ys))"

fun join_with :: "string \<Rightarrow> string list \<Rightarrow> string" where
  "join_with sep [] = []"
| "join_with sep [x] = x"
| "join_with sep (x # y # ys) = x @ sep @ join_with sep (y # ys)"

fun index_byte :: "string \<Rightarrow> char \<Rightarrow> nat option" where
  "index_byte [] c = None"
| "index_byte (x # xs) c = (if x = c then Some 0 else map_option Suc (index_byte xs c))"

definition upper_char :: "char \<Rightarrow> char" where
  "upper_char c = (let n = (of_char c :: nat) in if 97 \<le> n \<and> n \<le> 122 then char_of (n - 32) else c)"

definition lower_char :: "char \<Rightarrow> char" where
  "lower_char c = (let n = (of_char c :: nat) in if 65 \<le> n \<and> n \<le> 90 then char_of (n + 32) else c)"

subsection \<open>Decimal numbers\<close>

fun show_nat :: "nat \<Rightarrow> string" where
  "show_nat n = (if n < 10 then [char_of (48 + n)] else show_nat (n div 10) @ [char_of (48 + n mod 10)])"

declare show_nat.simps [simp del]

definition show_int :: "int \<Rightarrow> string" where
  "show_int i = (if i < 0 then CHR ''-'' # show_nat (nat (- i)) else show_nat (nat i))"

definition digit_of :: "char \<Rightarrow> nat option" where
  "digit_of c = (let n = (of_char c :: nat) in if 48 \<le> n \<and> n \<le> 57 then Some (n - 48) else None)"

fun digits_value :: "nat \<Rightarrow> string \<Rightarrow> nat option" where
  "digits_value acc [] = Some acc"
| "digits_value acc (c # cs) =
     (case digit_of c of None \<Rightarrow> None | Some d \<Rightarrow> digits_value (10 * acc + d) cs)"

text \<open>
  \<open>strconv.ParseInt(s, 10, 64)\<close> and \<open>strconv.Atoi\<close> on a 64-bit platform: an optional
  sign, at least one digit, and a value that fits; \<open>None\<close> is a syntax or range error.
\<close>

definition parse_int64 :: "string \<Rightarrow> int option" where
  "parse_int64 s =
     (let neg = (s \<noteq> [] \<and> hd s = CHR ''-'');
          ds = (if s \<noteq> [] \<and> (hd s = CHR ''-'' \<or> hd s = CHR ''+'') then tl s else s)
      in if ds = [] then None
         else (case digits_value 0 ds of
             None \<Rightarrow> None
           | Some n \<Rightarrow>
               (let v = (if neg then - int n else int n)
                in if - (2 ^ 63) \<le> v \<and> v < 2 ^ 63 then Some v else None)))"

section \<open>Lemmas\<close>

subsection \<open>Results\<close>

named_theorems res_simps \<open>evaluation of results\<close>

lemma bind_res_Inl [simp, res_simps]: "bind_res (Inl e) f = Inl e"
  by (simp add: bind_res_def)

lemma bind_res_Inr [simp, res_simps]: "bind_res (Inr x) f = f x"
  by (simp add: bind_res_def)

lemma bind_res_InrE:
  "bind_res m f = Inr y \<Longrightarrow> (\<And>x. m = Inr x \<Longrightarrow> f x = Inr y \<Longrightarrow> P) \<Longrightarrow> P"
  by (cases m) auto

lemma seq_steps_append:
  "seq_steps (fs @ gs) c = bind_res (seq_steps fs c) (seq_steps gs)"
  by (induction fs arbitrary: c) (auto split: sum.splits)

lemma seq_steps_id: "(\<And>f. f \<in> set fs \<Longrightarrow> f c = Inr c) \<Longrightarrow> seq_steps fs c = Inr c"
proof (induction fs)
  case (Cons f fs)
  then have "f c = Inr c" "seq_steps fs c = Inr c" by simp_all
  then show ?case by simp
qed simp

text \<open>An invariant every step keeps is kept by the sequence, whatever the outcome.\<close>

lemma seq_steps_inv:
  assumes "\<And>f c c'. f \<in> set fs \<Longrightarrow> P c \<Longrightarrow> f c = Inr c' \<Longrightarrow> P c'"
    and "P c" and "seq_steps fs c = Inr c'"
  shows "P c'"
  using assms
proof (induction fs arbitrary: c)
  case Nil
  then show ?case by simp
next
  case (Cons f fs)
  from Cons.prems(3) obtain c1 where c1: "f c = Inr c1" "seq_steps fs c1 = Inr c'"
    by (auto split: sum.splits)
  have "P c1" using Cons.prems(1,2) c1(1) by (meson list.set_intros(1))
  then show ?case using Cons.IH [of c1] Cons.prems(1) c1(2) by (meson list.set_intros(2))
qed

lemma on_field_Inr [res_simps]:
  "step (get c) = Inr x \<Longrightarrow> on_field get upd step c = Inr (upd (\<lambda>_. x) c)"
  by (simp add: on_field_def)

lemma on_field_Inl [res_simps]:
  "step (get c) = Inl e \<Longrightarrow> on_field get upd step c = Inl e"
  by (simp add: on_field_def)

subsection \<open>Enumerations of maps\<close>

lemma enumeratesD: "enumerates ks m \<Longrightarrow> distinct ks" "enumerates ks m \<Longrightarrow> set ks = dom m"
  by (auto simp: enumerates_def)

lemma enumerates_empty [simp]: "enumerates ks Map.empty \<longleftrightarrow> ks = []"
  by (auto simp: enumerates_def)

lemma enumerates_perm: "enumerates ks m \<Longrightarrow> enumerates ks' m \<Longrightarrow> mset ks = mset ks'"
  by (metis enumerates_def set_eq_iff_mset_eq_distinct)

lemma enumerates_SomeD: "enumerates ks m \<Longrightarrow> k \<in> set ks \<Longrightarrow> \<exists>v. m k = Some v"
  by (auto simp: enumerates_def)

lemma enumerates_mem: "enumerates ks m \<Longrightarrow> m k = Some v \<Longrightarrow> k \<in> set ks"
  by (auto simp: enumerates_def)

subsection \<open>Machines\<close>

lemma run_ops_Nil [simp]: "run_ops step s [] = s"
  by (simp add: run_ops_def)

lemma run_ops_Cons [simp]: "run_ops step s (e # es) = run_ops step (step s e) es"
  by (simp add: run_ops_def)

lemma lts_run_append:
  "lts_run step s (es @ fs) s' \<longleftrightarrow> (\<exists>t. lts_run step s es t \<and> lts_run step t fs s')"
  by (induction es arbitrary: s) auto

lemma run_ops_append: "run_ops step s (es @ fs) = run_ops step (run_ops step s es) fs"
  by (simp add: run_ops_def)

text \<open>
  The contract between a component and the invariant its clients rely on: every operation
  that is admissible in a state keeps the invariant, so every admissible run does.
\<close>

locale invariant_machine =
  fixes step :: "'s \<Rightarrow> 'e \<Rightarrow> 's"
    and ok :: "'s \<Rightarrow> 'e \<Rightarrow> bool"
    and inv :: "'s \<Rightarrow> bool"
  assumes step_inv: "inv s \<Longrightarrow> ok s e \<Longrightarrow> inv (step s e)"
begin

lemma run_inv: "inv s \<Longrightarrow> admissible step ok s es \<Longrightarrow> inv (run_ops step s es)"
  by (induction es arbitrary: s) (auto intro: step_inv)

lemma run_prefix_inv:
  "inv s \<Longrightarrow> admissible step ok s (es @ fs) \<Longrightarrow> inv (run_ops step s es)"
  by (induction es arbitrary: s) (auto intro: step_inv)

end

lemma admissible_True: "admissible step (\<lambda>_ _. True) s es"
  by (induction es arbitrary: s) auto

text \<open>The same contract for a labelled relation.\<close>

locale lts_invariant =
  fixes step :: "'s \<Rightarrow> 'e \<Rightarrow> 's \<Rightarrow> bool"
    and inv :: "'s \<Rightarrow> bool"
  assumes step_inv: "inv s \<Longrightarrow> step s e s' \<Longrightarrow> inv s'"
begin

lemma run_inv: "inv s \<Longrightarrow> lts_run step s es s' \<Longrightarrow> inv s'"
  by (induction es arbitrary: s) (auto intro: step_inv)

text \<open>An equation between observations that every step keeps holds along a run.\<close>

lemma run_measure:
  assumes "\<And>s e s'. inv s \<Longrightarrow> P s \<Longrightarrow> Q e \<Longrightarrow> step s e s' \<Longrightarrow>
      P s' \<and> (f e :: 'b list) @ g s' = g s @ h e"
    and "inv s" "P s" "lts_run step s es s'" "\<forall>e \<in> set es. Q e"
  shows "P s' \<and> concat (map f es) @ g s' = g s @ concat (map h es)"
  using assms(2-)
proof (induction es arbitrary: s)
  case (Cons e es)
  then obtain t where t: "step s e t" "lts_run step t es s'" by auto
  have one: "P t" "f e @ g t = g s @ h e"
    using assms(1) [OF Cons.prems(1,2) _ t(1)] Cons.prems(4) by auto
  have "P s'" "concat (map f es) @ g s' = g t @ concat (map h es)"
    using Cons.IH [OF step_inv [OF Cons.prems(1) t(1)] one(1) t(2)] Cons.prems(4) by auto
  with one(2) show ?case by (metis (no_types, opaque_lifting) append.assoc concat.simps(2) list.simps(9))
qed simp

end

text \<open>
  A machine whose states have an abstraction that each admissible operation follows:
  the simulation contract used for the refinement results.
\<close>

locale simulation = invariant_machine step ok inv
  for step :: "'s \<Rightarrow> 'e \<Rightarrow> 's" and ok :: "'s \<Rightarrow> 'e \<Rightarrow> bool" and inv :: "'s \<Rightarrow> bool" +
  fixes abs :: "'s \<Rightarrow> 'a"
    and astep :: "'a \<Rightarrow> 'e \<Rightarrow> 'a"
  assumes sim: "inv s \<Longrightarrow> ok s e \<Longrightarrow> abs (step s e) = astep (abs s) e"
begin

lemma run_sim:
  "inv s \<Longrightarrow> admissible step ok s es \<Longrightarrow> abs (run_ops step s es) = run_ops astep (abs s) es"
proof (induction es arbitrary: s)
  case (Cons e es)
  then have "inv (step s e)" "abs (step s e) = astep (abs s) e"
    by (auto intro: step_inv sim)
  with Cons show ?case by simp
qed simp

end

lemma admissible_append:
  "admissible step ok s (es @ fs) \<longleftrightarrow> admissible step ok s es \<and> admissible step ok (run_ops step s es) fs"
  by (induction es arbitrary: s) auto

text \<open>
  A labelled relation that follows a machine: each step is a sequence of admissible operations of
  the machine, most often none or one.
\<close>

locale lts_simulation = lts_invariant step inv
  for step :: "'s \<Rightarrow> 'e \<Rightarrow> 's \<Rightarrow> bool" and inv :: "'s \<Rightarrow> bool" +
  fixes abs :: "'s \<Rightarrow> 'a"
    and astep :: "'a \<Rightarrow> 'o \<Rightarrow> 'a"
    and ok :: "'a \<Rightarrow> 'o \<Rightarrow> bool"
    and ops :: "'e \<Rightarrow> 'o list"
  assumes sim: "inv s \<Longrightarrow> step s e s' \<Longrightarrow>
      admissible astep ok (abs s) (ops e) \<and> abs s' = run_ops astep (abs s) (ops e)"
begin

lemma run_sim:
  "inv s \<Longrightarrow> lts_run step s es s' \<Longrightarrow>
   admissible astep ok (abs s) (concat (map ops es)) \<and> abs s' = run_ops astep (abs s) (concat (map ops es))"
proof (induction es arbitrary: s)
  case (Cons e es)
  then obtain t where t: "step s e t" "lts_run step t es s'" by auto
  with Cons.prems have "inv t" by (blast intro: step_inv)
  with Cons.IH [OF _ t(2)] sim [OF Cons.prems(1) t(1)] show ?case
    by (simp add: admissible_append run_ops_append)
qed simp

end

subsection \<open>Strings\<close>

named_theorems str_simps \<open>evaluation of the string functions\<close>

lemmas [str_simps] = has_prefix_def has_suffix_def trim_prefix_def trim_suffix_def

lemma has_prefix_append [simp]: "has_prefix (p @ s) p"
  by (simp add: has_prefix_def)

lemma trim_prefix_append [simp]: "trim_prefix (p @ s) p = s"
  by (simp add: trim_prefix_def)

lemma has_suffix_append [simp]: "has_suffix (s @ p) p"
  by (simp add: has_suffix_def)

lemma trim_suffix_append [simp]: "trim_suffix (s @ p) p = s"
  by (simp add: trim_suffix_def)

lemma has_prefixE: "has_prefix s p \<Longrightarrow> (\<And>r. s = p @ r \<Longrightarrow> P) \<Longrightarrow> P"
  unfolding has_prefix_def by (metis append_take_drop_id)

lemma index_byte_None_iff: "index_byte s c = None \<longleftrightarrow> c \<notin> set s"
  by (induction s) auto

lemma index_byte_SomeD:
  "index_byte s c = Some i \<Longrightarrow> i < length s \<and> s ! i = c \<and> c \<notin> set (take i s)"
  by (induction s arbitrary: i) (auto split: if_splits)

lemma index_byte_append [simp]: "c \<notin> set p \<Longrightarrow> index_byte (p @ c # s) c = Some (length p)"
  by (induction p) auto

lemma split_on_nonempty [simp]: "split_on c s \<noteq> []"
  by (induction s) (auto split: list.splits)

lemma split_on_single: "c \<notin> set s \<Longrightarrow> split_on c s = [s]"
  by (induction s) auto

lemma split_on_append: "c \<notin> set p \<Longrightarrow> split_on c (p @ c # s) = p # split_on c s"
  by (induction p) auto

lemma split_join:
  "xs \<noteq> [] \<Longrightarrow> (\<And>x. x \<in> set xs \<Longrightarrow> c \<notin> set x) \<Longrightarrow> split_on c (join_with [c] xs) = xs"
proof (induction "[c]" xs rule: join_with.induct)
  case (2 x)
  then show ?case by (simp add: split_on_single)
next
  case (3 x y ys)
  then show ?case using split_on_append [of c x "join_with [c] (y # ys)"] by simp
qed simp

subsection \<open>Decimal numbers\<close>

lemma digit_of_char [simp]: "d < 10 \<Longrightarrow> digit_of (char_of (48 + d)) = Some d"
  by (simp add: digit_of_def Let_def of_char_of)

lemma digits_value_append:
  "digits_value a (xs @ ys) = (case digits_value a xs of None \<Rightarrow> None | Some b \<Rightarrow> digits_value b ys)"
  by (induction xs arbitrary: a) (auto split: option.splits)

lemma show_nat_nonempty [simp]: "show_nat n \<noteq> []"
  by (subst show_nat.simps) simp

lemma show_nat_value:
  "digits_value a (show_nat n) = Some (10 ^ length (show_nat n) * a + n)"
proof (induction n arbitrary: a rule: show_nat.induct)
  case (1 n)
  show ?case
  proof (cases "n < 10")
    case True
    then show ?thesis by (simp add: show_nat.simps [of n])
  next
    case False
    then have "digits_value a (show_nat (n div 10)) =
        Some (10 ^ length (show_nat (n div 10)) * a + n div 10)"
      using "1.IH" by simp
    with False show ?thesis
      by (simp add: show_nat.simps [of n] digits_value_append algebra_simps)
  qed
qed

lemma show_nat_digits: "c \<in> set (show_nat n) \<Longrightarrow> digit_of c \<noteq> None"
proof (induction n rule: show_nat.induct)
  case (1 n)
  then show ?case
    by (cases "n < 10") (auto simp: show_nat.simps [of n])
qed

lemma hd_show_nat: "hd (show_nat n) \<noteq> CHR ''-''" "hd (show_nat n) \<noteq> CHR ''+''"
  using show_nat_digits [of "hd (show_nat n)" n] by (auto simp: digit_of_def)

lemma parse_show_int:
  assumes "- (2 ^ 63) \<le> i" "i < 2 ^ 63"
  shows "parse_int64 (show_int i) = Some i"
  using assms by (auto simp: parse_int64_def show_int_def show_nat_value hd_show_nat Let_def)

end
