(* ===== verification/Utils.thy ===== *)
theory Utils
  imports Prelude
begin

text \<open>
  The helpers of \<open>internal/utils/utils.go\<close>: obfuscation of SDK keys, the set operations the
  registrar computes its work lists with, deduplication of header lists, little-endian
  serialisation of the discriminator, ETag generation and the two-step base64 decoding of
  stream data. \<open>encoding/base64\<close>, \<open>encoding/hex\<close> and \<open>utf8.RuneCountInString\<close> are
  Go's standard library and are modelled as the code uses them; xxhash is third-party code
  and is the parameter \<open>xxhash\<close>, a function from bytes to the eight bytes of the digest.
\<close>

section \<open>Definitions\<close>

subsection \<open>Runes\<close>

definition byte_in :: "nat \<Rightarrow> nat \<Rightarrow> char \<Rightarrow> bool" where
  "byte_in lo hi c \<longleftrightarrow> lo \<le> of_char c \<and> of_char c \<le> hi"

definition cont_byte :: "char \<Rightarrow> bool" where
  "cont_byte c \<longleftrightarrow> byte_in 0x80 0xBF c"

text \<open>
  The number of bytes \<open>unicode/utf8\<close> takes for the first rune: the length of a well-formed
  sequence, one byte for an invalid one.
\<close>

fun rune_len :: "string \<Rightarrow> nat" where
  "rune_len (a # b # c # d # s) =
     (if byte_in 0xC2 0xDF a \<and> cont_byte b then 2
      else if (byte_in 0xE0 0xE0 a \<and> byte_in 0xA0 0xBF b \<or> byte_in 0xED 0xED a \<and> byte_in 0x80 0x9F b
               \<or> (byte_in 0xE1 0xEC a \<or> byte_in 0xEE 0xEF a) \<and> cont_byte b) \<and> cont_byte c then 3
      else if (byte_in 0xF0 0xF0 a \<and> byte_in 0x90 0xBF b \<or> byte_in 0xF4 0xF4 a \<and> byte_in 0x80 0x8F b
               \<or> byte_in 0xF1 0xF3 a \<and> cont_byte b) \<and> cont_byte c \<and> cont_byte d then 4
      else 1)"
| "rune_len [a, b, c] =
     (if byte_in 0xC2 0xDF a \<and> cont_byte b then 2
      else if (byte_in 0xE0 0xE0 a \<and> byte_in 0xA0 0xBF b \<or> byte_in 0xED 0xED a \<and> byte_in 0x80 0x9F b
               \<or> (byte_in 0xE1 0xEC a \<or> byte_in 0xEE 0xEF a) \<and> cont_byte b) \<and> cont_byte c then 3
      else 1)"
| "rune_len [a, b] = (if byte_in 0xC2 0xDF a \<and> cont_byte b then 2 else 1)"
| "rune_len s = 1"

lemma rune_len_pos: "0 < rune_len s"
  by (induction s rule: rune_len.induct) auto

function rune_count :: "string \<Rightarrow> nat" where
  "rune_count s = (if s = [] then 0 else Suc (rune_count (drop (rune_len s) s)))"
  by pat_completeness auto
termination
  by (relation "measure length") (auto simp: rune_len_pos)

declare rune_count.simps [simp del]

subsection \<open>Obfuscation\<close>

definition Obfuscate :: "string \<Rightarrow> nat \<Rightarrow> string" where
  "Obfuscate str clearLen =
     (let l = length str
      in if l < clearLen then replicate (rune_count str) CHR ''*''
         else (let toObfuscate = take (l - clearLen) str
               in replicate (rune_count toObfuscate) CHR ''*'' @ drop (l - clearLen) str))"

subsection \<open>List and map helpers\<close>

text \<open>\<open>KeysOfMap\<close> and \<open>KeysOfSyncMap\<close> append the keys in iteration order \<open>ks\<close>.\<close>

fun KeysOfMap :: "('k \<rightharpoonup> 'v) \<Rightarrow> 'k list \<Rightarrow> 'k list" where
  "KeysOfMap m [] = []"
| "KeysOfMap m (k # ks) = (case m k of None \<Rightarrow> KeysOfMap m ks | Some _ \<Rightarrow> k # KeysOfMap m ks)"

fun Except_found :: "'k \<Rightarrow> 'k list \<Rightarrow> bool" where
  "Except_found va [] = False"
| "Except_found va (vb # b) = (if va = vb then True else Except_found va b)"

fun Except :: "'k list \<Rightarrow> 'k list \<Rightarrow> 'k list" where
  "Except [] b = []"
| "Except (va # a) b = (if \<not> Except_found va b then va # Except a b else Except a b)"

fun dedup_loop :: "string list \<Rightarrow> (string \<rightharpoonup> bool) \<Rightarrow> string list" where
  "dedup_loop [] keys = []"
| "dedup_loop (item # items) keys =
     (case keys item of None \<Rightarrow> item # dedup_loop items (keys(item \<mapsto> True))
                      | Some _ \<Rightarrow> dedup_loop items keys)"

definition DedupStringSlice :: "string list \<Rightarrow> string list" where
  "DedupStringSlice strings = dedup_loop strings Map.empty"

subsection \<open>Bytes and ETags\<close>

definition byte_of_word :: "64 word \<Rightarrow> char" where
  "byte_of_word w = char_of (unat w mod 256)"

definition Uint64ToBytes :: "64 word \<Rightarrow> bytes" where
  "Uint64ToBytes val =
     [byte_of_word (drop_bit 0 val), byte_of_word (drop_bit 8 val),
      byte_of_word (drop_bit 16 val), byte_of_word (drop_bit 24 val),
      byte_of_word (drop_bit 32 val), byte_of_word (drop_bit 40 val),
      byte_of_word (drop_bit 48 val), byte_of_word (drop_bit 56 val)]"

definition hex_digit :: "nat \<Rightarrow> char" where
  "hex_digit d = (if d < 10 then char_of (48 + d) else char_of (87 + d))"

fun hex_encode :: "bytes \<Rightarrow> string" where
  "hex_encode [] = []"
| "hex_encode (c # cs) =
     hex_digit (of_char c div 16) # hex_digit (of_char c mod 16) # hex_encode cs"

definition FastHashHex :: "(bytes \<Rightarrow> bytes) \<Rightarrow> bytes \<Rightarrow> string" where
  "FastHashHex xxhash b = hex_encode (xxhash b)"

definition GenerateEtag :: "(bytes \<Rightarrow> bytes) \<Rightarrow> bytes \<Rightarrow> string" where
  "GenerateEtag xxhash b = ''W/'' @ [CHR 0x22] @ FastHashHex xxhash b @ [CHR 0x22]"

subsection \<open>URL-safe base64\<close>

definition b64_value :: "char \<Rightarrow> nat option" where
  "b64_value c =
     (let n = (of_char c :: nat)
      in if 65 \<le> n \<and> n \<le> 90 then Some (n - 65)
         else if 97 \<le> n \<and> n \<le> 122 then Some (n - 71)
         else if 48 \<le> n \<and> n \<le> 57 then Some (n + 4)
         else if n = 45 then Some 62
         else if n = 95 then Some 63
         else None)"

definition b64_quad :: "char \<Rightarrow> char \<Rightarrow> char \<Rightarrow> char \<Rightarrow> bytes option" where
  "b64_quad a b c d =
     (case (b64_value a, b64_value b, b64_value c, b64_value d) of
        (Some w, Some x, Some y, Some z) \<Rightarrow>
          Some [char_of (4 * w + x div 16), char_of (16 * (x mod 16) + y div 4),
                char_of (64 * (y mod 4) + z)]
      | _ \<Rightarrow> None)"

definition b64_triple :: "char \<Rightarrow> char \<Rightarrow> char \<Rightarrow> bytes option" where
  "b64_triple a b c =
     (case (b64_value a, b64_value b, b64_value c) of
        (Some w, Some x, Some y) \<Rightarrow>
          Some [char_of (4 * w + x div 16), char_of (16 * (x mod 16) + y div 4)]
      | _ \<Rightarrow> None)"

definition b64_pair :: "char \<Rightarrow> char \<Rightarrow> bytes option" where
  "b64_pair a b =
     (case (b64_value a, b64_value b) of
        (Some w, Some x) \<Rightarrow> Some [char_of (4 * w + x div 16)]
      | _ \<Rightarrow> None)"

text \<open>
  \<open>base64.URLEncoding\<close> (padded) and \<open>base64.RawURLEncoding\<close>. Line breaks in the input are
  skipped; trailing bits of the last quantum are not checked (the encodings are not strict).
\<close>

fun decode_padded :: "string \<Rightarrow> bytes option" where
  "decode_padded [] = Some []"
| "decode_padded (a # b # c # d # s) =
     (if d = CHR ''='' then
        (if s \<noteq> [] then None
         else if c = CHR ''='' then b64_pair a b else b64_triple a b c)
      else (case b64_quad a b c d of
              None \<Rightarrow> None
            | Some q \<Rightarrow> map_option (\<lambda>r. q @ r) (decode_padded s)))"
| "decode_padded s = None"

fun decode_raw :: "string \<Rightarrow> bytes option" where
  "decode_raw [] = Some []"
| "decode_raw [a] = None"
| "decode_raw [a, b] = b64_pair a b"
| "decode_raw [a, b, c] = b64_triple a b c"
| "decode_raw (a # b # c # d # s) =
     (case b64_quad a b c d of
        None \<Rightarrow> None
      | Some q \<Rightarrow> map_option (\<lambda>r. q @ r) (decode_raw s))"

definition skip_line_breaks :: "string \<Rightarrow> string" where
  "skip_line_breaks s = filter (\<lambda>c. c \<noteq> CHR 0x0A \<and> c \<noteq> CHR 0x0D) s"

definition Base64URLDecode :: "string \<Rightarrow> bytes res" where
  "Base64URLDecode encoded =
     (case decode_padded (skip_line_breaks encoded) of
        Some decoded \<Rightarrow> Inr decoded
      | None \<Rightarrow>
          (case decode_raw (skip_line_breaks encoded) of
             Some decoded \<Rightarrow> Inr decoded
           | None \<Rightarrow> Inl ''illegal base64 data''))"

text \<open>Reference encoders, for the round trip only.\<close>

definition b64_char :: "nat \<Rightarrow> char" where
  "b64_char v = (if v < 26 then char_of (v + 65) else if v < 52 then char_of (v + 71)
                 else if v < 62 then char_of (v - 4) else if v = 62 then CHR ''-'' else CHR ''_'')"

fun encode_b64 :: "string \<Rightarrow> bytes \<Rightarrow> string" where
  "encode_b64 pad [] = []"
| "encode_b64 pad [a] =
     [b64_char (of_char a div 4), b64_char (16 * (of_char a mod 4))] @ pad @ pad"
| "encode_b64 pad [a, b] =
     [b64_char (of_char a div 4), b64_char (16 * (of_char a mod 4) + of_char b div 16),
      b64_char (4 * (of_char b mod 16))] @ pad"
| "encode_b64 pad (a # b # c # s) =
     [b64_char (of_char a div 4), b64_char (16 * (of_char a mod 4) + of_char b div 16),
      b64_char (4 * (of_char b mod 16) + of_char c div 64), b64_char (of_char c mod 64)]
     @ encode_b64 pad s"

section \<open>Lemmas\<close>

subsection \<open>Obfuscation\<close>

lemma rune_count_le: "rune_count s \<le> length s"
proof (induction s rule: rune_count.induct)
  case (1 s)
  show ?case
  proof (cases "s = []")
    case False
    then have "rune_count (drop (rune_len s) s) \<le> length s - rune_len s" using 1 by simp
    moreover have "0 < rune_len s" by (rule rune_len_pos)
    ultimately show ?thesis using False by (subst rune_count.simps) (cases s; simp)
  qed (subst rune_count.simps, simp)
qed

lemma rune_len_ascii: "of_char a < (0x80 :: nat) \<Longrightarrow> rune_len (a # s) = 1"
  by (cases "(a # s)" rule: rune_len.cases) (auto simp: byte_in_def)

lemma rune_count_ascii: "(\<And>c. c \<in> set s \<Longrightarrow> of_char c < (0x80 :: nat)) \<Longrightarrow> rune_count s = length s"
  by (induction s) (simp_all add: rune_count.simps rune_len_ascii)

subsection \<open>Work lists\<close>

lemma KeysOfMap_eq: "enumerates ks m \<Longrightarrow> KeysOfMap m ks = ks"
proof -
  have "set ks \<subseteq> dom m \<Longrightarrow> KeysOfMap m ks = ks" for m :: "'a \<rightharpoonup> 'b"
    by (induction ks) (auto split: option.splits)
  then show "enumerates ks m \<Longrightarrow> KeysOfMap m ks = ks" by (simp add: enumerates_def)
qed

lemma Except_found_iff [simp]: "Except_found va b \<longleftrightarrow> va \<in> set b"
  by (induction b) auto

lemma Except_filter: "Except a b = filter (\<lambda>x. x \<notin> set b) a"
  by (induction a) auto

lemma set_Except [simp]: "set (Except a b) = set a - set b"
  by (auto simp: Except_filter)

lemma distinct_Except [simp]: "distinct a \<Longrightarrow> distinct (Except a b)"
  by (simp add: Except_filter)

lemma set_dedup_loop: "set (dedup_loop xs keys) = set xs - dom keys"
  by (induction xs arbitrary: keys) (auto split: option.splits)

lemma distinct_dedup_loop: "distinct (dedup_loop xs keys)"
  by (induction xs arbitrary: keys) (auto simp: set_dedup_loop split: option.splits)

lemma set_Dedup [simp]: "set (DedupStringSlice xs) = set xs"
  by (simp add: DedupStringSlice_def set_dedup_loop)

lemma distinct_Dedup [simp]: "distinct (DedupStringSlice xs)"
  by (simp add: DedupStringSlice_def distinct_dedup_loop)

text \<open>The loop keeps the first occurrence of each string: the reverse of \<open>remdups\<close> on the reverse.\<close>

lemma remdups_snoc: "remdups (zs @ [x]) = remdups (filter (\<lambda>y. y \<noteq> x) zs) @ [x]"
  by (induction zs) auto

lemma dedup_loop_remdups:
  "dedup_loop xs keys = rev (remdups (rev (filter (\<lambda>x. x \<notin> dom keys) xs)))"
proof (induction xs arbitrary: keys)
  case (Cons x xs)
  show ?case
  proof (cases "keys x")
    case None
    have "filter (\<lambda>y. y \<noteq> x) (filter (\<lambda>y. y \<notin> dom keys) xs) =
        filter (\<lambda>y. y \<notin> dom (keys(x \<mapsto> True))) xs"
      by (simp add: conj_commute cong: filter_cong)
    with Cons [of "keys(x \<mapsto> True)"]
    have "dedup_loop xs (keys(x \<mapsto> True)) =
        rev (remdups (rev (filter (\<lambda>y. y \<noteq> x) (filter (\<lambda>y. y \<notin> dom keys) xs))))"
      by (simp only:)
    with None show ?thesis by (simp add: domIff remdups_snoc rev_filter)
  next
    case (Some b)
    then show ?thesis using Cons by (simp add: domIff)
  qed
qed simp

lemma Dedup_remdups: "DedupStringSlice xs = rev (remdups (rev xs))"
  by (simp add: DedupStringSlice_def dedup_loop_remdups)

subsection \<open>Little-endian bytes\<close>

fun bytes_value :: "bytes \<Rightarrow> nat" where
  "bytes_value [] = 0"
| "bytes_value (c # cs) = of_char c + 256 * bytes_value cs"

lemma of_byte_of_word: "of_char (byte_of_word (drop_bit n w)) = unat w div 2 ^ n mod 256"
  by (simp add: byte_of_word_def unat_drop_bit_eq flip: drop_bit_eq_div)

lemma le_digits:
  fixes n :: nat
  assumes "n < 256 ^ 8"
  shows "n mod 256 + 256 * (n div 256 mod 256 + 256 * (n div 256 ^ 2 mod 256 + 256 *
    (n div 256 ^ 3 mod 256 + 256 * (n div 256 ^ 4 mod 256 + 256 * (n div 256 ^ 5 mod 256 + 256 *
    (n div 256 ^ 6 mod 256 + 256 * (n div 256 ^ 7 mod 256))))))) = n"
proof -
  have step: "n div 256 ^ Suc i = n div 256 ^ i div 256" for i
    by (metis div_mult2_eq power_Suc2)
  have split: "n div 256 ^ i mod 256 + 256 * (n div 256 ^ Suc i) = n div 256 ^ i" for i
    unfolding step by (rule mod_mult_div_eq)
  have "n div 256 ^ 7 mod 256 = n div 256 ^ 7" using assms split [of 7] by simp
  moreover have "n mod 256 + 256 * (n div 256) = n" by simp
  moreover have "n div 256 mod 256 + 256 * (n div 256 ^ 2) = n div 256" using split [of 1] by simp
  moreover note split [of 2] split [of 3] split [of 4] split [of 5] split [of 6]
  ultimately show ?thesis unfolding Suc_numeral add_num_simps by (simp only:)
qed

lemma Uint64ToBytes_value: "bytes_value (Uint64ToBytes w) = unat w"
proof -
  have "unat w < 256 ^ 8" using unsigned_less [of w] by simp
  then show ?thesis
    using le_digits [of "unat w"] unfolding Uint64ToBytes_def bytes_value.simps of_byte_of_word
    by simp
qed

lemma Uint64ToBytes_inj: "Uint64ToBytes v = Uint64ToBytes w \<Longrightarrow> v = w"
  by (metis Uint64ToBytes_value word_unat_eq_iff)

lemma length_Uint64ToBytes [simp]: "length (Uint64ToBytes w) = 8"
  by (simp add: Uint64ToBytes_def)

subsection \<open>ETags\<close>

lemma length_hex_encode [simp]: "length (hex_encode b) = 2 * length b"
  by (induction b) auto

lemma hex_digit_inj: "a < 16 \<Longrightarrow> b < 16 \<Longrightarrow> hex_digit a = hex_digit b \<Longrightarrow> a = b"
proof -
  assume "a < 16" "b < 16" "hex_digit a = hex_digit b"
  then have "(of_char (hex_digit a) :: nat) = of_char (hex_digit b)" by simp
  with \<open>a < 16\<close> \<open>b < 16\<close> show "a = b" by (auto simp: hex_digit_def split: if_splits)
qed

lemma of_char_less: "(of_char c :: nat) < 256"
  by (metis of_char_mod_256 mod_less_divisor zero_less_numeral)

lemma hex_encode_inj: "hex_encode a = hex_encode b \<Longrightarrow> a = b"
proof (induction a arbitrary: b)
  case Nil
  then show ?case by (cases b) auto
next
  case (Cons x xs)
  then obtain y ys where b: "b = y # ys" by (cases b) auto
  have "of_char x div 16 = (of_char y div 16 :: nat)" "of_char x mod 16 = (of_char y mod 16 :: nat)"
    using Cons.prems b of_char_less [of x] of_char_less [of y]
    by (auto intro!: hex_digit_inj simp: less_mult_imp_div_less)
  then have "(of_char x :: nat) = of_char y" by (metis div_mult_mod_eq)
  then show ?case using Cons b by simp
qed

lemma GenerateEtag_eq_iff: "GenerateEtag h a = GenerateEtag h b \<longleftrightarrow> h a = h b"
  by (auto simp: GenerateEtag_def FastHashHex_def dest: hex_encode_inj)

subsection \<open>Base64\<close>

lemma b64_value_char: "v < 64 \<Longrightarrow> b64_value (b64_char v) = Some v"
proof -
  assume v: "v < 64"
  consider "v < 26" | "26 \<le> v" "v < 52" | "52 \<le> v" "v < 62" | "v = 62" | "v = 63" using v by linarith
  then show ?thesis
  proof cases
    case 1
    then show ?thesis by (simp add: b64_value_def b64_char_def Let_def)
  next
    case 2
    then show ?thesis by (simp add: b64_value_def b64_char_def Let_def)
  next
    case 3
    then have "(v - 4) mod 256 = v - 4" by simp
    then show ?thesis using 3 by (simp add: b64_value_def b64_char_def Let_def) arith?
  qed (simp_all add: b64_value_def b64_char_def Let_def)
qed

lemma b64_value_None: "b64_value CHR ''='' = None" "b64_value CHR 0x0A = None" "b64_value CHR 0x0D = None"
  by (simp_all add: b64_value_def)

lemma b64_char_neq: "v < 64 \<Longrightarrow> b64_char v \<noteq> CHR ''='' \<and> b64_char v \<noteq> CHR 0x0A \<and> b64_char v \<noteq> CHR 0x0D"
  using b64_value_char [of v] b64_value_None by auto

lemma byte_parts:
  fixes x :: char
  shows "(of_char x :: nat) div 4 < 64" "16 * ((of_char x :: nat) mod 4) < 64" "(of_char x :: nat) div 16 < 16"
    "(of_char x :: nat) div 64 < 4" "4 * ((of_char x :: nat) mod 16) < 64" "(of_char x :: nat) mod 64 < 64"
    "16 * ((of_char y :: nat) mod 4) + (of_char x :: nat) div 16 < 64"
    "4 * ((of_char y :: nat) mod 16) + (of_char x :: nat) div 64 < 64"
proof -
  have x: "(of_char x :: nat) < 64 * 4" "(of_char x :: nat) < 16 * 16" "(of_char x :: nat) < 4 * 64"
    using of_char_less [of x] by simp_all
  show d: "(of_char x :: nat) div 4 < 64" "(of_char x :: nat) div 16 < 16" "(of_char x :: nat) div 64 < 4"
    by (rule less_mult_imp_div_less, rule x)+
  have m: "(of_char z :: nat) mod 4 < 4" "(of_char z :: nat) mod 16 < 16" "(of_char z :: nat) mod 64 < 64" for z :: char
    by simp_all
  show "16 * ((of_char x :: nat) mod 4) < 64" "4 * ((of_char x :: nat) mod 16) < 64" "(of_char x :: nat) mod 64 < 64"
    using m [of x] by linarith+
  show "16 * ((of_char y :: nat) mod 4) + (of_char x :: nat) div 16 < 64"
    "4 * ((of_char y :: nat) mod 16) + (of_char x :: nat) div 64 < 64"
    using m [of y] d by linarith+
qed

lemma byte_shifts:
  fixes x :: char
  shows "(of_char x :: nat) div 16 div 16 = 0" "(of_char x :: nat) div 16 mod 16 = of_char x div 16"
    "(of_char x :: nat) div 64 div 4 = 0" "(of_char x :: nat) div 64 mod 4 = of_char x div 64"
  using byte_parts(3,4) [of x] by simp_all

lemmas byte_quanta = byte_parts byte_shifts

lemma b64_groups:
  "b64_quad (b64_char (of_char a div 4)) (b64_char (16 * (of_char a mod 4) + of_char b div 16))
     (b64_char (4 * (of_char b mod 16) + of_char c div 64)) (b64_char (of_char c mod 64)) = Some [a, b, c]"
  "b64_triple (b64_char (of_char a div 4)) (b64_char (16 * (of_char a mod 4) + of_char b div 16))
     (b64_char (4 * (of_char b mod 16))) = Some [a, b]"
  "b64_pair (b64_char (of_char a div 4)) (b64_char (16 * (of_char a mod 4))) = Some [a]"
  by (simp_all add: b64_quad_def b64_triple_def b64_pair_def b64_value_char byte_quanta)

lemma decode_padded_encode: "decode_padded (encode_b64 ''='' b) = Some b"
  by (induction "''=''" b rule: encode_b64.induct) (simp_all add: b64_groups b64_char_neq byte_quanta)

lemma decode_raw_encode: "decode_raw (encode_b64 [] b) = Some b"
  by (induction "[] :: string" b rule: encode_b64.induct) (simp_all add: b64_groups)

text \<open>The raw encoding is either read as the padded one or rejected by it.\<close>

lemma decode_padded_raw: "decode_padded (encode_b64 [] b) \<in> {None, Some b}"
  by (induction "[] :: string" b rule: encode_b64.induct) (auto simp: b64_groups b64_char_neq byte_quanta)

lemma skip_encode: "skip_line_breaks (encode_b64 pad b) = encode_b64 (skip_line_breaks pad) b"
  by (induction pad b rule: encode_b64.induct) (auto simp: skip_line_breaks_def b64_char_neq byte_quanta)

lemma Base64URLDecode_roundtrip:
  "Base64URLDecode (encode_b64 ''='' b) = Inr b" "Base64URLDecode (encode_b64 [] b) = Inr b"
proof -
  show "Base64URLDecode (encode_b64 ''='' b) = Inr b"
    unfolding Base64URLDecode_def skip_encode by (simp add: skip_line_breaks_def decode_padded_encode)
  show "Base64URLDecode (encode_b64 [] b) = Inr b"
    unfolding Base64URLDecode_def skip_encode
    using decode_padded_raw [of b] by (auto simp: skip_line_breaks_def decode_raw_encode split: option.splits)
qed


end
