(* ===== verification/UserAttrs.thy ===== *)
theory UserAttrs
  imports Utils
begin

text \<open>
  \<open>model/user_attrs.go\<close>, \<open>model/eval.go\<close> and \<open>model/auto_config.go\<close>: user attributes and
  their decoding, merging and hashing, evaluation results and requests, and the proxy
  profile. A Go \<open>interface{}\<close> is the datatype \<open>go_val\<close> of the dynamic types that occur: the
  JSON and YAML decoders produce the first six and maps, \<open>unmarshalFrom\<close> produces string
  slices, the gRPC service produces string slices and times. A \<open>float64\<close> is its IEEE bit
  pattern. \<open>hash/maphash\<close> with a fixed seed is the parameter \<open>hash\<close>, a function of the bytes
  written since the last reset; \<open>strconv.AppendFloat\<close> is the parameter \<open>fmtf\<close>.
\<close>

section \<open>Definitions\<close>

datatype go_val =
    VNil
  | VBool bool
  | VInt int
  | VFloat "64 word"
  | VString string
  | VList "go_val list"
  | VMap "(string \<times> go_val) list"
  | VStrList "string list"
  | VTime int

text \<open>A Go map value is nil (\<open>None\<close>) or a map.\<close>

type_synonym attrs = "string \<rightharpoonup> go_val"
type_synonym user_attrs = "attrs option"

fun as_string :: "go_val \<Rightarrow> string option" where
  "as_string (VString s) = Some s"
| "as_string _ = None"

text \<open>The string elements of a decoded array; others are dropped.\<close>

definition string_elems :: "go_val list \<Rightarrow> string list" where
  "string_elems vs = List.map_filter as_string vs"

definition invalid_type_error :: "string \<Rightarrow> string" where
  "invalid_type_error k = quoted k @ '' has an invalid type, only '' @ quoted ''string'' @ '', ''
     @ quoted ''number'' @ '', and '' @ quoted ''string[]'' @ '' types are allowed''"

text \<open>The loop of \<open>unmarshalFrom\<close>, over the decoded map in iteration order.\<close>

fun unmarshalFrom :: "attrs \<Rightarrow> (string \<times> go_val) list \<Rightarrow> attrs res" where
  "unmarshalFrom attrs [] = Inr attrs"
| "unmarshalFrom attrs ((k, v) # data) =
     (case v of
        VList val \<Rightarrow> unmarshalFrom (attrs(k \<mapsto> VStrList (string_elems val))) data
      | VString _ \<Rightarrow> unmarshalFrom (attrs(k \<mapsto> v)) data
      | VFloat _ \<Rightarrow> unmarshalFrom (attrs(k \<mapsto> v)) data
      | VInt _ \<Rightarrow> unmarshalFrom (attrs(k \<mapsto> v)) data
      | _ \<Rightarrow> Inl (invalid_type_error k))"

text \<open>
  \<open>UnmarshalJSON\<close> and \<open>UnmarshalYAML\<close>: decode into a generic map, whose entries \<open>decode\<close>
  returns in iteration order, then convert it into fresh attributes.
\<close>

definition UnmarshalJSON :: "(bytes \<Rightarrow> (string \<times> go_val) list res) \<Rightarrow> bytes \<Rightarrow> user_attrs res" where
  "UnmarshalJSON decode data =
     (case decode data of
        Inl err \<Rightarrow> Inl err
      | Inr res \<Rightarrow> (case unmarshalFrom Map.empty res of Inl err \<Rightarrow> Inl err | Inr m \<Rightarrow> Inr (Some m)))"

definition UnmarshalYAML :: "((string \<times> go_val) list res) \<Rightarrow> user_attrs res" where
  "UnmarshalYAML unmarshalled =
     (case unmarshalled of
        Inl err \<Rightarrow> Inl err
      | Inr res \<Rightarrow> (case unmarshalFrom Map.empty res of Inl err \<Rightarrow> Inl err | Inr m \<Rightarrow> Inr (Some m)))"

text \<open>The bytes the type switch of \<open>Discriminator\<close> writes into the hash for a value.\<close>

fun value_bytes :: "(64 word \<Rightarrow> string) \<Rightarrow> go_val \<Rightarrow> bytes" where
  "value_bytes fmtf (VString val) = val"
| "value_bytes fmtf (VInt val) = show_int val"
| "value_bytes fmtf (VFloat val) = fmtf val"
| "value_bytes fmtf (VList val) = concat (string_elems val)"
| "value_bytes fmtf _ = []"

definition entry_hash :: "(bytes \<Rightarrow> 64 word) \<Rightarrow> (64 word \<Rightarrow> string) \<Rightarrow> string \<Rightarrow> go_val \<Rightarrow> 64 word" where
  "entry_hash hash fmtf k v =
     (let hk = hash k
      in hash (value_bytes fmtf v) + 0x9e3779b97f4a7c15 + push_bit 12 hk + drop_bit 4 hk)"

fun disc_loop ::
  "(bytes \<Rightarrow> 64 word) \<Rightarrow> (64 word \<Rightarrow> string) \<Rightarrow> attrs \<Rightarrow> string list \<Rightarrow> 64 word \<Rightarrow> 64 word" where
  "disc_loop hash fmtf m [] cur = cur"
| "disc_loop hash fmtf m (k # ks) cur =
     disc_loop hash fmtf m ks
       (case m k of None \<Rightarrow> cur | Some v \<Rightarrow> cur XOR entry_hash hash fmtf k v)"

definition Discriminator ::
  "(bytes \<Rightarrow> 64 word) \<Rightarrow> (64 word \<Rightarrow> string) \<Rightarrow> string list \<Rightarrow> user_attrs \<Rightarrow> 64 word" where
  "Discriminator hash fmtf ks attrs =
     (case attrs of None \<Rightarrow> 0 | Some m \<Rightarrow> disc_loop hash fmtf m ks 0)"

definition GetAttribute :: "user_attrs \<Rightarrow> string \<Rightarrow> go_val" where
  "GetAttribute attrs attr =
     (case attrs of None \<Rightarrow> VNil | Some m \<Rightarrow> (case m attr of None \<Rightarrow> VNil | Some v \<Rightarrow> v))"

definition MergeUserAttrs :: "user_attrs \<Rightarrow> user_attrs \<Rightarrow> user_attrs" where
  "MergeUserAttrs first second =
     (case (first, second) of
        (None, None) \<Rightarrow> None
      | (None, Some _) \<Rightarrow> second
      | (Some _, None) \<Rightarrow> first
      | (Some f, Some s) \<Rightarrow> Some (f ++ s))"

subsection \<open>Evaluation data and requests\<close>

text \<open>
  The error of an evaluation: the SDK's \<open>ErrKeyNotFound\<close>, which the handlers single out
  with \<open>errors.As\<close>, or any other error; both carry their text.
\<close>

datatype eval_error = ErrKeyNotFound string | ErrOther string

fun error_text :: "eval_error \<Rightarrow> string" where
  "error_text (ErrKeyNotFound t) = t"
| "error_text (ErrOther t) = t"

record eval_data =
  ed_Value :: go_val
  ed_VariationId :: string
  ed_Error :: "eval_error option"
  ed_User :: user_attrs
  ed_IsTargeting :: bool

record response_payload =
  rp_Value :: go_val
  rp_VariationId :: string

record eval_request =
  er_SdkKey :: string
  er_Key :: string
  er_User :: user_attrs

definition PayloadFromEvalData :: "eval_data \<Rightarrow> response_payload" where
  "PayloadFromEvalData evalData =
     \<lparr>rp_Value = ed_Value evalData, rp_VariationId = ed_VariationId evalData\<rparr>"

subsection \<open>The proxy profile\<close>

record options_model =
  om_PollInterval :: int
  om_DataGovernance :: string

record sdk_model =
  Key1 :: string
  Key2 :: string

record proxy_config_model =
  pm_SDKs :: "string \<rightharpoonup> sdk_model"
  pm_Options :: options_model

section \<open>Lemmas\<close>

subsection \<open>Decoding\<close>

text \<open>The value types an evaluation can see.\<close>

fun decoded_val :: "go_val \<Rightarrow> bool" where
  "decoded_val (VString _) = True"
| "decoded_val (VFloat _) = True"
| "decoded_val (VInt _) = True"
| "decoded_val (VStrList _) = True"
| "decoded_val _ = False"

fun accepted_val :: "go_val \<Rightarrow> bool" where
  "accepted_val (VString _) = True"
| "accepted_val (VFloat _) = True"
| "accepted_val (VInt _) = True"
| "accepted_val (VList _) = True"
| "accepted_val _ = False"

fun normalise_val :: "go_val \<Rightarrow> go_val" where
  "normalise_val (VList vs) = VStrList (string_elems vs)"
| "normalise_val v = v"

lemma normalise_decoded: "accepted_val v \<Longrightarrow> decoded_val (normalise_val v)"
  by (cases v) auto

lemma unmarshalFrom_step:
  "unmarshalFrom m ((k, v) # data) =
     (if accepted_val v then unmarshalFrom (m(k \<mapsto> normalise_val v)) data
      else Inl (invalid_type_error k))"
  by (cases v) auto

lemma unmarshalFrom_ok:
  "(\<And>k v. (k, v) \<in> set data \<Longrightarrow> accepted_val v) \<Longrightarrow> distinct (map fst data) \<Longrightarrow>
   unmarshalFrom m data = Inr (m ++ map_of (map (\<lambda>(k, v). (k, normalise_val v)) data))"
proof (induction data arbitrary: m)
  case (Cons kv data)
  obtain k v where kv: "kv = (k, v)" by (cases kv) auto
  have "k \<notin> dom (map_of (map (\<lambda>(k, v). (k, normalise_val v)) data))"
    using Cons.prems(2) kv by (auto simp: dom_map_of_conv_image_fst image_iff split: prod.splits)
  moreover have "accepted_val v" using Cons.prems(1) kv by auto
  moreover have "unmarshalFrom (m(k \<mapsto> normalise_val v)) data =
      Inr (m(k \<mapsto> normalise_val v) ++ map_of (map (\<lambda>(k, v). (k, normalise_val v)) data))"
    using Cons by auto
  ultimately show ?case using kv
    by (auto simp: unmarshalFrom_step map_add_def fun_eq_iff domIff split: option.splits
        simp del: unmarshalFrom.simps)
qed simp

lemma unmarshalFrom_Inl:
  "unmarshalFrom m data = Inl e \<Longrightarrow>
     \<exists>k v. (k, v) \<in> set data \<and> \<not> accepted_val v \<and> e = invalid_type_error k"
proof (induction data arbitrary: m)
  case (Cons kv data)
  obtain k v where kv: "kv = (k, v)" by (cases kv) auto
  show ?case
  proof (cases "accepted_val v")
    case True
    then have "unmarshalFrom (m(k \<mapsto> normalise_val v)) data = Inl e"
      using Cons.prems kv by (simp add: unmarshalFrom_step del: unmarshalFrom.simps)
    from Cons.IH [OF this] show ?thesis by auto
  next
    case False
    then show ?thesis using Cons.prems kv
      by (auto simp: unmarshalFrom_step simp del: unmarshalFrom.simps)
  qed
qed simp

lemma unmarshalFrom_reject:
  "(k, v) \<in> set data \<Longrightarrow> \<not> accepted_val v \<Longrightarrow> \<exists>e. unmarshalFrom m data = Inl e"
proof (induction data arbitrary: m)
  case (Cons kv data)
  obtain k' v' where kv: "kv = (k', v')" by (cases kv) auto
  then show ?case using Cons
    by (cases "accepted_val v'") (auto simp: unmarshalFrom_step simp del: unmarshalFrom.simps)
qed simp

subsection \<open>Hashing\<close>

text \<open>What the entry of a key contributes; the loop is the XOR of the contributions.\<close>

definition contribution ::
  "(bytes \<Rightarrow> 64 word) \<Rightarrow> (64 word \<Rightarrow> string) \<Rightarrow> attrs \<Rightarrow> string \<Rightarrow> 64 word" where
  "contribution hash fmtf m k = (case m k of None \<Rightarrow> 0 | Some v \<Rightarrow> entry_hash hash fmtf k v)"

lemma disc_loop_fold:
  "disc_loop hash fmtf m ks cur = fold (\<lambda>k acc. contribution hash fmtf m k XOR acc) ks cur"
  by (induction ks arbitrary: cur)
     (simp_all add: contribution_def xor.commute split: option.splits)

lemma disc_loop_perm:
  assumes "mset ks = mset ks'"
  shows "disc_loop hash fmtf m ks c = disc_loop hash fmtf m ks' c"
proof -
  have "fold (\<lambda>k acc. contribution hash fmtf m k XOR acc) ks =
      fold (\<lambda>k acc. contribution hash fmtf m k XOR acc) ks'"
    by (rule fold_multiset_equiv) (simp_all add: fun_eq_iff xor.left_commute assms)
  then show ?thesis by (simp add: disc_loop_fold)
qed

lemma contribution_cong:
  "map_option (value_bytes fmtf) (m k) = map_option (value_bytes fmtf) (m' k) \<Longrightarrow>
   contribution hash fmtf m k = contribution hash fmtf m' k"
  by (cases "m k"; cases "m' k") (simp_all add: contribution_def entry_hash_def)

lemma disc_loop_cong:
  assumes "\<And>k. k \<in> set ks \<Longrightarrow> map_option (value_bytes fmtf) (m k) = map_option (value_bytes fmtf) (m' k)"
  shows "disc_loop hash fmtf m ks c = disc_loop hash fmtf m' ks c"
  unfolding disc_loop_fold
  by (rule fold_cong) (use assms in \<open>auto intro!: ext contribution_cong arg_cong2 [where f = "(XOR)"]\<close>)

subsection \<open>Merging\<close>

lemma MergeUserAttrs_None [simp]:
  "MergeUserAttrs None b = b" "MergeUserAttrs a None = a"
  by (auto simp: MergeUserAttrs_def split: option.splits)

lemma MergeUserAttrs_assoc:
  "MergeUserAttrs (MergeUserAttrs a b) c = MergeUserAttrs a (MergeUserAttrs b c)"
  by (cases a; cases b; cases c) (auto simp: MergeUserAttrs_def)

lemma GetAttribute_merge:
  "GetAttribute (MergeUserAttrs a b) k =
     (if (\<exists>m. b = Some m \<and> k \<in> dom m) then GetAttribute b k else GetAttribute a k)"
  by (cases a; cases b) (auto simp: MergeUserAttrs_def GetAttribute_def map_add_def split: option.splits)

section \<open>Properties\<close>

text \<open>
  Decoding user attributes accepts exactly maps whose values are strings, numbers or lists;
  a list keeps its strings; otherwise the error names an offending key. The order in which Go
  ranges over the decoded map plays no role in what is accepted or in the result.
\<close>

lemma attributes_decoded:
  assumes "distinct (map fst data)"
  shows "(\<forall>kv \<in> set data. accepted_val (snd kv)) \<and>
      unmarshalFrom Map.empty data = Inr (map_of (map (\<lambda>(k, v). (k, normalise_val v)) data))
    \<or> (\<exists>k v. (k, v) \<in> set data \<and> \<not> accepted_val v \<and> unmarshalFrom Map.empty data = Inl (invalid_type_error k))"
proof (cases "\<forall>kv \<in> set data. accepted_val (snd kv)")
  case True
  then show ?thesis using unmarshalFrom_ok [of data Map.empty] assms by force
next
  case False
  then obtain k v where "(k, v) \<in> set data" "\<not> accepted_val v" by force
  then obtain e where "unmarshalFrom Map.empty data = Inl e" using unmarshalFrom_reject by blast
  with unmarshalFrom_Inl [OF this] show ?thesis by blast
qed

text \<open>
  The discriminator of a user does not depend on the order in which Go ranges over the
  attributes, although the loop folds them one after the other.
\<close>

lemma discriminator_order:
  assumes "enumerates ks m" and "enumerates ks' m"
  shows "Discriminator hash fmtf ks (Some m) = Discriminator hash fmtf ks' (Some m)"
  using disc_loop_perm [OF enumerates_perm [OF assms]] by (simp add: Discriminator_def)

end
