(* ===== verification/Config.thy ===== *)
theory Config
  imports UserAttrs
begin

text \<open>
  \<open>config/config.go\<close>: the configuration of the proxy as records with the source's fields,
  the defaults, the fix-ups applied after loading, and \<open>LoadConfigFromFileAndEnvironment\<close>,
  which composes them with the environment (theory \<open>Env\<close> supplies \<open>loadEnv\<close>).
  The SDKs are a map of pointers: \<open>Some None\<close> is a key bound to a nil pointer, as YAML
  gives for an SDK without a body. A TLS version is a \<open>float64\<close>, its IEEE bit pattern.
  Compiled regular expressions come from Go's \<open>regexp\<close> package, whose compiler and matcher
  are parameters; a compiled expression is represented by its pattern.
\<close>

section \<open>Definitions\<close>

subsection \<open>Log levels\<close>

datatype level = Debug | Info | Warn | Error | NoLevel

fun level_num :: "level \<Rightarrow> nat" where
  "level_num Debug = 0"
| "level_num Info = 1"
| "level_num Warn = 2"
| "level_num Error = 3"
| "level_num NoLevel = 4"

text \<open>\<open>log.Level\<close> is an \<open>int\<close> enumeration; the logger compares levels with \<open>>=\<close>.\<close>

instantiation level :: linorder
begin

definition less_eq_level :: "level \<Rightarrow> level \<Rightarrow> bool" where
  "less_eq_level a b \<longleftrightarrow> level_num a \<le> level_num b"

definition less_level :: "level \<Rightarrow> level \<Rightarrow> bool" where
  "less_level a b \<longleftrightarrow> level_num a < level_num b"

lemma level_num_eq: "level_num a = level_num b \<Longrightarrow> a = b"
  by (cases a; cases b) auto

instance
  by standard (auto simp: less_eq_level_def less_level_def dest: level_num_eq)

end

subsection \<open>Records\<close>

record log_config =
  Level :: string

record cert_config =
  cert_Key :: string
  cert_Cert :: string

record tls_config =
  tls_Enabled :: bool
  tls_MinVersion :: "64 word"
  tls_ServerName :: string
  tls_Certificates :: "cert_config list"

record local_config =
  FilePath :: string
  Polling :: bool
  local_PollInterval :: int

record offline_config =
  off_Enabled :: bool
  off_UseCache :: bool
  off_CachePollInterval :: int
  off_Log :: log_config
  off_Local :: local_config

record global_offline_config =
  go_Enabled :: bool
  go_CachePollInterval :: int
  go_Log :: log_config

record sdk_config =
  sdk_Key :: string
  sdk_BaseUrl :: string
  sdk_PollInterval :: int
  sdk_DataGovernance :: string
  sdk_WebhookSignatureValidFor :: int
  sdk_WebhookSigningKey :: string
  sdk_DefaultAttrs :: user_attrs
  sdk_Offline :: offline_config
  sdk_Log :: log_config

record profile_sdk_config =
  psdk_BaseUrl :: string
  psdk_Log :: log_config

record profile_config =
  prof_Key :: string
  prof_Secret :: string
  prof_BaseUrl :: string
  prof_PollInterval :: int
  prof_WebhookSignatureValidFor :: int
  prof_WebhookSigningKey :: string
  prof_Log :: log_config
  prof_SDKs :: profile_sdk_config

record keep_alive_config =
  MaxConnectionIdle :: int
  MaxConnectionAge :: int
  MaxConnectionAgeGrace :: int
  ka_Time :: int
  ka_Timeout :: int

record grpc_config =
  grpc_Enabled :: bool
  grpc_Port :: int
  ServerReflectionEnabled :: bool
  HealthCheckEnabled :: bool
  grpc_KeepAlive :: keep_alive_config
  grpc_Log :: log_config

record origin_regex_config =
  IfNoMatch :: string
  Patterns :: "string list"
  Regexes :: "string list"

record cors_config =
  cors_Enabled :: bool
  AllowedOrigins :: "string list"
  AllowedOriginsRegex :: origin_regex_config

record sse_config =
  sse_Enabled :: bool
  sse_Headers :: "string \<rightharpoonup> string"
  HeartBeatInterval :: int
  sse_Log :: log_config
  sse_CORS :: cors_config

record auth_config =
  auth_User :: string
  auth_Password :: string

record webhook_config =
  wh_AuthHeaders :: "string \<rightharpoonup> string"
  wh_Enabled :: bool
  wh_Auth :: auth_config

record cdn_proxy_config =
  cdn_Headers :: "string \<rightharpoonup> string"
  cdn_Enabled :: bool
  cdn_CORS :: cors_config

record api_config =
  api_AuthHeaders :: "string \<rightharpoonup> string"
  api_Headers :: "string \<rightharpoonup> string"
  api_Enabled :: bool
  api_CORS :: cors_config

record ofrep_config =
  ofrep_AuthHeaders :: "string \<rightharpoonup> string"
  ofrep_Headers :: "string \<rightharpoonup> string"
  ofrep_Enabled :: bool
  ofrep_CORS :: cors_config

record status_config =
  st_Enabled :: bool

record http_config =
  http_Enabled :: bool
  http_Port :: int
  http_CdnProxy :: cdn_proxy_config
  http_OFREP :: ofrep_config
  http_Webhook :: webhook_config
  http_Sse :: sse_config
  http_Api :: api_config
  http_Status :: status_config
  http_Log :: log_config

record http_proxy_config =
  hp_Url :: string

record redis_config =
  redis_Enabled :: bool
  Addresses :: "string list"
  redis_DB :: int
  redis_User :: string
  redis_Password :: string
  redis_Tls :: tls_config

record mongo_config =
  mongo_Enabled :: bool
  mongo_Url :: string
  mongo_Database :: string
  mongo_Collection :: string
  mongo_Tls :: tls_config

record dynamo_config =
  dynamo_Enabled :: bool
  dynamo_Url :: string
  dynamo_Table :: string

record cache_config =
  Redis :: redis_config
  MongoDb :: mongo_config
  DynamoDb :: dynamo_config

record otlp_config =
  otlp_Enabled :: bool
  otlp_Protocol :: string
  otlp_Endpoint :: string

record prometheus_config =
  prom_Enabled :: bool

record metrics_config =
  met_Enabled :: bool
  met_Prometheus :: prometheus_config
  met_Otlp :: otlp_config

record trace_config =
  tr_Enabled :: bool
  tr_Otlp :: otlp_config

record diag_config =
  diag_Port :: int
  diag_Enabled :: bool
  diag_Metrics :: metrics_config
  diag_Traces :: trace_config
  diag_Status :: status_config

record config =
  c_Log :: log_config
  c_SDKs :: "string \<rightharpoonup> sdk_config option"
  c_Grpc :: grpc_config
  c_Tls :: tls_config
  c_Diag :: diag_config
  c_Http :: http_config
  c_Cache :: cache_config
  c_HttpProxy :: http_proxy_config
  c_GlobalOfflineConfig :: global_offline_config
  c_DefaultAttrs :: user_attrs
  c_Profile :: profile_config

subsection \<open>Zero values and defaults\<close>

definition zero_log :: log_config where "zero_log = \<lparr>Level = []\<rparr>"

definition zero_tls :: tls_config where
  "zero_tls = \<lparr>tls_Enabled = False, tls_MinVersion = 0, tls_ServerName = [], tls_Certificates = []\<rparr>"

definition zero_local :: local_config where
  "zero_local = \<lparr>FilePath = [], Polling = False, local_PollInterval = 0\<rparr>"

definition zero_offline :: offline_config where
  "zero_offline = \<lparr>off_Enabled = False, off_UseCache = False, off_CachePollInterval = 0,
     off_Log = zero_log, off_Local = zero_local\<rparr>"

definition zero_sdk :: sdk_config where
  "zero_sdk = \<lparr>sdk_Key = [], sdk_BaseUrl = [], sdk_PollInterval = 0, sdk_DataGovernance = [],
     sdk_WebhookSignatureValidFor = 0, sdk_WebhookSigningKey = [], sdk_DefaultAttrs = None,
     sdk_Offline = zero_offline, sdk_Log = zero_log\<rparr>"

definition zero_cors :: cors_config where
  "zero_cors = \<lparr>cors_Enabled = False, AllowedOrigins = [],
     AllowedOriginsRegex = \<lparr>IfNoMatch = [], Patterns = [], Regexes = []\<rparr>\<rparr>"

definition zero_http :: http_config where
  "zero_http = \<lparr>http_Enabled = False, http_Port = 0,
     http_CdnProxy = \<lparr>cdn_Headers = Map.empty, cdn_Enabled = False, cdn_CORS = zero_cors\<rparr>,
     http_OFREP = \<lparr>ofrep_AuthHeaders = Map.empty, ofrep_Headers = Map.empty, ofrep_Enabled = False,
       ofrep_CORS = zero_cors\<rparr>,
     http_Webhook = \<lparr>wh_AuthHeaders = Map.empty, wh_Enabled = False,
       wh_Auth = \<lparr>auth_User = [], auth_Password = []\<rparr>\<rparr>,
     http_Sse = \<lparr>sse_Enabled = False, sse_Headers = Map.empty, HeartBeatInterval = 0,
       sse_Log = zero_log, sse_CORS = zero_cors\<rparr>,
     http_Api = \<lparr>api_AuthHeaders = Map.empty, api_Headers = Map.empty, api_Enabled = False,
       api_CORS = zero_cors\<rparr>,
     http_Status = \<lparr>st_Enabled = False\<rparr>, http_Log = zero_log\<rparr>"

definition zero_grpc :: grpc_config where
  "zero_grpc = \<lparr>grpc_Enabled = False, grpc_Port = 0, ServerReflectionEnabled = False,
     HealthCheckEnabled = False,
     grpc_KeepAlive = \<lparr>MaxConnectionIdle = 0, MaxConnectionAge = 0, MaxConnectionAgeGrace = 0,
       ka_Time = 0, ka_Timeout = 0\<rparr>,
     grpc_Log = zero_log\<rparr>"

definition zero_diag :: diag_config where
  "zero_diag = \<lparr>diag_Port = 0, diag_Enabled = False,
     diag_Metrics = \<lparr>met_Enabled = False, met_Prometheus = \<lparr>prom_Enabled = False\<rparr>,
       met_Otlp = \<lparr>otlp_Enabled = False, otlp_Protocol = [], otlp_Endpoint = []\<rparr>\<rparr>,
     diag_Traces = \<lparr>tr_Enabled = False,
       tr_Otlp = \<lparr>otlp_Enabled = False, otlp_Protocol = [], otlp_Endpoint = []\<rparr>\<rparr>,
     diag_Status = \<lparr>st_Enabled = False\<rparr>\<rparr>"

definition zero_cache :: cache_config where
  "zero_cache =
     \<lparr>Redis = \<lparr>redis_Enabled = False, Addresses = [], redis_DB = 0, redis_User = [],
        redis_Password = [], redis_Tls = zero_tls\<rparr>,
      MongoDb = \<lparr>mongo_Enabled = False, mongo_Url = [], mongo_Database = [],
        mongo_Collection = [], mongo_Tls = zero_tls\<rparr>,
      DynamoDb = \<lparr>dynamo_Enabled = False, dynamo_Url = [], dynamo_Table = []\<rparr>\<rparr>"

definition zero_config :: config where
  "zero_config =
     \<lparr>c_Log = zero_log, c_SDKs = Map.empty, c_Grpc = zero_grpc, c_Tls = zero_tls, c_Diag = zero_diag,
      c_Http = zero_http, c_Cache = zero_cache, c_HttpProxy = \<lparr>hp_Url = []\<rparr>,
      c_GlobalOfflineConfig = \<lparr>go_Enabled = False, go_CachePollInterval = 0, go_Log = zero_log\<rparr>,
      c_DefaultAttrs = None,
      c_Profile = \<lparr>prof_Key = [], prof_Secret = [], prof_BaseUrl = [], prof_PollInterval = 0,
        prof_WebhookSignatureValidFor = 0, prof_WebhookSigningKey = [], prof_Log = zero_log,
        prof_SDKs = \<lparr>psdk_BaseUrl = [], psdk_Log = zero_log\<rparr>\<rparr>\<rparr>"

definition DefaultWebhookSignatureValidFor :: int where "DefaultWebhookSignatureValidFor = 300"
definition DefaultSdkPollInterval :: int where "DefaultSdkPollInterval = 60"
definition DefaultCachePollInterval :: int where "DefaultCachePollInterval = 5"
definition DefaultAutoSdkPollInterval :: int where "DefaultAutoSdkPollInterval = 300"

definition setDefaults_http :: "http_config \<Rightarrow> http_config" where
  "setDefaults_http h = h
     \<lparr>http_Port := 8050, http_Enabled := True,
      http_Sse := (http_Sse h)\<lparr>sse_Enabled := True, sse_CORS := (sse_CORS (http_Sse h))\<lparr>cors_Enabled := True\<rparr>\<rparr>,
      http_CdnProxy := (http_CdnProxy h)\<lparr>cdn_Enabled := True,
        cdn_CORS := (cdn_CORS (http_CdnProxy h))\<lparr>cors_Enabled := True\<rparr>\<rparr>,
      http_Api := (http_Api h)\<lparr>api_Enabled := True, api_CORS := (api_CORS (http_Api h))\<lparr>cors_Enabled := True\<rparr>\<rparr>,
      http_OFREP := (http_OFREP h)\<lparr>ofrep_Enabled := True,
        ofrep_CORS := (ofrep_CORS (http_OFREP h))\<lparr>cors_Enabled := True\<rparr>\<rparr>,
      http_Webhook := (http_Webhook h)\<lparr>wh_Enabled := True\<rparr>,
      http_Status := (http_Status h)\<lparr>st_Enabled := False\<rparr>\<rparr>"

definition setDefaults_diag :: "diag_config \<Rightarrow> diag_config" where
  "setDefaults_diag d = d
     \<lparr>diag_Enabled := True, diag_Port := 8051,
      diag_Status := (diag_Status d)\<lparr>st_Enabled := True\<rparr>,
      diag_Metrics := (diag_Metrics d)\<lparr>met_Enabled := True,
        met_Prometheus := (met_Prometheus (diag_Metrics d))\<lparr>prom_Enabled := True\<rparr>,
        met_Otlp := (met_Otlp (diag_Metrics d))\<lparr>otlp_Protocol := ''http''\<rparr>\<rparr>,
      diag_Traces := (diag_Traces d)\<lparr>tr_Otlp := (tr_Otlp (diag_Traces d))\<lparr>otlp_Protocol := ''http''\<rparr>\<rparr>\<rparr>"

definition setDefaults_cache :: "cache_config \<Rightarrow> cache_config" where
  "setDefaults_cache k = k
     \<lparr>Redis := (Redis k)\<lparr>redis_DB := 0, Addresses := [''localhost:6379'']\<rparr>,
      MongoDb := (MongoDb k)\<lparr>mongo_Database := ''configcat_proxy'', mongo_Collection := ''cache''\<rparr>,
      DynamoDb := (DynamoDb k)\<lparr>dynamo_Table := ''configcat_proxy_cache''\<rparr>\<rparr>"

definition setDefaults :: "config \<Rightarrow> config" where
  "setDefaults c = c
     \<lparr>c_Http := setDefaults_http (c_Http c),
      c_Grpc := (c_Grpc c)\<lparr>grpc_Enabled := True, grpc_Port := 50051, HealthCheckEnabled := True,
        ServerReflectionEnabled := False\<rparr>,
      c_Diag := setDefaults_diag (c_Diag c),
      c_Cache := setDefaults_cache (c_Cache c),
      c_Profile := (c_Profile c)\<lparr>prof_BaseUrl := ''https://api.configcat.com''\<rparr>\<rparr>"

subsection \<open>Fix-ups\<close>

definition log_level_of :: "string \<rightharpoonup> level" where
  "log_level_of = [''debug'' \<mapsto> Debug, ''info'' \<mapsto> Info, ''warn'' \<mapsto> Warn, ''error'' \<mapsto> Error]"

definition GetLevel :: "log_config \<Rightarrow> level" where
  "GetLevel l = (case log_level_of (Level l) of Some lvl \<Rightarrow> lvl | None \<Rightarrow> NoLevel)"

definition tls10 :: "64 word" where "tls10 = 0x3FF0000000000000"
definition tls11 :: "64 word" where "tls11 = 0x3FF199999999999A"
definition tls12 :: "64 word" where "tls12 = 0x3FF3333333333333"
definition tls13 :: "64 word" where "tls13 = 0x3FF4CCCCCCCCCCCD"

definition allowedTlsVersions :: "64 word \<rightharpoonup> 16 word" where
  "allowedTlsVersions = [tls10 \<mapsto> 0x0301, tls11 \<mapsto> 0x0302, tls12 \<mapsto> 0x0303, tls13 \<mapsto> 0x0304]"

text \<open>A missing key of a Go map reads as the zero value.\<close>

definition GetVersion :: "tls_config \<Rightarrow> 16 word" where
  "GetVersion t = (case allowedTlsVersions (tls_MinVersion t) of Some v \<Rightarrow> v | None \<Rightarrow> 0)"

definition zero_to :: "int \<Rightarrow> int \<Rightarrow> int" where
  "zero_to d x = (if x = 0 then d else x)"

definition fixupDefaults_sdk :: "sdk_config \<Rightarrow> sdk_config" where
  "fixupDefaults_sdk sdk = sdk
     \<lparr>sdk_WebhookSignatureValidFor := zero_to DefaultWebhookSignatureValidFor (sdk_WebhookSignatureValidFor sdk),
      sdk_PollInterval := zero_to DefaultSdkPollInterval (sdk_PollInterval sdk),
      sdk_Offline := (sdk_Offline sdk)
        \<lparr>off_Local := (off_Local (sdk_Offline sdk))
           \<lparr>local_PollInterval := zero_to DefaultCachePollInterval (local_PollInterval (off_Local (sdk_Offline sdk)))\<rparr>,
         off_CachePollInterval := zero_to DefaultCachePollInterval (off_CachePollInterval (sdk_Offline sdk))\<rparr>\<rparr>"

text \<open>
  \<open>for _, sdk := range c.SDKs\<close> with a nil check; each iteration writes only its own SDK, so
  the order does not matter.
\<close>

definition on_sdks :: "(sdk_config \<Rightarrow> sdk_config) \<Rightarrow> config \<Rightarrow> config" where
  "on_sdks f c = c\<lparr>c_SDKs := (\<lambda>id. map_option (map_option f) (c_SDKs c id))\<rparr>"

definition fixupDefaults :: "config \<Rightarrow> config" where
  "fixupDefaults c0 =
     (let c = on_sdks fixupDefaults_sdk c0
      in c\<lparr>c_GlobalOfflineConfig := (c_GlobalOfflineConfig c)
             \<lparr>go_CachePollInterval := zero_to DefaultCachePollInterval (go_CachePollInterval (c_GlobalOfflineConfig c))\<rparr>,
           c_Profile := (c_Profile c)
             \<lparr>prof_PollInterval := zero_to DefaultAutoSdkPollInterval (prof_PollInterval (c_Profile c)),
              prof_WebhookSignatureValidFor :=
                zero_to DefaultWebhookSignatureValidFor (prof_WebhookSignatureValidFor (c_Profile c))\<rparr>\<rparr>)"

definition fixupOffline_sdk :: "global_offline_config \<Rightarrow> sdk_config \<Rightarrow> sdk_config" where
  "fixupOffline_sdk g sdk =
     (if \<not> off_Enabled (sdk_Offline sdk)
      then sdk\<lparr>sdk_Offline := (sdk_Offline sdk)
             \<lparr>off_Enabled := True, off_UseCache := True,
              off_CachePollInterval := go_CachePollInterval g, off_Log := go_Log g\<rparr>\<rparr>
      else sdk)"

definition fixupOffline :: "config \<Rightarrow> config" where
  "fixupOffline c =
     (if \<not> go_Enabled (c_GlobalOfflineConfig c) then c
      else on_sdks (fixupOffline_sdk (c_GlobalOfflineConfig c)) c)"

definition fix_level :: "string \<Rightarrow> log_config \<Rightarrow> log_config" where
  "fix_level defLevel l = (if GetLevel l = NoLevel then l\<lparr>Level := defLevel\<rparr> else l)"

definition fixupLogLevels_sdk :: "string \<Rightarrow> sdk_config \<Rightarrow> sdk_config" where
  "fixupLogLevels_sdk defLevel sdk = sdk
     \<lparr>sdk_Log := fix_level defLevel (sdk_Log sdk),
      sdk_Offline := (sdk_Offline sdk)\<lparr>off_Log := fix_level defLevel (off_Log (sdk_Offline sdk))\<rparr>\<rparr>"

definition fixupLogLevels :: "string \<Rightarrow> config \<Rightarrow> config" where
  "fixupLogLevels defLevel c0 =
     (let c = on_sdks (fixupLogLevels_sdk defLevel) c0
      in c\<lparr>c_Profile := (c_Profile c)
             \<lparr>prof_Log := fix_level defLevel (prof_Log (c_Profile c)),
              prof_SDKs := (prof_SDKs (c_Profile c))\<lparr>psdk_Log := fix_level defLevel (psdk_Log (prof_SDKs (c_Profile c)))\<rparr>\<rparr>,
           c_Http := (c_Http c)
             \<lparr>http_Log := fix_level defLevel (http_Log (c_Http c)),
              http_Sse := (http_Sse (c_Http c))\<lparr>sse_Log := fix_level defLevel (sse_Log (http_Sse (c_Http c)))\<rparr>\<rparr>,
           c_Grpc := (c_Grpc c)\<lparr>grpc_Log := fix_level defLevel (grpc_Log (c_Grpc c))\<rparr>,
           c_GlobalOfflineConfig := (c_GlobalOfflineConfig c)
             \<lparr>go_Log := fix_level defLevel (go_Log (c_GlobalOfflineConfig c))\<rparr>\<rparr>)"

definition fix_tls :: "64 word \<Rightarrow> tls_config \<Rightarrow> tls_config" where
  "fix_tls defVersion t =
     (if allowedTlsVersions (tls_MinVersion t) = None then t\<lparr>tls_MinVersion := defVersion\<rparr> else t)"

definition fixupTlsMinVersions :: "64 word \<Rightarrow> config \<Rightarrow> config" where
  "fixupTlsMinVersions defVersion c = c
     \<lparr>c_Tls := fix_tls defVersion (c_Tls c),
      c_Cache := (c_Cache c)
        \<lparr>Redis := (Redis (c_Cache c))\<lparr>redis_Tls := fix_tls defVersion (redis_Tls (Redis (c_Cache c)))\<rparr>,
         MongoDb := (MongoDb (c_Cache c))\<lparr>mongo_Tls := fix_tls defVersion (mongo_Tls (MongoDb (c_Cache c)))\<rparr>\<rparr>\<rparr>"

subsection \<open>Origin patterns\<close>

fun compile_loop :: "(string \<Rightarrow> string res) \<Rightarrow> string list \<Rightarrow> string list \<Rightarrow> string list res" where
  "compile_loop compile [] regs = Inr regs"
| "compile_loop compile (pattern # ps) regs =
     (case compile pattern of Inl err \<Rightarrow> Inl err | Inr reg \<Rightarrow> compile_loop compile ps (regs @ [reg]))"

definition compileRegexes :: "(string \<Rightarrow> string res) \<Rightarrow> cors_config \<Rightarrow> cors_config res" where
  "compileRegexes compile c =
     (if \<not> cors_Enabled c then Inr c
      else if Patterns (AllowedOriginsRegex c) \<noteq> [] then
        (case compile_loop compile (Patterns (AllowedOriginsRegex c)) (Regexes (AllowedOriginsRegex c)) of
           Inl err \<Rightarrow> Inl err
         | Inr regs \<Rightarrow> Inr (c\<lparr>AllowedOriginsRegex := (AllowedOriginsRegex c)\<lparr>Regexes := regs\<rparr>\<rparr>))
      else Inr c)"

definition compileOriginRegexes :: "(string \<Rightarrow> string res) \<Rightarrow> http_config \<Rightarrow> http_config res" where
  "compileOriginRegexes compile = seq_steps
     [on_field (\<lambda>h. api_CORS (http_Api h)) (\<lambda>f h. h\<lparr>http_Api := api_CORS_update f (http_Api h)\<rparr>)
        (compileRegexes compile),
      on_field (\<lambda>h. cdn_CORS (http_CdnProxy h)) (\<lambda>f h. h\<lparr>http_CdnProxy := cdn_CORS_update f (http_CdnProxy h)\<rparr>)
        (compileRegexes compile),
      on_field (\<lambda>h. sse_CORS (http_Sse h)) (\<lambda>f h. h\<lparr>http_Sse := sse_CORS_update f (http_Sse h)\<rparr>)
        (compileRegexes compile)]"

subsection \<open>Queries\<close>

text \<open>
  \<open>ToParams\<close>: the keep-alive durations in nanoseconds, and whether any is set. The
  server parameters are gRPC's struct of durations, zero when left unset.
\<close>

record server_parameters =
  sp_MaxConnectionIdle :: int
  sp_MaxConnectionAge :: int
  sp_MaxConnectionAgeGrace :: int
  sp_Time :: int
  sp_Timeout :: int

definition zero_params :: server_parameters where
  "zero_params = \<lparr>sp_MaxConnectionIdle = 0, sp_MaxConnectionAge = 0, sp_MaxConnectionAgeGrace = 0,
     sp_Time = 0, sp_Timeout = 0\<rparr>"

text \<open>\<open>time.Duration(n) * time.Second\<close> in 64-bit two's complement arithmetic.\<close>

definition seconds :: "int \<Rightarrow> int" where
  "seconds n = sint (word_of_int (n * 1000000000) :: 64 word)"

definition ToParams :: "keep_alive_config \<Rightarrow> server_parameters \<times> bool" where
  "ToParams k =
     (if MaxConnectionIdle k = 0 \<and> MaxConnectionAge k = 0 \<and> MaxConnectionAgeGrace k = 0
         \<and> ka_Time k = 0 \<and> ka_Timeout k = 0 then (zero_params, False)
      else
        (let p0 = zero_params;
             p1 = (if MaxConnectionIdle k \<noteq> 0 then p0\<lparr>sp_MaxConnectionIdle := seconds (MaxConnectionIdle k)\<rparr> else p0);
             p2 = (if MaxConnectionAge k \<noteq> 0 then p1\<lparr>sp_MaxConnectionAge := seconds (MaxConnectionAge k)\<rparr> else p1);
             p3 = (if MaxConnectionAgeGrace k \<noteq> 0
                   then p2\<lparr>sp_MaxConnectionAgeGrace := seconds (MaxConnectionAgeGrace k)\<rparr> else p2);
             p4 = (if ka_Time k \<noteq> 0 then p3\<lparr>sp_Time := seconds (ka_Time k)\<rparr> else p3);
             p5 = (if ka_Timeout k \<noteq> 0 then p4\<lparr>sp_Timeout := seconds (ka_Timeout k)\<rparr> else p4)
         in (p5, True)))"

definition cache_IsSet :: "cache_config \<Rightarrow> bool" where
  "cache_IsSet c \<longleftrightarrow> redis_Enabled (Redis c) \<or> mongo_Enabled (MongoDb c) \<or> dynamo_Enabled (DynamoDb c)"

definition profile_IsSet :: "profile_config \<Rightarrow> bool" where
  "profile_IsSet a \<longleftrightarrow> prof_Key a \<noteq> []"

definition IsMetricsEnabled :: "diag_config \<Rightarrow> bool" where
  "IsMetricsEnabled d \<longleftrightarrow> diag_Enabled d \<and> met_Enabled (diag_Metrics d)"

definition IsTracesEnabled :: "diag_config \<Rightarrow> bool" where
  "IsTracesEnabled d \<longleftrightarrow> diag_Enabled d \<and> tr_Enabled (diag_Traces d)"

definition IsStatusEnabled :: "diag_config \<Rightarrow> bool" where
  "IsStatusEnabled d \<longleftrightarrow> diag_Enabled d \<and> st_Enabled (diag_Status d)"

definition IsPrometheusExporterEnabled :: "diag_config \<Rightarrow> bool" where
  "IsPrometheusExporterEnabled d \<longleftrightarrow> IsMetricsEnabled d \<and> prom_Enabled (met_Prometheus (diag_Metrics d))"

definition ShouldRunDiagServer :: "diag_config \<Rightarrow> bool" where
  "ShouldRunDiagServer d \<longleftrightarrow>
     diag_Enabled d \<and> (IsPrometheusExporterEnabled d \<or> st_Enabled (diag_Status d))"

text \<open>\<open>defaultConfigPath\<close>: the platform and the \<open>PROGRAMDATA\<close> directory are inputs.\<close>

definition defaultConfigPath :: "string \<Rightarrow> (string list \<Rightarrow> string) \<Rightarrow> string \<Rightarrow> string option" where
  "defaultConfigPath goos path_join programdata =
     (if goos = ''windows'' then Some (path_join [programdata, ''configcat'', ''proxy'', ''options.yml''])
      else if goos = ''darwin'' then
        Some (path_join [''/Library/Application Support'', ''configcat'', ''proxy'', ''options.yml''])
      else if goos = ''linux'' then Some (path_join [''/etc'', ''configcat'', ''proxy'', ''options.yml''])
      else None)"

text \<open>\<open>LoadTlsOptions\<close>: the key pair loader is the parameter \<open>load\<close>.\<close>

record 'cert tls_options =
  to_MinVersion :: "16 word"
  to_ServerName :: string
  to_Certificates :: "'cert list"

fun load_certs :: "(string \<Rightarrow> string \<Rightarrow> 'cert res) \<Rightarrow> cert_config list \<Rightarrow> 'cert list \<Rightarrow> 'cert list res" where
  "load_certs load [] acc = Inr acc"
| "load_certs load (c # cs) acc =
     (case load (cert_Cert c) (cert_Key c) of
        Inr cert \<Rightarrow> load_certs load cs (acc @ [cert])
      | Inl err \<Rightarrow> Inl (''failed to load certificate and key files: '' @ err))"

definition LoadTlsOptions :: "(string \<Rightarrow> string \<Rightarrow> 'cert res) \<Rightarrow> tls_config \<Rightarrow> 'cert tls_options res" where
  "LoadTlsOptions load t =
     (case load_certs load (tls_Certificates t) [] of
        Inl err \<Rightarrow> Inl err
      | Inr certs \<Rightarrow> Inr \<lparr>to_MinVersion = GetVersion t, to_ServerName = tls_ServerName t,
                         to_Certificates = certs\<rparr>)"

section \<open>Lemmas\<close>

named_theorems config_defs \<open>definitions of the zero values and defaults\<close>

lemmas [config_defs] =
  zero_log_def zero_tls_def zero_local_def zero_offline_def zero_sdk_def zero_cors_def zero_http_def
  zero_grpc_def zero_diag_def zero_cache_def zero_config_def setDefaults_http_def setDefaults_diag_def
  setDefaults_cache_def setDefaults_def DefaultWebhookSignatureValidFor_def DefaultSdkPollInterval_def
  DefaultCachePollInterval_def DefaultAutoSdkPollInterval_def

lemma GetLevel_NoLevel: "GetLevel l = NoLevel \<longleftrightarrow> Level l \<notin> {''debug'', ''info'', ''warn'', ''error''}"
  by (auto simp: GetLevel_def log_level_of_def)

lemma fix_level_set:
  "GetLevel \<lparr>Level = d\<rparr> \<noteq> NoLevel \<Longrightarrow> GetLevel (fix_level d l) \<noteq> NoLevel"
  by (cases l) (auto simp: fix_level_def GetLevel_def)

lemma zero_to_nonzero: "d \<noteq> 0 \<Longrightarrow> zero_to d x \<noteq> 0"
  by (simp add: zero_to_def)

lemma fix_tls_allowed:
  "allowedTlsVersions d \<noteq> None \<Longrightarrow> allowedTlsVersions (tls_MinVersion (fix_tls d t)) \<noteq> None"
  by (simp add: fix_tls_def)

lemma tls12_allowed: "allowedTlsVersions tls12 = Some 0x0303"
  by (simp add: allowedTlsVersions_def tls10_def tls11_def tls12_def tls13_def)

lemma GetVersion_nonzero: "allowedTlsVersions (tls_MinVersion t) \<noteq> None \<Longrightarrow> GetVersion t \<in> {0x0301, 0x0302, 0x0303, 0x0304}"
  by (auto simp: GetVersion_def allowedTlsVersions_def split: if_splits)

lemma on_sdks_SomeE:
  assumes "c_SDKs (on_sdks f c) i = Some (Some s)"
  obtains s0 where "c_SDKs c i = Some (Some s0)" "s = f s0"
  using assms by (auto simp: on_sdks_def)

lemma c_SDKs_on_sdks [simp]: "c_SDKs (on_sdks f c) i = map_option (map_option f) (c_SDKs c i)"
  by (simp add: on_sdks_def)

lemma dom_on_sdks [simp]: "dom (c_SDKs (on_sdks f c)) = dom (c_SDKs c)"
  by (auto simp: on_sdks_def domIff)

lemma on_sdks_frame [simp]:
  "c_Log (on_sdks f c) = c_Log c" "c_Grpc (on_sdks f c) = c_Grpc c" "c_Tls (on_sdks f c) = c_Tls c"
  "c_Diag (on_sdks f c) = c_Diag c" "c_Http (on_sdks f c) = c_Http c" "c_Cache (on_sdks f c) = c_Cache c"
  "c_HttpProxy (on_sdks f c) = c_HttpProxy c" "c_GlobalOfflineConfig (on_sdks f c) = c_GlobalOfflineConfig c"
  "c_DefaultAttrs (on_sdks f c) = c_DefaultAttrs c" "c_Profile (on_sdks f c) = c_Profile c"
  by (simp_all add: on_sdks_def)

lemma compile_loop_length:
  "compile_loop compile ps regs = Inr regs' \<Longrightarrow> length regs' = length regs + length ps"
  by (induction ps arbitrary: regs) (auto split: sum.splits)

lemma compileOriginRegexes_OFREP:
  "compileOriginRegexes compile h = Inr h' \<Longrightarrow> http_OFREP h' = http_OFREP h"
  by (auto simp: compileOriginRegexes_def on_field_def split: sum.splits)

end
