(* ===== verification/Env.thy ===== *)
theory Env
  imports Config
begin

text \<open>
  \<open>config/env.go\<close>: reading the configuration from the environment. Every \<open>loadEnv\<close> method
  is one definition, a sequence of steps over the record it fills, composed by prefix
  exactly as the methods call each other. \<open>env\<close> is \<open>os.Getenv\<close> (the empty string for an
  unset variable); the decoders of Go's \<open>encoding/json\<close> and \<open>strconv.ParseFloat\<close>, and the
  texts of conversion errors, are the record \<open>decoders\<close>. A decoded string map is the list
  of its entries in iteration order.
\<close>

section \<open>Definitions\<close>

type_synonym env = "string \<Rightarrow> string"

record decoders =
  dec_float :: "string \<Rightarrow> 64 word res"
  dec_strlist :: "string \<Rightarrow> string list res"
  dec_certs :: "string \<Rightarrow> cert_config list res"
  dec_strmap :: "string \<Rightarrow> (string \<times> string) list res"
  dec_attrs :: "string \<Rightarrow> user_attrs res"
  int_error :: "string \<Rightarrow> string"
  bool_error :: "string \<Rightarrow> string"

definition envVarReadError :: "string \<Rightarrow> string \<Rightarrow> string" where
  "envVarReadError key inner = ''failed to read environment variable '' @ quoted key @ '': '' @ inner"

definition toInt :: "decoders \<Rightarrow> string \<Rightarrow> int res" where
  "toInt d s = (case parse_int64 s of None \<Rightarrow> Inl (int_error d s) | Some i \<Rightarrow> Inr i)"

definition toBool :: "decoders \<Rightarrow> string \<Rightarrow> bool res" where
  "toBool d s =
     (if s \<in> set [''1'', ''t'', ''T'', ''true'', ''TRUE'', ''True''] then Inr True
      else if s \<in> set [''0'', ''f'', ''F'', ''false'', ''FALSE'', ''False''] then Inr False
      else Inl (bool_error d s))"

definition toFloat :: "decoders \<Rightarrow> string \<Rightarrow> 64 word res" where
  "toFloat d s = dec_float d s"

definition toStringSlice :: "decoders \<Rightarrow> string \<Rightarrow> string list res" where
  "toStringSlice d s = dec_strlist d s"

definition toCertConfigSlice :: "decoders \<Rightarrow> string \<Rightarrow> cert_config list res" where
  "toCertConfigSlice d s = dec_certs d s"

definition toStringMap :: "decoders \<Rightarrow> string \<Rightarrow> (string \<times> string) list res" where
  "toStringMap d s = dec_strmap d s"

definition toUserAttrs :: "decoders \<Rightarrow> string \<Rightarrow> user_attrs res" where
  "toUserAttrs d s = dec_attrs d s"

definition concatPrefix :: "string \<Rightarrow> string \<Rightarrow> string" where
  "concatPrefix p1 p2 = p1 @ ''_'' @ p2"

text \<open>
  \<open>readEnv(prefix, key, &c.F, conv)\<close>; \<open>put r\<close> is the assignment \<open>c.F = r\<close>.
\<close>

definition readEnv ::
  "string \<Rightarrow> string \<Rightarrow> (string \<Rightarrow> 'a res) \<Rightarrow> ('a \<Rightarrow> 'c \<Rightarrow> 'c) \<Rightarrow> env \<Rightarrow> 'c \<Rightarrow> 'c res" where
  "readEnv prefix key conv put env c =
     (let envKey = prefix @ ''_'' @ key; e = env envKey
      in if e \<noteq> [] then
           (case conv e of Inl err \<Rightarrow> Inl (envVarReadError envKey err) | Inr r \<Rightarrow> Inr (put r c))
         else Inr c)"

definition readEnvString :: "string \<Rightarrow> string \<Rightarrow> (string \<Rightarrow> 'c \<Rightarrow> 'c) \<Rightarrow> env \<Rightarrow> 'c \<Rightarrow> 'c res" where
  "readEnvString prefix key put env c =
     (let e = env (prefix @ ''_'' @ key) in Inr (if e \<noteq> [] then put e c else c))"

definition loadEnv_log :: "string \<Rightarrow> env \<Rightarrow> log_config \<Rightarrow> log_config res" where
  "loadEnv_log p env = (let prefix = concatPrefix p ''LOG'' in seq_steps
     [readEnvString prefix ''LEVEL'' (\<lambda>v l. l\<lparr>Level := v\<rparr>) env])"

definition loadEnv_local :: "decoders \<Rightarrow> string \<Rightarrow> env \<Rightarrow> local_config \<Rightarrow> local_config res" where
  "loadEnv_local d p env = (let prefix = concatPrefix p ''LOCAL'' in seq_steps
     [readEnv prefix ''POLLING'' (toBool d) (\<lambda>v l. l\<lparr>Polling := v\<rparr>) env,
      readEnv prefix ''POLL_INTERVAL'' (toInt d) (\<lambda>v l. l\<lparr>local_PollInterval := v\<rparr>) env,
      readEnvString prefix ''FILE_PATH'' (\<lambda>v l. l\<lparr>FilePath := v\<rparr>) env])"

definition loadEnv_offline :: "decoders \<Rightarrow> string \<Rightarrow> env \<Rightarrow> offline_config \<Rightarrow> offline_config res" where
  "loadEnv_offline d p env = (let prefix = concatPrefix p ''OFFLINE'' in seq_steps
     [readEnv prefix ''ENABLED'' (toBool d) (\<lambda>v c. c\<lparr>off_Enabled := v\<rparr>) env,
      readEnv prefix ''USE_CACHE'' (toBool d) (\<lambda>v c. c\<lparr>off_UseCache := v\<rparr>) env,
      readEnv prefix ''CACHE_POLL_INTERVAL'' (toInt d) (\<lambda>v c. c\<lparr>off_CachePollInterval := v\<rparr>) env,
      on_field off_Local off_Local_update (loadEnv_local d prefix env),
      on_field off_Log off_Log_update (loadEnv_log prefix env)])"

definition loadEnv_sdk :: "decoders \<Rightarrow> string \<Rightarrow> env \<Rightarrow> sdk_config \<Rightarrow> sdk_config res" where
  "loadEnv_sdk d prefix env = seq_steps
     [readEnvString prefix ''BASE_URL'' (\<lambda>v s. s\<lparr>sdk_BaseUrl := v\<rparr>) env,
      readEnvString prefix ''DATA_GOVERNANCE'' (\<lambda>v s. s\<lparr>sdk_DataGovernance := v\<rparr>) env,
      readEnvString prefix ''WEBHOOK_SIGNING_KEY'' (\<lambda>v s. s\<lparr>sdk_WebhookSigningKey := v\<rparr>) env,
      readEnv prefix ''WEBHOOK_SIGNATURE_VALID_FOR'' (toInt d) (\<lambda>v s. s\<lparr>sdk_WebhookSignatureValidFor := v\<rparr>) env,
      readEnv prefix ''POLL_INTERVAL'' (toInt d) (\<lambda>v s. s\<lparr>sdk_PollInterval := v\<rparr>) env,
      readEnv prefix ''DEFAULT_USER_ATTRIBUTES'' (toUserAttrs d) (\<lambda>v s. s\<lparr>sdk_DefaultAttrs := v\<rparr>) env,
      on_field sdk_Offline sdk_Offline_update (loadEnv_offline d prefix env),
      on_field sdk_Log sdk_Log_update (loadEnv_log prefix env)]"

definition loadEnv_profile_sdk :: "string \<Rightarrow> env \<Rightarrow> profile_sdk_config \<Rightarrow> profile_sdk_config res" where
  "loadEnv_profile_sdk p env = (let prefix = concatPrefix p ''SDKS'' in seq_steps
     [readEnvString prefix ''BASE_URL'' (\<lambda>v s. s\<lparr>psdk_BaseUrl := v\<rparr>) env,
      on_field psdk_Log psdk_Log_update (loadEnv_log prefix env)])"

definition loadEnv_profile :: "decoders \<Rightarrow> string \<Rightarrow> env \<Rightarrow> profile_config \<Rightarrow> profile_config res" where
  "loadEnv_profile d p env = (let prefix = concatPrefix p ''PROFILE'' in seq_steps
     [readEnvString prefix ''KEY'' (\<lambda>v a. a\<lparr>prof_Key := v\<rparr>) env,
      readEnvString prefix ''SECRET'' (\<lambda>v a. a\<lparr>prof_Secret := v\<rparr>) env,
      readEnvString prefix ''BASE_URL'' (\<lambda>v a. a\<lparr>prof_BaseUrl := v\<rparr>) env,
      readEnvString prefix ''WEBHOOK_SIGNING_KEY'' (\<lambda>v a. a\<lparr>prof_WebhookSigningKey := v\<rparr>) env,
      readEnv prefix ''WEBHOOK_SIGNATURE_VALID_FOR'' (toInt d) (\<lambda>v a. a\<lparr>prof_WebhookSignatureValidFor := v\<rparr>) env,
      readEnv prefix ''POLL_INTERVAL'' (toInt d) (\<lambda>v a. a\<lparr>prof_PollInterval := v\<rparr>) env,
      on_field prof_SDKs prof_SDKs_update (loadEnv_profile_sdk prefix env),
      on_field prof_Log prof_Log_update (loadEnv_log prefix env)])"

definition loadEnv_origin_regex :: "decoders \<Rightarrow> string \<Rightarrow> env \<Rightarrow> origin_regex_config \<Rightarrow> origin_regex_config res" where
  "loadEnv_origin_regex d p env = (let prefix = concatPrefix p ''ALLOWED_ORIGINS_REGEX'' in seq_steps
     [readEnvString prefix ''IF_NO_MATCH'' (\<lambda>v r. r\<lparr>IfNoMatch := v\<rparr>) env,
      readEnv prefix ''PATTERNS'' (toStringSlice d) (\<lambda>v r. r\<lparr>Patterns := v\<rparr>) env])"

definition loadEnv_cors :: "decoders \<Rightarrow> string \<Rightarrow> env \<Rightarrow> cors_config \<Rightarrow> cors_config res" where
  "loadEnv_cors d p env = (let prefix = concatPrefix p ''CORS'' in seq_steps
     [readEnv prefix ''ENABLED'' (toBool d) (\<lambda>v c. c\<lparr>cors_Enabled := v\<rparr>) env,
      readEnv prefix ''ALLOWED_ORIGINS'' (toStringSlice d) (\<lambda>v c. c\<lparr>AllowedOrigins := v\<rparr>) env,
      on_field AllowedOriginsRegex AllowedOriginsRegex_update (loadEnv_origin_regex d prefix env)])"

definition loadEnv_auth :: "string \<Rightarrow> env \<Rightarrow> auth_config \<Rightarrow> auth_config res" where
  "loadEnv_auth p env = (let prefix = concatPrefix p ''AUTH'' in seq_steps
     [readEnvString prefix ''USER'' (\<lambda>v a. a\<lparr>auth_User := v\<rparr>) env,
      readEnvString prefix ''PASSWORD'' (\<lambda>v a. a\<lparr>auth_Password := v\<rparr>) env])"

definition loadEnv_status :: "decoders \<Rightarrow> string \<Rightarrow> env \<Rightarrow> status_config \<Rightarrow> status_config res" where
  "loadEnv_status d p env = (let prefix = concatPrefix p ''STATUS'' in seq_steps
     [readEnv prefix ''ENABLED'' (toBool d) (\<lambda>v s. s\<lparr>st_Enabled := v\<rparr>) env])"

definition loadEnv_sse :: "decoders \<Rightarrow> string \<Rightarrow> env \<Rightarrow> sse_config \<Rightarrow> sse_config res" where
  "loadEnv_sse d p env = (let prefix = concatPrefix p ''SSE'' in seq_steps
     [readEnv prefix ''ENABLED'' (toBool d) (\<lambda>v s. s\<lparr>sse_Enabled := v\<rparr>) env,
      readEnv prefix ''HEADERS'' (toStringMap d) (\<lambda>v s. s\<lparr>sse_Headers := map_of v\<rparr>) env,
      readEnv prefix ''HEARTBEAT_INTERVAL'' (toInt d) (\<lambda>v s. s\<lparr>HeartBeatInterval := v\<rparr>) env,
      on_field sse_CORS sse_CORS_update (loadEnv_cors d prefix env),
      on_field sse_Log sse_Log_update (loadEnv_log prefix env)])"

definition loadEnv_api :: "decoders \<Rightarrow> string \<Rightarrow> env \<Rightarrow> api_config \<Rightarrow> api_config res" where
  "loadEnv_api d p env = (let prefix = concatPrefix p ''API'' in seq_steps
     [readEnv prefix ''ENABLED'' (toBool d) (\<lambda>v a. a\<lparr>api_Enabled := v\<rparr>) env,
      readEnv prefix ''HEADERS'' (toStringMap d) (\<lambda>v a. a\<lparr>api_Headers := map_of v\<rparr>) env,
      readEnv prefix ''AUTH_HEADERS'' (toStringMap d) (\<lambda>v a. a\<lparr>api_AuthHeaders := map_of v\<rparr>) env,
      on_field api_CORS api_CORS_update (loadEnv_cors d prefix env)])"

definition loadEnv_ofrep :: "decoders \<Rightarrow> string \<Rightarrow> env \<Rightarrow> ofrep_config \<Rightarrow> ofrep_config res" where
  "loadEnv_ofrep d p env = (let prefix = concatPrefix p ''OFREP'' in seq_steps
     [readEnv prefix ''ENABLED'' (toBool d) (\<lambda>v a. a\<lparr>ofrep_Enabled := v\<rparr>) env,
      readEnv prefix ''HEADERS'' (toStringMap d) (\<lambda>v a. a\<lparr>ofrep_Headers := map_of v\<rparr>) env,
      readEnv prefix ''AUTH_HEADERS'' (toStringMap d) (\<lambda>v a. a\<lparr>ofrep_AuthHeaders := map_of v\<rparr>) env,
      on_field ofrep_CORS ofrep_CORS_update (loadEnv_cors d prefix env)])"

definition loadEnv_cdn :: "decoders \<Rightarrow> string \<Rightarrow> env \<Rightarrow> cdn_proxy_config \<Rightarrow> cdn_proxy_config res" where
  "loadEnv_cdn d p env = (let prefix = concatPrefix p ''CDN_PROXY'' in seq_steps
     [readEnv prefix ''ENABLED'' (toBool d) (\<lambda>v a. a\<lparr>cdn_Enabled := v\<rparr>) env,
      readEnv prefix ''HEADERS'' (toStringMap d) (\<lambda>v a. a\<lparr>cdn_Headers := map_of v\<rparr>) env,
      on_field cdn_CORS cdn_CORS_update (loadEnv_cors d prefix env)])"

definition loadEnv_webhook :: "decoders \<Rightarrow> string \<Rightarrow> env \<Rightarrow> webhook_config \<Rightarrow> webhook_config res" where
  "loadEnv_webhook d p env = (let prefix = concatPrefix p ''WEBHOOK'' in seq_steps
     [readEnv prefix ''ENABLED'' (toBool d) (\<lambda>v a. a\<lparr>wh_Enabled := v\<rparr>) env,
      readEnv prefix ''AUTH_HEADERS'' (toStringMap d) (\<lambda>v a. a\<lparr>wh_AuthHeaders := map_of v\<rparr>) env,
      on_field wh_Auth wh_Auth_update (loadEnv_auth prefix env)])"

definition loadEnv_http :: "decoders \<Rightarrow> string \<Rightarrow> env \<Rightarrow> http_config \<Rightarrow> http_config res" where
  "loadEnv_http d p env = (let prefix = concatPrefix p ''HTTP'' in seq_steps
     [readEnv prefix ''ENABLED'' (toBool d) (\<lambda>v h. h\<lparr>http_Enabled := v\<rparr>) env,
      readEnv prefix ''PORT'' (toInt d) (\<lambda>v h. h\<lparr>http_Port := v\<rparr>) env,
      on_field http_Log http_Log_update (loadEnv_log prefix env),
      on_field http_Sse http_Sse_update (loadEnv_sse d prefix env),
      on_field http_CdnProxy http_CdnProxy_update (loadEnv_cdn d prefix env),
      on_field http_Webhook http_Webhook_update (loadEnv_webhook d prefix env),
      on_field http_Status http_Status_update (loadEnv_status d prefix env),
      on_field http_OFREP http_OFREP_update (loadEnv_ofrep d prefix env),
      on_field http_Api http_Api_update (loadEnv_api d prefix env)])"

definition loadEnv_keep_alive :: "decoders \<Rightarrow> string \<Rightarrow> env \<Rightarrow> keep_alive_config \<Rightarrow> keep_alive_config res" where
  "loadEnv_keep_alive d p env = (let prefix = concatPrefix p ''KEEP_ALIVE'' in seq_steps
     [readEnv prefix ''MAX_CONNECTION_IDLE'' (toInt d) (\<lambda>v k. k\<lparr>MaxConnectionIdle := v\<rparr>) env,
      readEnv prefix ''MAX_CONNECTION_AGE'' (toInt d) (\<lambda>v k. k\<lparr>MaxConnectionAge := v\<rparr>) env,
      readEnv prefix ''MAX_CONNECTION_AGE_GRACE'' (toInt d) (\<lambda>v k. k\<lparr>MaxConnectionAgeGrace := v\<rparr>) env,
      readEnv prefix ''TIME'' (toInt d) (\<lambda>v k. k\<lparr>ka_Time := v\<rparr>) env,
      readEnv prefix ''TIMEOUT'' (toInt d) (\<lambda>v k. k\<lparr>ka_Timeout := v\<rparr>) env])"

definition loadEnv_grpc :: "decoders \<Rightarrow> string \<Rightarrow> env \<Rightarrow> grpc_config \<Rightarrow> grpc_config res" where
  "loadEnv_grpc d p env = (let prefix = concatPrefix p ''GRPC'' in seq_steps
     [readEnv prefix ''ENABLED'' (toBool d) (\<lambda>v g. g\<lparr>grpc_Enabled := v\<rparr>) env,
      readEnv prefix ''PORT'' (toInt d) (\<lambda>v g. g\<lparr>grpc_Port := v\<rparr>) env,
      readEnv prefix ''HEALTH_CHECK_ENABLED'' (toBool d) (\<lambda>v g. g\<lparr>HealthCheckEnabled := v\<rparr>) env,
      readEnv prefix ''SERVER_REFLECTION_ENABLED'' (toBool d) (\<lambda>v g. g\<lparr>ServerReflectionEnabled := v\<rparr>) env,
      on_field grpc_KeepAlive grpc_KeepAlive_update (loadEnv_keep_alive d prefix env),
      on_field grpc_Log grpc_Log_update (loadEnv_log prefix env)])"

definition loadEnv_http_proxy :: "string \<Rightarrow> env \<Rightarrow> http_proxy_config \<Rightarrow> http_proxy_config res" where
  "loadEnv_http_proxy p env = (let prefix = concatPrefix p ''HTTP_PROXY'' in seq_steps
     [readEnvString prefix ''URL'' (\<lambda>v h. h\<lparr>hp_Url := v\<rparr>) env])"

definition loadEnv_tls :: "decoders \<Rightarrow> string \<Rightarrow> env \<Rightarrow> tls_config \<Rightarrow> tls_config res" where
  "loadEnv_tls d p env = (let prefix = concatPrefix p ''TLS'' in seq_steps
     [readEnvString prefix ''SERVER_NAME'' (\<lambda>v t. t\<lparr>tls_ServerName := v\<rparr>) env,
      readEnv prefix ''MIN_VERSION'' (toFloat d) (\<lambda>v t. t\<lparr>tls_MinVersion := v\<rparr>) env,
      readEnv prefix ''ENABLED'' (toBool d) (\<lambda>v t. t\<lparr>tls_Enabled := v\<rparr>) env,
      readEnv prefix ''CERTIFICATES'' (toCertConfigSlice d) (\<lambda>v t. t\<lparr>tls_Certificates := v\<rparr>) env])"

definition loadEnv_redis :: "decoders \<Rightarrow> string \<Rightarrow> env \<Rightarrow> redis_config \<Rightarrow> redis_config res" where
  "loadEnv_redis d p env = (let prefix = concatPrefix p ''REDIS'' in seq_steps
     [readEnvString prefix ''PASSWORD'' (\<lambda>v r. r\<lparr>redis_Password := v\<rparr>) env,
      readEnvString prefix ''USER'' (\<lambda>v r. r\<lparr>redis_User := v\<rparr>) env,
      readEnv prefix ''DB'' (toInt d) (\<lambda>v r. r\<lparr>redis_DB := v\<rparr>) env,
      readEnv prefix ''ENABLED'' (toBool d) (\<lambda>v r. r\<lparr>redis_Enabled := v\<rparr>) env,
      readEnv prefix ''ADDRESSES'' (toStringSlice d) (\<lambda>v r. r\<lparr>Addresses := v\<rparr>) env,
      on_field redis_Tls redis_Tls_update (loadEnv_tls d prefix env)])"

definition loadEnv_mongo :: "decoders \<Rightarrow> string \<Rightarrow> env \<Rightarrow> mongo_config \<Rightarrow> mongo_config res" where
  "loadEnv_mongo d p env = (let prefix = concatPrefix p ''MONGODB'' in seq_steps
     [readEnvString prefix ''URL'' (\<lambda>v m. m\<lparr>mongo_Url := v\<rparr>) env,
      readEnvString prefix ''DATABASE'' (\<lambda>v m. m\<lparr>mongo_Database := v\<rparr>) env,
      readEnvString prefix ''COLLECTION'' (\<lambda>v m. m\<lparr>mongo_Collection := v\<rparr>) env,
      readEnv prefix ''ENABLED'' (toBool d) (\<lambda>v m. m\<lparr>mongo_Enabled := v\<rparr>) env,
      on_field mongo_Tls mongo_Tls_update (loadEnv_tls d prefix env)])"

definition loadEnv_dynamo :: "decoders \<Rightarrow> string \<Rightarrow> env \<Rightarrow> dynamo_config \<Rightarrow> dynamo_config res" where
  "loadEnv_dynamo d p env = (let prefix = concatPrefix p ''DYNAMODB'' in seq_steps
     [readEnvString prefix ''URL'' (\<lambda>v m. m\<lparr>dynamo_Url := v\<rparr>) env,
      readEnvString prefix ''TABLE'' (\<lambda>v m. m\<lparr>dynamo_Table := v\<rparr>) env,
      readEnv prefix ''ENABLED'' (toBool d) (\<lambda>v m. m\<lparr>dynamo_Enabled := v\<rparr>) env])"

definition loadEnv_cache :: "decoders \<Rightarrow> string \<Rightarrow> env \<Rightarrow> cache_config \<Rightarrow> cache_config res" where
  "loadEnv_cache d p env = (let prefix = concatPrefix p ''CACHE'' in seq_steps
     [on_field Redis Redis_update (loadEnv_redis d prefix env),
      on_field MongoDb MongoDb_update (loadEnv_mongo d prefix env),
      on_field DynamoDb DynamoDb_update (loadEnv_dynamo d prefix env)])"

definition loadEnv_global_offline ::
  "decoders \<Rightarrow> string \<Rightarrow> env \<Rightarrow> global_offline_config \<Rightarrow> global_offline_config res" where
  "loadEnv_global_offline d p env = (let prefix = concatPrefix p ''OFFLINE'' in seq_steps
     [readEnv prefix ''ENABLED'' (toBool d) (\<lambda>v g. g\<lparr>go_Enabled := v\<rparr>) env,
      readEnv prefix ''CACHE_POLL_INTERVAL'' (toInt d) (\<lambda>v g. g\<lparr>go_CachePollInterval := v\<rparr>) env,
      on_field go_Log go_Log_update (loadEnv_log prefix env)])"

definition loadEnv_otlp :: "decoders \<Rightarrow> string \<Rightarrow> env \<Rightarrow> otlp_config \<Rightarrow> otlp_config res" where
  "loadEnv_otlp d p env = (let prefix = concatPrefix p ''OTLP'' in seq_steps
     [readEnvString prefix ''PROTOCOL'' (\<lambda>v c. c\<lparr>otlp_Protocol := v\<rparr>) env,
      readEnvString prefix ''ENDPOINT'' (\<lambda>v c. c\<lparr>otlp_Endpoint := v\<rparr>) env,
      readEnv prefix ''ENABLED'' (toBool d) (\<lambda>v c. c\<lparr>otlp_Enabled := v\<rparr>) env])"

definition loadEnv_prometheus :: "decoders \<Rightarrow> string \<Rightarrow> env \<Rightarrow> prometheus_config \<Rightarrow> prometheus_config res" where
  "loadEnv_prometheus d p env = (let prefix = concatPrefix p ''PROMETHEUS'' in seq_steps
     [readEnv prefix ''ENABLED'' (toBool d) (\<lambda>v c. c\<lparr>prom_Enabled := v\<rparr>) env])"

definition loadEnv_metrics :: "decoders \<Rightarrow> string \<Rightarrow> env \<Rightarrow> metrics_config \<Rightarrow> metrics_config res" where
  "loadEnv_metrics d p env = (let prefix = concatPrefix p ''METRICS'' in seq_steps
     [readEnv prefix ''ENABLED'' (toBool d) (\<lambda>v c. c\<lparr>met_Enabled := v\<rparr>) env,
      on_field met_Prometheus met_Prometheus_update (loadEnv_prometheus d prefix env),
      on_field met_Otlp met_Otlp_update (loadEnv_otlp d prefix env)])"

definition loadEnv_traces :: "decoders \<Rightarrow> string \<Rightarrow> env \<Rightarrow> trace_config \<Rightarrow> trace_config res" where
  "loadEnv_traces d p env = (let prefix = concatPrefix p ''TRACES'' in seq_steps
     [readEnv prefix ''ENABLED'' (toBool d) (\<lambda>v c. c\<lparr>tr_Enabled := v\<rparr>) env,
      on_field tr_Otlp tr_Otlp_update (loadEnv_otlp d prefix env)])"

definition loadEnv_diag :: "decoders \<Rightarrow> string \<Rightarrow> env \<Rightarrow> diag_config \<Rightarrow> diag_config res" where
  "loadEnv_diag d p env = (let prefix = concatPrefix p ''DIAG'' in seq_steps
     [readEnv prefix ''ENABLED'' (toBool d) (\<lambda>v c. c\<lparr>diag_Enabled := v\<rparr>) env,
      readEnv prefix ''PORT'' (toInt d) (\<lambda>v c. c\<lparr>diag_Port := v\<rparr>) env,
      on_field diag_Status diag_Status_update (loadEnv_status d prefix env),
      on_field diag_Metrics diag_Metrics_update (loadEnv_metrics d prefix env),
      on_field diag_Traces diag_Traces_update (loadEnv_traces d prefix env)])"

text \<open>
  The loop over the SDKs named by \<open>CONFIGCAT_SDKS\<close>. \<open>sdk_prefix\<close> is the ASCII part of
  \<open>strings.ToUpper(strings.ReplaceAll(sdkId, "-", "_"))\<close>.
\<close>

definition sdk_prefix :: "string \<Rightarrow> string" where
  "sdk_prefix sdkId = concatPrefix ''CONFIGCAT''
     (map upper_char (map (\<lambda>c. if c = CHR ''-'' then CHR ''_'' else c) sdkId))"

fun load_sdks ::
  "decoders \<Rightarrow> env \<Rightarrow> (string \<times> string) list \<Rightarrow> (string \<rightharpoonup> sdk_config option) \<Rightarrow>
   (string \<rightharpoonup> sdk_config option) res" where
  "load_sdks d env [] sdks = Inr sdks"
| "load_sdks d env ((sdkId, key) # rest) sdks =
     (case loadEnv_sdk d (sdk_prefix sdkId) env (zero_sdk\<lparr>sdk_Key := key\<rparr>) of
        Inl err \<Rightarrow> Inl err
      | Inr sdkConf \<Rightarrow> load_sdks d env rest (sdks(sdkId \<mapsto> Some sdkConf)))"

definition load_env_sdks :: "decoders \<Rightarrow> env \<Rightarrow> (string \<rightharpoonup> sdk_config option) \<Rightarrow> (string \<rightharpoonup> sdk_config option) res" where
  "load_env_sdks d env sdks =
     (case readEnv ''CONFIGCAT'' ''SDKS'' (toStringMap d) (\<lambda>r _. r) env [] of
        Inl err \<Rightarrow> Inl err
      | Inr entries \<Rightarrow> load_sdks d env entries sdks)"

definition loadEnv :: "decoders \<Rightarrow> env \<Rightarrow> config \<Rightarrow> config res" where
  "loadEnv d env = seq_steps
     [on_field c_SDKs c_SDKs_update (load_env_sdks d env),
      on_field c_Profile c_Profile_update (loadEnv_profile d ''CONFIGCAT'' env),
      on_field c_Http c_Http_update (loadEnv_http d ''CONFIGCAT'' env),
      on_field c_Grpc c_Grpc_update (loadEnv_grpc d ''CONFIGCAT'' env),
      on_field c_HttpProxy c_HttpProxy_update (loadEnv_http_proxy ''CONFIGCAT'' env),
      on_field c_Log c_Log_update (loadEnv_log ''CONFIGCAT'' env),
      on_field c_Tls c_Tls_update (loadEnv_tls d ''CONFIGCAT'' env),
      on_field c_Diag c_Diag_update (loadEnv_diag d ''CONFIGCAT'' env),
      on_field c_Cache c_Cache_update (loadEnv_cache d ''CONFIGCAT'' env),
      on_field c_GlobalOfflineConfig c_GlobalOfflineConfig_update (loadEnv_global_offline d ''CONFIGCAT'' env),
      readEnv ''CONFIGCAT'' ''DEFAULT_USER_ATTRIBUTES'' (toUserAttrs d) (\<lambda>v c. c\<lparr>c_DefaultAttrs := v\<rparr>) env]"

section \<open>Lemmas\<close>

subsection \<open>The contract of a loader\<close>

text \<open>
  A loader at prefix \<open>p\<close> reads only variables below \<open>p\<close>, changes nothing when none of them
  is set, and reports a failure as a read error of one of them.
\<close>

definition agree :: "string \<Rightarrow> env \<Rightarrow> env \<Rightarrow> bool" where
  "agree p env env' \<longleftrightarrow> (\<forall>s. env (p @ ''_'' @ s) = env' (p @ ''_'' @ s))"

definition unset :: "string \<Rightarrow> env \<Rightarrow> bool" where
  "unset p env \<longleftrightarrow> (\<forall>s. env (p @ ''_'' @ s) = [])"

definition env_failure :: "string \<Rightarrow> env \<Rightarrow> string \<Rightarrow> bool" where
  "env_failure p env e \<longleftrightarrow>
     (\<exists>s err. env (p @ ''_'' @ s) \<noteq> [] \<and> e = envVarReadError (p @ ''_'' @ s) err)"

locale env_loader =
  fixes ld :: "env \<Rightarrow> 'c \<Rightarrow> 'c res" and p :: string
  assumes local: "agree p env env' \<Longrightarrow> ld env c = ld env' c"
    and idle: "unset p env \<Longrightarrow> ld env c = Inr c"
    and failure: "ld env c = Inl e \<Longrightarrow> env_failure p env e"
begin

lemma idle_iff: "unset p env \<Longrightarrow> ld env c = Inr c' \<longleftrightarrow> c' = c"
  by (auto simp: idle)

lemma shadowed: "agree p env (\<lambda>_. []) \<Longrightarrow> ld env c = Inr c"
  by (rule idle) (simp add: agree_def unset_def)

end

named_theorems loaders \<open>closure of the loader contract\<close>

lemma concatPrefix_append: "concatPrefix p q @ ''_'' @ s = p @ ''_'' @ (q @ ''_'' @ s)"
  by (simp add: concatPrefix_def)

lemma loader_readEnv [loaders]: "env_loader (readEnv p k conv put) p"
  by unfold_locales
     (auto simp: readEnv_def agree_def unset_def env_failure_def Let_def split: sum.splits if_splits)

lemma loader_readEnvString [loaders]: "env_loader (readEnvString p k put) p"
  by unfold_locales
     (auto simp: readEnvString_def agree_def unset_def env_failure_def Let_def split: if_splits)

lemma loader_Nil [loaders]: "env_loader (\<lambda>env. seq_steps []) p"
  by unfold_locales auto

lemma loader_Cons [loaders]:
  assumes "env_loader f p" and "env_loader (\<lambda>env. seq_steps (fs env)) p"
  shows "env_loader (\<lambda>env. seq_steps (f env # fs env)) p"
proof
  fix env env' c
  assume "agree p env env'"
  then show "seq_steps (f env # fs env) c = seq_steps (f env' # fs env') c"
    using env_loader.local [OF assms(1), of env env'] env_loader.local [OF assms(2), of env env']
    by (auto split: sum.splits)
next
  fix env c
  assume "unset p env"
  then show "seq_steps (f env # fs env) c = Inr c"
    using env_loader.idle [OF assms(1), of env] env_loader.idle [OF assms(2), of env] by simp
next
  fix env c e
  assume "seq_steps (f env # fs env) c = Inl e"
  then show "env_failure p env e"
    using env_loader.failure [OF assms(1), of env] env_loader.failure [OF assms(2), of env]
    by (auto split: sum.splits)
qed

lemma loader_on_field:
  assumes "env_loader f p" and "\<And>c. upd (\<lambda>_. get c) c = c"
  shows "env_loader (\<lambda>env. on_field get upd (f env)) p"
proof
  fix env env' c
  assume "agree p env env'"
  then show "on_field get upd (f env) c = on_field get upd (f env') c"
    using env_loader.local [OF assms(1)] by (simp add: on_field_def)
next
  fix env c
  assume "unset p env"
  then show "on_field get upd (f env) c = Inr c"
    using env_loader.idle [OF assms(1)] assms(2) by (simp add: on_field_def)
next
  fix env c e
  assume "on_field get upd (f env) c = Inl e"
  then show "env_failure p env e"
    using env_loader.failure [OF assms(1)] by (auto simp: on_field_def split: sum.splits)
qed

lemma loader_prefix:
  assumes "env_loader f (concatPrefix p q)"
  shows "env_loader f p"
proof
  fix env env' c
  assume "agree p env env'"
  then have "agree (concatPrefix p q) env env'" unfolding agree_def concatPrefix_append by blast
  then show "f env c = f env' c" by (rule env_loader.local [OF assms])
next
  fix env c
  assume "unset p env"
  then have "unset (concatPrefix p q) env" unfolding unset_def concatPrefix_append by blast
  then show "f env c = Inr c" by (rule env_loader.idle [OF assms])
next
  fix env c e
  assume "f env c = Inl e"
  then have "env_failure (concatPrefix p q) env e" by (rule env_loader.failure [OF assms])
  then show "env_failure p env e" unfolding env_failure_def concatPrefix_append by blast
qed

text \<open>A loader that appends its own component to the prefix satisfies the contract at both.\<close>

lemma loader_let:
  "env_loader (\<lambda>env. seq_steps (fs (concatPrefix p q) env)) (concatPrefix p q) \<Longrightarrow>
   env_loader (\<lambda>env. let prefix = concatPrefix p q in seq_steps (fs prefix env)) p"
  unfolding Let_def by (rule loader_prefix)

lemma loader_log [loaders]: "env_loader (loadEnv_log p) p"
  unfolding loadEnv_log_def by (rule loader_let) (intro loaders)

lemma loader_local [loaders]: "env_loader (loadEnv_local d p) p"
  unfolding loadEnv_local_def by (rule loader_let) (intro loaders)

lemma loader_auth [loaders]: "env_loader (loadEnv_auth p) p"
  unfolding loadEnv_auth_def by (rule loader_let) (intro loaders)

lemma loader_status [loaders]: "env_loader (loadEnv_status d p) p"
  unfolding loadEnv_status_def by (rule loader_let) (intro loaders)

lemma loader_origin_regex [loaders]: "env_loader (loadEnv_origin_regex d p) p"
  unfolding loadEnv_origin_regex_def by (rule loader_let) (intro loaders)

lemma loader_keep_alive [loaders]: "env_loader (loadEnv_keep_alive d p) p"
  unfolding loadEnv_keep_alive_def by (rule loader_let) (intro loaders)

lemma loader_http_proxy [loaders]: "env_loader (loadEnv_http_proxy p) p"
  unfolding loadEnv_http_proxy_def by (rule loader_let) (intro loaders)

lemma loader_tls [loaders]: "env_loader (loadEnv_tls d p) p"
  unfolding loadEnv_tls_def by (rule loader_let) (intro loaders)

lemma loader_dynamo [loaders]: "env_loader (loadEnv_dynamo d p) p"
  unfolding loadEnv_dynamo_def by (rule loader_let) (intro loaders)

lemma loader_otlp [loaders]: "env_loader (loadEnv_otlp d p) p"
  unfolding loadEnv_otlp_def by (rule loader_let) (intro loaders)

lemma loader_prometheus [loaders]: "env_loader (loadEnv_prometheus d p) p"
  unfolding loadEnv_prometheus_def by (rule loader_let) (intro loaders)

lemma loader_offline [loaders]: "env_loader (loadEnv_offline d p) p"
  unfolding loadEnv_offline_def by (rule loader_let) (intro loaders loader_on_field; simp)

lemma loader_sdk [loaders]: "env_loader (loadEnv_sdk d p) p"
  unfolding loadEnv_sdk_def by (intro loaders loader_on_field; simp)

lemma loader_profile_sdk [loaders]: "env_loader (loadEnv_profile_sdk p) p"
  unfolding loadEnv_profile_sdk_def by (rule loader_let) (intro loaders loader_on_field; simp)

lemma loader_profile [loaders]: "env_loader (loadEnv_profile d p) p"
  unfolding loadEnv_profile_def by (rule loader_let) (intro loaders loader_on_field; simp)

lemma loader_cors [loaders]: "env_loader (loadEnv_cors d p) p"
  unfolding loadEnv_cors_def by (rule loader_let) (intro loaders loader_on_field; simp)

lemma loader_sse [loaders]: "env_loader (loadEnv_sse d p) p"
  unfolding loadEnv_sse_def by (rule loader_let) (intro loaders loader_on_field; simp)

lemma loader_api [loaders]: "env_loader (loadEnv_api d p) p"
  unfolding loadEnv_api_def by (rule loader_let) (intro loaders loader_on_field; simp)

lemma loader_ofrep [loaders]: "env_loader (loadEnv_ofrep d p) p"
  unfolding loadEnv_ofrep_def by (rule loader_let) (intro loaders loader_on_field; simp)

lemma loader_cdn [loaders]: "env_loader (loadEnv_cdn d p) p"
  unfolding loadEnv_cdn_def by (rule loader_let) (intro loaders loader_on_field; simp)

lemma loader_webhook [loaders]: "env_loader (loadEnv_webhook d p) p"
  unfolding loadEnv_webhook_def by (rule loader_let) (intro loaders loader_on_field; simp)

lemma loader_http [loaders]: "env_loader (loadEnv_http d p) p"
  unfolding loadEnv_http_def by (rule loader_let) (intro loaders loader_on_field; simp)

lemma loader_grpc [loaders]: "env_loader (loadEnv_grpc d p) p"
  unfolding loadEnv_grpc_def by (rule loader_let) (intro loaders loader_on_field; simp)

lemma loader_redis [loaders]: "env_loader (loadEnv_redis d p) p"
  unfolding loadEnv_redis_def by (rule loader_let) (intro loaders loader_on_field; simp)

lemma loader_mongo [loaders]: "env_loader (loadEnv_mongo d p) p"
  unfolding loadEnv_mongo_def by (rule loader_let) (intro loaders loader_on_field; simp)

lemma loader_cache [loaders]: "env_loader (loadEnv_cache d p) p"
  unfolding loadEnv_cache_def by (rule loader_let) (intro loaders loader_on_field; simp)

lemma loader_global_offline [loaders]: "env_loader (loadEnv_global_offline d p) p"
  unfolding loadEnv_global_offline_def by (rule loader_let) (intro loaders loader_on_field; simp)

lemma loader_metrics [loaders]: "env_loader (loadEnv_metrics d p) p"
  unfolding loadEnv_metrics_def by (rule loader_let) (intro loaders loader_on_field; simp)

lemma loader_traces [loaders]: "env_loader (loadEnv_traces d p) p"
  unfolding loadEnv_traces_def by (rule loader_let) (intro loaders loader_on_field; simp)

lemma loader_diag [loaders]: "env_loader (loadEnv_diag d p) p"
  unfolding loadEnv_diag_def by (rule loader_let) (intro loaders loader_on_field; simp)

lemma loader_sdk_entry: "env_loader (loadEnv_sdk d (sdk_prefix i)) ''CONFIGCAT''"
  unfolding sdk_prefix_def by (rule loader_prefix [OF loader_sdk])

lemma load_sdks_local:
  assumes "agree ''CONFIGCAT'' env env'"
  shows "load_sdks d env entries sdks = load_sdks d env' entries sdks"
proof (induction entries arbitrary: sdks)
  case (Cons e entries)
  obtain i key where e: "e = (i, key)" by (cases e) auto
  have "loadEnv_sdk d (sdk_prefix i) env (zero_sdk\<lparr>sdk_Key := key\<rparr>) =
      loadEnv_sdk d (sdk_prefix i) env' (zero_sdk\<lparr>sdk_Key := key\<rparr>)"
    by (rule env_loader.local [OF loader_sdk_entry assms])
  then show ?case using Cons e by (simp add: fun_upd_def split: sum.splits)
qed simp

lemma load_sdks_failure:
  "load_sdks d env entries sdks = Inl e \<Longrightarrow> env_failure ''CONFIGCAT'' env e"
  by (induction d env entries sdks rule: load_sdks.induct)
     (auto split: sum.splits dest: env_loader.failure [OF loader_sdk_entry])

lemma loader_env_sdks [loaders]: "env_loader (load_env_sdks d) ''CONFIGCAT''"
proof
  fix env env' c
  assume a: "agree ''CONFIGCAT'' env env'"
  have "readEnv ''CONFIGCAT'' ''SDKS'' (toStringMap d) (\<lambda>r _. r) env [] =
      readEnv ''CONFIGCAT'' ''SDKS'' (toStringMap d) (\<lambda>r _. r) env' []"
    by (rule env_loader.local [OF loader_readEnv a])
  then show "load_env_sdks d env c = load_env_sdks d env' c"
    using load_sdks_local [OF a] by (simp add: load_env_sdks_def split: sum.splits)
next
  fix env c
  assume "unset ''CONFIGCAT'' env"
  then have "readEnv ''CONFIGCAT'' ''SDKS'' (toStringMap d) (\<lambda>r _. r) env [] = Inr []"
    by (rule env_loader.idle [OF loader_readEnv])
  then show "load_env_sdks d env c = Inr c" by (simp add: load_env_sdks_def)
next
  fix env c e
  assume "load_env_sdks d env c = Inl e"
  then show "env_failure ''CONFIGCAT'' env e"
    by (auto simp: load_env_sdks_def split: sum.splits
        dest: env_loader.failure [OF loader_readEnv] load_sdks_failure)
qed

lemma loader_config: "env_loader (loadEnv d) ''CONFIGCAT''"
  unfolding loadEnv_def by (intro loaders loader_on_field; simp)

interpretation config_env: env_loader "loadEnv d" "''CONFIGCAT''" for d
  by (rule loader_config)

subsection \<open>The SDKs of the environment\<close>

lemma load_sdks_dom:
  "load_sdks d env entries sdks = Inr sdks' \<Longrightarrow> dom sdks' = dom sdks \<union> fst ` set entries"
  by (induction d env entries sdks rule: load_sdks.induct) (auto split: sum.splits)

lemma load_sdks_other:
  "load_sdks d env entries sdks = Inr sdks' \<Longrightarrow> i \<notin> fst ` set entries \<Longrightarrow> sdks' i = sdks i"
  by (induction d env entries sdks rule: load_sdks.induct) (auto split: sum.splits)

lemma load_sdks_named:
  "load_sdks d env entries sdks = Inr sdks' \<Longrightarrow> distinct (map fst entries) \<Longrightarrow>
   (i, key) \<in> set entries \<Longrightarrow>
   \<exists>s. sdks' i = Some (Some s) \<and> loadEnv_sdk d (sdk_prefix i) env (zero_sdk\<lparr>sdk_Key := key\<rparr>) = Inr s"
proof (induction entries arbitrary: sdks)
  case (Cons e rest)
  obtain j k where e: "e = (j, k)" by (cases e) auto
  from Cons.prems(1) e obtain s where
    s: "loadEnv_sdk d (sdk_prefix j) env (zero_sdk\<lparr>sdk_Key := k\<rparr>) = Inr s"
    "load_sdks d env rest (sdks(j \<mapsto> Some s)) = Inr sdks'"
    by (auto split: sum.splits)
  show ?case
  proof (cases "(i, key) = (j, k)")
    case True
    then have "i \<notin> fst ` set rest" using Cons.prems(2) e by auto
    then show ?thesis using s True load_sdks_other [OF s(2)] by auto
  next
    case False
    then have "(i, key) \<in> set rest" using Cons.prems(3) e by auto
    then show ?thesis using Cons.IH [OF s(2)] Cons.prems(2) by simp
  qed
qed simp

lemma loadEnv_sdks:
  "loadEnv d env c = Inr c' \<Longrightarrow> load_env_sdks d env (c_SDKs c) = Inr (c_SDKs c')"
  by (auto simp: loadEnv_def on_field_def readEnv_def Let_def split: sum.splits if_splits)

section \<open>Properties\<close>

text \<open>
  C29: the environment loader reads only variables with the prefix \<open>CONFIGCAT_\<close>: two environments
  that agree on them load alike, without any of them the configuration stays as it is, and an
  error names a variable of this prefix that is set.
\<close>

theorem env_scope:
  assumes "\<forall>s. env (''CONFIGCAT_'' @ s) = env' (''CONFIGCAT_'' @ s)"
  shows "loadEnv d env c = loadEnv d env' c
    \<and> ((\<forall>s. env (''CONFIGCAT_'' @ s) = []) \<longrightarrow> loadEnv d env c = Inr c)
    \<and> (\<forall>e. loadEnv d env c = Inl e \<longrightarrow>
        (\<exists>s err. env (''CONFIGCAT_'' @ s) \<noteq> [] \<and> e = envVarReadError (''CONFIGCAT_'' @ s) err))"
  using config_env.local [of env env' d c] config_env.idle [of env d c] config_env.failure [of d env c] assms
  by (auto simp: agree_def unset_def env_failure_def)

definition main_decoders :: decoders where
  "main_decoders = \<lparr>dec_float = (\<lambda>s. Inl ''float''), dec_strlist = (\<lambda>s. Inr [s]), dec_certs = (\<lambda>s. Inr []),
     dec_strmap = (\<lambda>s. Inr [(''main'', s)]), dec_attrs = (\<lambda>s. Inr None), int_error = (\<lambda>s. ''int''), bool_error = (\<lambda>s. ''bool'')\<rparr>"

theorem env_scope_witness:
  "loadEnv main_decoders (\<lambda>k. if k = ''PATH'' then ''/bin'' else []) zero_config = Inr zero_config"
proof -
  let ?env = "\<lambda>k. if k = ''PATH'' then ''/bin'' else []"
  have a: "\<forall>s. ?env (''CONFIGCAT_'' @ s) = (\<lambda>k. []) (''CONFIGCAT_'' @ s)" by simp
  from env_scope [OF a, of main_decoders zero_config]
  have "(\<forall>s. ?env (''CONFIGCAT_'' @ s) = []) \<longrightarrow> loadEnv main_decoders ?env zero_config = Inr zero_config" by blast
  then show ?thesis by simp
qed

lemma readEnv_keeps:
  "readEnv p k conv put env c = Inr c' \<Longrightarrow> (\<And>v c. get (put v c) = get c) \<Longrightarrow> get c' = get c"
  by (auto simp: readEnv_def Let_def split: if_splits sum.splits)

lemma readEnvString_keeps:
  "readEnvString p k put env c = Inr c' \<Longrightarrow> (\<And>v c. get (put v c) = get c) \<Longrightarrow> get c' = get c"
  by (auto simp: readEnvString_def Let_def)

lemma loadEnv_sdk_key:
  assumes "loadEnv_sdk d p env s = Inr s'"
  shows "sdk_Key s' = sdk_Key s"
proof (rule seq_steps_inv [where P = "\<lambda>c. sdk_Key c = sdk_Key s", OF _ refl assms [unfolded loadEnv_sdk_def]])
  fix f c c'
  assume f: "f \<in> set
     [readEnvString p ''BASE_URL'' (\<lambda>v s. s\<lparr>sdk_BaseUrl := v\<rparr>) env,
      readEnvString p ''DATA_GOVERNANCE'' (\<lambda>v s. s\<lparr>sdk_DataGovernance := v\<rparr>) env,
      readEnvString p ''WEBHOOK_SIGNING_KEY'' (\<lambda>v s. s\<lparr>sdk_WebhookSigningKey := v\<rparr>) env,
      readEnv p ''WEBHOOK_SIGNATURE_VALID_FOR'' (toInt d) (\<lambda>v s. s\<lparr>sdk_WebhookSignatureValidFor := v\<rparr>) env,
      readEnv p ''POLL_INTERVAL'' (toInt d) (\<lambda>v s. s\<lparr>sdk_PollInterval := v\<rparr>) env,
      readEnv p ''DEFAULT_USER_ATTRIBUTES'' (toUserAttrs d) (\<lambda>v s. s\<lparr>sdk_DefaultAttrs := v\<rparr>) env,
      on_field sdk_Offline sdk_Offline_update (loadEnv_offline d p env),
      on_field sdk_Log sdk_Log_update (loadEnv_log p env)]"
    and c: "sdk_Key c = sdk_Key s" and c': "f c = Inr c'"
  have "sdk_Key c' = sdk_Key c"
    using f c'
    by (auto dest!: readEnvString_keeps [where get = sdk_Key] readEnv_keeps [where get = sdk_Key] simp: on_field_def split: sum.splits)
  with c show "sdk_Key c' = sdk_Key s" by simp
qed

text \<open>
  Every entry of the variable \<open>CONFIGCAT_SDKS\<close> becomes the SDK of that name with that key,
  completed from the variables of its own prefix and replacing an entry of the file; SDKs of the
  file that the variable does not name are kept.
\<close>

lemma env_sdks_loaded:
  assumes "loadEnv d env c = Inr c'" and "env ''CONFIGCAT_SDKS'' \<noteq> []"
    and "toStringMap d (env ''CONFIGCAT_SDKS'') = Inr entries" and "distinct (map fst entries)"
  shows "(\<forall>i key. (i, key) \<in> set entries \<longrightarrow> (\<exists>s. c_SDKs c' i = Some (Some s) \<and> sdk_Key s = key))
    \<and> (\<forall>i. i \<notin> fst ` set entries \<longrightarrow> c_SDKs c' i = c_SDKs c i)"
proof -
  have load: "load_sdks d env entries (c_SDKs c) = Inr (c_SDKs c')"
    using loadEnv_sdks [OF assms(1)] assms(2,3) by (simp add: load_env_sdks_def readEnv_def Let_def)
  show ?thesis
    using load_sdks_named [OF load assms(4)] load_sdks_other [OF load] loadEnv_sdk_key by fastforce
qed

end
