(* ===== verification/Validate.thy ===== *)
theory Validate
  imports Env
begin

text \<open>
  \<open>config/validate.go\<close> and \<open>LoadConfigFromFileAndEnvironment\<close> of \<open>config/config.go\<close>.
  Validation returns nothing or an error, or panics: \<open>Config.Validate\<close> calls \<open>validate\<close> on
  every entry of the SDK map, and on a nil pointer the method's first field access
  panics. \<open>missing f\<close> says that \<open>os.Stat(f)\<close> fails with \<open>os.ErrNotExist\<close>. The file system
  and the YAML decoder of the loader are the record \<open>files\<close>.
\<close>

section \<open>Definitions\<close>

datatype verdict = Valid | Invalid string | Panics

fun first_of :: "verdict list \<Rightarrow> verdict" where
  "first_of [] = Valid"
| "first_of (v # vs) = (if v = Valid then first_of vs else v)"

definition check :: "bool \<Rightarrow> string \<Rightarrow> verdict" where
  "check bad e = (if bad then Invalid e else Valid)"

fun validate_certs :: "cert_config list \<Rightarrow> verdict" where
  "validate_certs [] = Valid"
| "validate_certs (cert # certs) =
     (if (cert_Cert cert \<noteq> [] \<and> cert_Key cert = []) \<or> (cert_Key cert \<noteq> [] \<and> cert_Cert cert = [])
      then Invalid ''tls: both TLS cert and key file required'' else validate_certs certs)"

definition validate_tls :: "tls_config \<Rightarrow> verdict" where
  "validate_tls t = (if \<not> tls_Enabled t then Valid else validate_certs (tls_Certificates t))"

definition validate_redis :: "redis_config \<Rightarrow> verdict" where
  "validate_redis r =
     (if \<not> redis_Enabled r then Valid
      else first_of [check (Addresses r = []) ''redis: at least 1 server address required'',
                     validate_tls (redis_Tls r)])"

definition validate_mongo :: "mongo_config \<Rightarrow> verdict" where
  "validate_mongo m =
     (if \<not> mongo_Enabled m then Valid
      else first_of [check (mongo_Url m = []) ''mongodb: invalid connection uri'', validate_tls (mongo_Tls m)])"

definition validate_local :: "(string \<Rightarrow> bool) \<Rightarrow> string \<Rightarrow> local_config \<Rightarrow> verdict" where
  "validate_local missing sdkId l = first_of
     [check (missing (FilePath l)) (''sdk-'' @ sdkId @ '': couldn'' @ [quote_char] @ ''t find the local file '' @ FilePath l),
      check (Polling l \<and> local_PollInterval l < 1)
        (''sdk-'' @ sdkId @ '': local file poll interval must be greater than 1 seconds'')]"

definition validate_offline :: "(string \<Rightarrow> bool) \<Rightarrow> cache_config \<Rightarrow> string \<Rightarrow> offline_config \<Rightarrow> verdict" where
  "validate_offline missing c sdkId o1 =
     (if \<not> off_Enabled o1 then Valid
      else first_of
        [check (FilePath (off_Local o1) = [] \<and> \<not> off_UseCache o1)
           (''sdk-'' @ sdkId @ '': offline mode requires either a configured cache or a local file''),
         check (FilePath (off_Local o1) \<noteq> [] \<and> off_UseCache o1)
           (''sdk-'' @ sdkId @ '': can'' @ [quote_char] @ ''t use both local file and cache for offline mode''),
         (if FilePath (off_Local o1) \<noteq> [] then validate_local missing sdkId (off_Local o1) else Valid),
         check (off_UseCache o1 \<and> \<not> cache_IsSet c)
           (''sdk-'' @ sdkId @ '': offline mode enabled with cache, but no cache is configured''),
         check (off_UseCache o1 \<and> off_CachePollInterval o1 < 1)
           (''sdk-'' @ sdkId @ '': cache poll interval must be greater than 1 seconds'')])"

text \<open>\<open>(s *SDKConfig) validate\<close>; the receiver may be nil.\<close>

definition validate_sdk ::
  "(string \<Rightarrow> bool) \<Rightarrow> cache_config \<Rightarrow> profile_config \<Rightarrow> string \<Rightarrow> sdk_config option \<Rightarrow> verdict" where
  "validate_sdk missing c p sdkId so =
     (case so of
        None \<Rightarrow> Panics
      | Some s \<Rightarrow> first_of
          [check (\<not> profile_IsSet p \<and> sdk_Key s = []) (''sdk-'' @ sdkId @ '': SDK key is required''),
           check (sdk_DataGovernance s \<noteq> [] \<and> sdk_DataGovernance s \<noteq> ''global'' \<and> sdk_DataGovernance s \<noteq> ''eu'')
             (''sdk-'' @ sdkId @ '': invalid data governance value, it must be '' @ quoted ''global'' @ '' or ''
                @ quoted ''eu''),
           check (sdk_WebhookSigningKey s \<noteq> [] \<and> sdk_WebhookSignatureValidFor s < 5)
             (''sdk-'' @ sdkId @ '': webhook signature validity check must be greater than 5 seconds''),
           validate_offline missing c sdkId (sdk_Offline s)])"

definition validate_global_offline :: "cache_config \<Rightarrow> global_offline_config \<Rightarrow> verdict" where
  "validate_global_offline c g =
     (if \<not> go_Enabled g then Valid
      else first_of
        [check (\<not> redis_Enabled (Redis c)) ''offline: global offline mode enabled, but no cache is configured'',
         check (go_CachePollInterval g < 1) ''offline: cache poll interval must be greater than 1 seconds''])"

definition validate_webhook :: "webhook_config \<Rightarrow> verdict" where
  "validate_webhook w =
     (if \<not> wh_Enabled w then Valid
      else check ((auth_User (wh_Auth w) \<noteq> [] \<and> auth_Password (wh_Auth w) = [])
                  \<or> (auth_Password (wh_Auth w) \<noteq> [] \<and> auth_User (wh_Auth w) = []))
             ''webhook: both basic auth user and password required'')"

definition validate_origin_regex :: "origin_regex_config \<Rightarrow> verdict" where
  "validate_origin_regex r =
     check (Patterns r \<noteq> [] \<and> IfNoMatch r = [])
       (''cors: the '' @ quoted ''if no watch'' @ '' field is required when allowed origins regex is set'')"

definition validate_cors :: "cors_config \<Rightarrow> verdict" where
  "validate_cors c = (if \<not> cors_Enabled c then Valid else validate_origin_regex (AllowedOriginsRegex c))"

definition bad_port :: "int \<Rightarrow> bool" where
  "bad_port p \<longleftrightarrow> p < 1 \<or> p > 65535"

definition validate_http :: "http_config \<Rightarrow> verdict" where
  "validate_http h = first_of
     [check (bad_port (http_Port h)) (''http: invalid port '' @ show_int (http_Port h)),
      validate_webhook (http_Webhook h),
      validate_cors (api_CORS (http_Api h)),
      validate_cors (ofrep_CORS (http_OFREP h)),
      validate_cors (sse_CORS (http_Sse h)),
      validate_cors (cdn_CORS (http_CdnProxy h))]"

definition validate_otlp :: "otlp_config \<Rightarrow> verdict" where
  "validate_otlp o1 =
     check (otlp_Protocol o1 \<noteq> ''http'' \<and> otlp_Protocol o1 \<noteq> ''https'' \<and> otlp_Protocol o1 \<noteq> ''grpc'')
       (''diag: invalid otlp protocol '' @ otlp_Protocol o1 @ '' (only '' @ quoted ''http'' @ '', ''
          @ quoted ''https'' @ '', or '' @ quoted ''grpc'' @ '' allowed)'')"

definition validate_diag :: "diag_config \<Rightarrow> verdict" where
  "validate_diag d = first_of
     [check (bad_port (diag_Port d)) (''diag: invalid port '' @ show_int (diag_Port d)),
      (if IsMetricsEnabled d \<and> otlp_Enabled (met_Otlp (diag_Metrics d))
       then validate_otlp (met_Otlp (diag_Metrics d)) else Valid),
      (if IsTracesEnabled d \<and> otlp_Enabled (tr_Otlp (diag_Traces d))
       then validate_otlp (tr_Otlp (diag_Traces d)) else Valid)]"

definition validate_grpc :: "grpc_config \<Rightarrow> verdict" where
  "validate_grpc g = check (bad_port (grpc_Port g)) (''grpc: invalid port '' @ show_int (grpc_Port g))"

definition validate_profile :: "global_offline_config \<Rightarrow> profile_config \<Rightarrow> verdict" where
  "validate_profile c a = first_of
     [check (prof_Secret a = [] \<and> \<not> go_Enabled c) ''profile: proxy is in online mode without a profile secret'',
      check (prof_PollInterval a < 60)
        ''profile: auto configuration poll interval cannot be less than 60 seconds'',
      check (prof_WebhookSigningKey a \<noteq> [] \<and> prof_WebhookSignatureValidFor a < 5)
        ''profile: webhook signature validity check must be greater than 5 seconds'']"

text \<open>\<open>for id, conf := range c.SDKs\<close>, in iteration order \<open>ids\<close>.\<close>

fun validate_sdks ::
  "(string \<Rightarrow> bool) \<Rightarrow> config \<Rightarrow> string list \<Rightarrow> verdict" where
  "validate_sdks missing c [] = Valid"
| "validate_sdks missing c (sdkId # ids) =
     (case c_SDKs c sdkId of
        None \<Rightarrow> validate_sdks missing c ids
      | Some conf \<Rightarrow>
          (case validate_sdk missing (c_Cache c) (c_Profile c) sdkId conf of
             Valid \<Rightarrow> validate_sdks missing c ids
           | v \<Rightarrow> v))"

definition validate_config :: "(string \<Rightarrow> bool) \<Rightarrow> string list \<Rightarrow> config \<Rightarrow> verdict" where
  "validate_config missing ids c = first_of
     [check (ids = [] \<and> \<not> profile_IsSet (c_Profile c))
        ''sdk: at least 1 SDK or a proxy profile must be configured'',
      (if profile_IsSet (c_Profile c) then validate_profile (c_GlobalOfflineConfig c) (c_Profile c) else Valid),
      validate_sdks missing c ids,
      validate_tls (c_Tls c),
      validate_http (c_Http c),
      validate_diag (c_Diag c),
      validate_grpc (c_Grpc c),
      validate_redis (Redis (c_Cache c)),
      validate_mongo (MongoDb (c_Cache c)),
      validate_global_offline (c_Cache c) (c_GlobalOfflineConfig c)]"

subsection \<open>Loading\<close>

datatype stat_result = StatOk | StatNotExist string | StatOther string

record files =
  os_stat :: "string \<Rightarrow> stat_result"
  eval_symlinks :: "string \<Rightarrow> string res"
  read_file :: "string \<Rightarrow> bytes res"
  yaml_unmarshal :: "bytes \<Rightarrow> config \<Rightarrow> config res"
  default_path :: "string option"

text \<open>The file part: an explicit file must exist, the default file may be missing.\<close>

definition load_file :: "files \<Rightarrow> string \<Rightarrow> config \<Rightarrow> config res" where
  "load_file fs filePath config =
     (if filePath \<noteq> [] then
        (case os_stat fs filePath of
           StatNotExist err \<Rightarrow> Inl (''config file '' @ filePath @ '' does not exist: '' @ err)
         | _ \<Rightarrow>
           (case eval_symlinks fs filePath of
              Inl err \<Rightarrow> Inl (''failed to eval symlink for '' @ [] @ '': '' @ err)
            | Inr realPath \<Rightarrow>
              (case read_file fs realPath of
                 Inl err \<Rightarrow> Inl (''failed to read config file '' @ realPath @ '': '' @ err)
               | Inr data \<Rightarrow>
                 (case yaml_unmarshal fs data config of
                    Inl err \<Rightarrow> Inl (''failed to parse YAML from config file '' @ realPath @ '': '' @ err)
                  | Inr config' \<Rightarrow> Inr config'))))
      else
        (case default_path fs of
           None \<Rightarrow> Inr config
         | Some defaultPath \<Rightarrow>
           (case os_stat fs defaultPath of
              StatNotExist _ \<Rightarrow> Inr config
            | _ \<Rightarrow>
              (case read_file fs defaultPath of
                 Inl err \<Rightarrow> Inl (''failed to read config file '' @ defaultPath @ '': '' @ err)
               | Inr data \<Rightarrow>
                 (case yaml_unmarshal fs data config of
                    Inl err \<Rightarrow> Inl (''failed to parse YAML from config file '' @ defaultPath @ '': '' @ err)
                  | Inr config' \<Rightarrow> Inr config')))))"

definition fixup_all :: "config \<Rightarrow> config" where
  "fixup_all c0 =
     (let c1 = (if GetLevel (c_Log c0) = NoLevel then c0\<lparr>c_Log := (c_Log c0)\<lparr>Level := ''warn''\<rparr>\<rparr> else c0);
          c2 = fixupLogLevels (Level (c_Log c1)) c1;
          c3 = fixupDefaults c2;
          c4 = fixupTlsMinVersions tls12 c3
      in fixupOffline c4)"

definition LoadConfig :: "(string \<Rightarrow> string res) \<Rightarrow> files \<Rightarrow> decoders \<Rightarrow> env \<Rightarrow> string \<Rightarrow> config res" where
  "LoadConfig compile fs d env filePath =
     bind_res (load_file fs filePath (setDefaults zero_config))
       (\<lambda>c0. bind_res (loadEnv d env c0)
         (\<lambda>c1. on_field c_Http c_Http_update (compileOriginRegexes compile) (fixup_all c1)))"

section \<open>Lemmas\<close>

named_theorems validate_defs \<open>the validators\<close>

lemma first_of_Valid: "first_of vs = Valid \<longleftrightarrow> (\<forall>v \<in> set vs. v = Valid)"
  by (induction vs) auto

lemma check_Valid [simp]: "check bad e = Valid \<longleftrightarrow> \<not> bad"
  by (simp add: check_def)

lemma check_not_Panics [simp]: "check bad e \<noteq> Panics"
  by (simp add: check_def)

lemma first_of_Panics: "first_of vs = Panics \<Longrightarrow> Panics \<in> set vs"
  by (induction vs) (auto split: if_splits)

lemmas [validate_defs] =
  validate_tls_def validate_redis_def validate_mongo_def validate_local_def validate_offline_def
  validate_sdk_def validate_global_offline_def validate_webhook_def validate_origin_regex_def
  validate_cors_def validate_http_def validate_otlp_def validate_diag_def validate_grpc_def
  validate_profile_def

lemma validate_certs_Valid:
  "validate_certs cs = Valid \<longleftrightarrow> (\<forall>c \<in> set cs. cert_Cert c = [] \<longleftrightarrow> cert_Key c = [])"
  by (induction cs) auto

lemma validate_certs_not_Panics [simp]: "validate_certs cs \<noteq> Panics"
  by (induction cs) auto

lemma validate_sdks_Valid:
  "validate_sdks missing c ids = Valid \<longleftrightarrow>
     (\<forall>i \<in> set ids. \<forall>conf. c_SDKs c i = Some conf \<longrightarrow>
        validate_sdk missing (c_Cache c) (c_Profile c) i conf = Valid)"
  by (induction ids) (auto split: option.splits verdict.splits)

subsection \<open>What a valid configuration satisfies\<close>

definition tls_ok :: "tls_config \<Rightarrow> bool" where
  "tls_ok t \<longleftrightarrow> (tls_Enabled t \<longrightarrow>
     (\<forall>c \<in> set (tls_Certificates t). cert_Cert c = [] \<longleftrightarrow> cert_Key c = []))"

definition offline_ok :: "(string \<Rightarrow> bool) \<Rightarrow> cache_config \<Rightarrow> offline_config \<Rightarrow> bool" where
  "offline_ok missing c o1 \<longleftrightarrow> (off_Enabled o1 \<longrightarrow>
     (off_UseCache o1 \<and> FilePath (off_Local o1) = [] \<and> cache_IsSet c \<and> 1 \<le> off_CachePollInterval o1
      \<or> \<not> off_UseCache o1 \<and> FilePath (off_Local o1) \<noteq> [] \<and> \<not> missing (FilePath (off_Local o1))
        \<and> (Polling (off_Local o1) \<longrightarrow> 1 \<le> local_PollInterval (off_Local o1))))"

definition sdk_ok :: "(string \<Rightarrow> bool) \<Rightarrow> config \<Rightarrow> sdk_config \<Rightarrow> bool" where
  "sdk_ok missing c s \<longleftrightarrow>
     (sdk_Key s \<noteq> [] \<or> profile_IsSet (c_Profile c))
     \<and> sdk_DataGovernance s \<in> {[], ''global'', ''eu''}
     \<and> (sdk_WebhookSigningKey s \<noteq> [] \<longrightarrow> 5 \<le> sdk_WebhookSignatureValidFor s)
     \<and> offline_ok missing (c_Cache c) (sdk_Offline s)"

definition cors_ok :: "cors_config \<Rightarrow> bool" where
  "cors_ok c \<longleftrightarrow> (cors_Enabled c \<and> Patterns (AllowedOriginsRegex c) \<noteq> [] \<longrightarrow> IfNoMatch (AllowedOriginsRegex c) \<noteq> [])"

definition port_ok :: "int \<Rightarrow> bool" where
  "port_ok p \<longleftrightarrow> 1 \<le> p \<and> p \<le> 65535"

definition otlp_ok :: "otlp_config \<Rightarrow> bool" where
  "otlp_ok o1 \<longleftrightarrow> (otlp_Enabled o1 \<longrightarrow> otlp_Protocol o1 \<in> {''http'', ''https'', ''grpc''})"

definition http_ok :: "http_config \<Rightarrow> bool" where
  "http_ok h \<longleftrightarrow> port_ok (http_Port h)
     \<and> (wh_Enabled (http_Webhook h) \<longrightarrow>
          (auth_User (wh_Auth (http_Webhook h)) = [] \<longleftrightarrow> auth_Password (wh_Auth (http_Webhook h)) = []))
     \<and> cors_ok (api_CORS (http_Api h)) \<and> cors_ok (ofrep_CORS (http_OFREP h))
     \<and> cors_ok (sse_CORS (http_Sse h)) \<and> cors_ok (cdn_CORS (http_CdnProxy h))"

definition diag_ok :: "diag_config \<Rightarrow> bool" where
  "diag_ok d \<longleftrightarrow> port_ok (diag_Port d)
     \<and> (IsMetricsEnabled d \<longrightarrow> otlp_ok (met_Otlp (diag_Metrics d)))
     \<and> (IsTracesEnabled d \<longrightarrow> otlp_ok (tr_Otlp (diag_Traces d)))"

definition profile_ok :: "config \<Rightarrow> bool" where
  "profile_ok c \<longleftrightarrow> (profile_IsSet (c_Profile c) \<longrightarrow>
     (prof_Secret (c_Profile c) \<noteq> [] \<or> go_Enabled (c_GlobalOfflineConfig c))
     \<and> 60 \<le> prof_PollInterval (c_Profile c)
     \<and> (prof_WebhookSigningKey (c_Profile c) \<noteq> [] \<longrightarrow> 5 \<le> prof_WebhookSignatureValidFor (c_Profile c)))"

definition cache_ok :: "cache_config \<Rightarrow> bool" where
  "cache_ok c \<longleftrightarrow>
     (redis_Enabled (Redis c) \<longrightarrow> Addresses (Redis c) \<noteq> [] \<and> tls_ok (redis_Tls (Redis c)))
     \<and> (mongo_Enabled (MongoDb c) \<longrightarrow> mongo_Url (MongoDb c) \<noteq> [] \<and> tls_ok (mongo_Tls (MongoDb c)))"

definition config_ok :: "(string \<Rightarrow> bool) \<Rightarrow> config \<Rightarrow> bool" where
  "config_ok missing c \<longleftrightarrow>
     ((\<exists>i. c_SDKs c i \<noteq> None) \<or> profile_IsSet (c_Profile c))
     \<and> profile_ok c
     \<and> (\<forall>i so. c_SDKs c i = Some so \<longrightarrow> (\<exists>s. so = Some s \<and> sdk_ok missing c s))
     \<and> tls_ok (c_Tls c) \<and> http_ok (c_Http c) \<and> diag_ok (c_Diag c) \<and> port_ok (grpc_Port (c_Grpc c))
     \<and> cache_ok (c_Cache c)
     \<and> (go_Enabled (c_GlobalOfflineConfig c) \<longrightarrow>
          redis_Enabled (Redis (c_Cache c)) \<and> 1 \<le> go_CachePollInterval (c_GlobalOfflineConfig c))"

lemma tls_Valid: "validate_tls t = Valid \<longleftrightarrow> tls_ok t"
  by (simp add: validate_tls_def tls_ok_def validate_certs_Valid)

lemma offline_Valid: "validate_offline missing c i o1 = Valid \<longleftrightarrow> offline_ok missing c o1"
  by (auto simp: validate_offline_def validate_local_def offline_ok_def first_of_Valid)

lemma sdk_Valid:
  "validate_sdk missing (c_Cache c) (c_Profile c) i so = Valid \<longleftrightarrow> (\<exists>s. so = Some s \<and> sdk_ok missing c s)"
  by (cases so) (auto simp: validate_sdk_def sdk_ok_def first_of_Valid offline_Valid)

lemma cors_Valid: "validate_cors c = Valid \<longleftrightarrow> cors_ok c"
  by (auto simp: validate_cors_def validate_origin_regex_def cors_ok_def)

lemma bad_port_ok: "bad_port p \<longleftrightarrow> \<not> port_ok p"
  by (auto simp: bad_port_def port_ok_def)

lemma http_Valid: "validate_http h = Valid \<longleftrightarrow> http_ok h"
  by (auto simp: validate_http_def http_ok_def first_of_Valid cors_Valid bad_port_ok validate_webhook_def)

lemma diag_Valid: "validate_diag d = Valid \<longleftrightarrow> diag_ok d"
  by (auto simp: validate_diag_def diag_ok_def first_of_Valid bad_port_ok validate_otlp_def otlp_ok_def)

lemma grpc_Valid: "validate_grpc g = Valid \<longleftrightarrow> port_ok (grpc_Port g)"
  by (simp add: validate_grpc_def bad_port_ok)

lemma profile_Valid:
  "(profile_IsSet (c_Profile c) \<longrightarrow> validate_profile (c_GlobalOfflineConfig c) (c_Profile c) = Valid) \<longleftrightarrow> profile_ok c"
  by (auto simp: validate_profile_def profile_ok_def first_of_Valid)

lemma cache_Valid:
  "validate_redis (Redis c) = Valid \<and> validate_mongo (MongoDb c) = Valid \<longleftrightarrow> cache_ok c"
  by (auto simp: validate_redis_def validate_mongo_def cache_ok_def first_of_Valid tls_Valid)

lemma global_offline_Valid:
  "validate_global_offline c g = Valid \<longleftrightarrow>
     (go_Enabled g \<longrightarrow> redis_Enabled (Redis c) \<and> 1 \<le> go_CachePollInterval g)"
  by (auto simp: validate_global_offline_def first_of_Valid)

lemma sdks_Valid:
  assumes "enumerates ids (c_SDKs c)"
  shows "validate_sdks missing c ids = Valid \<longleftrightarrow>
    (\<forall>i so. c_SDKs c i = Some so \<longrightarrow> (\<exists>s. so = Some s \<and> sdk_ok missing c s))"
  using assms by (auto simp: validate_sdks_Valid sdk_Valid enumerates_def)

lemma enumerates_nonempty:
  assumes "enumerates ids m"
  shows "ids = [] \<longleftrightarrow> (\<forall>i. m i = None)"
proof -
  have "ids = [] \<longleftrightarrow> dom m = {}" using assms by (metis enumerates_def set_empty)
  then show ?thesis by (auto simp: domIff)
qed

section \<open>Properties\<close>

lemma validate_config_ok:
  assumes "enumerates ids (c_SDKs c)"
  shows "validate_config missing ids c = Valid \<longleftrightarrow> config_ok missing c"
proof -
  have none: "ids = [] \<longleftrightarrow> \<not> (\<exists>i. c_SDKs c i \<noteq> None)" using enumerates_nonempty [OF assms] by simp
  have "validate_config missing ids c = Valid \<longleftrightarrow>
      \<not> (ids = [] \<and> \<not> profile_IsSet (c_Profile c))
      \<and> (profile_IsSet (c_Profile c) \<longrightarrow> validate_profile (c_GlobalOfflineConfig c) (c_Profile c) = Valid)
      \<and> validate_sdks missing c ids = Valid \<and> validate_tls (c_Tls c) = Valid \<and> validate_http (c_Http c) = Valid
      \<and> validate_diag (c_Diag c) = Valid \<and> validate_grpc (c_Grpc c) = Valid
      \<and> (validate_redis (Redis (c_Cache c)) = Valid \<and> validate_mongo (MongoDb (c_Cache c)) = Valid)
      \<and> validate_global_offline (c_Cache c) (c_GlobalOfflineConfig c) = Valid"
    unfolding validate_config_def first_of_Valid by (simp only: list.set ball_simps check_Valid) auto
  then show ?thesis
    unfolding config_ok_def sdks_Valid [OF assms] tls_Valid http_Valid diag_Valid grpc_Valid cache_Valid
      profile_Valid global_offline_Valid none by blast
qed

text \<open>
  So, whatever the order in which Go ranges over the SDKs, \<open>Config.Validate\<close> accepts exactly the
  configurations that satisfy \<open>config_ok\<close>; in particular it neither rejects nor panics on one
  of them, and it never accepts a nil SDK entry.
\<close>

definition one_sdk :: config where
  "one_sdk = (setDefaults zero_config)\<lparr>c_SDKs := [''main'' \<mapsto> Some (zero_sdk\<lparr>sdk_Key := ''key''\<rparr>)]\<rparr>"

lemma example_valid:
  assumes "sdk_Key s \<noteq> []" "sdk_DataGovernance s = []" "sdk_WebhookSigningKey s = []"
    and "validate_offline (\<lambda>f. False) (c_Cache (setDefaults zero_config)) i (sdk_Offline s) = Valid"
  shows "validate_config (\<lambda>f. False) [i] ((setDefaults zero_config)\<lparr>c_SDKs := [i \<mapsto> Some s]\<rparr>) = Valid"
  using assms
  by (simp add: validate_config_def validate_sdk_def validate_tls_def validate_http_def validate_webhook_def
      validate_cors_def validate_origin_regex_def validate_diag_def validate_otlp_def validate_grpc_def
      validate_redis_def validate_mongo_def validate_global_offline_def bad_port_def setDefaults_def
      setDefaults_http_def setDefaults_diag_def setDefaults_cache_def zero_config_def zero_http_def zero_cors_def
      zero_diag_def zero_grpc_def zero_cache_def zero_tls_def profile_IsSet_def check_def)

lemma enumerates_one_sdk: "enumerates [''main''] (c_SDKs one_sdk)"
  by (simp add: enumerates_def one_sdk_def)

lemma one_sdk_ok: "config_ok (\<lambda>f. False) one_sdk"
proof -
  have "validate_config (\<lambda>f. False) [''main''] one_sdk = Valid"
    by (simp add: one_sdk_def example_valid validate_offline_def zero_sdk_def zero_offline_def)
  then show ?thesis using validate_config_ok [OF enumerates_one_sdk] by blast
qed

text \<open>The log levels, TLS versions and intervals of a configuration, outside its SDKs.\<close>

definition used_logs :: "config \<Rightarrow> log_config list" where
  "used_logs c = [c_Log c, http_Log (c_Http c), sse_Log (http_Sse (c_Http c)), grpc_Log (c_Grpc c), prof_Log (c_Profile c),
     psdk_Log (prof_SDKs (c_Profile c)), go_Log (c_GlobalOfflineConfig c)]"

definition used_tls :: "config \<Rightarrow> tls_config list" where
  "used_tls c = [c_Tls c, redis_Tls (Redis (c_Cache c)), mongo_Tls (MongoDb (c_Cache c))]"

text \<open>The level a part of the proxy logs with: its own, or else the one it inherits.\<close>

definition level_or :: "level \<Rightarrow> log_config \<Rightarrow> level" where
  "level_or inherited l = (if GetLevel l = NoLevel then inherited else GetLevel l)"

definition version_or :: "16 word \<Rightarrow> tls_config \<Rightarrow> 16 word" where
  "version_or v t = (if GetVersion t = 0 then v else GetVersion t)"

text \<open>What becomes of one SDK in a proxy that logs with the level \<open>main\<close> and has the offline settings \<open>g\<close>.\<close>

definition sdk_fixed :: "level \<Rightarrow> global_offline_config \<Rightarrow> sdk_config \<Rightarrow> sdk_config \<Rightarrow> bool" where
  "sdk_fixed main g s0 s \<longleftrightarrow>
     GetLevel (sdk_Log s) = level_or main (sdk_Log s0)
     \<and> sdk_PollInterval s = (if sdk_PollInterval s0 = 0 then DefaultSdkPollInterval else sdk_PollInterval s0)
     \<and> sdk_WebhookSignatureValidFor s =
         (if sdk_WebhookSignatureValidFor s0 = 0 then DefaultWebhookSignatureValidFor else sdk_WebhookSignatureValidFor s0)
     \<and> local_PollInterval (off_Local (sdk_Offline s)) =
         (if local_PollInterval (off_Local (sdk_Offline s0)) = 0 then DefaultCachePollInterval
          else local_PollInterval (off_Local (sdk_Offline s0)))
     \<and> (if go_Enabled g \<and> \<not> off_Enabled (sdk_Offline s0)
        then off_Enabled (sdk_Offline s) \<and> off_UseCache (sdk_Offline s)
          \<and> off_CachePollInterval (sdk_Offline s) = go_CachePollInterval g
          \<and> GetLevel (off_Log (sdk_Offline s)) = GetLevel (go_Log g)
        else off_Enabled (sdk_Offline s) = off_Enabled (sdk_Offline s0)
          \<and> off_UseCache (sdk_Offline s) = off_UseCache (sdk_Offline s0)
          \<and> off_CachePollInterval (sdk_Offline s) =
              (if off_CachePollInterval (sdk_Offline s0) = 0 then DefaultCachePollInterval
               else off_CachePollInterval (sdk_Offline s0))
          \<and> GetLevel (off_Log (sdk_Offline s)) = level_or main (off_Log (sdk_Offline s0)))"

lemma default_intervals:
  "DefaultSdkPollInterval \<noteq> 0" "DefaultWebhookSignatureValidFor \<noteq> 0" "DefaultCachePollInterval \<noteq> 0"
  "DefaultAutoSdkPollInterval \<noteq> 0"
  by (simp_all add: DefaultSdkPollInterval_def DefaultWebhookSignatureValidFor_def DefaultCachePollInterval_def
      DefaultAutoSdkPollInterval_def)

lemma GetLevel_fix: "GetLevel (fix_level d l) = level_or (GetLevel \<lparr>Level = d\<rparr>) l"
  by (cases l) (simp add: fix_level_def level_or_def GetLevel_def)

lemma GetVersion_fix: "GetVersion (fix_tls tls12 t) = version_or 0x0303 t"
proof -
  have "allowedTlsVersions tls12 = Some 0x0303" by code_simp
  then show ?thesis
    using GetVersion_nonzero [of t] by (auto simp: fix_tls_def version_or_def GetVersion_def)
qed

lemma sdk_fixed_all:
  "sdk_fixed (GetLevel \<lparr>Level = d\<rparr>) g s (fixupDefaults_sdk (fixupLogLevels_sdk d s)) \<or> go_Enabled g"
  "go_Enabled g \<Longrightarrow>
     sdk_fixed (GetLevel \<lparr>Level = d\<rparr>) g s (fixupOffline_sdk g (fixupDefaults_sdk (fixupLogLevels_sdk d s)))"
  by (simp_all add: sdk_fixed_def fixupOffline_sdk_def fixupDefaults_sdk_def fixupLogLevels_sdk_def GetLevel_fix zero_to_def)

text \<open>What the fix-ups do to the configuration, field by field.\<close>

lemma compile_frame:
  "on_field c_Http c_Http_update (compileOriginRegexes compile) c = Inr c' \<Longrightarrow>
     used_logs c' = used_logs c \<and> used_tls c' = used_tls c \<and> c_Profile c' = c_Profile c \<and> c_SDKs c' = c_SDKs c
     \<and> c_GlobalOfflineConfig c' = c_GlobalOfflineConfig c \<and> c_Log c' = c_Log c"
  by (auto simp: compileOriginRegexes_def on_field_def used_logs_def used_tls_def split: sum.splits)

lemma used_logs_fixups:
  "used_logs (fixupOffline c) = used_logs c" "used_logs (fixupTlsMinVersions v c) = used_logs c"
  "used_logs (fixupDefaults c) = used_logs c"
  "used_logs (fixupLogLevels d c) = c_Log c # map (fix_level d) (tl (used_logs c))"
  by (simp_all add: used_logs_def fixupOffline_def fixupTlsMinVersions_def fixupDefaults_def fixupLogLevels_def
      on_sdks_def Let_def)

lemma fixup_all_logs:
  "map GetLevel (used_logs (fixup_all c)) = map (level_or (level_or Warn (c_Log c))) (used_logs c)"
  "GetLevel (c_Log (fixup_all c)) = level_or Warn (c_Log c)"
proof -
  define c1 where "c1 = (if GetLevel (c_Log c) = NoLevel then c\<lparr>c_Log := (c_Log c)\<lparr>Level := ''warn''\<rparr>\<rparr> else c)"
  have lvl: "GetLevel \<lparr>Level = Level l\<rparr> = GetLevel l" for l by (simp add: GetLevel_def)
  have main: "GetLevel (c_Log c1) = level_or Warn (c_Log c)"
    by (simp add: c1_def level_or_def) (simp add: GetLevel_def log_level_of_def)
  have own: "level_or (level_or Warn l) l = level_or Warn l" for l by (simp add: level_or_def)
  have tl: "used_logs c = c_Log c # tl (used_logs c)" "tl (used_logs c1) = tl (used_logs c)"
    by (simp_all add: used_logs_def c1_def)
  have "used_logs (fixup_all c) = c_Log c1 # map (fix_level (Level (c_Log c1))) (tl (used_logs c1))"
    by (simp add: fixup_all_def Let_def used_logs_fixups flip: c1_def)
  then have "map GetLevel (used_logs (fixup_all c)) = map (level_or (level_or Warn (c_Log c))) (c_Log c # tl (used_logs c))"
    by (simp add: tl(2) main GetLevel_fix lvl own)
  then show all: "map GetLevel (used_logs (fixup_all c)) = map (level_or (level_or Warn (c_Log c))) (used_logs c)"
    using tl(1) by simp
  then show "GetLevel (c_Log (fixup_all c)) = level_or Warn (c_Log c)" by (simp add: used_logs_def own)
qed

lemma fixup_all_tls: "map GetVersion (used_tls (fixup_all c)) = map (version_or 0x0303) (used_tls c)"
  by (simp add: used_tls_def fixup_all_def Let_def fixupOffline_def fixupTlsMinVersions_def fixupDefaults_def
      fixupLogLevels_def on_sdks_def GetVersion_fix)

lemma fixup_all_intervals:
  "prof_PollInterval (c_Profile (fixup_all c)) = zero_to DefaultAutoSdkPollInterval (prof_PollInterval (c_Profile c))"
  "prof_WebhookSignatureValidFor (c_Profile (fixup_all c)) =
     zero_to DefaultWebhookSignatureValidFor (prof_WebhookSignatureValidFor (c_Profile c))"
  "go_CachePollInterval (c_GlobalOfflineConfig (fixup_all c)) =
     zero_to DefaultCachePollInterval (go_CachePollInterval (c_GlobalOfflineConfig c))"
  by (simp_all add: fixup_all_def Let_def fixupOffline_def fixupTlsMinVersions_def fixupDefaults_def
      fixupLogLevels_def on_sdks_def)

lemma fixup_all_sdks:
  "rel_option (rel_option (sdk_fixed (level_or Warn (c_Log c)) (c_GlobalOfflineConfig (fixup_all c))))
     (c_SDKs c i) (c_SDKs (fixup_all c) i)"
proof -
  define c1 where "c1 = (if GetLevel (c_Log c) = NoLevel then c\<lparr>c_Log := (c_Log c)\<lparr>Level := ''warn''\<rparr>\<rparr> else c)"
  define d where "d = Level (c_Log c1)"
  define c4 where "c4 = fixupTlsMinVersions tls12 (fixupDefaults (fixupLogLevels d c1))"
  have all: "fixup_all c = fixupOffline c4" unfolding fixup_all_def c1_def c4_def d_def Let_def ..
  have d: "GetLevel \<lparr>Level = d\<rparr> = level_or Warn (c_Log c)"
    by (simp add: d_def c1_def level_or_def GetLevel_def log_level_of_def)
  have g: "c_GlobalOfflineConfig (fixupOffline c4) = c_GlobalOfflineConfig c4"
    by (simp add: fixupOffline_def on_sdks_def)
  have "c_SDKs c4 i = map_option (map_option (\<lambda>s. fixupDefaults_sdk (fixupLogLevels_sdk d s))) (c_SDKs c i)"
    by (simp add: c4_def c1_def fixupTlsMinVersions_def fixupDefaults_def fixupLogLevels_def on_sdks_def Let_def
        option.map_comp comp_def)
  then show ?thesis
    using sdk_fixed_all [where d = d and g = "c_GlobalOfflineConfig c4"]
    by (cases "go_Enabled (c_GlobalOfflineConfig c4)")
      (auto simp: all g d [symmetric] fixupOffline_def on_sdks_def rel_option_iff split: option.split)
qed


definition no_config_file :: files where
  "no_config_file = \<lparr>os_stat = (\<lambda>p. StatNotExist ''missing''), eval_symlinks = (\<lambda>p. Inr p), read_file = (\<lambda>p. Inl ''missing''),
     yaml_unmarshal = (\<lambda>b c. Inr c), default_path = None\<rparr>"

definition plain_decoders :: decoders where
  "plain_decoders = \<lparr>dec_float = (\<lambda>s. Inl ''float''), dec_strlist = (\<lambda>s. Inr [s]), dec_certs = (\<lambda>s. Inr []),
     dec_strmap = (\<lambda>s. Inr [(''main'', s)]), dec_attrs = (\<lambda>s. Inr None), int_error = (\<lambda>s. ''int''), bool_error = (\<lambda>s. ''bool'')\<rparr>"


end
