(* ===== verification/Logger.thy ===== *)
theory Logger
  imports Config
begin

text \<open>
  \<open>log/logger.go\<close>: levels, prefixes and the two writers. A line is what is handed to \<open>Printf\<close>:
  the writer, the format text and the values. The null logger has no writers: printing with it
  would dereference nil, which is the outcome \<open>NilWriter\<close>.
\<close>

section \<open>Definitions\<close>

datatype writer = ErrorWriter | OutWriter

record logger =
  lg_level :: level
  lg_has_writers :: bool
  lg_prefix :: string

datatype 'a log_outcome = NoLine | Line writer string "'a list" | NilWriter

definition NewNullLogger :: logger where
  "NewNullLogger = \<lparr>lg_level = NoLevel, lg_has_writers = False, lg_prefix = []\<rparr>"

definition NewDebugLogger :: logger where
  "NewDebugLogger = \<lparr>lg_level = Debug, lg_has_writers = True, lg_prefix = []\<rparr>"

definition NewLogger :: "level \<Rightarrow> logger" where
  "NewLogger lvl = \<lparr>lg_level = lvl, lg_has_writers = True, lg_prefix = []\<rparr>"

definition WithLevel :: "level \<Rightarrow> logger \<Rightarrow> logger" where
  "WithLevel lvl l = \<lparr>lg_level = lvl, lg_has_writers = lg_has_writers l, lg_prefix = lg_prefix l\<rparr>"

definition WithPrefix :: "string \<Rightarrow> logger \<Rightarrow> logger" where
  "WithPrefix prefix l =
     \<lparr>lg_level = lg_level l, lg_has_writers = lg_has_writers l,
      lg_prefix = (if lg_prefix l \<noteq> [] then lg_prefix l @ ''/'' @ prefix else prefix)\<rparr>"

datatype configcat_level = LogLevelDebug | LogLevelInfo | LogLevelWarn | LogLevelError | LogLevelNone

fun GetConfigCatLevel :: "level \<Rightarrow> configcat_level" where
  "GetConfigCatLevel Debug = LogLevelDebug"
| "GetConfigCatLevel Info = LogLevelInfo"
| "GetConfigCatLevel Warn = LogLevelWarn"
| "GetConfigCatLevel Error = LogLevelError"
| "GetConfigCatLevel NoLevel = LogLevelNone"

fun level_prefix :: "level \<Rightarrow> string" where
  "level_prefix Debug = ''[debug]''"
| "level_prefix Info = ''[info]''"
| "level_prefix Warn = ''[warning]''"
| "level_prefix Error = ''[error]''"
| "level_prefix NoLevel = []"

definition print_line :: "logger \<Rightarrow> writer \<Rightarrow> string \<Rightarrow> 'a list \<Rightarrow> 'a log_outcome" where
  "print_line l wr fmt args = (if lg_has_writers l then Line wr fmt args else NilWriter)"

definition logf :: "logger \<Rightarrow> level \<Rightarrow> string \<Rightarrow> 'a list \<Rightarrow> 'a log_outcome" where
  "logf l lvl fmt args =
     (if lvl \<ge> lg_level l
      then (let lo = (if lvl = Error then ErrorWriter else OutWriter);
                pref = (if lg_prefix l \<noteq> [] then '' <'' @ lg_prefix l @ ''>'' else [])
            in print_line l lo (level_prefix lvl @ pref @ '' '' @ fmt) args)
      else NoLine)"

definition Debugf :: "logger \<Rightarrow> string \<Rightarrow> 'a list \<Rightarrow> 'a log_outcome" where "Debugf l = logf l Debug"
definition Infof :: "logger \<Rightarrow> string \<Rightarrow> 'a list \<Rightarrow> 'a log_outcome" where "Infof l = logf l Info"
definition Warnf :: "logger \<Rightarrow> string \<Rightarrow> 'a list \<Rightarrow> 'a log_outcome" where "Warnf l = logf l Warn"
definition Errorf :: "logger \<Rightarrow> string \<Rightarrow> 'a list \<Rightarrow> 'a log_outcome" where "Errorf l = logf l Error"

definition Reportf :: "logger \<Rightarrow> string \<Rightarrow> 'a list \<Rightarrow> 'a log_outcome" where
  "Reportf l fmt args =
     (if lg_level l = NoLevel then NoLine
      else if lg_prefix l = [] then print_line l OutWriter fmt args
      else print_line l OutWriter (''<'' @ lg_prefix l @ ''> '' @ fmt) args)"

section \<open>Lemmas\<close>

lemmas logger_simps = logf_def Debugf_def Infof_def Warnf_def Errorf_def Reportf_def print_line_def
  WithLevel_def WithPrefix_def NewLogger_def NewNullLogger_def less_eq_level_def Let_def

text \<open>A logger without writers and without a level stays silent under every message the code sends.\<close>

lemma null_logger_silent:
  assumes "lg_level l = NoLevel" and "lvl \<noteq> NoLevel"
  shows "logf l lvl fmt args = NoLine" and "Reportf l fmt args = NoLine"
  using assms by (cases lvl; simp add: logger_simps)+

lemma logf_iff:
  "lg_has_writers l \<Longrightarrow> logf l lvl fmt args \<noteq> NoLine \<longleftrightarrow> lg_level l \<le> lvl"
  by (simp add: logger_simps)

definition nested_prefix :: "string list \<Rightarrow> logger \<Rightarrow> logger" where
  "nested_prefix ps l = foldl (\<lambda>l p. WithPrefix p l) l ps"

lemma nested_prefix_path:
  assumes "\<forall>p \<in> set ps. p \<noteq> []" and "lg_prefix l \<noteq> []"
  shows "lg_prefix (nested_prefix ps l) = join_with ''/'' (lg_prefix l # ps)"
  using assms
proof (induction ps arbitrary: l)
  case (Cons p ps)
  have join: "join_with ''/'' ((a @ ''/'' @ b) # xs) = join_with ''/'' (a # b # xs)" for a b xs
    by (cases xs) auto
  have "lg_prefix (nested_prefix (p # ps) l) = join_with ''/'' (lg_prefix (WithPrefix p l) # ps)"
    using Cons by (simp add: nested_prefix_def WithPrefix_def)
  then show ?case using Cons.prems join [of "lg_prefix l" p ps] by (simp add: WithPrefix_def)
qed (simp add: nested_prefix_def)

lemma with_frames [simp]:
  "lg_level (WithLevel lvl l) = lvl" "lg_level (WithPrefix p l) = lg_level l"
  "lg_has_writers (WithLevel lvl l) = lg_has_writers l" "lg_has_writers (WithPrefix p l) = lg_has_writers l"
  by (simp_all add: WithLevel_def WithPrefix_def)

end
