(* ===== verification/Status.thy ===== *)
theory Status
  imports Config
begin

text \<open>
  \<open>diag/status/status.go\<close> and \<open>diag/status/mware.go\<close>: the status reporter. Its maps are
  association lists, in the order the runtime iterates them; each exported method takes the
  mutex for its whole body, so an operation is one state change. Time and its RFC 1123 format
  are inputs. \<open>UpdateSdk\<close> dereferences the entry of the SDK and panics (\<open>None\<close>) when it is
  missing.
\<close>

section \<open>Definitions\<close>

datatype sdk_source = FileSrc | RemoteSrc | CacheSrc
datatype health = Healthy | Degraded | Initializing | Down | NA
datatype sdk_mode = OfflineMode | OnlineMode

definition cache_component :: string where "cache_component = ''cache''"
definition maxRecordCount :: nat where "maxRecordCount = 5"
definition maxLastErrorsMeaningDegraded :: int where "maxLastErrorsMeaningDegraded = 2"

record rep_record =
  r_time :: int
  r_isError :: bool
  r_message :: string

record sdk_status =
  ss_SdkKey :: string
  ss_Mode :: sdk_mode
  ss_Type :: sdk_source
  ss_Status :: health
  ss_Records :: "string list"

record reporter =
  rep_records :: "(string \<times> rep_record list) list"
  rep_Status :: health
  rep_SDKs :: "(string \<times> sdk_status) list"
  rep_CacheStatus :: health
  rep_CacheRecords :: "string list"
  rep_conf :: cache_config

definition NewReporter :: "cache_config \<Rightarrow> reporter" where
  "NewReporter conf =
     \<lparr>rep_records = [], rep_Status = Initializing, rep_SDKs = [],
      rep_CacheStatus = Initializing, rep_CacheRecords = [], rep_conf = conf\<rparr>"

definition NewEmptyReporter :: reporter where
  "NewEmptyReporter = NewReporter zero_cache"

definition reCalcStatus :: "reporter \<Rightarrow> reporter" where
  "reCalcStatus r =
     (let allSdksDown = list_all (\<lambda>(k, s). ss_Status s = Down) (rep_SDKs r);
          hasDegradedSdk = list_ex (\<lambda>(k, s). ss_Status s \<noteq> Healthy) (rep_SDKs r)
      in if \<not> hasDegradedSdk \<and> \<not> allSdksDown then r\<lparr>rep_Status := Healthy\<rparr>
         else (let r1 = (if hasDegradedSdk then r\<lparr>rep_Status := Degraded\<rparr> else r)
               in if allSdksDown then r1\<lparr>rep_Status := Down\<rparr> else r1))"

text \<open>The loop of \<open>checkStatus\<close>: index, lines so far, error count.\<close>

fun check_loop ::
  "(int \<Rightarrow> string) \<Rightarrow> int \<Rightarrow> int \<Rightarrow> rep_record list \<Rightarrow> string list \<Rightarrow> int \<Rightarrow> string list \<times> int" where
  "check_loop fmt len i [] lines errorCount = (lines, errorCount)"
| "check_loop fmt len i (msg # ms) lines errorCount =
     check_loop fmt len (i + 1) ms (lines @ [fmt (r_time msg) @ '': '' @ r_message msg])
       (if i \<ge> len - maxLastErrorsMeaningDegraded
        then (if r_isError msg then errorCount + 1 else errorCount - 1) else errorCount)"

definition checkStatus :: "(int \<Rightarrow> string) \<Rightarrow> rep_record list \<Rightarrow> string list \<times> health" where
  "checkStatus fmt records =
     (let len = int (length records);
          (targetRecords, errorCount) = check_loop fmt len 0 records [] 0
      in if errorCount > 0 \<and> errorCount \<ge> min maxLastErrorsMeaningDegraded len
         then (targetRecords, Degraded) else (targetRecords, Healthy))"

definition push_record :: "rep_record \<Rightarrow> rep_record list \<Rightarrow> rep_record list" where
  "push_record x recs =
     (let recs' = recs @ [x] in if length recs' > maxRecordCount then tl recs' else recs')"

definition appendRecord ::
  "(int \<Rightarrow> string) \<Rightarrow> int \<Rightarrow> string \<Rightarrow> string \<Rightarrow> bool \<Rightarrow> reporter \<Rightarrow> reporter" where
  "appendRecord fmt now component message isError r =
     (let message' = (if isError then ''[error] '' @ message else ''[ok] '' @ message);
          recs0 = (case map_of (rep_records r) component of None \<Rightarrow> [] | Some rs \<Rightarrow> rs);
          recs = push_record \<lparr>r_time = now, r_isError = isError, r_message = message'\<rparr> recs0;
          r1 = r\<lparr>rep_records := AList.update component recs (rep_records r)\<rparr>;
          (rec_lines, stat) = checkStatus fmt recs
      in if component = cache_component
         then r1\<lparr>rep_CacheRecords := rec_lines, rep_CacheStatus := stat\<rparr>
         else (case map_of (rep_SDKs r1) component of
                 None \<Rightarrow> r1
               | Some sdk \<Rightarrow>
                   (let stat' = (if stat = Degraded \<and> (ss_Status sdk = Initializing \<or> ss_Status sdk = Down)
                                 then Down else stat)
                    in reCalcStatus (r1\<lparr>rep_SDKs := AList.update component
                         (sdk\<lparr>ss_Records := rec_lines, ss_Status := stat'\<rparr>) (rep_SDKs r1)\<rparr>))))"

definition RegisterSdk :: "(int \<Rightarrow> string) \<Rightarrow> int \<Rightarrow> string \<Rightarrow> sdk_config \<Rightarrow> reporter \<Rightarrow> reporter" where
  "RegisterSdk fmt now sdkId conf r =
     (let offline = off_Enabled (sdk_Offline conf);
          file = FilePath (off_Local (sdk_Offline conf)) \<noteq> [];
          status = \<lparr>ss_SdkKey = Obfuscate (sdk_Key conf) 5,
                    ss_Mode = (if offline then OfflineMode else OnlineMode),
                    ss_Type = (if offline then (if file then FileSrc else CacheSrc) else RemoteSrc),
                    ss_Status = Initializing, ss_Records = []\<rparr>;
          r1 = r\<lparr>rep_SDKs := AList.update sdkId status (rep_SDKs r)\<rparr>;
          r2 = (if offline \<and> file then r1\<lparr>rep_CacheStatus := NA\<rparr> else r1)
      in if \<not> cache_IsSet (rep_conf r2)
         then (let r3 = r2\<lparr>rep_CacheStatus := NA\<rparr>
               in if ss_Type status = CacheSrc
                  then appendRecord fmt now sdkId ''cache offline source enabled without a configured cache'' True r3
                  else r3)
         else r2)"

definition UpdateSdk :: "string \<Rightarrow> sdk_config \<Rightarrow> reporter \<Rightarrow> reporter option" where
  "UpdateSdk sdkId conf r =
     (case map_of (rep_SDKs r) sdkId of
        None \<Rightarrow> None
      | Some status \<Rightarrow> Some (r\<lparr>rep_SDKs :=
          AList.update sdkId (status\<lparr>ss_SdkKey := Obfuscate (sdk_Key conf) 5\<rparr>) (rep_SDKs r)\<rparr>))"

definition RemoveSdk :: "string \<Rightarrow> reporter \<Rightarrow> reporter" where
  "RemoveSdk sdkId r =
     reCalcStatus (r\<lparr>rep_SDKs := AList.delete sdkId (rep_SDKs r),
                     rep_records := AList.delete sdkId (rep_records r)\<rparr>)"

definition ReportOk :: "(int \<Rightarrow> string) \<Rightarrow> int \<Rightarrow> string \<Rightarrow> string \<Rightarrow> reporter \<Rightarrow> reporter" where
  "ReportOk fmt now component message r = appendRecord fmt now component message False r"

definition ReportError :: "(int \<Rightarrow> string) \<Rightarrow> int \<Rightarrow> string \<Rightarrow> string \<Rightarrow> reporter \<Rightarrow> reporter" where
  "ReportError fmt now component message r = appendRecord fmt now component message True r"

text \<open>
  \<open>InterceptSdk\<close>: what one round trip of the SDK's HTTP client reports: a transport error or
  a response with its status code and status line.
\<close>

fun RoundTrip_report ::
  "(int \<Rightarrow> string) \<Rightarrow> int \<Rightarrow> string \<Rightarrow> string + (int \<times> string) \<Rightarrow> reporter \<Rightarrow> reporter" where
  "RoundTrip_report fmt now sdkId (Inl err) r = ReportError fmt now sdkId ''config fetch failed'' r"
| "RoundTrip_report fmt now sdkId (Inr (code, line)) r =
     (if code \<ge> 200 \<and> code < 300 then ReportOk fmt now sdkId ''config fetched'' r
      else if code = 304 then ReportOk fmt now sdkId ''config not modified'' r
      else ReportError fmt now sdkId (''unexpected response received: '' @ line) r)"

subsection \<open>The reporter as a machine\<close>

datatype rep_op =
    RegisterOp string sdk_config int
  | UpdateOp string sdk_config
  | RemoveOp string
  | ReportOp string string bool int

fun rep_step :: "(int \<Rightarrow> string) \<Rightarrow> reporter \<Rightarrow> rep_op \<Rightarrow> reporter" where
  "rep_step fmt r (RegisterOp i conf now) = RegisterSdk fmt now i conf r"
| "rep_step fmt r (UpdateOp i conf) = (case UpdateSdk i conf r of None \<Rightarrow> r | Some r' \<Rightarrow> r')"
| "rep_step fmt r (RemoveOp i) = RemoveSdk i r"
| "rep_step fmt r (ReportOp c m isError now) =
     (if isError then ReportError fmt now c m r else ReportOk fmt now c m r)"

section \<open>Lemmas\<close>

named_theorems status_simps \<open>evaluation of the reporter\<close>

lemmas [status_simps] = cache_component_def maxRecordCount_def maxLastErrorsMeaningDegraded_def
  NewReporter_def reCalcStatus_def checkStatus_def push_record_def appendRecord_def RegisterSdk_def
  UpdateSdk_def RemoveSdk_def ReportOk_def ReportError_def

subsection \<open>The verdict over a window of records\<close>

lemma check_loop_lines:
  "fst (check_loop fmt len i ms lines n) = lines @ map (\<lambda>m. fmt (r_time m) @ '': '' @ r_message m) ms"
  by (induction fmt len i ms lines n rule: check_loop.induct) auto

lemma check_loop_count:
  "i + int (length ms) = len \<Longrightarrow> snd (check_loop fmt len i ms lines n) =
     n + (\<Sum>m \<leftarrow> drop (nat (len - 2 - i)) ms. if r_isError m then 1 else - 1)"
proof (induction ms arbitrary: i lines n)
  case (Cons m ms)
  have ih: "snd (check_loop fmt len (i + 1) ms lines' n') =
      n' + (\<Sum>m \<leftarrow> drop (nat (len - 2 - (i + 1))) ms. if r_isError m then 1 else - 1)" for lines' n'
    by (rule Cons.IH) (use Cons.prems in simp)
  show ?case
  proof (cases "i \<ge> len - 2")
    case True
    then have "nat (len - 2 - i) = 0" "nat (len - 2 - (i + 1)) = 0" by auto
    with True show ?thesis by (simp add: ih maxLastErrorsMeaningDegraded_def)
  next
    case False
    then have "nat (len - 2 - i) = Suc (nat (len - 2 - (i + 1)))" by linarith
    with False show ?thesis by (simp add: ih maxLastErrorsMeaningDegraded_def)
  qed
qed simp

definition recent_errors :: "bool list \<Rightarrow> bool" where
  "recent_errors es \<longleftrightarrow> es \<noteq> [] \<and> (\<forall>e \<in> set (drop (length es - 2) es). e)"

lemma two_cases: "xs = [] \<or> (\<exists>x. xs = [x]) \<or> (\<exists>ys x y. xs = ys @ [x, y])"
proof (cases xs rule: rev_cases)
  case (snoc ys y)
  then show ?thesis by (cases ys rule: rev_cases) auto
qed simp

lemma checkStatus_eq:
  "checkStatus fmt rs =
     (map (\<lambda>m. fmt (r_time m) @ '': '' @ r_message m) rs,
      let n = (\<Sum>m \<leftarrow> drop (length rs - 2) rs. if r_isError m then 1 else - 1) :: int
      in if n > 0 \<and> n \<ge> min 2 (int (length rs)) then Degraded else Healthy)"
proof -
  let ?p = "check_loop fmt (int (length rs)) 0 rs [] 0"
  have "snd ?p = (\<Sum>m \<leftarrow> drop (nat (int (length rs) - 2)) rs. if r_isError m then 1 else - 1)"
    using check_loop_count [of 0 rs "int (length rs)" fmt "[]" 0] by simp
  moreover have "nat (int (length rs) - 2) = length rs - 2" by linarith
  moreover have "fst ?p = map (\<lambda>m. fmt (r_time m) @ '': '' @ r_message m) rs"
    using check_loop_lines [of fmt "int (length rs)" 0 rs "[]" 0] by simp
  ultimately have "?p = (map (\<lambda>m. fmt (r_time m) @ '': '' @ r_message m) rs,
      \<Sum>m \<leftarrow> drop (length rs - 2) rs. if r_isError m then 1 else - 1)"
    by (metis prod.collapse)
  then show ?thesis
    by (simp add: checkStatus_def maxLastErrorsMeaningDegraded_def Let_def)
qed

lemma checkStatus_health:
  "snd (checkStatus fmt rs) = (if recent_errors (map r_isError rs) then Degraded else Healthy)"
proof -
  consider "rs = []" | x where "rs = [x]" | ys x y where "rs = ys @ [x, y]"
    using two_cases [of rs] by blast
  then show ?thesis
  proof cases
    case 3
    then have "drop (length rs - 2) rs = [x, y]"
      "drop (length rs - 2) (map r_isError rs) = [r_isError x, r_isError y]" by simp_all
    with 3 show ?thesis by (simp add: checkStatus_eq recent_errors_def)
  qed (simp_all add: checkStatus_eq recent_errors_def)
qed

lemma recent_errors_snoc:
  "recent_errors (es @ [e]) \<longleftrightarrow> e \<and> (es = [] \<or> last es)"
  by (cases es rule: rev_cases) (auto simp: recent_errors_def)

lemma recent_errors_window:
  "recent_errors (drop (length es - 5) es) \<longleftrightarrow> recent_errors es"
proof (cases "length es \<le> 5")
  case False
  then have "drop (length (drop (length es - 5) es) - 2) (drop (length es - 5) es) = drop (length es - 2) es"
    by (simp add: add.commute numeral_2_eq_2)
  with False show ?thesis unfolding recent_errors_def by (metis drop_eq_Nil not_le_imp_less
        diff_less length_greater_0_conv list.size(3) not_less zero_less_numeral le0)
qed simp

subsection \<open>Registration and frames\<close>

lemma reCalc_frame [simp]:
  "rep_SDKs (reCalcStatus r) = rep_SDKs r" "rep_records (reCalcStatus r) = rep_records r"
  "rep_CacheStatus (reCalcStatus r) = rep_CacheStatus r" "rep_conf (reCalcStatus r) = rep_conf r"
  "rep_CacheRecords (reCalcStatus r) = rep_CacheRecords r"
  by (simp_all add: reCalcStatus_def Let_def)

lemma append_other:
  "c \<noteq> i \<Longrightarrow> map_of (rep_SDKs (appendRecord fmt now c m e r)) i = map_of (rep_SDKs r) i"
  "c \<noteq> i \<Longrightarrow> map_of (rep_records (appendRecord fmt now c m e r)) i = map_of (rep_records r) i"
  by (auto simp: appendRecord_def Let_def update_conv' split: option.splits prod.splits)

lemma append_records:
  "map_of (rep_records (appendRecord fmt now c m e r)) c =
     Some (push_record \<lparr>r_time = now, r_isError = e,
             r_message = (if e then ''[error] '' @ m else ''[ok] '' @ m)\<rparr>
            (case map_of (rep_records r) c of None \<Rightarrow> [] | Some rs \<Rightarrow> rs))"
  by (auto simp: appendRecord_def Let_def update_conv' split: option.splits prod.splits)

lemma append_status:
  assumes "c \<noteq> cache_component" and "map_of (rep_SDKs r) c = Some sdk"
    and "map_of (rep_records (appendRecord fmt now c m e r)) c = Some rs"
  shows "\<exists>sdk'. map_of (rep_SDKs (appendRecord fmt now c m e r)) c = Some sdk' \<and>
    ss_Status sdk' =
      (let stat = snd (checkStatus fmt rs)
       in if stat = Degraded \<and> (ss_Status sdk = Initializing \<or> ss_Status sdk = Down) then Down else stat)"
  using assms unfolding append_records
  by (auto simp: appendRecord_def Let_def update_conv' split: option.splits prod.splits)

lemma register_other:
  "j \<noteq> i \<Longrightarrow> map_of (rep_SDKs (RegisterSdk fmt now j conf r)) i = map_of (rep_SDKs r) i"
  "j \<noteq> i \<Longrightarrow> map_of (rep_records (RegisterSdk fmt now j conf r)) i = map_of (rep_records r) i"
  by (auto simp: RegisterSdk_def Let_def append_other update_conv')

lemma update_other:
  "UpdateSdk j conf r = Some r' \<Longrightarrow> j \<noteq> i \<Longrightarrow> map_of (rep_SDKs r') i = map_of (rep_SDKs r) i"
  "UpdateSdk j conf r = Some r' \<Longrightarrow> map_of (rep_records r') i = map_of (rep_records r) i"
  by (auto simp: UpdateSdk_def update_conv' split: option.splits)

lemma update_status:
  "UpdateSdk j conf r = Some r' \<Longrightarrow>
   map_option ss_Status (map_of (rep_SDKs r') i) = map_option ss_Status (map_of (rep_SDKs r) i)"
  by (auto simp: UpdateSdk_def update_conv' split: option.splits)

lemma remove_other:
  "j \<noteq> i \<Longrightarrow> map_of (rep_SDKs (RemoveSdk j r)) i = map_of (rep_SDKs r) i"
  "j \<noteq> i \<Longrightarrow> map_of (rep_records (RemoveSdk j r)) i = map_of (rep_records r) i"
  by (simp_all add: RemoveSdk_def delete_conv')

subsection \<open>The status of an SDK as a function of its whole history\<close>

text \<open>
  The specification: what the status page promises about an SDK, given every report since
  its registration (\<open>True\<close> for an error), without the five-record window and without the
  previous status.
\<close>

definition history_status :: "bool list \<Rightarrow> health" where
  "history_status es =
     (if es = [] then Initializing
      else if \<forall>e \<in> set es. e then Down
      else if recent_errors es then Degraded
      else Healthy)"

fun reports_of :: "string \<Rightarrow> rep_op list \<Rightarrow> bool list" where
  "reports_of i [] = []"
| "reports_of i (ReportOp c m e now # ops) = (if c = i then e # reports_of i ops else reports_of i ops)"
| "reports_of i (_ # ops) = reports_of i ops"

text \<open>Operations that do not register or remove the SDK.\<close>

fun keeps_sdk :: "string \<Rightarrow> rep_op \<Rightarrow> bool" where
  "keeps_sdk i (RegisterOp j conf now) \<longleftrightarrow> j \<noteq> i"
| "keeps_sdk i (RemoveOp j) \<longleftrightarrow> j \<noteq> i"
| "keeps_sdk i _ \<longleftrightarrow> True"

definition tracks :: "string \<Rightarrow> bool list \<Rightarrow> reporter \<Rightarrow> bool" where
  "tracks i es r \<longleftrightarrow>
     i \<noteq> cache_component
     \<and> map_option (map r_isError) (map_of (rep_records r) i) =
         (if es = [] then None else Some (drop (length es - 5) es))
     \<and> map_option ss_Status (map_of (rep_SDKs r) i) = Some (history_status es)"

lemma push_window:
  assumes "map r_isError recs = drop (length es - 5) es"
  shows "map r_isError (push_record x recs) = drop (length (es @ [r_isError x]) - 5) (es @ [r_isError x])"
proof -
  have "length recs = min 5 (length es)"
    using arg_cong [OF assms, of length] by simp
  show ?thesis
  proof (cases "length es < 5")
    case True
    with assms \<open>length recs = min 5 (length es)\<close> show ?thesis
      by (simp add: push_record_def maxRecordCount_def)
  next
    case False
    then have "Suc (length es - 5) = length es - 4" by simp
    then have "tl (drop (length es - 5) es) = drop (length es - 4) es"
      by (metis drop_Suc tl_drop)
    with assms have "map r_isError (tl recs) = drop (length es - 4) es" by (simp add: map_tl)
    with False \<open>length recs = min 5 (length es)\<close> show ?thesis
      by (cases recs) (simp_all add: push_record_def maxRecordCount_def)
  qed
qed

lemma history_step:
  "history_status (es @ [e]) =
     (let stat = (if recent_errors (es @ [e]) then Degraded else Healthy)
      in if stat = Degraded \<and> (history_status es = Initializing \<or> history_status es = Down)
         then Down else stat)"
proof -
  have "\<forall>x \<in> set es. x \<Longrightarrow> es \<noteq> [] \<Longrightarrow> last es" using last_in_set by blast
  moreover have "recent_errors [e] \<longleftrightarrow> e" using recent_errors_snoc [of "[]" e] by simp
  ultimately show ?thesis
    by (cases "e"; cases "es = []"; cases "\<forall>x \<in> set es. x"; cases "recent_errors es")
      (simp_all add: history_status_def recent_errors_snoc Let_def)
qed

lemma tracks_report:
  assumes t: "tracks i es r"
  shows "tracks i (es @ [e]) (appendRecord fmt now i m e r)"
proof -
  let ?x = "\<lparr>r_time = now, r_isError = e, r_message = (if e then ''[error] '' @ m else ''[ok] '' @ m)\<rparr>"
  let ?recs = "case map_of (rep_records r) i of None \<Rightarrow> [] | Some rs \<Rightarrow> rs"
  have "map r_isError ?recs = drop (length es - 5) es"
    using t by (cases "map_of (rep_records r) i") (auto simp: tracks_def split: if_splits)
  then have w: "map r_isError (push_record ?x ?recs) = drop (length (es @ [e]) - 5) (es @ [e])"
    using push_window [of ?recs es ?x] by simp
  have recs: "map_of (rep_records (appendRecord fmt now i m e r)) i = Some (push_record ?x ?recs)"
    by (rule append_records)
  obtain sdk where sdk: "map_of (rep_SDKs r) i = Some sdk" "ss_Status sdk = history_status es"
    using t by (auto simp: tracks_def)
  obtain sdk' where "map_of (rep_SDKs (appendRecord fmt now i m e r)) i = Some sdk'"
    "ss_Status sdk' = (let stat = snd (checkStatus fmt (push_record ?x ?recs))
       in if stat = Degraded \<and> (ss_Status sdk = Initializing \<or> ss_Status sdk = Down) then Down else stat)"
    using append_status [OF _ sdk(1) recs] t by (auto simp: tracks_def)
  moreover have "snd (checkStatus fmt (push_record ?x ?recs)) =
      (if recent_errors (es @ [e]) then Degraded else Healthy)"
    unfolding checkStatus_health w recent_errors_window ..
  ultimately have "map_option ss_Status (map_of (rep_SDKs (appendRecord fmt now i m e r)) i) =
      Some (history_status (es @ [e]))"
    using sdk(2) by (simp only: history_step option.map)
  moreover have "map_option (map r_isError) (map_of (rep_records (appendRecord fmt now i m e r)) i) =
      Some (drop (length (es @ [e]) - 5) (es @ [e]))"
    unfolding recs option.map w ..
  ultimately show ?thesis
    using t unfolding tracks_def by simp
qed

lemma tracks_step:
  assumes "tracks i es r" and "keeps_sdk i op"
  shows "tracks i (es @ reports_of i [op]) (rep_step fmt r op)"
proof (cases op)
  case (RegisterOp j conf now)
  then show ?thesis using assms by (auto simp: tracks_def register_other)
next
  case (UpdateOp j conf)
  show ?thesis
  proof (cases "UpdateSdk j conf r")
    case None
    with UpdateOp assms show ?thesis by simp
  next
    case (Some r')
    with UpdateOp assms update_other(2) [OF Some, of i] update_status [OF Some, of i]
    show ?thesis by (simp add: tracks_def)
  qed
next
  case (RemoveOp j)
  then show ?thesis using assms by (auto simp: tracks_def remove_other)
next
  case (ReportOp c m e now)
  show ?thesis
  proof (cases "c = i")
    case True
    then show ?thesis using ReportOp tracks_report [OF assms(1)] by (simp add: ReportOk_def ReportError_def)
  next
    case False
    then show ?thesis using ReportOp assms
      by (auto simp: tracks_def ReportOk_def ReportError_def append_other)
  qed
qed

lemma reports_of_Cons: "reports_of i (op # ops) = reports_of i [op] @ reports_of i ops"
  by (cases op) auto

lemma tracks_run:
  "tracks i es r \<Longrightarrow> (\<And>op. op \<in> set ops \<Longrightarrow> keeps_sdk i op) \<Longrightarrow>
   tracks i (es @ reports_of i ops) (run_ops (rep_step fmt) r ops)"
proof (induction ops arbitrary: es r)
  case (Cons op ops)
  have "tracks i (es @ reports_of i [op]) (rep_step fmt r op)"
    by (rule tracks_step) (use Cons.prems in auto)
  then have "tracks i ((es @ reports_of i [op]) @ reports_of i ops) (run_ops (rep_step fmt) r (op # ops))"
    using Cons.IH [of "es @ reports_of i [op]" "rep_step fmt r op"] Cons.prems(2) by simp
  then show ?case by (subst reports_of_Cons) simp
qed simp

lemma tracks_register:
  assumes "i \<noteq> cache_component" and "map_of (rep_records r) i = None"
    and "cache_IsSet (rep_conf r) \<or> \<not> off_Enabled (sdk_Offline conf) \<or> FilePath (off_Local (sdk_Offline conf)) \<noteq> []"
  shows "tracks i [] (RegisterSdk fmt now i conf r)"
  using assms by (auto simp: tracks_def RegisterSdk_def Let_def update_conv' history_status_def)

subsection \<open>Well-formedness\<close>

definition sdk_status_ok :: "sdk_status \<Rightarrow> bool" where
  "sdk_status_ok s \<longleftrightarrow> length (ss_Records s) \<le> maxRecordCount \<and> ss_Status s \<noteq> NA
     \<and> (ss_Mode s = OnlineMode \<longleftrightarrow> ss_Type s = RemoteSrc)"

definition reporter_inv :: "reporter \<Rightarrow> bool" where
  "reporter_inv r \<longleftrightarrow>
     distinct (map fst (rep_SDKs r)) \<and> distinct (map fst (rep_records r))
     \<and> (\<forall>c rs. (c, rs) \<in> set (rep_records r) \<longrightarrow> rs \<noteq> [] \<and> length rs \<le> maxRecordCount)
     \<and> (\<forall>i s. (i, s) \<in> set (rep_SDKs r) \<longrightarrow> sdk_status_ok s)
     \<and> length (rep_CacheRecords r) \<le> maxRecordCount"

lemma length_push_record: "length recs \<le> maxRecordCount \<Longrightarrow> length (push_record x recs) \<le> maxRecordCount"
  by (simp add: push_record_def Let_def)

lemma push_record_nonempty: "push_record x recs \<noteq> []"
  by (cases recs) (auto simp: push_record_def Let_def maxRecordCount_def)

lemma length_checkStatus: "length (fst (checkStatus fmt rs)) = length rs"
  by (simp add: checkStatus_eq)

lemma update_mem: "(k', v') \<in> set (AList.update k v al) \<Longrightarrow> k' = k \<and> v' = v \<or> (k', v') \<in> set al"
  by (induction al) (auto split: if_splits)

lemma delete_mem: "x \<in> set (AList.delete k al) \<Longrightarrow> x \<in> set al"
  by (auto simp: AList.delete_eq)

lemma map_of_mem: "map_of al k = Some v \<Longrightarrow> (k, v) \<in> set al"
  by (rule map_of_SomeD)

lemma checkStatus_not_NA: "snd (checkStatus fmt rs) \<noteq> NA"
  by (simp add: checkStatus_health)

lemma inv_recalc [simp]: "reporter_inv (reCalcStatus r) \<longleftrightarrow> reporter_inv r"
  by (simp add: reporter_inv_def)

lemma inv_set_SDKs:
  "reporter_inv r \<Longrightarrow> sdk_status_ok s \<Longrightarrow> reporter_inv (r\<lparr>rep_SDKs := AList.update i s (rep_SDKs r)\<rparr>)"
  unfolding reporter_inv_def by (auto simp: distinct_update dest!: update_mem)

lemma inv_set_records:
  "reporter_inv r \<Longrightarrow> rs \<noteq> [] \<Longrightarrow> length rs \<le> maxRecordCount \<Longrightarrow>
   reporter_inv (r\<lparr>rep_records := AList.update c rs (rep_records r)\<rparr>)"
  unfolding reporter_inv_def by (auto simp: distinct_update dest!: update_mem)

lemma inv_set_cache [simp]: "reporter_inv (r\<lparr>rep_CacheStatus := h\<rparr>) \<longleftrightarrow> reporter_inv r"
  by (simp add: reporter_inv_def)

lemma inv_cache_lines:
  "reporter_inv r \<Longrightarrow> length ls \<le> maxRecordCount \<Longrightarrow> reporter_inv (r\<lparr>rep_CacheRecords := ls\<rparr>)"
  by (simp add: reporter_inv_def)

lemma inv_SDK: "reporter_inv r \<Longrightarrow> map_of (rep_SDKs r) i = Some s \<Longrightarrow> sdk_status_ok s"
  unfolding reporter_inv_def by (blast dest: map_of_SomeD)

lemma inv_append:
  assumes "reporter_inv r"
  shows "reporter_inv (appendRecord fmt now c m e r)"
proof -
  define x where "x = \<lparr>r_time = now, r_isError = e, r_message = (if e then ''[error] '' @ m else ''[ok] '' @ m)\<rparr>"
  define recs0 where "recs0 = (case map_of (rep_records r) c of None \<Rightarrow> [] | Some rs \<Rightarrow> rs)"
  define recs where "recs = push_record x recs0"
  define r1 where "r1 = r\<lparr>rep_records := AList.update c recs (rep_records r)\<rparr>"
  obtain ls h where chk: "checkStatus fmt recs = (ls, h)" by fastforce
  have "length recs0 \<le> maxRecordCount"
    using assms by (auto simp: recs0_def reporter_inv_def split: option.splits dest: map_of_SomeD)
  then have recs: "length recs \<le> maxRecordCount" "recs \<noteq> []"
    unfolding recs_def by (simp_all add: length_push_record push_record_nonempty)
  then have r1: "reporter_inv r1" unfolding r1_def by (intro inv_set_records assms)
  have ls: "length ls \<le> maxRecordCount" "h \<noteq> NA"
    using length_checkStatus [of fmt recs] checkStatus_not_NA [of fmt recs] chk recs by simp_all
  have eq: "appendRecord fmt now c m e r =
    (if c = cache_component then r1\<lparr>rep_CacheRecords := ls, rep_CacheStatus := h\<rparr>
     else (case map_of (rep_SDKs r1) c of None \<Rightarrow> r1
       | Some sdk \<Rightarrow> reCalcStatus (r1\<lparr>rep_SDKs := AList.update c (sdk\<lparr>ss_Records := ls, ss_Status :=
            (if h = Degraded \<and> (ss_Status sdk = Initializing \<or> ss_Status sdk = Down) then Down else h)\<rparr>)
            (rep_SDKs r1)\<rparr>)))"
    unfolding appendRecord_def Let_def x_def [symmetric] recs0_def [symmetric] recs_def [symmetric]
      r1_def [symmetric] chk by simp
  show ?thesis
  proof (cases "map_of (rep_SDKs r1) c")
    case None
    then show ?thesis unfolding eq using r1 ls by (simp add: inv_cache_lines)
  next
    case (Some sdk)
    have "sdk_status_ok (sdk\<lparr>ss_Records := ls, ss_Status := h'\<rparr>)" if "h' \<noteq> NA" for h'
      using inv_SDK [OF r1 Some] ls that by (simp add: sdk_status_ok_def)
    then show ?thesis unfolding eq using r1 ls Some by (simp add: inv_cache_lines inv_set_SDKs)
  qed
qed

lemma inv_register: "reporter_inv r \<Longrightarrow> reporter_inv (RegisterSdk fmt now i conf r)"
  unfolding RegisterSdk_def Let_def
  by (auto intro!: inv_append inv_set_SDKs simp: sdk_status_ok_def)

lemma inv_remove: "reporter_inv r \<Longrightarrow> reporter_inv (RemoveSdk i r)"
  unfolding RemoveSdk_def inv_recalc reporter_inv_def
  by (auto simp: distinct_delete dest!: delete_mem)

lemma inv_update: "reporter_inv r \<Longrightarrow> UpdateSdk i conf r = Some r' \<Longrightarrow> reporter_inv r'"
  unfolding UpdateSdk_def
  by (auto split: option.splits intro!: inv_set_SDKs dest: inv_SDK simp: sdk_status_ok_def)

interpretation status_reporter: invariant_machine "rep_step fmt" "\<lambda>_ _. True" reporter_inv for fmt
proof
  fix s :: reporter and e
  assume i: "reporter_inv s"
  show "reporter_inv (rep_step fmt s e)"
    by (cases e) (use i in \<open>auto simp: ReportOk_def ReportError_def
        intro: inv_append inv_register inv_remove inv_update split: option.splits\<close>)
qed

lemma inv_NewReporter: "reporter_inv (NewReporter conf)"
  by (simp add: reporter_inv_def NewReporter_def)

subsection \<open>The overall status\<close>

definition overall :: "health list \<Rightarrow> health" where
  "overall hs = (if \<forall>h \<in> set hs. h = Down then Down
                 else if \<forall>h \<in> set hs. h = Healthy then Healthy else Degraded)"

lemma reCalc_overall: "rep_Status (reCalcStatus r) = overall (map (ss_Status \<circ> snd) (rep_SDKs r))"
proof -
  define hs where "hs = map (ss_Status \<circ> snd) (rep_SDKs r)"
  have "list_all (\<lambda>(k, s). ss_Status s = Down) al \<longleftrightarrow> (\<forall>h \<in> set (map (ss_Status \<circ> snd) al). h = Down)"
    "list_ex (\<lambda>(k, s). ss_Status s \<noteq> Healthy) al \<longleftrightarrow> \<not> (\<forall>h \<in> set (map (ss_Status \<circ> snd) al). h = Healthy)" for al
    by (induction al) auto
  from this [of "rep_SDKs r"]
  have "list_all (\<lambda>(k, s). ss_Status s = Down) (rep_SDKs r) \<longleftrightarrow> (\<forall>h \<in> set hs. h = Down)"
    "list_ex (\<lambda>(k, s). ss_Status s \<noteq> Healthy) (rep_SDKs r) \<longleftrightarrow> \<not> (\<forall>h \<in> set hs. h = Healthy)"
    unfolding hs_def .
  then show ?thesis unfolding reCalcStatus_def overall_def Let_def hs_def [symmetric]
    by simp
qed

section \<open>Properties\<close>



text \<open>
  After every report about a registered SDK, the status of the proxy is down when all its
  SDKs are down, healthy when all are healthy, and degraded otherwise.
\<close>

lemma overall_after_report:
  assumes "i \<noteq> ''cache''" and "map_of (rep_SDKs r) i = Some s"
  shows "rep_Status (appendRecord fmt now i m e r) = overall (map (ss_Status \<circ> snd) (rep_SDKs (appendRecord fmt now i m e r)))"
  using assms reCalc_overall
  by (auto simp: appendRecord_def cache_component_def Let_def split: prod.splits option.splits)

text \<open>
  C33: in every state the reporter can reach, each SDK and each component has at most five
  records and is listed once, the mode and the source of an SDK agree, and its status is never
  \<open>n/a\<close>.
\<close>

theorem reporter_well_formed:
  "reporter_inv (run_ops (rep_step fmt) (NewReporter conf) ops)"
  by (rule status_reporter.run_inv [OF inv_NewReporter]) (rule admissible_True)

end
