(* ===== verification/PubSub.thy ===== *)
theory PubSub
  imports Prelude
begin

text \<open>
  \<open>pubsub/publisher.go\<close>: the publisher that carries configuration changes from the SDK
  clients and from the registrar to the streams. One goroutine runs \<open>run\<close>; the exported
  methods are called from other goroutines. A method first looks at \<open>stop\<close> and then blocks
  in a channel send, so each method is two events: the call (which leaves the operation
  pending) and the moment the channel operation happens. A subscriber is a channel, named by
  a number \<open>ch\<close>, with the capacity \<open>cap ch\<close>.
\<close>

section \<open>Definitions\<close>

definition pub_capacity :: nat where "pub_capacity = 64"

text \<open>Where the goroutine of \<open>run\<close> is: in its \<open>select\<close>, in the \<open>range\<close> over the subscriptions, or returned.\<close>

datatype 'a ps_loop = Waiting | Sending 'a "nat list" | Exited

record 'a pubsub =
  ps_subscriptions :: "nat list"
  ps_pub :: "'a list"
  ps_stopped :: bool
  ps_loop :: "'a ps_loop"
  ps_publishing :: "'a list"
  ps_subscribing :: "nat list"
  ps_unsubscribing :: "nat list"
  ps_box :: "nat \<Rightarrow> 'a list"

definition NewPublisher :: "'a pubsub" where
  "NewPublisher = \<lparr>ps_subscriptions = [], ps_pub = [], ps_stopped = False, ps_loop = Waiting,
     ps_publishing = [], ps_subscribing = [], ps_unsubscribing = [], ps_box = (\<lambda>_. [])\<rparr>"

datatype 'a ps_event =
    CallPublish 'a | Enqueue 'a
  | CallSubscribe nat | Attach nat
  | CallUnsubscribe nat | Detach nat
  | Take 'a "nat list" | Send nat 'a | Rest
  | Receive nat 'a
  | CloseStop | LoopExit

inductive ps_step :: "(nat \<Rightarrow> nat) \<Rightarrow> 'a pubsub \<Rightarrow> 'a ps_event \<Rightarrow> 'a pubsub \<Rightarrow> bool"
  for cap :: "nat \<Rightarrow> nat" where
  call_publish: "ps_step cap s (CallPublish d)
     (if ps_stopped s then s else s\<lparr>ps_publishing := d # ps_publishing s\<rparr>)"
| enqueue: "d \<in> set (ps_publishing s) \<Longrightarrow> length (ps_pub s) < pub_capacity \<Longrightarrow>
     ps_step cap s (Enqueue d)
       (s\<lparr>ps_publishing := remove1 d (ps_publishing s), ps_pub := ps_pub s @ [d]\<rparr>)"
| call_subscribe: "ps_step cap s (CallSubscribe ch)
     (if ps_stopped s then s else s\<lparr>ps_subscribing := ch # ps_subscribing s\<rparr>)"
| attach: "ps_loop s = Waiting \<Longrightarrow> ch \<in> set (ps_subscribing s) \<Longrightarrow>
     ps_step cap s (Attach ch)
       (s\<lparr>ps_subscribing := remove1 ch (ps_subscribing s),
          ps_subscriptions := List.insert ch (ps_subscriptions s)\<rparr>)"
| call_unsubscribe: "ps_step cap s (CallUnsubscribe ch)
     (if ps_stopped s then s else s\<lparr>ps_unsubscribing := ch # ps_unsubscribing s\<rparr>)"
| detach: "ps_loop s = Waiting \<Longrightarrow> ch \<in> set (ps_unsubscribing s) \<Longrightarrow>
     ps_step cap s (Detach ch)
       (s\<lparr>ps_unsubscribing := remove1 ch (ps_unsubscribing s),
          ps_subscriptions := removeAll ch (ps_subscriptions s)\<rparr>)"
| take_msg: "ps_loop s = Waiting \<Longrightarrow> ps_pub s = d # ds \<Longrightarrow>
     distinct order \<Longrightarrow> set order = set (ps_subscriptions s) \<Longrightarrow>
     ps_step cap s (Take d order) (s\<lparr>ps_pub := ds, ps_loop := Sending d order\<rparr>)"
| send: "ps_loop s = Sending d (ch # chs) \<Longrightarrow> length (ps_box s ch) < cap ch \<Longrightarrow>
     ps_step cap s (Send ch d)
       (s\<lparr>ps_box := (ps_box s)(ch := ps_box s ch @ [d]), ps_loop := Sending d chs\<rparr>)"
| rest: "ps_loop s = Sending d [] \<Longrightarrow> ps_step cap s Rest (s\<lparr>ps_loop := Waiting\<rparr>)"
| receive: "ps_box s ch = d # ds \<Longrightarrow>
     ps_step cap s (Receive ch d) (s\<lparr>ps_box := (ps_box s)(ch := ds)\<rparr>)"
| close_stop: "\<not> ps_stopped s \<Longrightarrow> ps_step cap s CloseStop (s\<lparr>ps_stopped := True\<rparr>)"
| loop_exit: "ps_loop s = Waiting \<Longrightarrow> ps_stopped s \<Longrightarrow> ps_step cap s LoopExit (s\<lparr>ps_loop := Exited\<rparr>)"

section \<open>Lemmas\<close>

inductive_cases ps_stepE: "ps_step cap s e s'"

inductive_simps ps_step_simps:
  "ps_step cap s (CallPublish d) s'" "ps_step cap s (Enqueue d) s'"
  "ps_step cap s (CallSubscribe ch) s'" "ps_step cap s (Attach ch) s'"
  "ps_step cap s (CallUnsubscribe ch) s'" "ps_step cap s (Detach ch) s'"
  "ps_step cap s (Take d order) s'" "ps_step cap s (Send ch d) s'" "ps_step cap s Rest s'"
  "ps_step cap s (Receive ch d) s'" "ps_step cap s CloseStop s'" "ps_step cap s LoopExit s'"

subsection \<open>Invariant\<close>

definition ps_inv :: "(nat \<Rightarrow> nat) \<Rightarrow> 'a pubsub \<Rightarrow> bool" where
  "ps_inv cap s \<longleftrightarrow> distinct (ps_subscriptions s) \<and> length (ps_pub s) \<le> pub_capacity
     \<and> (\<forall>ch. length (ps_box s ch) \<le> cap ch)
     \<and> (\<forall>d chs. ps_loop s = Sending d chs \<longrightarrow> distinct chs \<and> set chs \<subseteq> set (ps_subscriptions s))"

lemma ps_inv_step: "ps_inv cap s \<Longrightarrow> ps_step cap s e s' \<Longrightarrow> ps_inv cap s'"
proof (erule ps_stepE)
  fix ch d ds
  assume "ps_inv cap s" "s' = s\<lparr>ps_box := (ps_box s)(ch := ds)\<rparr>" "ps_box s ch = d # ds"
  moreover from this have "length (d # ds) \<le> cap ch" unfolding ps_inv_def by metis
  ultimately show "ps_inv cap s'" by (auto simp: ps_inv_def)
qed (auto simp: ps_inv_def distinct_removeAll Suc_le_eq split: if_splits)

interpretation publisher: lts_invariant "ps_step cap" "ps_inv cap" for cap
  by unfold_locales (rule ps_inv_step)

lemma ps_inv_New: "ps_inv cap NewPublisher"
  by (simp add: ps_inv_def NewPublisher_def)

subsection \<open>Delivery\<close>

text \<open>What a run says about a subscriber: what entered the publisher, what the loop sent to the
  subscriber's channel, what the subscriber took out of it.\<close>

fun entered :: "'a ps_event \<Rightarrow> 'a list" where
  "entered (Enqueue d) = [d]" | "entered _ = []"

fun sent_to :: "nat \<Rightarrow> 'a ps_event \<Rightarrow> 'a list" where
  "sent_to ch (Send c d) = (if c = ch then [d] else [])" | "sent_to ch _ = []"

fun received_by :: "nat \<Rightarrow> 'a ps_event \<Rightarrow> 'a list" where
  "received_by ch (Receive c d) = (if c = ch then [d] else [])" | "received_by ch _ = []"

abbreviation along :: "('e \<Rightarrow> 'a list) \<Rightarrow> 'e list \<Rightarrow> 'a list" where
  "along f es \<equiv> concat (map f es)"

definition in_flight :: "nat \<Rightarrow> 'a pubsub \<Rightarrow> 'a list" where
  "in_flight ch s = (case ps_loop s of Sending d chs \<Rightarrow> (if ch \<in> set chs then [d] else []) | _ \<Rightarrow> [])"

lemma send_step:
  assumes "ps_inv cap s" "ch \<in> set (ps_subscriptions s)" "e \<noteq> Detach ch" "ps_step cap s e s'"
  shows "ch \<in> set (ps_subscriptions s') \<and>
    sent_to ch e @ (in_flight ch s' @ ps_pub s') = (in_flight ch s @ ps_pub s) @ entered e"
  using assms(4)
  by (cases rule: ps_step.cases) (use assms(1-3) in \<open>auto simp: in_flight_def ps_inv_def split: ps_loop.splits\<close>)

lemma receive_step:
  "ps_step cap s e s' \<Longrightarrow> received_by ch e @ ps_box s' ch = ps_box s ch @ sent_to ch e"
  by (erule ps_stepE) auto

lemma sent_run:
  assumes "ps_inv cap s" "ch \<in> set (ps_subscriptions s)" "Detach ch \<notin> set es"
    and "lts_run (ps_step cap) s es s'"
  shows "along (sent_to ch) es @ (in_flight ch s' @ ps_pub s') = (in_flight ch s @ ps_pub s) @ along entered es"
proof -
  have "ch \<in> set (ps_subscriptions s') \<and>
    along (sent_to ch) es @ (in_flight ch s' @ ps_pub s') = (in_flight ch s @ ps_pub s) @ along entered es"
  proof (rule publisher.run_measure [where cap = cap and P = "\<lambda>s. ch \<in> set (ps_subscriptions s)"
        and Q = "\<lambda>e. e \<noteq> Detach ch"])
    show "ps_inv cap s" "ch \<in> set (ps_subscriptions s)" "lts_run (ps_step cap) s es s'"
      by (rule assms)+
    show "\<forall>e \<in> set es. e \<noteq> Detach ch" using assms(3) by auto
  qed (rule send_step)
  then show ?thesis ..
qed

lemma received_run:
  assumes "ps_inv cap s" and "lts_run (ps_step cap) s es s'"
  shows "along (received_by ch) es @ ps_box s' ch = ps_box s ch @ along (sent_to ch) es"
  using publisher.run_measure [where P = "\<lambda>_. True" and Q = "\<lambda>_. True"
      and f = "received_by ch" and h = "sent_to ch" and g = "\<lambda>s. ps_box s ch", OF _ assms(1) _ assms(2)]
    receive_step by blast

subsection \<open>Blocking\<close>

definition stuck_on :: "(nat \<Rightarrow> nat) \<Rightarrow> nat \<Rightarrow> 'a pubsub \<Rightarrow> bool" where
  "stuck_on cap ch s \<longleftrightarrow> (\<exists>d chs. ps_loop s = Sending d (ch # chs)) \<and> length (ps_box s ch) = cap ch"

lemma stuck_step:
  assumes "stuck_on cap ch s" "ps_step cap s e s'" "received_by ch e = []"
  shows "stuck_on cap ch s' \<and> e \<notin> {Detach ch, Rest, LoopExit} \<and> ps_subscriptions s' = ps_subscriptions s
    \<and> (\<forall>c. sent_to c e = [])"
  using assms(2)
  by (cases rule: ps_step.cases) (use assms(1,3) in \<open>auto simp: stuck_on_def\<close>)

lemma stuck_run:
  "stuck_on cap ch s \<Longrightarrow> lts_run (ps_step cap) s es s' \<Longrightarrow> along (received_by ch) es = [] \<Longrightarrow>
   stuck_on cap ch s' \<and> Detach ch \<notin> set es \<and> ps_subscriptions s' = ps_subscriptions s
   \<and> (\<forall>c. along (sent_to c) es = [])"
proof (induction es arbitrary: s)
  case (Cons e es)
  then obtain t where t: "ps_step cap s e t" "lts_run (ps_step cap) t es s'" by auto
  have "received_by ch e = []" "along (received_by ch) es = []" using Cons.prems(3) by auto
  with stuck_step [OF Cons.prems(1) t(1)] Cons.IH [OF _ t(2)] show ?case by auto
qed simp

text \<open>With room in every channel of the range, the loop comes back to its \<open>select\<close>.\<close>

lemma sending_completes:
  assumes "ps_loop s = Sending d chs" "distinct chs" "\<And>ch. ch \<in> set chs \<Longrightarrow> length (ps_box s ch) < cap ch"
  shows "\<exists>es s'. lts_run (ps_step cap) s es s' \<and> ps_loop s' = Waiting \<and>
    (\<forall>ch. ps_box s' ch = ps_box s ch @ (if ch \<in> set chs then [d] else []))"
  using assms
proof (induction chs arbitrary: s)
  case Nil
  then have "lts_run (ps_step cap) s [Rest] (s\<lparr>ps_loop := Waiting\<rparr>)" by (auto intro: rest)
  then show ?case by (intro exI [of _ "[Rest]"] exI [of _ "s\<lparr>ps_loop := Waiting\<rparr>"]) simp
next
  case (Cons ch chs)
  let ?t = "s\<lparr>ps_box := (ps_box s)(ch := ps_box s ch @ [d]), ps_loop := Sending d chs\<rparr>"
  have step: "ps_step cap s (Send ch d) ?t" by (rule send) (use Cons.prems in auto)
  obtain es s' where "lts_run (ps_step cap) ?t es s'" "ps_loop s' = Waiting"
    "\<forall>c. ps_box s' c = ps_box ?t c @ (if c \<in> set chs then [d] else [])"
  proof -
    have "\<exists>es s'. lts_run (ps_step cap) ?t es s' \<and> ps_loop s' = Waiting \<and>
        (\<forall>c. ps_box s' c = ps_box ?t c @ (if c \<in> set chs then [d] else []))"
      by (rule Cons.IH) (use Cons.prems(2,3) in \<open>auto simp del: length_append\<close>)
    then show ?thesis using that by blast
  qed
  with step Cons.prems(2) show ?case
    by (intro exI [of _ "Send ch d # es"] exI [of _ s']) auto
qed

section \<open>Properties\<close>

text \<open>
  C12: a subscriber receives what is published while it is subscribed, each message once and in
  the order in which the messages entered the publisher: what it has received, followed by what
  waits in its channel, in the loop and in the queue, is what was waiting at the start followed
  by what entered since.
\<close>

theorem subscriber_fifo:
  assumes "lts_run (ps_step cap) NewPublisher es0 s" and "ch \<in> set (ps_subscriptions s)"
    and "lts_run (ps_step cap) s es s'" and "Detach ch \<notin> set es"
  shows "along (received_by ch) es @ ps_box s' ch @ in_flight ch s' @ ps_pub s'
    = ps_box s ch @ in_flight ch s @ ps_pub s @ along entered es"
proof -
  have inv: "ps_inv cap s" by (rule publisher.run_inv [OF ps_inv_New assms(1)])
  have "along (received_by ch) es @ ps_box s' ch @ in_flight ch s' @ ps_pub s'
      = (along (received_by ch) es @ ps_box s' ch) @ in_flight ch s' @ ps_pub s'" by simp
  also have "\<dots> = ps_box s ch @ (along (sent_to ch) es @ (in_flight ch s' @ ps_pub s'))"
    by (simp add: received_run [OF inv assms(3)])
  also have "\<dots> = ps_box s ch @ in_flight ch s @ ps_pub s @ along entered es"
    by (simp add: sent_run [OF inv assms(2,4,3)])
  finally show ?thesis .
qed

definition attached :: "nat pubsub" where
  "attached = NewPublisher\<lparr>ps_subscriptions := [0]\<rparr>"

lemma attached_reached:
  "lts_run (ps_step cap) (NewPublisher :: nat pubsub) [CallSubscribe 0, Attach 0] attached"
  by (auto simp: ps_step_simps NewPublisher_def attached_def)

text \<open>One message published to an attached subscriber of capacity 1: the run that delivers it.\<close>

lemma one_message:
  fixes d :: nat
  shows "\<exists>s'. lts_run (ps_step (\<lambda>_. 1)) attached [CallPublish d, Enqueue d, Take d [0], Send 0 d] s' \<and>
    ps_loop s' = Sending d [] \<and> ps_box s' 0 = [d] \<and> ps_pub s' = []"
  by (simp add: ps_step_simps attached_def NewPublisher_def pub_capacity_def)

theorem subscriber_fifo_witness:
  "\<exists>s'. lts_run (ps_step (\<lambda>_. 1)) attached [CallPublish 7, Enqueue 7, Take 7 [0], Send 0 7] s' \<and>
    ps_box s' 0 @ in_flight 0 s' @ ps_pub s' = [7 :: nat]"
proof -
  obtain s' where s': "lts_run (ps_step (\<lambda>_. 1)) attached [CallPublish 7, Enqueue 7, Take 7 [0], Send 0 7] s'"
    using one_message [of 7] by blast
  have "0 \<in> set (ps_subscriptions attached)" by (simp add: attached_def)
  from subscriber_fifo [OF attached_reached this s'] s' show ?thesis
    by (auto simp: attached_def NewPublisher_def in_flight_def)
qed

text \<open>
  C39: one subscriber that does not read blocks the publisher for good. Once the loop waits to
  send to a full channel, then as long as nothing is taken out of this channel, nothing is sent
  to any subscriber, the channel cannot be unsubscribed, and the goroutine does not return, even
  after \<open>Close\<close>.
\<close>

theorem publisher_blocks:
  assumes "ps_loop s = Sending d (ch # chs)" and "length (ps_box s ch) = cap ch"
    and "lts_run (ps_step cap) s es s'" and "along (received_by ch) es = []"
  shows "ps_loop s' \<noteq> Exited \<and> ps_loop s' \<noteq> Waiting \<and> Detach ch \<notin> set es \<and> (\<forall>c. along (sent_to c) es = [])"
proof -
  have "stuck_on cap ch s" using assms(1,2) by (auto simp: stuck_on_def)
  from stuck_run [OF this assms(3,4)] show ?thesis by (auto simp: stuck_on_def)
qed

theorem publisher_blocks_witness:
  "\<exists>s s'. lts_run (ps_step (\<lambda>_. 1)) s [CallUnsubscribe 0, CloseStop] s' \<and> ps_stopped s' \<and>
     ps_loop s' \<noteq> Exited \<and> ps_loop (s :: nat pubsub) = Sending 8 [0]"
proof -
  define s where "s = attached\<lparr>ps_box := (\<lambda>_. []) (0 := [7]), ps_loop := Sending 8 [0 :: nat]\<rparr>"
  have s: "ps_loop s = Sending 8 (0 # [])" "length (ps_box s 0) = (\<lambda>_. 1) (0 :: nat)" by (simp_all add: s_def)
  obtain s' where s': "lts_run (ps_step (\<lambda>_. 1)) s [CallUnsubscribe 0, CloseStop] s'" "ps_stopped s'"
    by (simp add: ps_step_simps s_def attached_def NewPublisher_def)
  from publisher_blocks [OF s s'(1)] s(1) s' show ?thesis by auto
qed

text \<open>
  When every subscriber has room in its channel, the publisher comes back to its \<open>select\<close>:
  from any reachable state in which it is sending, a run exists that leaves it waiting and adds
  the message to the channels it still had to visit, once to each, and to no other.
\<close>

lemma publisher_progress:
  assumes "lts_run (ps_step cap) NewPublisher es0 s" and "ps_loop s = Sending d chs"
    and "\<forall>ch \<in> set chs. length (ps_box s ch) < cap ch"
  shows "\<exists>es s'. lts_run (ps_step cap) s es s' \<and> ps_loop s' = Waiting \<and>
    (\<forall>ch. ps_box s' ch = ps_box s ch @ (if ch \<in> set chs then [d] else []))"
proof -
  have "ps_inv cap s" by (rule publisher.run_inv [OF ps_inv_New assms(1)])
  then have "distinct chs" using assms(2) by (simp add: ps_inv_def)
  from sending_completes [OF assms(2) this] assms(3) show ?thesis by blast
qed

end
