(* ===== verification/Store.thy ===== *)
theory Store
  imports Config
begin

text \<open>
  \<open>sdk/store\<close>: the configuration JSON a client serves (\<open>entries.go\<close>), the cache-backed and
  in-memory stores the SDK reads and writes through (\<open>store.go\<close>), the store that polls a
  shared cache (\<open>cache_notify.go\<close>) and the notifier that wakes the client (\<open>notifier.go\<close>).
  The cache file format and the JSON parser belong to the ConfigCat SDK: they are parameters.
  The polling loop is written over an arbitrary \<open>reload\<close>, since the file store runs the same one.
\<close>

section \<open>Definitions\<close>

text \<open>A call of \<open>ReportOk\<close>/\<open>ReportError\<close>: component, message, error flag.\<close>

type_synonym report = "string \<times> string \<times> bool"

subsection \<open>Entries\<close>

record entry =
  en_ConfigJson :: bytes
  en_ETag :: string
  en_FetchTime :: int
  en_Empty :: bool

text \<open>
  The SDK's codec: \<open>CacheSegmentsFromBytes\<close> returns the fetch time, the ETag and the JSON
  together with an error, so that callers may ignore the error.
\<close>

record segments =
  seg_FromBytes :: "bytes \<Rightarrow> (int \<times> string \<times> bytes) \<times> string option"
  seg_ToBytes :: "int \<Rightarrow> string \<Rightarrow> bytes \<Rightarrow> bytes"

definition entryWithEtag :: "bytes \<Rightarrow> int \<Rightarrow> string \<Rightarrow> bool \<Rightarrow> entry" where
  "entryWithEtag configJson fetchTime eTag isEmpty =
     \<lparr>en_ConfigJson = configJson, en_ETag = eTag, en_FetchTime = fetchTime, en_Empty = isEmpty\<rparr>"

text \<open>\<open>initial\<close> is the JSON of the SDK's empty configuration and \<open>zero\<close> the zero time.\<close>

definition NewEntryStore :: "(bytes \<Rightarrow> bytes) \<Rightarrow> bytes \<Rightarrow> int \<Rightarrow> entry" where
  "NewEntryStore xxhash initial zero = entryWithEtag initial zero (GenerateEtag xxhash initial) True"

definition ComposeBytes :: "segments \<Rightarrow> entry \<Rightarrow> bytes" where
  "ComposeBytes seg e = seg_ToBytes seg (en_FetchTime e) (en_ETag e) (en_ConfigJson e)"

definition StoreEntry :: "bytes \<Rightarrow> int \<Rightarrow> string \<Rightarrow> entry \<Rightarrow> entry" where
  "StoreEntry configJson fetchTime eTag e = entryWithEtag configJson fetchTime eTag False"

subsection \<open>The stores of \<open>store.go\<close>\<close>

text \<open>The shared cache (Redis, MongoDB, DynamoDB) over an abstract content \<open>'c\<close>.\<close>

record 'c ext_cache =
  xc_Get :: "'c \<Rightarrow> string \<Rightarrow> bytes res"
  xc_Set :: "'c \<Rightarrow> string \<Rightarrow> bytes \<Rightarrow> string option \<times> 'c"

definition status_Cache :: string where "status_Cache = ''cache''"

definition cacheStore_Get :: "'c ext_cache \<Rightarrow> 'c \<Rightarrow> string \<Rightarrow> bytes res \<times> report list" where
  "cacheStore_Get xc c key =
     (case xc_Get xc c key of
        Inl err \<Rightarrow> (Inl err, [(status_Cache, ''cache read failed'', True)])
      | Inr b \<Rightarrow> (Inr b, [(status_Cache, ''cache read succeeded'', False)]))"

definition cacheStore_Set ::
  "segments \<Rightarrow> 'c ext_cache \<Rightarrow> 'c \<Rightarrow> string \<Rightarrow> bytes \<Rightarrow> entry \<Rightarrow> string option \<times> entry \<times> 'c \<times> report list" where
  "cacheStore_Set seg xc c key value e =
     (case seg_FromBytes seg value of
        (_, Some err) \<Rightarrow> (Some err, e, c, [(status_Cache, ''cache write failed'', True)])
      | ((fetchTime, etag, configJson), None) \<Rightarrow>
          (let e' = StoreEntry configJson fetchTime etag e
           in case xc_Set xc c key value of
                (Some err, c') \<Rightarrow> (Some err, e', c', [(status_Cache, ''cache write failed'', True)])
              | (None, c') \<Rightarrow> (None, e', c', [(status_Cache, ''cache write succeeded'', False)])))"

definition inMemoryStore_Get :: "segments \<Rightarrow> entry \<Rightarrow> bytes res" where
  "inMemoryStore_Get seg e = (if en_Empty e then Inl ''no entry in cache'' else Inr (ComposeBytes seg e))"

definition inMemoryStore_Set :: "segments \<Rightarrow> bytes \<Rightarrow> entry \<Rightarrow> entry" where
  "inMemoryStore_Set seg value e =
     (case seg_FromBytes seg value of ((fetchTime, etag, configJson), _) \<Rightarrow> StoreEntry configJson fetchTime etag e)"

subsection \<open>Reloading from the shared cache\<close>

text \<open>
  \<open>reload\<close> of \<open>cache_notify.go\<close>; its input is the content of the shared cache at this poll.
  \<open>parse\<close> is \<open>json.Unmarshal\<close> into the SDK's configuration type (the parsed value is unused).
\<close>

definition notifyingCache_reload ::
  "segments \<Rightarrow> (bytes \<Rightarrow> string option) \<Rightarrow> 'c ext_cache \<Rightarrow> string \<Rightarrow> string \<Rightarrow> 'c \<Rightarrow> entry \<Rightarrow>
   bool \<times> entry \<times> report list" where
  "notifyingCache_reload seg parse xc sdkId cacheKey c e =
     (let (data, rs) = cacheStore_Get xc c cacheKey
      in case data of
           Inl err \<Rightarrow> (False, e, rs @ [(sdkId, ''failed to read from cache'', True)])
         | Inr b \<Rightarrow>
             (case seg_FromBytes seg b of
                (_, Some err) \<Rightarrow> (False, e, rs @ [(sdkId, ''failed to recognise the cache format'', True)])
              | ((fetchTime, eTag, configJson), None) \<Rightarrow>
                  (if en_ETag e = eTag
                   then (False, e, rs @ [(sdkId, ''config from cache not modified'', False)])
                   else (case parse configJson of
                       Some err \<Rightarrow> (False, e, rs @ [(sdkId, ''failed to parse JSON from cache'', True)])
                     | None \<Rightarrow> (True, StoreEntry configJson fetchTime eTag e,
                                 rs @ [(sdkId, ''reload from cache succeeded'', False)])))))"

definition notifyingCache_Get :: "segments \<Rightarrow> entry \<Rightarrow> bytes res" where
  "notifyingCache_Get seg e = Inr (ComposeBytes seg e)"

definition notifyingCache_Set :: "bytes \<Rightarrow> entry \<Rightarrow> entry" where
  "notifyingCache_Set value e = e"

text \<open>\<open>NewNotifyingCacheStore\<close> reloads once, without notifying.\<close>

definition NewNotifyingCacheStore ::
  "segments \<Rightarrow> (bytes \<Rightarrow> string option) \<Rightarrow> 'c ext_cache \<Rightarrow> string \<Rightarrow> string \<Rightarrow> 'c \<Rightarrow> entry \<Rightarrow>
   entry \<times> report list" where
  "NewNotifyingCacheStore seg parse xc sdkId cacheKey c e =
     snd (notifyingCache_reload seg parse xc sdkId cacheKey c e)"

definition notifyingCache_interval :: "int \<Rightarrow> int" where
  "notifyingCache_interval interval = (if interval < 1 then DefaultCachePollInterval else interval)"

subsection \<open>The polling loop, the notifier and the listening client\<close>

text \<open>
  The goroutines around a store with \<open>reload\<close>: \<open>run\<close> of the store, whose \<open>Notify\<close> first
  looks at the context and then blocks in a send to \<open>modified\<close> (capacity 1), and \<open>listen\<close> of
  the client, which receives the token and refreshes the SDK from the store. \<open>wd_seen\<close> is the
  entry the SDK evaluates with, \<open>wd_refreshes\<close> the refreshes started and not finished (one is
  started by \<open>NewClient\<close>).
\<close>

datatype watch_phase = PollLoop | NotifyCalled | NotifyBlocked | Returned

record 's watched =
  wd_store :: 's
  wd_phase :: watch_phase
  wd_closed :: bool
  wd_modified :: nat
  wd_refreshes :: nat
  wd_seen :: entry

datatype 'i watch_event = Tick 'i | NotifyCheck | NotifySend | ListenToken | FinishRefresh | CloseStore | ReturnRun

inductive watch_step ::
  "('i \<Rightarrow> 's \<Rightarrow> bool \<times> 's \<times> report list) \<Rightarrow> ('s \<Rightarrow> entry) \<Rightarrow> 's watched \<Rightarrow> 'i watch_event \<Rightarrow> 's watched \<Rightarrow> bool"
  for reload :: "'i \<Rightarrow> 's \<Rightarrow> bool \<times> 's \<times> report list" and entry_of :: "'s \<Rightarrow> entry" where
  tick: "wd_phase w = PollLoop \<Longrightarrow> reload i (wd_store w) = (changed, st', rs) \<Longrightarrow>
     watch_step reload entry_of w (Tick i)
       (w\<lparr>wd_store := st', wd_phase := (if changed then NotifyCalled else PollLoop)\<rparr>)"
| notify_check: "wd_phase w = NotifyCalled \<Longrightarrow>
     watch_step reload entry_of w NotifyCheck
       (w\<lparr>wd_phase := (if wd_closed w then PollLoop else NotifyBlocked)\<rparr>)"
| notify_send: "wd_phase w = NotifyBlocked \<Longrightarrow> wd_modified w = 0 \<Longrightarrow>
     watch_step reload entry_of w NotifySend (w\<lparr>wd_modified := 1, wd_phase := PollLoop\<rparr>)"
| listen_token: "wd_modified w = 1 \<Longrightarrow>
     watch_step reload entry_of w ListenToken (w\<lparr>wd_modified := 0, wd_refreshes := Suc (wd_refreshes w)\<rparr>)"
| finish_refresh: "wd_refreshes w = Suc n \<Longrightarrow>
     watch_step reload entry_of w FinishRefresh (w\<lparr>wd_refreshes := n, wd_seen := entry_of (wd_store w)\<rparr>)"
| close_store: "watch_step reload entry_of w CloseStore (w\<lparr>wd_closed := True\<rparr>)"
| return_run: "wd_phase w = PollLoop \<Longrightarrow> wd_closed w \<Longrightarrow>
     watch_step reload entry_of w ReturnRun (w\<lparr>wd_phase := Returned\<rparr>)"

definition watched_start :: "'s \<Rightarrow> entry \<Rightarrow> 's watched" where
  "watched_start st seen = \<lparr>wd_store = st, wd_phase = PollLoop, wd_closed = False, wd_modified = 0,
     wd_refreshes = 1, wd_seen = seen\<rparr>"

section \<open>Lemmas\<close>

named_theorems store_simps \<open>evaluation of the stores\<close>

lemmas [store_simps] = entryWithEtag_def NewEntryStore_def ComposeBytes_def StoreEntry_def
  status_Cache_def cacheStore_Get_def cacheStore_Set_def inMemoryStore_Get_def inMemoryStore_Set_def
  notifyingCache_reload_def notifyingCache_Get_def notifyingCache_Set_def Let_def

inductive_cases watch_stepE: "watch_step reload entry_of w e w'"

inductive_simps watch_step_simps:
  "watch_step reload entry_of w (Tick i) w'" "watch_step reload entry_of w NotifyCheck w'"
  "watch_step reload entry_of w NotifySend w'" "watch_step reload entry_of w ListenToken w'"
  "watch_step reload entry_of w FinishRefresh w'" "watch_step reload entry_of w CloseStore w'"
  "watch_step reload entry_of w ReturnRun w'"

subsection \<open>The contract of a reloadable source\<close>

text \<open>
  While the source is open, an update the SDK has not seen is always announced: the loop is
  about to notify, a token is in the channel, or a refresh is running.
\<close>

definition no_lost_update :: "('s \<Rightarrow> entry) \<Rightarrow> 's watched \<Rightarrow> bool" where
  "no_lost_update entry_of w \<longleftrightarrow> wd_modified w \<le> 1 \<and>
     (wd_closed w \<or> wd_seen w = entry_of (wd_store w) \<or> wd_phase w = NotifyCalled \<or>
      wd_phase w = NotifyBlocked \<or> wd_modified w = 1 \<or> wd_refreshes w > 0)"

definition settled :: "'s watched \<Rightarrow> bool" where
  "settled w \<longleftrightarrow> wd_phase w = PollLoop \<and> wd_modified w = 0 \<and> wd_refreshes w = 0"

definition verdict_of :: "string \<Rightarrow> report list \<Rightarrow> bool list" where
  "verdict_of sdkId rs = map (\<lambda>(_, _, e). e) (filter (\<lambda>(c, _, _). c = sdkId) rs)"

locale reloadable =
  fixes reload :: "'i \<Rightarrow> 's \<Rightarrow> bool \<times> 's \<times> report list"
    and entry_of :: "'s \<Rightarrow> entry"
    and sdkId :: string
  assumes unchanged: "reload i s = (False, s', rs) \<Longrightarrow> entry_of s' = entry_of s"
    and changed: "reload i s = (True, s', rs) \<Longrightarrow> \<not> en_Empty (entry_of s') \<and> snd (snd (last rs)) = False"
    and one_report: "reload i s = (b, s', rs) \<Longrightarrow> rs \<noteq> [] \<and> fst (last rs) = sdkId"

text \<open>Such a source driven by the loop of \<open>run\<close> never loses an update.\<close>

sublocale reloadable \<subseteq> lts_invariant "watch_step reload entry_of" "no_lost_update entry_of"
proof
  fix w e w'
  assume "no_lost_update entry_of w" "watch_step reload entry_of w e w'"
  then show "no_lost_update entry_of w'"
    by (elim watch_stepE) (auto simp: no_lost_update_def dest!: unchanged)
qed

context reloadable
begin

lemma settled_run:
  assumes "lts_run (watch_step reload entry_of) (watched_start st seen) es w" "\<not> wd_closed w" "settled w"
  shows "wd_seen w = entry_of (wd_store w)"
proof -
  have "no_lost_update entry_of (watched_start st seen)" by (simp add: no_lost_update_def watched_start_def)
  from run_inv [OF this assms(1)] assms(2,3) show ?thesis
    by (auto simp: no_lost_update_def settled_def)
qed

text \<open>A store that has something to serve keeps something to serve.\<close>

lemma nonempty_step:
  "\<not> en_Empty (entry_of (wd_store w)) \<Longrightarrow> watch_step reload entry_of w e w' \<Longrightarrow>
   \<not> en_Empty (entry_of (wd_store w'))"
  by (elim watch_stepE; (auto dest: unchanged)?) (metis (full_types) changed unchanged)

lemma nonempty_run:
  "\<not> en_Empty (entry_of (wd_store w)) \<Longrightarrow> lts_run (watch_step reload entry_of) w es w' \<Longrightarrow>
   \<not> en_Empty (entry_of (wd_store w'))"
  by (induction es arbitrary: w) (auto dest: nonempty_step)

end

subsection \<open>The cache-backed stores\<close>

interpretation cache_source: reloadable "notifyingCache_reload seg parse xc sdkId cacheKey" "\<lambda>e. e" sdkId
  for seg parse xc sdkId cacheKey
  by unfold_locales (auto simp: store_simps split: sum.splits prod.splits option.splits if_splits)

lemma cacheStore_Set_ok:
  assumes "seg_FromBytes seg value = ((t, etag, j), None)" and "xc_Set xc c key value = (None, c')"
  shows "cacheStore_Set seg xc c key value e =
    (None, \<lparr>en_ConfigJson = j, en_ETag = etag, en_FetchTime = t, en_Empty = False\<rparr>, c',
     [(''cache'', ''cache write succeeded'', False)])"
  using assms by (simp add: store_simps)

text \<open>The codec's round trip, as the SDK documents it for ETags and times it can represent.\<close>

definition codec_ok :: "segments \<Rightarrow> entry \<Rightarrow> bool" where
  "codec_ok seg e \<longleftrightarrow>
     seg_FromBytes seg (ComposeBytes seg e) = ((en_FetchTime e, en_ETag e, en_ConfigJson e), None)"

lemma inMemory_roundtrip:
  assumes "codec_ok seg e" "\<not> en_Empty e"
  shows "inMemoryStore_Set seg (ComposeBytes seg e) e' = e"
  using assms by (simp add: codec_ok_def store_simps)

section \<open>Properties\<close>

text \<open>A cache of one entry and a codec for the examples: the format is the JSON alone.\<close>

definition plain_codec :: segments where
  "plain_codec = \<lparr>seg_FromBytes = (\<lambda>b. ((0, b, b), None)), seg_ToBytes = (\<lambda>t e j. j)\<rparr>"

definition one_cell :: "bytes ext_cache" where
  "one_cell = \<lparr>xc_Get = (\<lambda>c k. Inr c), xc_Set = (\<lambda>c k v. (None, v))\<rparr>"

text \<open>
  C13: no update from the shared cache is lost on its way to the SDK. Whatever the interleaving
  of the polling loop, the notifier and the listening client, when all three are idle and the
  store is open, the SDK evaluates with the entry the store holds.
\<close>

theorem polled_updates_arrive:
  assumes "lts_run (watch_step (notifyingCache_reload seg parse xc sdkId cacheKey) (\<lambda>e. e)) (watched_start st seen) es w"
    and "\<not> wd_closed w" and "wd_phase w = PollLoop" and "wd_modified w = 0" and "wd_refreshes w = 0"
  shows "wd_seen w = wd_store w"
  using cache_source.settled_run [OF assms(1,2)] assms(3-5) by (simp add: settled_def)

theorem polled_updates_arrive_witness:
  "\<exists>w. lts_run (watch_step (notifyingCache_reload plain_codec (\<lambda>j. None) one_cell ''main'' ''k'') (\<lambda>e. e))
      (watched_start (entryWithEtag ''old'' 0 ''old'' False) (entryWithEtag ''old'' 0 ''old'' False))
      [FinishRefresh, Tick ''new'', NotifyCheck, NotifySend, ListenToken, FinishRefresh] w
    \<and> en_ConfigJson (wd_store w) = ''new'' \<and> wd_seen w = wd_store w"
proof -
  let ?old = "entryWithEtag ''old'' 0 ''old'' False"
  let ?es = "[FinishRefresh, Tick ''new'', NotifyCheck, NotifySend, ListenToken, FinishRefresh]"
  let ?step = "watch_step (notifyingCache_reload plain_codec (\<lambda>j. None) one_cell ''main'' ''k'') (\<lambda>e. e)"
  let ?new = "entryWithEtag ''new'' 0 ''new'' False"
  define w where "w = (watched_start ?new ?new)\<lparr>wd_refreshes := 0\<rparr>"
  have "lts_run ?step (watched_start ?old ?old) ?es w"
    by (simp add: watch_step_simps watched_start_def store_simps plain_codec_def one_cell_def w_def)
      (rule exI [of _ "\<lparr>wd_store = \<lparr>en_ConfigJson = ''new'', en_ETag = ''new'', en_FetchTime = 0, en_Empty = False\<rparr>,
        wd_phase = NotifyCalled, wd_closed = False, wd_modified = 0, wd_refreshes = 0,
        wd_seen = \<lparr>en_ConfigJson = ''old'', en_ETag = ''old'', en_FetchTime = 0, en_Empty = False\<rparr>\<rparr>"], simp, rule exI [of _ True], simp)
  then have w: "lts_run ?step (watched_start ?old ?old) ?es w" "\<not> wd_closed w" "wd_phase w = PollLoop"
      "wd_modified w = 0" "wd_refreshes w = 0" "en_ConfigJson (wd_store w) = ''new''"
    by (simp_all add: w_def watched_start_def entryWithEtag_def)
  from polled_updates_arrive [OF w(1-5)] w(1,6) show ?thesis by blast
qed

end
