(* ===== verification/FileStore.thy ===== *)
theory FileStore
  imports Store
begin

text \<open>
  \<open>sdk/store/file\<close>: the store behind the offline mode that reads a local JSON file
  (\<open>file.go\<close>) and the two watchers that tell it to look again (\<open>file_watcher.go\<close> on file system
  events, \<open>poll_watcher.go\<close> on the modification time and the size). The operating system's
  answers are inputs; the JSON parser followed by the serialiser is \<open>normalise\<close>.
\<close>

section \<open>Definitions\<close>

record file_store =
  fs_entry :: entry
  fs_stored :: bytes

text \<open>One \<open>reload\<close>: the outcome of \<open>os.ReadFile\<close> and the current time.\<close>

definition file_reload ::
  "(bytes \<Rightarrow> bytes res) \<Rightarrow> (bytes \<Rightarrow> bytes) \<Rightarrow> string \<Rightarrow> bytes res \<times> int \<Rightarrow> file_store \<Rightarrow>
   bool \<times> file_store \<times> report list" where
  "file_reload normalise xxhash sdkId inp f =
     (case inp of
        (Inl err, now) \<Rightarrow> (False, f, [(sdkId, ''failed to read file'', True)])
      | (Inr data, now) \<Rightarrow>
          (if fs_stored f = data
           then (False, f, [(sdkId, ''config from file not modified'', False)])
           else (case normalise data of
               Inl err \<Rightarrow> (False, f, [(sdkId, ''failed to parse JSON from file'', True)])
             | Inr ser \<Rightarrow>
                 (True,
                  f\<lparr>fs_stored := data, fs_entry := StoreEntry ser now (GenerateEtag xxhash ser) (fs_entry f)\<rparr>,
                  [(sdkId, ''file source reloaded'', False)]))))"

definition fileStore_Get :: "segments \<Rightarrow> file_store \<Rightarrow> bytes res" where
  "fileStore_Get seg f = Inr (ComposeBytes seg (fs_entry f))"

definition fileStore_Set :: "bytes \<Rightarrow> file_store \<Rightarrow> file_store" where
  "fileStore_Set value f = f"

subsection \<open>Watchers\<close>

record poll_watcher =
  pw_realFilePath :: string
  pw_lastModifiedDate :: int
  pw_lastSize :: int

datatype file_watch = PollWatch poll_watcher | EventWatch string | NullWatch

text \<open>
  What the watchers ask the operating system: \<open>os.Stat\<close> (modification time and size),
  \<open>filepath.EvalSymlinks\<close>, creating an event watcher, adding a directory to it, and
  the path functions \<open>Dir\<close>, \<open>Base\<close> and \<open>Join\<close>.
\<close>

record os_files =
  os_Stat :: "string \<Rightarrow> (int \<times> int) res"
  os_EvalSymlinks :: "string \<Rightarrow> string res"
  os_NewWatcher :: "unit res"
  os_Add :: "string \<Rightarrow> unit res"
  os_Dir :: "string \<Rightarrow> string"
  os_Base :: "string \<Rightarrow> string"
  os_Join :: "string \<Rightarrow> string \<Rightarrow> string"

definition newFileWatcher :: "os_files \<Rightarrow> local_config \<Rightarrow> string res" where
  "newFileWatcher os conf =
     bind_res (os_Stat os (FilePath conf)) (\<lambda>_.
     bind_res (os_NewWatcher os) (\<lambda>_.
     bind_res (os_EvalSymlinks os (os_Dir os (FilePath conf))) (\<lambda>realPath.
     bind_res (os_Add os realPath) (\<lambda>_.
     Inr (os_Join os realPath (os_Base os (FilePath conf)))))))"

definition newPollWatcher :: "os_files \<Rightarrow> local_config \<Rightarrow> poll_watcher res" where
  "newPollWatcher os conf =
     bind_res (os_Stat os (FilePath conf)) (\<lambda>(modTime, sz).
     bind_res (os_EvalSymlinks os (FilePath conf)) (\<lambda>realPath.
     Inr \<lparr>pw_realFilePath = realPath, pw_lastModifiedDate = modTime, pw_lastSize = sz\<rparr>))"

text \<open>\<open>run\<close> of the event watcher: whether an event \<open>(name, is a write)\<close> notifies.\<close>

definition fileWatcher_event :: "string \<Rightarrow> string \<times> bool \<Rightarrow> bool" where
  "fileWatcher_event realFilePath ev = (fst ev = realFilePath \<and> snd ev)"

text \<open>One tick of the poll watcher.\<close>

fun pollWatcher_tick :: "(int \<times> int) res \<Rightarrow> poll_watcher \<Rightarrow> bool \<times> poll_watcher" where
  "pollWatcher_tick (Inl err) p = (False, p)"
| "pollWatcher_tick (Inr (modTime, sz)) p =
     (if modTime \<noteq> pw_lastModifiedDate p \<or> sz \<noteq> pw_lastSize p
      then (True, p\<lparr>pw_lastModifiedDate := modTime, pw_lastSize := sz\<rparr>) else (False, p))"

definition pollWatcher_interval :: "int \<Rightarrow> int" where
  "pollWatcher_interval interval = (if interval < 1 then DefaultCachePollInterval else interval)"

text \<open>\<open>NewFileStore\<close>: which watcher is used; then the first reload.\<close>

definition choose_watcher :: "os_files \<Rightarrow> local_config \<Rightarrow> file_watch" where
  "choose_watcher os conf =
     (let poll = (case newPollWatcher os conf of Inl err \<Rightarrow> NullWatch | Inr p \<Rightarrow> PollWatch p)
      in if Polling conf then poll
         else (case newFileWatcher os conf of Inl err \<Rightarrow> poll | Inr path \<Rightarrow> EventWatch path))"

definition NewFileStore ::
  "os_files \<Rightarrow> (bytes \<Rightarrow> bytes res) \<Rightarrow> (bytes \<Rightarrow> bytes) \<Rightarrow> bytes \<Rightarrow> int \<Rightarrow> string \<Rightarrow> local_config \<Rightarrow>
   bytes res \<times> int \<Rightarrow> file_watch \<times> file_store \<times> report list" where
  "NewFileStore os normalise xxhash initial zero sdkId conf inp =
     (choose_watcher os conf,
      snd (file_reload normalise xxhash sdkId inp
        \<lparr>fs_entry = NewEntryStore xxhash initial zero, fs_stored = []\<rparr>))"

section \<open>Lemmas\<close>

text \<open>The file store honours the contract of a reloadable source.\<close>

interpretation file_source: reloadable "file_reload normalise xxhash sdkId" fs_entry sdkId
  for normalise xxhash sdkId
  by unfold_locales
    (auto simp: file_reload_def StoreEntry_def entryWithEtag_def split: sum.splits prod.splits if_splits)

text \<open>The stored bytes and the entry stay in step.\<close>

definition file_inv :: "(bytes \<Rightarrow> bytes res) \<Rightarrow> (bytes \<Rightarrow> bytes) \<Rightarrow> file_store \<Rightarrow> bool" where
  "file_inv normalise xxhash f \<longleftrightarrow>
     (if en_Empty (fs_entry f) then fs_stored f = []
      else normalise (fs_stored f) = Inr (en_ConfigJson (fs_entry f))
           \<and> en_ETag (fs_entry f) = GenerateEtag xxhash (en_ConfigJson (fs_entry f)))"

lemma file_inv_reload:
  "file_inv normalise xxhash f \<Longrightarrow> file_reload normalise xxhash sdkId inp f = (b, f', rs) \<Longrightarrow>
   file_inv normalise xxhash f'"
  by (auto simp: file_reload_def file_inv_def StoreEntry_def entryWithEtag_def
      split: sum.splits prod.splits if_splits)

interpretation file_machine: invariant_machine
  "\<lambda>f inp. fst (snd (file_reload normalise xxhash sdkId inp f))" "\<lambda>_ _. True" "file_inv normalise xxhash"
  for normalise xxhash sdkId
  by unfold_locales (metis file_inv_reload prod.collapse)

text \<open>A reload serves the file exactly when it can be read and parsed.\<close>

lemma file_reload_serves:
  assumes "file_inv normalise xxhash f" "normalise data = Inr ser" "data \<noteq> []"
    and "file_reload normalise xxhash sdkId (Inr data, now) f = (b, f', rs)"
  shows "en_ConfigJson (fs_entry f') = ser \<and> \<not> en_Empty (fs_entry f') \<and> (b \<longleftrightarrow> fs_stored f \<noteq> data)"
  using assms
  by (auto simp: file_reload_def file_inv_def StoreEntry_def entryWithEtag_def split: if_splits)

text \<open>The poll watcher notifies exactly on the changes between successful looks.\<close>

fun changes :: "int \<times> int \<Rightarrow> (int \<times> int) res list \<Rightarrow> nat" where
  "changes old [] = 0"
| "changes old (Inl e # xs) = changes old xs"
| "changes old (Inr x # xs) = (if x = old then 0 else 1) + changes x xs"

fun poll_run :: "(int \<times> int) res list \<Rightarrow> poll_watcher \<Rightarrow> nat \<times> poll_watcher" where
  "poll_run [] p = (0, p)"
| "poll_run (x # xs) p =
     (let (b, p') = pollWatcher_tick x p; (n, q) = poll_run xs p' in ((if b then 1 else 0) + n, q))"

lemma poll_run_changes:
  "fst (poll_run xs p) = changes (pw_lastModifiedDate p, pw_lastSize p) xs"
proof (induction xs arbitrary: p)
  case (Cons x xs)
  show ?case
  proof (cases x)
    case (Inr y)
    then show ?thesis by (cases y) (auto simp: Let_def case_prod_beta Cons.IH)
  qed (simp add: Let_def case_prod_beta Cons.IH)
qed simp

section \<open>Properties\<close>

text \<open>
  Whatever the store of a local file has read before, reloading a file that can be read and
  parsed makes it serve the serialised content of that file, under the ETag of this content, and
  the reload reports a change only when the bytes differ from the last accepted ones. A file
  that cannot be read or parsed leaves what is served as it was.
\<close>

lemma file_content_served:
  assumes "f = run_ops (\<lambda>f inp. fst (snd (file_reload normalise xxhash sdkId inp f)))
      (fst (snd (NewFileStore os normalise xxhash initial zero sdkId conf inp))) inps"
    and "file_reload normalise xxhash sdkId (data, now) f = (b, f', rs)" and "data \<noteq> Inr []"
  shows "case bind_res data normalise of
      Inl e \<Rightarrow> f' = f \<and> (\<not> b)
    | Inr ser \<Rightarrow> en_ConfigJson (fs_entry f') = ser \<and> en_ETag (fs_entry f') = GenerateEtag xxhash ser
        \<and> (b \<longleftrightarrow> fs_stored f \<noteq> projr data) \<and> \<not> en_Empty (fs_entry f')"
proof -
  have "file_inv normalise xxhash \<lparr>fs_entry = NewEntryStore xxhash initial zero, fs_stored = []\<rparr>"
    by (simp add: file_inv_def NewEntryStore_def entryWithEtag_def)
  then have new: "file_inv normalise xxhash (fst (snd (NewFileStore os normalise xxhash initial zero sdkId conf inp)))"
    unfolding NewFileStore_def using file_inv_reload by (metis prod.collapse snd_conv)
  have inv: "file_inv normalise xxhash f"
    unfolding assms(1) by (rule file_machine.run_inv [OF new]) (rule admissible_True)
  have inv': "file_inv normalise xxhash f'" by (rule file_inv_reload [OF inv assms(2)])
  show ?thesis
  proof (cases data)
    case (Inr bytes)
    show ?thesis
    proof (cases "normalise bytes")
      case (Inl e)
      then show ?thesis using assms(2,3) inv Inr
        by (auto simp: file_reload_def file_inv_def bind_res_def split: if_splits)
    next
      case ser: (Inr ser)
      have ne: "bytes \<noteq> []" using assms(3) Inr by simp
      show ?thesis
        using file_reload_serves [OF inv ser ne assms(2) [unfolded Inr]] inv' ser Inr
        by (simp add: bind_res_def file_inv_def)
    qed
  qed (use assms(2) in \<open>simp add: file_reload_def bind_res_def\<close>)
qed

end
