(* ===== verification/Client.thy ===== *)
theory Client
  imports UserAttrs FileStore Status
begin

text \<open>
  \<open>sdk/sdk.go\<close>: the proxy's client around one ConfigCat SDK instance, and
  \<open>sdk/user_agent.go\<close>. The ConfigCat SDK is third-party: an evaluation snapshot is the record
  \<open>snapshot\<close> of the functions the client calls on it, and the cache key it derives from an SDK
  key is the parameter \<open>ProduceCacheKey\<close>. Goroutines started by \<open>NewClient\<close> are listed in
  \<open>nc_listens\<close>; the protocol between the store's loop and \<open>listen\<close> is in theory \<open>Store\<close>, the
  publisher in theory \<open>PubSub\<close>.
\<close>

section \<open>Definitions\<close>

definition validEmptySdkKey :: string where
  "validEmptySdkKey = ''0000000000000000000000/0000000000000000000000''"

text \<open>\<open>sdk.Context\<close>: the fields the client reads (the reporters are effects).\<close>

record client_ctx =
  cx_SdkId :: string
  cx_SecondarySdkKey :: "string option"
  cx_SDKConf :: sdk_config
  cx_GlobalDefaultAttrs :: user_attrs
  cx_ExternalCache :: bool
  cx_EvalReporter :: bool

datatype storage =
    FileStorage local_config level
  | NotifyingCacheStorage string offline_config level
  | CacheStorage
  | InMemoryStorage

datatype data_governance = Global | EUOnly

text \<open>The configuration handed to the SDK (\<open>configcat.Config\<close>), and which hooks are set.\<close>

record configcat_config =
  cc_Manual :: bool
  cc_Offline :: bool
  cc_BaseURL :: string
  cc_SDKKey :: string
  cc_DataGovernance :: data_governance
  cc_OnConfigChanged :: bool
  cc_OnFlagEvaluated :: bool
  cc_StatusTransport :: bool

definition client_storage :: "(string \<Rightarrow> string) \<Rightarrow> client_ctx \<Rightarrow> storage" where
  "client_storage ProduceCacheKey cx =
     (let conf = cx_SDKConf cx; off = sdk_Offline conf; offline = off_Enabled off
      in if offline \<and> FilePath (off_Local off) \<noteq> [] then FileStorage (off_Local off) (GetLevel (off_Log off))
         else if offline \<and> off_UseCache off \<and> cx_ExternalCache cx
         then NotifyingCacheStorage (ProduceCacheKey (sdk_Key conf)) off (GetLevel (off_Log off))
         else if \<not> offline \<and> cx_ExternalCache cx then CacheStorage
         else InMemoryStorage)"

fun is_notifying :: "storage \<Rightarrow> bool" where
  "is_notifying (FileStorage _ _) \<longleftrightarrow> True"
| "is_notifying (NotifyingCacheStorage _ _ _) \<longleftrightarrow> True"
| "is_notifying _ \<longleftrightarrow> False"

definition client_config :: "(string \<Rightarrow> string) \<Rightarrow> client_ctx \<Rightarrow> configcat_config" where
  "client_config ProduceCacheKey cx =
     (let conf = cx_SDKConf cx; offline = off_Enabled (sdk_Offline conf);
          key = (case client_storage ProduceCacheKey cx of FileStorage _ _ \<Rightarrow> validEmptySdkKey | _ \<Rightarrow> sdk_Key conf)
      in \<lparr>cc_Manual = True, cc_Offline = offline, cc_BaseURL = sdk_BaseUrl conf, cc_SDKKey = key,
          cc_DataGovernance = (if sdk_DataGovernance conf = ''eu'' then EUOnly else Global),
          cc_OnConfigChanged = (\<not> offline), cc_OnFlagEvaluated = cx_EvalReporter cx,
          cc_StatusTransport = (\<not> offline)\<rparr>)"

text \<open>What the SDK reports for one flag evaluation (\<open>EvaluationDetails\<close>).\<close>

record details =
  dt_Key :: string
  dt_Value :: go_val
  dt_VariationID :: string
  dt_User :: user_attrs
  dt_Error :: "eval_error option"
  dt_MatchedPercentageOption :: bool
  dt_MatchedTargetingRule :: bool

record snapshot =
  sn_GetValueDetails :: "user_attrs \<Rightarrow> string \<Rightarrow> details"
  sn_GetAllValueDetails :: "user_attrs \<Rightarrow> details list"
  sn_GetAllKeys :: "string list"

record client =
  cl_ctx :: client_ctx
  cl_storage :: storage
  cl_config :: configcat_config
  cl_defaultAttrs :: user_attrs
  cl_initialized :: bool
  cl_closed :: bool
  cl_cache :: entry
  cl_snapshot :: snapshot

definition NewClient :: "(string \<Rightarrow> string) \<Rightarrow> entry \<Rightarrow> snapshot \<Rightarrow> client_ctx \<Rightarrow> client" where
  "NewClient ProduceCacheKey stored snap cx =
     \<lparr>cl_ctx = cx, cl_storage = client_storage ProduceCacheKey cx, cl_config = client_config ProduceCacheKey cx,
      cl_defaultAttrs = MergeUserAttrs (cx_GlobalDefaultAttrs cx) (sdk_DefaultAttrs (cx_SDKConf cx)),
      cl_initialized = False, cl_closed = False, cl_cache = stored, cl_snapshot = snap\<rparr>"

text \<open>The poll interval in seconds of a client that polls, \<open>None\<close> for one that listens.\<close>

definition poll_interval :: "client \<Rightarrow> int option" where
  "poll_interval c =
     (if is_notifying (cl_storage c) then None
      else (let interval = sdk_PollInterval (cx_SDKConf (cl_ctx c))
            in Some (if interval < 1 then DefaultSdkPollInterval else interval)))"

text \<open>\<open>signal\<close>: the actions it performs, in order.\<close>

datatype signal_action = RefreshSdk | PublishChange

definition signal :: "client \<Rightarrow> client \<times> signal_action list" where
  "signal c =
     (let offline = off_Enabled (sdk_Offline (cx_SDKConf (cl_ctx c)))
      in if \<not> offline \<and> \<not> cl_initialized c then (c\<lparr>cl_initialized := True\<rparr>, [])
         else (c, (if offline then [RefreshSdk] else []) @ [PublishChange]))"

fun signals :: "nat \<Rightarrow> client \<Rightarrow> client \<times> signal_action list" where
  "signals 0 c = (c, [])"
| "signals (Suc n) c = (let (c', as) = signal c; (c'', bs) = signals n c' in (c'', as @ bs))"

definition eval_data_of :: "details \<Rightarrow> eval_data" where
  "eval_data_of d = \<lparr>ed_Value = dt_Value d, ed_VariationId = dt_VariationID d, ed_Error = dt_Error d,
     ed_User = dt_User d, ed_IsTargeting = (dt_MatchedPercentageOption d \<or> dt_MatchedTargetingRule d)\<rparr>"

definition Eval :: "client \<Rightarrow> string \<Rightarrow> user_attrs \<Rightarrow> eval_data" where
  "Eval c key user =
     eval_data_of (sn_GetValueDetails (cl_snapshot c) (MergeUserAttrs (cl_defaultAttrs c) user) key)"

fun collect_details :: "details list \<Rightarrow> (string \<rightharpoonup> eval_data) \<Rightarrow> (string \<rightharpoonup> eval_data)" where
  "collect_details [] result = result"
| "collect_details (d # ds) result = collect_details ds (result(dt_Key d \<mapsto> eval_data_of d))"

definition EvalAll :: "client \<Rightarrow> user_attrs \<Rightarrow> (string \<rightharpoonup> eval_data)" where
  "EvalAll c user =
     collect_details
       (sn_GetAllValueDetails (cl_snapshot c) (MergeUserAttrs (cl_defaultAttrs c) user)) Map.empty"

definition client_Keys :: "client \<Rightarrow> string list" where
  "client_Keys c = sn_GetAllKeys (cl_snapshot c)"

fun key_loop :: "string \<Rightarrow> string list \<Rightarrow> bool" where
  "key_loop key [] = False"
| "key_loop key (k # ks) = (if k = key then True else key_loop key ks)"

definition HasKey :: "client \<Rightarrow> string \<Rightarrow> bool" where
  "HasKey c key = key_loop key (sn_GetAllKeys (cl_snapshot c))"

definition GetCachedJson :: "client \<Rightarrow> entry" where
  "GetCachedJson c = cl_cache c"

definition IsInValidState :: "client \<Rightarrow> bool" where
  "IsInValidState c = (\<not> en_Empty (GetCachedJson c))"

definition SdkKeys :: "client \<Rightarrow> string \<times> string option" where
  "SdkKeys c = (sdk_Key (cx_SDKConf (cl_ctx c)), cx_SecondarySdkKey (cl_ctx c))"

definition SetSecondarySdkKey :: "string \<Rightarrow> client \<Rightarrow> client" where
  "SetSecondarySdkKey sdkKey c = c\<lparr>cl_ctx := (cl_ctx c)\<lparr>cx_SecondarySdkKey := Some sdkKey\<rparr>\<rparr>"

definition WebhookSigningKey :: "client \<Rightarrow> string" where
  "WebhookSigningKey c = sdk_WebhookSigningKey (cx_SDKConf (cl_ctx c))"

definition WebhookSignatureValidFor :: "client \<Rightarrow> int" where
  "WebhookSignatureValidFor c = sdk_WebhookSignatureValidFor (cx_SDKConf (cl_ctx c))"

text \<open>The event of the evaluation hook.\<close>

record eval_event =
  ev_SdkId :: string
  ev_FlagKey :: string
  ev_Value :: go_val
  ev_UserAttrs :: user_attrs

definition OnFlagEvaluated :: "client_ctx \<Rightarrow> details \<Rightarrow> eval_event" where
  "OnFlagEvaluated cx d = \<lparr>ev_SdkId = cx_SdkId cx, ev_FlagKey = dt_Key d, ev_Value = dt_Value d,
     ev_UserAttrs = dt_User d\<rparr>"

text \<open>\<open>client.Close\<close>; the cache of a notifying storage is closed first.\<close>

datatype close_action = CloseNotifier | ClosePublisher | CancelContext | CloseSdk

definition Close :: "client \<Rightarrow> client \<times> close_action list" where
  "Close c = (c\<lparr>cl_closed := True\<rparr>,
     (if is_notifying (cl_storage c) then [CloseNotifier] else []) @ [ClosePublisher, CancelContext, CloseSdk])"

subsection \<open>The user agent\<close>

text \<open>Request headers with canonical names; \<open>RoundTrip\<close> of \<open>userAgentInterceptor\<close>.\<close>

definition configCatUserAgentHeader :: string where
  "configCatUserAgentHeader = ''X-ConfigCat-UserAgent''"

definition OverrideUserAgent :: "string \<Rightarrow> (string \<rightharpoonup> string) \<Rightarrow> (string \<rightharpoonup> string)" where
  "OverrideUserAgent proxyVersion hdrs =
     (let agent = ''ConfigCat-Proxy/'' @ proxyVersion;
          hdrs' = (if (case hdrs configCatUserAgentHeader of None \<Rightarrow> [] | Some v \<Rightarrow> v) \<noteq> []
                   then hdrs(configCatUserAgentHeader \<mapsto> agent) else hdrs)
      in hdrs'(''User-Agent'' \<mapsto> agent))"

section \<open>Lemmas\<close>

named_theorems client_simps \<open>projections of a client\<close>

lemmas [client_simps] = SdkKeys_def SetSecondarySdkKey_def NewClient_def GetCachedJson_def
  IsInValidState_def WebhookSigningKey_def WebhookSignatureValidFor_def

subsection \<open>The interface the handlers rely on\<close>

text \<open>
  The laws of \<open>sdk.Client\<close> that the API, the streams and the gRPC service use: membership of
  the keys, validity as the presence of a configuration, and that the default attributes are
  merged in below the caller's, once.
\<close>

locale sdk_client =
  fixes eval :: "'c \<Rightarrow> string \<Rightarrow> user_attrs \<Rightarrow> eval_data"
    and eval_all :: "'c \<Rightarrow> user_attrs \<Rightarrow> (string \<rightharpoonup> eval_data)"
    and keys :: "'c \<Rightarrow> string list"
    and has_key :: "'c \<Rightarrow> string \<Rightarrow> bool"
    and defaults :: "'c \<Rightarrow> user_attrs"
  assumes has_key_iff: "has_key c k \<longleftrightarrow> k \<in> set (keys c)"
    and eval_merge: "eval c k (MergeUserAttrs (defaults c) u) = eval c k u"
    and eval_all_merge: "eval_all c (MergeUserAttrs (defaults c) u) = eval_all c u"
begin

text \<open>A request without attributes is one with the defaults spelled out.\<close>

lemma eval_nil: "eval c k (defaults c) = eval c k None"
  using eval_merge [of c k None] by simp

lemma eval_all_nil: "eval_all c (defaults c) = eval_all c None"
  using eval_all_merge [of c None] by simp

text \<open>Attributes that only repeat defaults do not change the result.\<close>

lemma eval_redundant:
  assumes "defaults c = Some d" "u = Some m" "\<And>k v. m k = Some v \<Longrightarrow> d k = Some v"
  shows "eval c key u = eval c key None"
proof -
  have "d ++ m = d"
  proof
    fix k
    show "(d ++ m) k = d k" using assms(3) [of k] by (cases "m k") (auto simp: map_add_def)
  qed
  then have "MergeUserAttrs (defaults c) u = defaults c"
    using assms by (simp add: MergeUserAttrs_def)
  then show ?thesis using eval_merge [of c key u] eval_nil [of c key] by simp
qed

end

lemma key_loop_iff: "key_loop k ks \<longleftrightarrow> k \<in> set ks"
  by (induction ks) auto

lemma Merge_idem: "MergeUserAttrs a (MergeUserAttrs a b) = MergeUserAttrs a b"
proof -
  have "MergeUserAttrs a a = a"
    by (cases a) (auto simp: MergeUserAttrs_def map_add_def fun_eq_iff split: option.splits)
  then show ?thesis by (simp flip: MergeUserAttrs_assoc)
qed

interpretation client: sdk_client Eval EvalAll client_Keys HasKey cl_defaultAttrs
  by unfold_locales
    (simp_all add: HasKey_def client_Keys_def key_loop_iff Eval_def EvalAll_def Merge_idem)

subsection \<open>Signals\<close>

lemma signals_offline:
  "off_Enabled (sdk_Offline (cx_SDKConf (cl_ctx c))) \<Longrightarrow>
   signals n c = (c, concat (replicate n [RefreshSdk, PublishChange]))"
  by (induction n) (simp_all add: signal_def)

lemma signals_initialized:
  "\<not> off_Enabled (sdk_Offline (cx_SDKConf (cl_ctx c))) \<Longrightarrow> cl_initialized c \<Longrightarrow>
   signals n c = (c, replicate n PublishChange)"
  by (induction n) (simp_all add: signal_def)

lemma signals_fresh:
  assumes "\<not> off_Enabled (sdk_Offline (cx_SDKConf (cl_ctx c)))" "\<not> cl_initialized c"
  shows "snd (signals n c) = replicate (n - 1) PublishChange"
proof (cases n)
  case (Suc m)
  then show ?thesis
    using signals_initialized [of "c\<lparr>cl_initialized := True\<rparr>" m] assms by (simp add: signal_def)
qed simp

subsection \<open>Evaluating everything\<close>

lemma collect_details_eq:
  "collect_details ds r = r ++ map_of (rev (map (\<lambda>d. (dt_Key d, eval_data_of d)) ds))"
  by (induction ds arbitrary: r) (simp_all add: map_add_def fun_eq_iff split: option.splits)

lemma EvalAll_dom:
  "dom (EvalAll c u) = dt_Key ` set (sn_GetAllValueDetails (cl_snapshot c) (MergeUserAttrs (cl_defaultAttrs c) u))"
  by (simp add: EvalAll_def collect_details_eq dom_map_of_conv_image_fst image_image)

lemma EvalAll_agrees:
  assumes "\<And>d. d \<in> set (sn_GetAllValueDetails (cl_snapshot c) (MergeUserAttrs (cl_defaultAttrs c) u)) \<Longrightarrow>
      sn_GetValueDetails (cl_snapshot c) (MergeUserAttrs (cl_defaultAttrs c) u) (dt_Key d) = d"
    and "EvalAll c u k = Some v"
  shows "Eval c k u = v"
proof -
  obtain d where "d \<in> set (sn_GetAllValueDetails (cl_snapshot c) (MergeUserAttrs (cl_defaultAttrs c) u))"
    "k = dt_Key d" "v = eval_data_of d"
    using assms(2) by (auto simp: EvalAll_def collect_details_eq dest!: map_of_SomeD)
  then show ?thesis using assms(1) by (simp add: Eval_def)
qed

section \<open>Properties\<close>

text \<open>
  How often a client announces a change: offline, once for each of \<open>n\<close> signals, each time
  after it has reloaded the SDK; online, once for each signal but the very first, which is the
  SDK's own initialisation.
\<close>

lemma changes_announced:
  "snd (signals n c) =
    (if off_Enabled (sdk_Offline (cx_SDKConf (cl_ctx c))) then concat (replicate n [RefreshSdk, PublishChange])
     else replicate (if cl_initialized c then n else n - 1) PublishChange)"
  using signals_offline signals_initialized signals_fresh by simp

text \<open>
  Evaluating all flags agrees with evaluating one: \<open>EvalAll\<close> has an entry for exactly the
  flags of the snapshot, and the entry is what \<open>Eval\<close> returns for this flag and user, given
  that the SDK's two evaluation functions agree.
\<close>

lemma eval_all_agrees:
  assumes "\<forall>d \<in> set (sn_GetAllValueDetails (cl_snapshot c) (MergeUserAttrs (cl_defaultAttrs c) u)).
      sn_GetValueDetails (cl_snapshot c) (MergeUserAttrs (cl_defaultAttrs c) u) (dt_Key d) = d"
  shows "dom (EvalAll c u) = dt_Key ` set (sn_GetAllValueDetails (cl_snapshot c) (MergeUserAttrs (cl_defaultAttrs c) u))
    \<and> (\<forall>k v. EvalAll c u k = Some v \<longrightarrow> Eval c k u = v)"
  using EvalAll_dom EvalAll_agrees [of c u] assms by blast

end
