(* ===== verification/ExternalCache.thy ===== *)
theory ExternalCache
  imports Store
begin

text \<open>
  \<open>cache\<close>: which shared cache the configuration selects (\<open>cache.go\<close>), how each backend is set
  up, and the reads and writes that do more than delegate (\<open>dynamodb.go\<close>, \<open>mongodb.go\<close>). The
  database drivers are third-party: each driver call is a parameter with its outcome.
\<close>

section \<open>Definitions\<close>

definition keyName :: string where "keyName = ''key''"
definition payloadName :: string where "payloadName = ''payload''"

record 'cert redis_options =
  ro_Addrs :: "string list"
  ro_Username :: string
  ro_Password :: string
  ro_DB :: int
  ro_TLSConfig :: "'cert tls_options option"

datatype 'cert backend =
    RedisStore "'cert redis_options"
  | MongoStore string string string "'cert tls_options option"
  | DynamoStore "string option" string

definition load_tls ::
  "(string \<Rightarrow> string \<Rightarrow> 'cert res) \<Rightarrow> tls_config \<Rightarrow> 'cert tls_options option res" where
  "load_tls load tls =
     (if tls_Enabled tls then bind_res (LoadTlsOptions load tls) (\<lambda>t. Inr (Some t)) else Inr None)"

definition newRedis :: "(string \<Rightarrow> string \<Rightarrow> 'cert res) \<Rightarrow> redis_config \<Rightarrow> 'cert backend res" where
  "newRedis load conf =
     bind_res (load_tls load (redis_Tls conf)) (\<lambda>t.
     Inr (RedisStore \<lparr>ro_Addrs = Addresses conf, ro_Username = redis_User conf,
       ro_Password = redis_Password conf, ro_DB = redis_DB conf, ro_TLSConfig = t\<rparr>))"

text \<open>\<open>connect\<close> is \<open>mongo.Connect\<close>, \<open>create_index\<close> the creation of the unique index.\<close>

definition newMongoDb ::
  "(string \<Rightarrow> string \<Rightarrow> 'cert res) \<Rightarrow> (string \<Rightarrow> unit res) \<Rightarrow> (string \<Rightarrow> string \<Rightarrow> unit res) \<Rightarrow>
   mongo_config \<Rightarrow> 'cert backend res" where
  "newMongoDb load connect create_index conf =
     bind_res (load_tls load (mongo_Tls conf)) (\<lambda>t.
     bind_res (connect (mongo_Url conf)) (\<lambda>_.
     bind_res (create_index (mongo_Database conf) (mongo_Collection conf)) (\<lambda>_.
     Inr (MongoStore (mongo_Url conf) (mongo_Database conf) (mongo_Collection conf) t))))"

definition newDynamoDb :: "unit res \<Rightarrow> dynamo_config \<Rightarrow> 'cert backend res" where
  "newDynamoDb load_aws conf =
     bind_res load_aws (\<lambda>_.
     Inr (DynamoStore (if dynamo_Url conf \<noteq> [] then Some (dynamo_Url conf) else None) (dynamo_Table conf)))"

definition SetupExternalCache ::
  "(string \<Rightarrow> string \<Rightarrow> 'cert res) \<Rightarrow> (string \<Rightarrow> unit res) \<Rightarrow> (string \<Rightarrow> string \<Rightarrow> unit res) \<Rightarrow> unit res \<Rightarrow>
   cache_config \<Rightarrow> 'cert backend option res" where
  "SetupExternalCache load connect create_index load_aws conf =
     (if redis_Enabled (Redis conf) then bind_res (newRedis load (Redis conf)) (\<lambda>b. Inr (Some b))
      else if mongo_Enabled (MongoDb conf)
      then bind_res (newMongoDb load connect create_index (MongoDb conf)) (\<lambda>b. Inr (Some b))
      else if dynamo_Enabled (DynamoDb conf)
      then bind_res (newDynamoDb load_aws (DynamoDb conf)) (\<lambda>b. Inr (Some b))
      else Inr None)"

subsection \<open>DynamoDB items\<close>

text \<open>An item is a map of attributes; the store uses string and binary attributes.\<close>

datatype attribute = AttrS string | AttrB bytes | AttrOther

type_synonym item = "string \<rightharpoonup> attribute"

definition dynamo_Get :: "('t \<Rightarrow> string \<Rightarrow> item res) \<Rightarrow> 't \<Rightarrow> string \<Rightarrow> bytes res" where
  "dynamo_Get getItem t key =
     (case getItem t key of
        Inl err \<Rightarrow> Inl err
      | Inr item \<Rightarrow>
          (case item payloadName of
             Some (AttrB v) \<Rightarrow> Inr v
           | Some _ \<Rightarrow> Inl (''invalid item under key '' @ quoted key)
           | None \<Rightarrow> Inl (''cache item not found for key '' @ quoted key)))"

definition dynamo_Set :: "('t \<Rightarrow> item \<Rightarrow> string option \<times> 't) \<Rightarrow> 't \<Rightarrow> string \<Rightarrow> bytes \<Rightarrow> string option \<times> 't" where
  "dynamo_Set putItem t key value = putItem t [keyName \<mapsto> AttrS key, payloadName \<mapsto> AttrB value]"

text \<open>MongoDB documents with the key and the payload.\<close>

record mongo_entry =
  me_Key :: string
  me_Payload :: bytes

definition mongo_Get :: "('t \<Rightarrow> string \<Rightarrow> mongo_entry res) \<Rightarrow> 't \<Rightarrow> string \<Rightarrow> bytes res" where
  "mongo_Get findOne t key = (case findOne t key of Inl err \<Rightarrow> Inl err | Inr result \<Rightarrow> Inr (me_Payload result))"

definition mongo_Set ::
  "('t \<Rightarrow> string \<Rightarrow> mongo_entry \<Rightarrow> string option \<times> 't) \<Rightarrow> 't \<Rightarrow> string \<Rightarrow> bytes \<Rightarrow> string option \<times> 't" where
  "mongo_Set replaceOne t key value = replaceOne t key \<lparr>me_Key = key, me_Payload = value\<rparr>"

definition dynamo_cache ::
  "('t \<Rightarrow> string \<Rightarrow> item res) \<Rightarrow> ('t \<Rightarrow> item \<Rightarrow> string option \<times> 't) \<Rightarrow> 't ext_cache" where
  "dynamo_cache getItem putItem = \<lparr>xc_Get = dynamo_Get getItem, xc_Set = dynamo_Set putItem\<rparr>"

definition mongo_cache ::
  "('t \<Rightarrow> string \<Rightarrow> mongo_entry res) \<Rightarrow> ('t \<Rightarrow> string \<Rightarrow> mongo_entry \<Rightarrow> string option \<times> 't) \<Rightarrow> 't ext_cache" where
  "mongo_cache findOne replaceOne = \<lparr>xc_Get = mongo_Get findOne, xc_Set = mongo_Set replaceOne\<rparr>"

section \<open>Lemmas\<close>

text \<open>What the DynamoDB documentation says of \<open>PutItem\<close> followed by a consistent \<open>GetItem\<close>.\<close>

definition table_law ::
  "('t \<Rightarrow> string \<Rightarrow> item res) \<Rightarrow> ('t \<Rightarrow> item \<Rightarrow> string option \<times> 't) \<Rightarrow> bool" where
  "table_law getItem putItem \<longleftrightarrow>
     (\<forall>t t' it key. putItem t it = (None, t') \<and> it keyName = Some (AttrS key) \<longrightarrow> getItem t' key = Inr it)"

lemma dynamo_roundtrip:
  assumes "table_law getItem putItem" "dynamo_Set putItem t key value = (None, t')"
  shows "dynamo_Get getItem t' key = Inr value"
proof -
  let ?it = "[keyName \<mapsto> AttrS key, payloadName \<mapsto> AttrB value]"
  have "?it keyName = Some (AttrS key)" "?it payloadName = Some (AttrB value)"
    by (simp_all add: keyName_def payloadName_def)
  moreover from this assms have "getItem t' key = Inr ?it"
    unfolding table_law_def dynamo_Set_def by metis
  ultimately show ?thesis by (simp only: dynamo_Get_def sum.case option.case attribute.case)
qed

lemma SetupExternalCache_selects:
  assumes "SetupExternalCache load connect create_index load_aws conf = Inr b"
  shows "(b = None \<longleftrightarrow> \<not> cache_IsSet conf)
    \<and> ((\<exists>o1. b = Some (RedisStore o1)) \<longleftrightarrow> redis_Enabled (Redis conf))
    \<and> ((\<exists>u d c t. b = Some (MongoStore u d c t)) \<longleftrightarrow> \<not> redis_Enabled (Redis conf) \<and> mongo_Enabled (MongoDb conf))"
  using assms
  by (auto simp: SetupExternalCache_def newRedis_def newMongoDb_def newDynamoDb_def cache_IsSet_def
      elim!: bind_res_InrE split: if_splits)

end
