(* ===== verification/Registrar.thy ===== *)
theory Registrar
  imports Client
begin

text \<open>
  \<open>sdk/sdk_registrar.go\<close> and \<open>sdk/sdk_auto_registrar.go\<close>: the registrars that own the SDK
  clients. The manual one is built once from the configuration; the automatic one follows a
  proxy profile that it fetches, caches and compares with the clients it has. Clients are
  objects with identity (a lookup by key and one by id return the same pointer, and the
  secondary key is set in place), so they live in a heap, a list of client objects indexed by
  address. Calls of \<open>Publish\<close> and of the status reporter are logged in order. The order in
  which a map is ranged over is a list argument.
\<close>

section \<open>Definitions\<close>

datatype status_call = CallRegister string sdk_config | CallUpdate string sdk_config | CallRemove string

text \<open>
  The environment of a registrar: the configuration, the cache key function of the SDK, and
  what a new SDK instance finds for its context.
\<close>

record reg_env =
  re_conf :: config
  re_ProduceCacheKey :: "string \<Rightarrow> string"
  re_load :: "client_ctx \<Rightarrow> entry \<times> snapshot"
  re_cache_set :: bool

definition new_client :: "reg_env \<Rightarrow> client_ctx \<Rightarrow> client" where
  "new_client env cx = NewClient (re_ProduceCacheKey env) (fst (re_load env cx)) (snd (re_load env cx)) cx"

subsection \<open>The manual registrar\<close>

record manual_registrar =
  mr_sdkClients :: "string \<rightharpoonup> nat"
  mr_sdkClientsBySdkKey :: "string \<rightharpoonup> nat"
  mr_objs :: "client list"
  mr_status :: "status_call list"

text \<open>The loop of \<open>newManualRegistrar\<close>; a nil SDK configuration panics (\<open>None\<close>).\<close>

fun manual_loop :: "reg_env \<Rightarrow> string list \<Rightarrow> manual_registrar \<Rightarrow> manual_registrar option" where
  "manual_loop env [] r = Some r"
| "manual_loop env (k # ks) r =
     (case c_SDKs (re_conf env) k of
        None \<Rightarrow> manual_loop env ks r
      | Some None \<Rightarrow> None
      | Some (Some sdkConf) \<Rightarrow>
          (let sdkClient = new_client env
                 \<lparr>cx_SdkId = k, cx_SecondarySdkKey = None, cx_SDKConf = sdkConf,
                  cx_GlobalDefaultAttrs = c_DefaultAttrs (re_conf env),
                  cx_ExternalCache = re_cache_set env, cx_EvalReporter = False\<rparr>;
               a = length (mr_objs r)
           in manual_loop env ks
                \<lparr>mr_sdkClients = (mr_sdkClients r)(k \<mapsto> a),
                 mr_sdkClientsBySdkKey = (mr_sdkClientsBySdkKey r)(sdk_Key sdkConf \<mapsto> a),
                 mr_objs = mr_objs r @ [sdkClient],
                 mr_status = mr_status r @ [CallRegister k sdkConf]\<rparr>))"

definition newManualRegistrar :: "reg_env \<Rightarrow> string list \<Rightarrow> manual_registrar option" where
  "newManualRegistrar env ks =
     manual_loop env ks
       \<lparr>mr_sdkClients = Map.empty, mr_sdkClientsBySdkKey = Map.empty, mr_objs = [], mr_status = []\<rparr>"

definition manual_GetSdkOrNil :: "manual_registrar \<Rightarrow> string \<Rightarrow> nat option" where
  "manual_GetSdkOrNil r i = mr_sdkClients r i"

definition manual_GetSdkByKeyOrNil :: "manual_registrar \<Rightarrow> string \<Rightarrow> nat option" where
  "manual_GetSdkByKeyOrNil r sdkKey = mr_sdkClientsBySdkKey r sdkKey"

text \<open>\<open>RefreshAll\<close>: the clients it refreshes, in the order of the loop.\<close>

definition manual_RefreshAll :: "string list \<Rightarrow> manual_registrar \<Rightarrow> nat list" where
  "manual_RefreshAll ks r = List.map_filter (mr_sdkClients r) ks"

definition manual_GetAll :: "manual_registrar \<Rightarrow> string \<rightharpoonup> nat" where
  "manual_GetAll r = mr_sdkClients r"

definition close_at :: "nat \<Rightarrow> client list \<Rightarrow> client list" where
  "close_at a objs = objs[a := fst (Close (objs ! a))]"

fun close_all :: "(string \<rightharpoonup> nat) \<Rightarrow> string list \<Rightarrow> client list \<Rightarrow> client list" where
  "close_all m [] objs = objs"
| "close_all m (k # ks) objs =
     close_all m ks (case m k of None \<Rightarrow> objs | Some a \<Rightarrow> close_at a objs)"

definition manual_Close :: "string list \<Rightarrow> manual_registrar \<Rightarrow> manual_registrar" where
  "manual_Close ks r = r\<lparr>mr_objs := close_all (mr_sdkClients r) ks (mr_objs r)\<rparr>"

text \<open>
  \<open>buildTransport\<close>: whether the SDK's transport goes through the HTTP proxy, given the
  outcome of \<open>url.Parse\<close>.
\<close>

definition buildTransport :: "(string \<Rightarrow> 'u res) \<Rightarrow> http_proxy_config \<Rightarrow> 'u option" where
  "buildTransport parse_url proxyConf =
     (if hp_Url proxyConf \<noteq> [] then (case parse_url (hp_Url proxyConf) of Inl err \<Rightarrow> None | Inr u \<Rightarrow> Some u)
      else None)"

subsection \<open>The automatic registrar: state and clients\<close>

record auto_registrar =
  ar_options :: options_model
  ar_etag :: string
  ar_sdkClients :: "string \<rightharpoonup> nat"
  ar_sdkClientsBySdkKey :: "string \<rightharpoonup> nat"
  ar_objs :: "client list"
  ar_published :: "string list"
  ar_status :: "status_call list"

definition auto_GetSdkOrNil :: "auto_registrar \<Rightarrow> string \<Rightarrow> nat option" where
  "auto_GetSdkOrNil r key = ar_sdkClients r key"

definition auto_GetSdkByKeyOrNil :: "auto_registrar \<Rightarrow> string \<Rightarrow> nat option" where
  "auto_GetSdkByKeyOrNil r sdkKey = ar_sdkClientsBySdkKey r sdkKey"

fun GetAll :: "(string \<rightharpoonup> nat) \<Rightarrow> string list \<Rightarrow> (string \<rightharpoonup> nat) \<Rightarrow> (string \<rightharpoonup> nat)" where
  "GetAll m [] all = all"
| "GetAll m (k # ks) all = GetAll m ks (case m k of None \<Rightarrow> all | Some a \<Rightarrow> all(k \<mapsto> a))"

text \<open>
  \<open>buildSdkConfig\<close>. A nil entry of the local SDK map, which \<open>Validate\<close> never lets through, is
  treated as absent.
\<close>

definition buildSdkConfig :: "config \<Rightarrow> options_model \<Rightarrow> string \<Rightarrow> sdk_model \<Rightarrow> sdk_config" where
  "buildSdkConfig conf options sdkId sdkModel =
     (let prof = c_Profile conf; glob = c_GlobalOfflineConfig conf;
          base = zero_sdk\<lparr>sdk_BaseUrl := psdk_BaseUrl (prof_SDKs prof), sdk_Key := Key1 sdkModel,
            sdk_PollInterval := om_PollInterval options, sdk_DataGovernance := om_DataGovernance options,
            sdk_Log := psdk_Log (prof_SDKs prof), sdk_WebhookSigningKey := prof_WebhookSigningKey prof,
            sdk_WebhookSignatureValidFor := prof_WebhookSignatureValidFor prof\<rparr>;
          withLocal = (case c_SDKs conf sdkId of
              Some (Some l) \<Rightarrow> base\<lparr>sdk_DefaultAttrs := sdk_DefaultAttrs l, sdk_Offline := sdk_Offline l,
                                   sdk_Log := sdk_Log l\<rparr>
            | _ \<Rightarrow> base)
      in if go_Enabled glob \<and> \<not> off_Enabled (sdk_Offline withLocal)
         then withLocal\<lparr>sdk_Offline := (sdk_Offline withLocal)\<lparr>off_Enabled := True, off_UseCache := True,
                 off_CachePollInterval := go_CachePollInterval glob, off_Log := go_Log glob\<rparr>\<rparr>
         else withLocal)"

definition buildSdkClient :: "reg_env \<Rightarrow> string \<Rightarrow> sdk_config \<Rightarrow> sdk_model \<Rightarrow> client" where
  "buildSdkClient env sdkId sdkConfig sdkModel =
     new_client env
       \<lparr>cx_SdkId = sdkId, cx_SecondarySdkKey = (if Key2 sdkModel \<noteq> [] then Some (Key2 sdkModel) else None),
        cx_SDKConf = sdkConfig, cx_GlobalDefaultAttrs = c_DefaultAttrs (re_conf env),
        cx_ExternalCache = re_cache_set env, cx_EvalReporter = False\<rparr>"

text \<open>\<open>if key != "" \{ m.Store(key, client) \}\<close> and \<open>if key != "" \{ m.Delete(key) \}\<close>.\<close>

definition store_key :: "string \<Rightarrow> nat \<Rightarrow> (string \<rightharpoonup> nat) \<Rightarrow> (string \<rightharpoonup> nat)" where
  "store_key k a m = (if k \<noteq> [] then m(k \<mapsto> a) else m)"

definition delete_key :: "string \<Rightarrow> (string \<rightharpoonup> nat) \<Rightarrow> (string \<rightharpoonup> nat)" where
  "delete_key k m = (if k \<noteq> [] then m(k := None) else m)"

definition delete_keys :: "string \<times> string option \<Rightarrow> (string \<rightharpoonup> nat) \<Rightarrow> (string \<rightharpoonup> nat)" where
  "delete_keys ks m =
     (let m1 = delete_key (fst ks) m in case snd ks of None \<Rightarrow> m1 | Some k2 \<Rightarrow> delete_key k2 m1)"

definition store_keys :: "sdk_model \<Rightarrow> nat \<Rightarrow> (string \<rightharpoonup> nat) \<Rightarrow> (string \<rightharpoonup> nat)" where
  "store_keys sdkModel a m = store_key (Key2 sdkModel) a (store_key (Key1 sdkModel) a m)"

definition delete_one :: "string \<Rightarrow> auto_registrar \<Rightarrow> auto_registrar" where
  "delete_one sdkId r =
     (case ar_sdkClients r sdkId of
        None \<Rightarrow> r
      | Some a \<Rightarrow> r\<lparr>ar_sdkClients := (ar_sdkClients r)(sdkId := None),
                   ar_sdkClientsBySdkKey := delete_keys (SdkKeys (ar_objs r ! a)) (ar_sdkClientsBySdkKey r),
                   ar_objs := close_at a (ar_objs r),
                   ar_status := ar_status r @ [CallRemove sdkId],
                   ar_published := ar_published r @ [sdkId]\<rparr>)"

definition deleteSdkClients :: "string list \<Rightarrow> auto_registrar \<Rightarrow> auto_registrar" where
  "deleteSdkClients sdkIds r = foldl (\<lambda>r i. delete_one i r) r sdkIds"

definition add_one :: "reg_env \<Rightarrow> proxy_config_model \<Rightarrow> string \<Rightarrow> auto_registrar \<Rightarrow> auto_registrar" where
  "add_one env cfg sdkId r =
     (case pm_SDKs cfg sdkId of
        None \<Rightarrow> r
      | Some sdkModel \<Rightarrow>
          (let sdkConfig = buildSdkConfig (re_conf env) (ar_options r) sdkId sdkModel; a = length (ar_objs r)
           in case ar_sdkClients r sdkId of
                Some _ \<Rightarrow> r
              | None \<Rightarrow> r\<lparr>ar_sdkClients := (ar_sdkClients r)(sdkId \<mapsto> a),
                          ar_objs := ar_objs r @ [buildSdkClient env sdkId sdkConfig sdkModel],
                          ar_sdkClientsBySdkKey := store_keys sdkModel a (ar_sdkClientsBySdkKey r),
                          ar_status := ar_status r @ [CallRegister sdkId sdkConfig],
                          ar_published := ar_published r @ [sdkId]\<rparr>))"

definition addSdkClients :: "reg_env \<Rightarrow> proxy_config_model \<Rightarrow> string list \<Rightarrow> auto_registrar \<Rightarrow> auto_registrar" where
  "addSdkClients env cfg sdkIds r = foldl (\<lambda>r i. add_one env cfg i r) r sdkIds"

definition reset_one :: "reg_env \<Rightarrow> proxy_config_model \<Rightarrow> string \<Rightarrow> auto_registrar \<Rightarrow> auto_registrar" where
  "reset_one env cfg sdkId r =
     (case pm_SDKs cfg sdkId of
        None \<Rightarrow> r
      | Some sdkModel \<Rightarrow>
          (let sdkConfig = buildSdkConfig (re_conf env) (ar_options r) sdkId sdkModel; a = length (ar_objs r);
               r1 = r\<lparr>ar_objs := ar_objs r @ [buildSdkClient env sdkId sdkConfig sdkModel],
                      ar_sdkClients := (ar_sdkClients r)(sdkId \<mapsto> a)\<rparr>;
               r2 = (case ar_sdkClients r sdkId of
                       None \<Rightarrow> r1
                     | Some existing \<Rightarrow>
                         r1\<lparr>ar_sdkClientsBySdkKey :=
                              delete_keys (SdkKeys (ar_objs r1 ! existing)) (ar_sdkClientsBySdkKey r1),
                            ar_objs := close_at existing (ar_objs r1),
                            ar_status := ar_status r1 @ [CallUpdate sdkId sdkConfig],
                            ar_published := ar_published r1 @ [sdkId]\<rparr>)
           in r2\<lparr>ar_sdkClientsBySdkKey := store_keys sdkModel a (ar_sdkClientsBySdkKey r2)\<rparr>))"

definition resetSdkClients :: "reg_env \<Rightarrow> proxy_config_model \<Rightarrow> string list \<Rightarrow> auto_registrar \<Rightarrow> auto_registrar" where
  "resetSdkClients env cfg sdkIds r = foldl (\<lambda>r i. reset_one env cfg i r) r sdkIds"

definition shouldUpdateOptions :: "auto_registrar \<Rightarrow> options_model \<Rightarrow> bool" where
  "shouldUpdateOptions r options \<longleftrightarrow>
     om_PollInterval (ar_options r) \<noteq> om_PollInterval options
     \<or> om_DataGovernance (ar_options r) \<noteq> om_DataGovernance options"

text \<open>
  One iteration of the loop over the remaining SDKs: the state and the ids whose client must
  be rebuilt. Unlike the other writes to the index, the secondary key is stored unguarded.
\<close>

definition keys_iteration ::
  "proxy_config_model \<Rightarrow> auto_registrar \<times> string list \<Rightarrow> string \<Rightarrow> auto_registrar \<times> string list" where
  "keys_iteration cfg st sdkId =
     (let (r, resetKeys) = st
      in case (ar_sdkClients r sdkId, pm_SDKs cfg sdkId) of
           (Some a, Some sdkConfig) \<Rightarrow>
             (case SdkKeys (ar_objs r ! a) of
                (key1, key2) \<Rightarrow>
                  (if key1 \<noteq> Key1 sdkConfig then (r, resetKeys @ [sdkId])
                   else if key2 = None \<and> Key2 sdkConfig \<noteq> []
                   then (r\<lparr>ar_objs := (ar_objs r)[a := SetSecondarySdkKey (Key2 sdkConfig) (ar_objs r ! a)],
                           ar_sdkClientsBySdkKey := (ar_sdkClientsBySdkKey r)(Key2 sdkConfig \<mapsto> a),
                           ar_published := ar_published r @ [sdkId]\<rparr>, resetKeys)
                   else if key2 \<noteq> None \<and> key2 \<noteq> Some (Key2 sdkConfig)
                   then (r\<lparr>ar_objs := (ar_objs r)[a := SetSecondarySdkKey (Key2 sdkConfig) (ar_objs r ! a)],
                           ar_sdkClientsBySdkKey :=
                             ((ar_sdkClientsBySdkKey r)(the key2 := None))(Key2 sdkConfig \<mapsto> a),
                           ar_published := ar_published r @ [sdkId]\<rparr>, resetKeys)
                   else (r, resetKeys)))
         | _ \<Rightarrow> (r, resetKeys))"

text \<open>
  \<open>refreshConfig\<close> once \<open>getConfig\<close> has returned a profile; \<open>existing\<close> and \<open>remote\<close> are the
  iteration orders of the client map and of the profile's map.
\<close>

definition applyConfig ::
  "reg_env \<Rightarrow> proxy_config_model \<Rightarrow> string list \<Rightarrow> string list \<Rightarrow> auto_registrar \<Rightarrow> auto_registrar" where
  "applyConfig env autoConfig existing remote r =
     (let existingKeys = KeysOfMap (ar_sdkClients r) existing;
          remoteKeys = KeysOfMap (pm_SDKs autoConfig) remote;
          toAddKeys = Except remoteKeys existingKeys;
          toDeleteKeys = Except existingKeys remoteKeys;
          remainingKeys = Except remoteKeys toAddKeys;
          r1 = deleteSdkClients toDeleteKeys r;
          r2 = (if shouldUpdateOptions r1 (pm_Options autoConfig)
                then resetSdkClients env autoConfig remainingKeys (r1\<lparr>ar_options := pm_Options autoConfig\<rparr>)
                else (case foldl (keys_iteration autoConfig) (r1, []) remainingKeys of
                        (r', resetKeys) \<Rightarrow>
                          (if length resetKeys > 0 then resetSdkClients env autoConfig resetKeys r' else r')))
      in addSdkClients env autoConfig toAddKeys r2)"

section \<open>Lemmas\<close>

named_theorems reg_simps \<open>evaluation of the registrar's operations\<close>

lemmas [reg_simps] = store_key_def delete_key_def delete_keys_def store_keys_def Let_def

subsection \<open>Clients and their keys\<close>

definition keys_of_client :: "client \<Rightarrow> string set" where
  "keys_of_client c = {k. k \<noteq> [] \<and> (k = fst (SdkKeys c) \<or> snd (SdkKeys c) = Some k)}"

definition model_keys :: "sdk_model \<Rightarrow> string set" where
  "model_keys m = {Key1 m, Key2 m} - {[]}"

text \<open>The client serves what the profile says about its SDK.\<close>

definition matches :: "string \<Rightarrow> sdk_model \<Rightarrow> client \<Rightarrow> bool" where
  "matches sdkId m c \<longleftrightarrow> cx_SdkId (cl_ctx c) = sdkId \<and> fst (SdkKeys c) = Key1 m
     \<and> (snd (SdkKeys c) = Some (Key2 m) \<or> snd (SdkKeys c) = None \<and> Key2 m = [])"

lemma matches_keys: "matches i m c \<Longrightarrow> keys_of_client c = model_keys m"
  by (auto simp: matches_def keys_of_client_def model_keys_def)

lemma build_ctx [simp]:
  "cl_ctx (buildSdkClient env i conf m) =
     \<lparr>cx_SdkId = i, cx_SecondarySdkKey = (if Key2 m \<noteq> [] then Some (Key2 m) else None),
      cx_SDKConf = conf, cx_GlobalDefaultAttrs = c_DefaultAttrs (re_conf env),
      cx_ExternalCache = re_cache_set env, cx_EvalReporter = False\<rparr>"
  "\<not> cl_closed (buildSdkClient env i conf m)"
  by (simp_all add: buildSdkClient_def new_client_def NewClient_def)

lemma buildSdkConfig_Key [simp]: "sdk_Key (buildSdkConfig conf opts i m) = Key1 m"
  by (auto simp: buildSdkConfig_def Let_def split: option.splits)

lemma build_matches: "matches i m (buildSdkClient env i (buildSdkConfig conf opts i m) m)"
  by (simp add: matches_def SdkKeys_def)

lemma close_simps [simp]:
  "cl_ctx (fst (Close c)) = cl_ctx c" "cl_closed (fst (Close c))"
  by (simp_all add: Close_def)

lemma secondary_simps [simp]:
  "cl_closed (SetSecondarySdkKey k c) = cl_closed c"
  "SdkKeys (SetSecondarySdkKey k c) = (fst (SdkKeys c), Some k)"
  "cx_SdkId (cl_ctx (SetSecondarySdkKey k c)) = cx_SdkId (cl_ctx c)"
  by (simp_all add: SetSecondarySdkKey_def SdkKeys_def)

subsection \<open>Invariant of the automatic registrar\<close>

text \<open>
  Addresses are allocated; the client stored under an id was built for it (so no client is
  stored under two ids); a client is closed exactly when it is no longer stored.
\<close>

definition heap_ok :: "(string \<rightharpoonup> nat) \<Rightarrow> client list \<Rightarrow> bool" where
  "heap_ok m objs \<longleftrightarrow>
     (\<forall>i a. m i = Some a \<longrightarrow> a < length objs \<and> cx_SdkId (cl_ctx (objs ! a)) = i)
     \<and> (\<forall>a < length objs. cl_closed (objs ! a) \<longleftrightarrow> (\<forall>i. m i \<noteq> Some a))"

definition reg_inv :: "auto_registrar \<Rightarrow> bool" where
  "reg_inv r \<longleftrightarrow> heap_ok (ar_sdkClients r) (ar_objs r)"

lemma heap_okD:
  assumes "heap_ok m objs" "m i = Some a"
  shows "a < length objs" "cx_SdkId (cl_ctx (objs ! a)) = i" "\<not> cl_closed (objs ! a)"
    "m j = Some a \<Longrightarrow> j = i"
proof -
  show "a < length objs" "cx_SdkId (cl_ctx (objs ! a)) = i" "\<not> cl_closed (objs ! a)"
    using assms unfolding heap_ok_def by blast+
  show "m j = Some a \<Longrightarrow> j = i" using assms unfolding heap_ok_def by metis
qed

lemma heap_okI:
  assumes "\<And>i a. m i = Some a \<Longrightarrow> a < length objs"
    and "\<And>i a. m i = Some a \<Longrightarrow> cx_SdkId (cl_ctx (objs ! a)) = i"
    and "\<And>i a. m i = Some a \<Longrightarrow> \<not> cl_closed (objs ! a)"
    and "\<And>a. a < length objs \<Longrightarrow> \<forall>i. m i \<noteq> Some a \<Longrightarrow> cl_closed (objs ! a)"
  shows "heap_ok m objs"
  using assms unfolding heap_ok_def by metis

lemma heap_ok_closed:
  "heap_ok m objs \<Longrightarrow> a < length objs \<Longrightarrow> \<forall>i. m i \<noteq> Some a \<Longrightarrow> cl_closed (objs ! a)"
  by (simp add: heap_ok_def)

lemma heap_ok_close:
  assumes ok: "heap_ok m objs" "m i = Some a"
  shows "heap_ok (m(i := None)) (close_at a objs)"
proof -
  have old: "m j = Some x \<and> j \<noteq> i \<and> x \<noteq> a" if "(m(i := None)) j = Some x" for j x
    using that heap_okD(4) [OF ok, of j] by (cases "j = i") auto
  show ?thesis
  proof (rule heap_okI)
    fix x assume x: "x < length (close_at a objs)" "\<forall>j. (m(i := None)) j \<noteq> Some x"
    show "cl_closed (close_at a objs ! x)"
    proof (cases "x = a")
      case True
      then show ?thesis using x(1) by (simp add: close_at_def)
    next
      case False
      have "\<forall>j. m j \<noteq> Some x"
      proof
        fix j show "m j \<noteq> Some x" using x(2) [rule_format, of j] ok(2) False by (cases "j = i") auto
      qed
      then show ?thesis using False x(1) heap_ok_closed [OF ok(1), of x] by (simp add: close_at_def)
    qed
  next
    fix j x assume "(m(i := None)) j = Some x"
    note o1 = old [OF this]
    note d = heap_okD [OF ok(1) conjunct1 [OF o1]]
    show "x < length (close_at a objs)" "cx_SdkId (cl_ctx (close_at a objs ! x)) = j"
      "\<not> cl_closed (close_at a objs ! x)"
      using o1 d(1-3) by (simp_all add: close_at_def)
  qed
qed

lemma heap_ok_fresh:
  assumes ok: "heap_ok m objs" and "m i = None" "cx_SdkId (cl_ctx c) = i" "\<not> cl_closed c"
  shows "heap_ok (m(i \<mapsto> length objs)) (objs @ [c])"
proof (rule heap_okI)
  fix x assume x: "x < length (objs @ [c])" "\<forall>j. (m(i \<mapsto> length objs)) j \<noteq> Some x"
  have ne: "x \<noteq> length objs" using x(2) [rule_format, of i] by auto
  have "\<forall>j. m j \<noteq> Some x"
  proof
    fix j show "m j \<noteq> Some x" using x(2) [rule_format, of j] assms(2) by (cases "j = i") auto
  qed
  then show "cl_closed ((objs @ [c]) ! x)" using ne x(1) heap_ok_closed [OF ok, of x] by (simp add: nth_append)
next
  fix j x assume j: "(m(i \<mapsto> length objs)) j = Some x"
  show "x < length (objs @ [c])" "cx_SdkId (cl_ctx ((objs @ [c]) ! x)) = j" "\<not> cl_closed ((objs @ [c]) ! x)"
    using j assms heap_okD(1-3) [OF ok, of j x] by (cases "j = i"; simp add: nth_append)+
qed

lemma heap_ok_update:
  assumes "heap_ok m objs" "cx_SdkId (cl_ctx c) = cx_SdkId (cl_ctx (objs ! a))" "cl_closed c = cl_closed (objs ! a)"
  shows "heap_ok m (objs[a := c])"
proof -
  have "cx_SdkId (cl_ctx (objs[a := c] ! x)) = cx_SdkId (cl_ctx (objs ! x))"
    "cl_closed (objs[a := c] ! x) = cl_closed (objs ! x)" for x
    using assms(2,3) by (cases "x = a"; cases "a < length objs"; simp add: list_update_beyond)+
  then show ?thesis using assms(1) unfolding heap_ok_def by simp
qed

lemma close_at_append: "a < length objs \<Longrightarrow> close_at a (objs @ [c]) = close_at a objs @ [c]"
  by (simp add: close_at_def nth_append list_update_append)

lemma heap_ok_replace:
  assumes ok: "heap_ok m objs" "m i = Some a" and "cx_SdkId (cl_ctx c) = i" "\<not> cl_closed c"
  shows "heap_ok (m(i \<mapsto> length objs)) (close_at a (objs @ [c]))"
proof -
  have "heap_ok ((m(i := None))(i \<mapsto> length (close_at a objs))) (close_at a objs @ [c])"
    by (rule heap_ok_fresh [OF heap_ok_close [OF ok]]) (use assms in auto)
  then show ?thesis
    using close_at_append [OF heap_okD(1) [OF ok]] by (simp add: close_at_def)
qed

text \<open>What the registrar shows of one SDK: its address, its client, and the index on the keys \<open>K\<close> set
  aside for it, among the keys \<open>U\<close> that are tracked.\<close>

definition reg_view ::
  "string set \<Rightarrow> (string \<Rightarrow> string set) \<Rightarrow> auto_registrar \<Rightarrow> string \<Rightarrow>
   (nat \<times> client) option \<times> (string \<Rightarrow> nat option)" where
  "reg_view U K r i =
     (map_option (\<lambda>a. (a, ar_objs r ! a)) (ar_sdkClients r i),
      (\<lambda>k. if k \<in> K i \<inter> U \<and> k \<noteq> [] then ar_sdkClientsBySdkKey r k else None))"

definition apart :: "string set \<Rightarrow> (string \<Rightarrow> string set) \<Rightarrow> bool" where
  "apart U K \<longleftrightarrow> (\<forall>i j. i \<noteq> j \<longrightarrow> K i \<inter> K j \<inter> U \<subseteq> {[]})"

text \<open>A step for one SDK that keeps the invariant, the view of every other SDK, and the index outside \<open>K\<close>.\<close>

definition local_step ::
  "string set \<Rightarrow> (string \<Rightarrow> string set) \<Rightarrow> string \<Rightarrow> auto_registrar \<Rightarrow> auto_registrar \<Rightarrow> bool" where
  "local_step U K i r r' \<longleftrightarrow> reg_inv r' \<and> (\<forall>j. j \<noteq> i \<longrightarrow> reg_view U K r' j = reg_view U K r j)
     \<and> (\<forall>k. k \<in> U \<and> k \<noteq> [] \<and> (\<forall>j. k \<notin> K j) \<longrightarrow> ar_sdkClientsBySdkKey r' k = ar_sdkClientsBySdkKey r k)
     \<and> ar_options r' = ar_options r"

lemma local_step_refl: "reg_inv r \<Longrightarrow> local_step U K i r r"
  by (simp add: local_step_def)

text \<open>
  A loop over distinct SDKs whose iterations are local leaves every SDK as its own iteration
  left it.
\<close>

lemma local_loop:
  assumes step: "\<And>r i. i \<in> set is \<Longrightarrow> reg_inv r \<Longrightarrow> P r \<Longrightarrow> local_step U K i r (f i r) \<and> P (f i r)"
    and "distinct is" "reg_inv r" "P r"
  defines "r' \<equiv> foldl (\<lambda>r i. f i r) r is"
  shows "reg_inv r' \<and> P r' \<and> (\<forall>j. j \<notin> set is \<longrightarrow> reg_view U K r' j = reg_view U K r j)
    \<and> (\<forall>i \<in> set is. \<exists>r1. reg_inv r1 \<and> P r1 \<and> reg_view U K r1 i = reg_view U K r i \<and> reg_view U K r' i = reg_view U K (f i r1) i)
    \<and> (\<forall>k. k \<in> U \<and> k \<noteq> [] \<and> (\<forall>j. k \<notin> K j) \<longrightarrow> ar_sdkClientsBySdkKey r' k = ar_sdkClientsBySdkKey r k)
    \<and> ar_options r' = ar_options r"
  using assms(1-4) unfolding r'_def
proof (induction "is" arbitrary: r)
  case (Cons i "is")
  have one: "local_step U K i r (f i r)" "P (f i r)"
    using Cons.prems(1) [of i r] Cons.prems(3,4) by auto
  note v = one(1) [unfolded local_step_def]
  let ?r' = "foldl (\<lambda>r i. f i r) (f i r) is"
  have ih: "reg_inv ?r' \<and> P ?r' \<and> (\<forall>j. j \<notin> set is \<longrightarrow> reg_view U K ?r' j = reg_view U K (f i r) j)
    \<and> (\<forall>i' \<in> set is. \<exists>r1. reg_inv r1 \<and> P r1 \<and> reg_view U K r1 i' = reg_view U K (f i r) i' \<and> reg_view U K ?r' i' = reg_view U K (f i' r1) i')
    \<and> (\<forall>k. k \<in> U \<and> k \<noteq> [] \<and> (\<forall>j. k \<notin> K j) \<longrightarrow> ar_sdkClientsBySdkKey ?r' k = ar_sdkClientsBySdkKey (f i r) k)
    \<and> ar_options ?r' = ar_options (f i r)"
    by (rule Cons.IH) (use Cons.prems v one in auto)
  have "\<exists>r1. reg_inv r1 \<and> P r1 \<and> reg_view U K r1 i' = reg_view U K r i' \<and> reg_view U K ?r' i' = reg_view U K (f i' r1) i'"
    if "i' \<in> set (i # is)" for i'
  proof (cases "i' = i")
    case True
    with ih Cons.prems show ?thesis by (intro exI [of _ r]) simp
  next
    case False
    with ih that obtain r1 where "reg_inv r1" "P r1" "reg_view U K r1 i' = reg_view U K (f i r) i'"
      "reg_view U K ?r' i' = reg_view U K (f i' r1) i'" by auto
    with v False show ?thesis by (intro exI [of _ r1]) simp
  qed
  with ih v show ?case by simp
qed simp

definition loop_ok ::
  "string set \<Rightarrow> (string \<Rightarrow> string set) \<Rightarrow> (auto_registrar \<Rightarrow> bool) \<Rightarrow>
   (string \<Rightarrow> auto_registrar \<Rightarrow> auto_registrar) \<Rightarrow> string list \<Rightarrow> bool" where
  "loop_ok U K P f is \<longleftrightarrow> distinct is \<and>
     (\<forall>i r. i \<in> set is \<and> reg_inv r \<and> P r \<longrightarrow> local_step U K i r (f i r) \<and> P (f i r))"

lemma local_loop_facts:
  assumes loop: "loop_ok U K P f is" and "reg_inv r" "P r" and r': "r' = foldl (\<lambda>r i. f i r) r is"
  shows "reg_inv r'" "P r'" "\<And>j. j \<notin> set is \<Longrightarrow> reg_view U K r' j = reg_view U K r j"
    and "\<And>i. i \<in> set is \<Longrightarrow> \<exists>r1. reg_inv r1 \<and> P r1 \<and> reg_view U K r1 i = reg_view U K r i \<and>
           reg_view U K r' i = reg_view U K (f i r1) i"
    and "\<And>k. k \<in> U \<Longrightarrow> k \<noteq> [] \<Longrightarrow> \<forall>j. k \<notin> K j \<Longrightarrow> ar_sdkClientsBySdkKey r' k = ar_sdkClientsBySdkKey r k"
proof -
  have step: "i \<in> set is \<Longrightarrow> reg_inv r \<Longrightarrow> P r \<Longrightarrow> local_step U K i r (f i r) \<and> P (f i r)" for i r
    using loop by (simp add: loop_ok_def)
  have "distinct is" using loop by (simp add: loop_ok_def)
  note l = local_loop [where f = f and P = P and U = U and K = K, OF step this assms(2,3), folded r']
  show "reg_inv r'" "P r'" "\<And>j. j \<notin> set is \<Longrightarrow> reg_view U K r' j = reg_view U K r j"
    "\<And>i. i \<in> set is \<Longrightarrow> \<exists>r1. reg_inv r1 \<and> P r1 \<and> reg_view U K r1 i = reg_view U K r i \<and>
           reg_view U K r' i = reg_view U K (f i r1) i"
    "\<And>k. k \<in> U \<Longrightarrow> k \<noteq> [] \<Longrightarrow> \<forall>j. k \<notin> K j \<Longrightarrow> ar_sdkClientsBySdkKey r' k = ar_sdkClientsBySdkKey r k"
    using l by blast+
qed

subsection \<open>The single steps are local\<close>

lemma close_at_nth: "b \<noteq> a \<Longrightarrow> close_at a objs ! b = objs ! b"
  by (simp add: close_at_def)

lemma index_frame:
  "k \<noteq> [] \<Longrightarrow> k \<noteq> fst ks \<Longrightarrow> snd ks \<noteq> Some k \<Longrightarrow> delete_keys ks m k = m k"
  "k \<notin> model_keys sm \<Longrightarrow> k \<noteq> [] \<Longrightarrow> store_keys sm a m k = m k"
  by (auto simp: reg_simps model_keys_def split: option.splits)

lemma view_frame:
  assumes "\<And>a. ar_sdkClients r j = Some a \<Longrightarrow> ar_objs r' ! a = ar_objs r ! a"
    and "ar_sdkClients r' j = ar_sdkClients r j"
    and "\<And>k. k \<in> U \<Longrightarrow> k \<in> K j \<Longrightarrow> k \<noteq> [] \<Longrightarrow> ar_sdkClientsBySdkKey r' k = ar_sdkClientsBySdkKey r k"
  shows "reg_view U K r' j = reg_view U K r j"
  using assms by (cases "ar_sdkClients r j") (auto simp: reg_view_def)

text \<open>Every operation writes index entries only under the keys of the SDK it is run for.\<close>

lemma local_stepI:
  assumes "reg_inv r'" "apart U K" "S \<inter> U \<subseteq> K i"
    and "\<And>j a. j \<noteq> i \<Longrightarrow> ar_sdkClients r j = Some a \<Longrightarrow> ar_objs r' ! a = ar_objs r ! a"
    and "\<And>j. j \<noteq> i \<Longrightarrow> ar_sdkClients r' j = ar_sdkClients r j"
    and "\<And>k. k \<noteq> [] \<Longrightarrow> k \<notin> S \<Longrightarrow> ar_sdkClientsBySdkKey r' k = ar_sdkClientsBySdkKey r k"
    and "ar_options r' = ar_options r"
  shows "local_step U K i r r'"
  unfolding local_step_def
proof (intro conjI allI impI)
  fix j assume "j \<noteq> i"
  show "reg_view U K r' j = reg_view U K r j"
  proof (rule view_frame)
    fix k assume "k \<in> U" "k \<in> K j" "k \<noteq> []"
    then have "k \<notin> S" using assms(2,3) \<open>j \<noteq> i\<close> unfolding apart_def by blast
    then show "ar_sdkClientsBySdkKey r' k = ar_sdkClientsBySdkKey r k" using assms(6) \<open>k \<noteq> []\<close> by simp
  qed (use assms \<open>j \<noteq> i\<close> in auto)
next
  fix k assume "k \<in> U \<and> k \<noteq> [] \<and> (\<forall>j. k \<notin> K j)"
  then show "ar_sdkClientsBySdkKey r' k = ar_sdkClientsBySdkKey r k" using assms(3,6) by blast
qed (use assms in auto)

text \<open>
  The index restricted to the keys of one SDK is exact: it maps the keys of the stored client
  to its address and nothing else; the client's keys are among those set aside for the SDK,
  and its two keys differ.
\<close>

definition index_of :: "string set \<Rightarrow> (string \<Rightarrow> string set) \<Rightarrow> string \<Rightarrow> (nat \<times> client) option \<Rightarrow> string \<Rightarrow> nat option" where
  "index_of U K i x k =
     (case x of None \<Rightarrow> None | Some (a, c) \<Rightarrow> if k \<in> K i \<inter> U \<and> k \<in> keys_of_client c then Some a else None)"

definition keys_ok :: "string set \<Rightarrow> string set \<Rightarrow> string \<Rightarrow> string option \<Rightarrow> bool" where
  "keys_ok U S k1 k2 \<longleftrightarrow> (\<forall>k. k \<noteq> [] \<and> k \<in> U \<and> (k = k1 \<or> k2 = Some k) \<longrightarrow> k \<in> S)
     \<and> (k1 \<noteq> [] \<and> k1 \<in> U \<longrightarrow> k2 \<noteq> Some k1)"

definition view_good ::
  "string set \<Rightarrow> (string \<Rightarrow> string set) \<Rightarrow> string \<Rightarrow> (nat \<times> client) option \<times> (string \<Rightarrow> nat option) \<Rightarrow> bool" where
  "view_good U K i v \<longleftrightarrow> snd v = index_of U K i (fst v)
     \<and> (\<forall>a c. fst v = Some (a, c) \<longrightarrow> keys_ok U (K i) (fst (SdkKeys c)) (snd (SdkKeys c)))"

definition views_good :: "string set \<Rightarrow> (string \<Rightarrow> string set) \<Rightarrow> auto_registrar \<Rightarrow> bool" where
  "views_good U K r \<longleftrightarrow> (\<forall>i. view_good U K i (reg_view U K r i))"

lemma views_goodD:
  assumes "views_good U K r" "ar_sdkClients r i = Some a"
  shows "keys_ok U (K i) (fst (SdkKeys (ar_objs r ! a))) (snd (SdkKeys (ar_objs r ! a)))"
    and "k \<in> K i \<Longrightarrow> k \<in> U \<Longrightarrow> k \<noteq> [] \<Longrightarrow>
      ar_sdkClientsBySdkKey r k = (if k \<in> keys_of_client (ar_objs r ! a) then Some a else None)"
proof -
  have v: "view_good U K i (reg_view U K r i)" using assms(1) by (simp add: views_good_def)
  then show "keys_ok U (K i) (fst (SdkKeys (ar_objs r ! a))) (snd (SdkKeys (ar_objs r ! a)))"
    using assms(2) by (simp add: view_good_def reg_view_def)
  from v have "snd (reg_view U K r i) k = index_of U K i (fst (reg_view U K r i)) k"
    by (simp add: view_good_def)
  then show "k \<in> K i \<Longrightarrow> k \<in> U \<Longrightarrow> k \<noteq> [] \<Longrightarrow>
      ar_sdkClientsBySdkKey r k = (if k \<in> keys_of_client (ar_objs r ! a) then Some a else None)"
    using assms(2) by (simp add: reg_view_def index_of_def)
qed

lemma views_good_None:
  assumes "views_good U K r" "ar_sdkClients r i = None" "k \<in> K i" "k \<in> U" "k \<noteq> []"
  shows "ar_sdkClientsBySdkKey r k = None"
proof -
  have "snd (reg_view U K r i) k = index_of U K i (fst (reg_view U K r i)) k"
    using assms(1) by (simp add: views_good_def view_good_def)
  then show ?thesis using assms(2-5) by (simp add: reg_view_def index_of_def)
qed

lemma views_goodI:
  assumes "views_good U K r" "local_step U K i r r'"
    and "\<And>k. k \<in> K i \<Longrightarrow> k \<in> U \<Longrightarrow> k \<noteq> [] \<Longrightarrow> ar_sdkClientsBySdkKey r' k =
      (case ar_sdkClients r' i of None \<Rightarrow> None
       | Some a \<Rightarrow> if k \<in> keys_of_client (ar_objs r' ! a) then Some a else None)"
    and "\<And>a. ar_sdkClients r' i = Some a \<Longrightarrow>
      keys_ok U (K i) (fst (SdkKeys (ar_objs r' ! a))) (snd (SdkKeys (ar_objs r' ! a)))"
  shows "views_good U K r'"
  unfolding views_good_def
proof
  fix j
  show "view_good U K j (reg_view U K r' j)"
  proof (cases "j = i")
    case True
    have "snd (reg_view U K r' i) k = index_of U K i (fst (reg_view U K r' i)) k" for k
      using assms(3) [of k]
      by (cases "ar_sdkClients r' i") (auto simp: reg_view_def index_of_def keys_of_client_def)
    then show ?thesis
      using True assms(4) unfolding view_good_def by (auto simp: fun_eq_iff reg_view_def)
  next
    case False
    then show ?thesis using assms(1,2) by (simp add: views_good_def local_step_def)
  qed
qed

text \<open>The index after deleting the keys of a client, and after storing those of a model.\<close>

lemma delete_keys_eq:
  "k \<noteq> [] \<Longrightarrow> delete_keys (SdkKeys c) m k = (if k \<in> keys_of_client c then None else m k)"
  by (auto simp: delete_keys_def delete_key_def keys_of_client_def Let_def split: option.splits)

lemma store_keys_eq:
  "k \<noteq> [] \<Longrightarrow> store_keys sm a m k = (if k \<in> model_keys sm then Some a else m k)"
  by (auto simp: store_keys_def store_key_def model_keys_def)

definition model_ok :: "string set \<Rightarrow> (string \<Rightarrow> string set) \<Rightarrow> string \<Rightarrow> sdk_model \<Rightarrow> bool" where
  "model_ok U K i m \<longleftrightarrow> keys_ok U (K i) (Key1 m) (Some (Key2 m))"

lemma keys_ok_client: "keys_ok U S (fst (SdkKeys c)) (snd (SdkKeys c)) \<Longrightarrow> keys_of_client c \<inter> U \<subseteq> S"
  by (auto simp: keys_ok_def keys_of_client_def)

lemma keys_ok_model: "model_ok U K i m \<Longrightarrow> model_keys m \<inter> U \<subseteq> K i"
  by (auto simp: model_ok_def keys_ok_def model_keys_def)

lemma matches_ok:
  "matches i m c \<Longrightarrow> model_ok U K i m \<Longrightarrow> keys_ok U (K i) (fst (SdkKeys c)) (snd (SdkKeys c))"
  by (auto simp: matches_def model_ok_def keys_ok_def)

lemma delete_step:
  assumes inv: "reg_inv r" and good: "views_good U K r" and ap: "apart U K"
  shows "local_step U K i r (delete_one i r) \<and> views_good U K (delete_one i r)"
    and "ar_sdkClients (delete_one i r) i = None"
proof -
  show "ar_sdkClients (delete_one i r) i = None"
    by (simp add: delete_one_def split: option.splits)
  show "local_step U K i r (delete_one i r) \<and> views_good U K (delete_one i r)"
  proof (cases "ar_sdkClients r i")
    case None
    then show ?thesis using inv good by (simp add: delete_one_def local_step_refl)
  next
    case (Some a)
    let ?r' = "delete_one i r" and ?c = "ar_objs r ! a"
    have sub: "keys_of_client ?c \<inter> U \<subseteq> K i" using keys_ok_client views_goodD(1) [OF good Some] .
    have eqs: "ar_sdkClients ?r' = (ar_sdkClients r)(i := None)"
      "ar_objs ?r' = close_at a (ar_objs r)" "ar_options ?r' = ar_options r"
      "ar_sdkClientsBySdkKey ?r' = delete_keys (SdkKeys ?c) (ar_sdkClientsBySdkKey r)"
      using Some by (simp_all add: delete_one_def)
    have ok: "heap_ok (ar_sdkClients r) (ar_objs r)" using inv by (simp add: reg_inv_def)
    have loc: "local_step U K i r ?r'"
    proof (rule local_stepI [OF _ ap sub])
      show "reg_inv ?r'" unfolding reg_inv_def eqs by (rule heap_ok_close [OF ok Some])
      fix j b assume "j \<noteq> i" "ar_sdkClients r j = Some b"
      then have "b \<noteq> a" using heap_okD(4) [OF ok Some, of j] by auto
      then show "ar_objs ?r' ! b = ar_objs r ! b" unfolding eqs by (rule close_at_nth)
    qed (simp_all add: eqs delete_keys_eq)
    moreover have "views_good U K ?r'"
      by (rule views_goodI [OF good loc])
        (use views_goodD(2) [OF good Some] in \<open>simp_all add: eqs delete_keys_eq\<close>)
    ultimately show ?thesis ..
  qed
qed

lemma add_step:
  fixes env :: reg_env
  assumes inv: "reg_inv r" and good: "views_good U K r" and ap: "apart U K"
    and m: "pm_SDKs cfg i = Some m" "model_ok U K i m" and none: "ar_sdkClients r i = None"
  defines "r' \<equiv> add_one env cfg i r"
  shows "local_step U K i r r' \<and> views_good U K r'"
    and "\<exists>a. ar_sdkClients r' i = Some a \<and> matches i m (ar_objs r' ! a)"
proof -
  define c where "c = buildSdkClient env i (buildSdkConfig (re_conf env) (ar_options r) i m) m"
  let ?a = "length (ar_objs r)"
  have match: "matches i m c" unfolding c_def by (rule build_matches)
  have eqs: "ar_sdkClients r' = (ar_sdkClients r)(i \<mapsto> ?a)" "ar_objs r' = ar_objs r @ [c]"
    "ar_options r' = ar_options r"
    "ar_sdkClientsBySdkKey r' = store_keys m ?a (ar_sdkClientsBySdkKey r)"
    using m none by (simp_all add: r'_def add_one_def Let_def c_def)
  have ok: "heap_ok (ar_sdkClients r) (ar_objs r)" using inv by (simp add: reg_inv_def)
  have loc: "local_step U K i r r'"
  proof (rule local_stepI [OF _ ap keys_ok_model [OF m(2)]])
    show "reg_inv r'" unfolding reg_inv_def eqs
      by (rule heap_ok_fresh [OF ok none]) (simp_all add: c_def)
    fix j b assume "ar_sdkClients r j = Some b"
    then have "b < ?a" using heap_okD(1) [OF ok] by blast
    then show "ar_objs r' ! b = ar_objs r ! b" unfolding eqs by (simp add: nth_append)
  qed (simp_all add: eqs store_keys_eq)
  moreover have "views_good U K r'"
    by (rule views_goodI [OF good loc])
      (use views_good_None [OF good none] matches_keys [OF match] matches_ok [OF match m(2)] in
        \<open>simp_all add: eqs store_keys_eq\<close>)
  ultimately show "local_step U K i r r' \<and> views_good U K r'" ..
  show "\<exists>a. ar_sdkClients r' i = Some a \<and> matches i m (ar_objs r' ! a)"
    using match by (simp add: eqs)
qed

lemma reset_step:
  fixes env :: reg_env
  assumes inv: "reg_inv r" and good: "views_good U K r" and ap: "apart U K"
    and m: "pm_SDKs cfg i = Some m" "model_ok U K i m" and some: "ar_sdkClients r i = Some e"
  defines "r' \<equiv> reset_one env cfg i r"
  shows "local_step U K i r r' \<and> views_good U K r'"
    and "\<exists>a. ar_sdkClients r' i = Some a \<and> matches i m (ar_objs r' ! a)"
proof -
  define c where "c = buildSdkClient env i (buildSdkConfig (re_conf env) (ar_options r) i m) m"
  let ?a = "length (ar_objs r)" and ?c0 = "ar_objs r ! e"
  have ok: "heap_ok (ar_sdkClients r) (ar_objs r)" using inv by (simp add: reg_inv_def)
  have lt: "e < ?a" using heap_okD(1) [OF ok some] .
  have match: "matches i m c" unfolding c_def by (rule build_matches)
  have eqs: "ar_sdkClients r' = (ar_sdkClients r)(i \<mapsto> ?a)" "ar_objs r' = close_at e (ar_objs r @ [c])"
    "ar_options r' = ar_options r"
    "ar_sdkClientsBySdkKey r' = store_keys m ?a (delete_keys (SdkKeys ?c0) (ar_sdkClientsBySdkKey r))"
    using m some lt by (simp_all add: r'_def reset_one_def Let_def c_def nth_append)
  have new: "ar_objs r' ! ?a = c" unfolding eqs close_at_append [OF lt] by (simp add: close_at_def nth_append)
  have sub: "(keys_of_client ?c0 \<union> model_keys m) \<inter> U \<subseteq> K i"
    using keys_ok_client [OF views_goodD(1) [OF good some]] keys_ok_model [OF m(2)] by blast
  have loc: "local_step U K i r r'"
  proof (rule local_stepI [OF _ ap sub])
    show "reg_inv r'" unfolding reg_inv_def eqs
      by (rule heap_ok_replace [OF ok some]) (simp_all add: c_def)
    fix j b assume j: "j \<noteq> i" "ar_sdkClients r j = Some b"
    then have "b < ?a" "b \<noteq> e" using heap_okD(1) [OF ok] heap_okD(4) [OF ok some, of j] by auto
    then show "ar_objs r' ! b = ar_objs r ! b" unfolding eqs by (simp add: close_at_nth nth_append)
  qed (simp_all add: eqs store_keys_eq delete_keys_eq)
  moreover have "views_good U K r'"
  proof (rule views_goodI [OF good loc])
    fix k assume k: "k \<in> K i" "k \<in> U" "k \<noteq> []"
    have "ar_sdkClientsBySdkKey r k = (if k \<in> keys_of_client ?c0 then Some e else None)"
      by (rule views_goodD(2) [OF good some k])
    then show "ar_sdkClientsBySdkKey r' k = (case ar_sdkClients r' i of None \<Rightarrow> None
       | Some a \<Rightarrow> if k \<in> keys_of_client (ar_objs r' ! a) then Some a else None)"
      unfolding eqs(1,4) using new matches_keys [OF match] k
      by (simp add: store_keys_eq delete_keys_eq)
  next
    fix a assume "ar_sdkClients r' i = Some a"
    then have "ar_objs r' ! a = c" using new by (simp add: eqs(1))
    then show "keys_ok U (K i) (fst (SdkKeys (ar_objs r' ! a))) (snd (SdkKeys (ar_objs r' ! a)))"
      using matches_ok [OF match m(2)] by simp
  qed
  ultimately show "local_step U K i r r' \<and> views_good U K r'" ..
  show "\<exists>a. ar_sdkClients r' i = Some a \<and> matches i m (ar_objs r' ! a)"
    using match new by (intro exI [of _ ?a]) (simp add: eqs(1))
qed

text \<open>The loop over the remaining SDKs: an in-place update, or a request to rebuild.\<close>

definition needs_reset :: "proxy_config_model \<Rightarrow> auto_registrar \<Rightarrow> string \<Rightarrow> bool" where
  "needs_reset cfg r i \<longleftrightarrow>
     (\<exists>a m. ar_sdkClients r i = Some a \<and> pm_SDKs cfg i = Some m \<and> fst (SdkKeys (ar_objs r ! a)) \<noteq> Key1 m)"

definition keys_one :: "proxy_config_model \<Rightarrow> string \<Rightarrow> auto_registrar \<Rightarrow> auto_registrar" where
  "keys_one cfg i r = fst (keys_iteration cfg (r, []) i)"

lemma keys_iteration_eq:
  "keys_iteration cfg (r, ks) i = (keys_one cfg i r, ks @ (if needs_reset cfg r i then [i] else []))"
  by (auto simp: keys_iteration_def keys_one_def needs_reset_def Let_def split: option.splits prod.splits)

lemma keys_one_eq:
  assumes "ar_sdkClients r i = Some a" "pm_SDKs cfg i = Some m" "SdkKeys (ar_objs r ! a) = (k1, k2)"
  shows "keys_one cfg i r =
    (let upd = (\<lambda>idx. r\<lparr>ar_objs := (ar_objs r)[a := SetSecondarySdkKey (Key2 m) (ar_objs r ! a)],
                      ar_sdkClientsBySdkKey := idx(Key2 m \<mapsto> a), ar_published := ar_published r @ [i]\<rparr>)
     in if k1 \<noteq> Key1 m then r
        else if k2 = None \<and> Key2 m \<noteq> [] then upd (ar_sdkClientsBySdkKey r)
        else if k2 \<noteq> None \<and> k2 \<noteq> Some (Key2 m) then upd ((ar_sdkClientsBySdkKey r)(the k2 := None))
        else r)"
  using assms by (simp add: keys_one_def keys_iteration_def Let_def)

lemma keys_one_cases:
  assumes "ar_sdkClients r i = Some a" "pm_SDKs cfg i = Some m"
  obtains "keys_one cfg i r = r" "needs_reset cfg r i"
  | "keys_one cfg i r = r" "fst (SdkKeys (ar_objs r ! a)) = Key1 m"
      "snd (SdkKeys (ar_objs r ! a)) = Some (Key2 m) \<or> snd (SdkKeys (ar_objs r ! a)) = None \<and> Key2 m = []"
  | idx where "fst (SdkKeys (ar_objs r ! a)) = Key1 m"
      "keys_one cfg i r = r\<lparr>ar_objs := (ar_objs r)[a := SetSecondarySdkKey (Key2 m) (ar_objs r ! a)],
         ar_sdkClientsBySdkKey := idx(Key2 m \<mapsto> a), ar_published := ar_published r @ [i]\<rparr>"
      "snd (SdkKeys (ar_objs r ! a)) = None \<and> Key2 m \<noteq> [] \<and> idx = ar_sdkClientsBySdkKey r \<or>
       (\<exists>k2. snd (SdkKeys (ar_objs r ! a)) = Some k2 \<and> k2 \<noteq> Key2 m \<and>
         idx = (ar_sdkClientsBySdkKey r)(k2 := None))"
proof -
  obtain k1 k2 where k: "SdkKeys (ar_objs r ! a) = (k1, k2)" by fastforce
  note eq = keys_one_eq [OF assms k, unfolded Let_def]
  consider "k1 \<noteq> Key1 m" | "k1 = Key1 m" "k2 = None" "Key2 m \<noteq> []" | "k1 = Key1 m" "k2 = None" "Key2 m = []"
    | x where "k1 = Key1 m" "k2 = Some x" "x = Key2 m" | x where "k1 = Key1 m" "k2 = Some x" "x \<noteq> Key2 m"
    by (cases k2) blast+
  then show thesis
  proof cases
    case 1
    show thesis by (rule that(1)) (use 1 eq k assms in \<open>simp_all add: needs_reset_def\<close>)
  next
    case 2
    show thesis
      by (rule that(3) [of "ar_sdkClientsBySdkKey r"]) (use 2 eq k in simp_all)
  next
    case 3
    show thesis by (rule that(2)) (use 3 eq k in simp_all)
  next
    case 4
    show thesis by (rule that(2)) (use 4 eq k in simp_all)
  next
    case (5 x)
    show thesis
      by (rule that(3) [of "(ar_sdkClientsBySdkKey r)(x := None)"]) (use 5 eq k in simp_all)
  qed
qed

lemma keys_step:
  assumes inv: "reg_inv r" and good: "views_good U K r" and ap: "apart U K"
    and m: "pm_SDKs cfg i = Some m" "model_ok U K i m" and some: "ar_sdkClients r i = Some a"
  defines "r' \<equiv> keys_one cfg i r"
  shows "local_step U K i r r' \<and> views_good U K r'"
    and "ar_sdkClients r' i = Some a \<and>
      (needs_reset cfg r i \<and> needs_reset cfg r' i \<or> \<not> needs_reset cfg r i \<and> matches i m (ar_objs r' ! a))"
proof -
  let ?c = "ar_objs r ! a"
  have ok: "heap_ok (ar_sdkClients r) (ar_objs r)" using inv by (simp add: reg_inv_def)
  note d = heap_okD [OF ok some]
  have nr: "needs_reset cfg r i \<longleftrightarrow> fst (SdkKeys ?c) \<noteq> Key1 m" using m some by (simp add: needs_reset_def)
  have "(local_step U K i r r' \<and> views_good U K r') \<and> ar_sdkClients r' i = Some a \<and>
      (needs_reset cfg r i \<and> needs_reset cfg r' i \<or> \<not> needs_reset cfg r i \<and> matches i m (ar_objs r' ! a))"
    using some m(1)
  proof (cases rule: keys_one_cases)
    case 1
    then show ?thesis using inv good some by (simp add: r'_def local_step_refl)
  next
    case 2
    then show ?thesis using inv good some nr d(2) by (auto simp: r'_def local_step_refl matches_def)
  next
    case (3 idx)
    let ?c' = "SetSecondarySdkKey (Key2 m) ?c"
    have eqs: "ar_sdkClients r' = ar_sdkClients r" "ar_objs r' = (ar_objs r)[a := ?c']"
      "ar_options r' = ar_options r" "ar_sdkClientsBySdkKey r' = idx(Key2 m \<mapsto> a)"
      using 3(2) by (simp_all add: r'_def)
    have match: "matches i m ?c'" using 3(1) d(2) by (simp add: matches_def)
    have sub: "(keys_of_client ?c \<union> model_keys m) \<inter> U \<subseteq> K i"
      using keys_ok_client [OF views_goodD(1) [OF good some]] keys_ok_model [OF m(2)] by blast
    have idx: "idx k = ar_sdkClientsBySdkKey r k" if "k \<noteq> []" "snd (SdkKeys ?c) \<noteq> Some k" for k
      using 3(3) that by auto
    have idx2: "idx k = None" if "snd (SdkKeys ?c) = Some k" for k
      using 3(3) that by auto
    have loc: "local_step U K i r r'"
    proof (rule local_stepI [OF _ ap sub])
      show "reg_inv r'" unfolding reg_inv_def eqs by (rule heap_ok_update [OF ok]) simp_all
      fix j b assume j: "j \<noteq> i" "ar_sdkClients r j = Some b"
      then have "b \<noteq> a" using heap_okD(4) [OF ok some, of j] by auto
      then show "ar_objs r' ! b = ar_objs r ! b" unfolding eqs by simp
    next
      fix k assume k: "k \<noteq> []" "k \<notin> keys_of_client ?c \<union> model_keys m"
      then have "snd (SdkKeys ?c) \<noteq> Some k" "k \<noteq> Key2 m"
        by (auto simp: keys_of_client_def model_keys_def)
      then show "ar_sdkClientsBySdkKey r' k = ar_sdkClientsBySdkKey r k"
        using idx k(1) unfolding eqs by simp
    qed (simp_all add: eqs)
    moreover have "views_good U K r'"
    proof (rule views_goodI [OF good loc])
      fix k assume k: "k \<in> K i" "k \<in> U" "k \<noteq> []"
      have old: "ar_sdkClientsBySdkKey r k = (if k \<in> keys_of_client ?c then Some a else None)"
        by (rule views_goodD(2) [OF good some k])
      have diff: "snd (SdkKeys ?c) = Some k \<Longrightarrow> k \<noteq> Key1 m"
        using views_goodD(1) [OF good some] k 3(1) by (auto simp: keys_ok_def)
      have "(idx(Key2 m \<mapsto> a)) k = (if k \<in> model_keys m then Some a else None)"
      proof (cases "snd (SdkKeys ?c) = Some k")
        case True
        then show ?thesis using idx2 diff by (simp add: model_keys_def k)
      next
        case False
        then show ?thesis
          using idx [OF k(3)] old k 3(1) by (auto simp: model_keys_def keys_of_client_def)
      qed
      then show "ar_sdkClientsBySdkKey r' k = (case ar_sdkClients r' i of None \<Rightarrow> None
         | Some a \<Rightarrow> if k \<in> keys_of_client (ar_objs r' ! a) then Some a else None)"
        unfolding eqs using some d(1) matches_keys [OF match] by simp
    next
      fix b assume "ar_sdkClients r' i = Some b"
      then have "ar_objs r' ! b = ?c'" using some d(1) by (simp add: eqs)
      then show "keys_ok U (K i) (fst (SdkKeys (ar_objs r' ! b))) (snd (SdkKeys (ar_objs r' ! b)))"
        using matches_ok [OF match m(2)] by simp
    qed
    ultimately show ?thesis using some d(1) match nr 3(1) by (simp add: eqs)
  qed
  then show "local_step U K i r r' \<and> views_good U K r'"
    "ar_sdkClients r' i = Some a \<and>
      (needs_reset cfg r i \<and> needs_reset cfg r' i \<or> \<not> needs_reset cfg r i \<and> matches i m (ar_objs r' ! a))"
    by blast+
qed

subsection \<open>The phases of a refresh\<close>

definition fits :: "string set \<Rightarrow> (string \<Rightarrow> string set) \<Rightarrow> proxy_config_model \<Rightarrow> bool" where
  "fits U K cfg \<longleftrightarrow> apart U K \<and> (\<forall>i m. pm_SDKs cfg i = Some m \<longrightarrow> model_ok U K i m)"

definition served :: "auto_registrar \<Rightarrow> string \<Rightarrow> sdk_model \<Rightarrow> bool" where
  "served r i m \<longleftrightarrow> (\<exists>a. ar_sdkClients r i = Some a \<and> matches i m (ar_objs r ! a))"

definition stored :: "string list \<Rightarrow> auto_registrar \<Rightarrow> bool" where
  "stored is r \<longleftrightarrow> (\<forall>i \<in> set is. \<exists>a. ar_sdkClients r i = Some a)"

definition listed :: "proxy_config_model \<Rightarrow> string list \<Rightarrow> bool" where
  "listed cfg is \<longleftrightarrow> (\<forall>i \<in> set is. pm_SDKs cfg i \<noteq> None)"

definition unstored :: "string list \<Rightarrow> auto_registrar \<Rightarrow> bool" where
  "unstored is r \<longleftrightarrow> (\<forall>i \<in> set is. ar_sdkClients r i = None)"

text \<open>The index outside the keys set aside is untouched.\<close>

definition index_kept :: "string set \<Rightarrow> (string \<Rightarrow> string set) \<Rightarrow> auto_registrar \<Rightarrow> auto_registrar \<Rightarrow> bool" where
  "index_kept U K r r' \<longleftrightarrow> (\<forall>k. k \<in> U \<and> k \<noteq> [] \<and> (\<forall>j. k \<notin> K j) \<longrightarrow>
     ar_sdkClientsBySdkKey r' k = ar_sdkClientsBySdkKey r k)"

lemma index_kept_trans: "index_kept U K r r' \<Longrightarrow> index_kept U K r' r'' \<Longrightarrow> index_kept U K r r''"
  unfolding index_kept_def by metis

text \<open>Membership, match and the need to rebuild are read off the view.\<close>

lemma view_eqD:
  assumes "reg_view U K r i = reg_view U K r' i"
  shows "ar_sdkClients r i = ar_sdkClients r' i" "served r i m \<longleftrightarrow> served r' i m"
    "needs_reset cfg r i \<longleftrightarrow> needs_reset cfg r' i"
proof -
  from assms have v: "map_option (\<lambda>a. (a, ar_objs r ! a)) (ar_sdkClients r i) =
      map_option (\<lambda>a. (a, ar_objs r' ! a)) (ar_sdkClients r' i)"
    by (simp add: reg_view_def)
  show "ar_sdkClients r i = ar_sdkClients r' i" "served r i m \<longleftrightarrow> served r' i m"
    "needs_reset cfg r i \<longleftrightarrow> needs_reset cfg r' i"
    using v by (cases "ar_sdkClients r i"; cases "ar_sdkClients r' i";
        simp add: served_def needs_reset_def)+
qed

text \<open>The loops of the four operations consist of local steps.\<close>

lemma loop_delete: "fits U K cfg \<Longrightarrow> distinct is \<Longrightarrow> loop_ok U K (views_good U K) delete_one is"
  unfolding loop_ok_def using delete_step(1) by (auto simp: fits_def)

lemma loop_add:
  assumes "fits U K cfg" "distinct is" "listed cfg is"
  shows "loop_ok U K (views_good U K) (add_one env cfg) is"
  unfolding loop_ok_def
proof (intro conjI allI impI)
  fix i r assume h: "i \<in> set is \<and> reg_inv r \<and> views_good U K r"
  obtain m where m: "pm_SDKs cfg i = Some m" using assms(3) h by (auto simp: listed_def)
  have "local_step U K i r (add_one env cfg i r) \<and> views_good U K (add_one env cfg i r)"
  proof (cases "ar_sdkClients r i")
    case None
    show ?thesis by (rule add_step(1) [OF _ _ _ m _ None]) (use h m assms(1) in \<open>auto simp: fits_def\<close>)
  next
    case (Some a)
    then have "add_one env cfg i r = r" by (simp add: add_one_def m)
    then show ?thesis using h by (simp add: local_step_refl)
  qed
  then show "local_step U K i r (add_one env cfg i r)" "views_good U K (add_one env cfg i r)" by blast+
qed (rule assms(2))

lemma loop_rest:
  assumes "fits U K cfg" "distinct is" "listed cfg is"
    and f: "\<And>r i m a. reg_inv r \<Longrightarrow> views_good U K r \<Longrightarrow> apart U K \<Longrightarrow> pm_SDKs cfg i = Some m \<Longrightarrow>
      model_ok U K i m \<Longrightarrow> ar_sdkClients r i = Some a \<Longrightarrow>
      (local_step U K i r (f i r) \<and> views_good U K (f i r)) \<and> (\<exists>a. ar_sdkClients (f i r) i = Some a)"
  shows "loop_ok U K (\<lambda>r. views_good U K r \<and> stored is r) f is"
  unfolding loop_ok_def
proof (intro conjI allI impI)
  fix i r assume h: "i \<in> set is \<and> reg_inv r \<and> views_good U K r \<and> stored is r"
  obtain m where m: "pm_SDKs cfg i = Some m" using assms(3) h by (auto simp: listed_def)
  obtain e where e: "ar_sdkClients r i = Some e" using h by (auto simp: stored_def)
  have ok: "apart U K" "model_ok U K i m" using assms(1) m by (auto simp: fits_def)
  note st = f [OF _ _ ok(1) m ok(2) e]
  show "local_step U K i r (f i r)" "views_good U K (f i r)" using st h by blast+
  have "\<exists>a. ar_sdkClients (f i r) j = Some a" if j: "j \<in> set is" for j
  proof (cases "j = i")
    case True
    then show ?thesis using st h by blast
  next
    case False
    have "reg_view U K (f i r) j = reg_view U K r j" using st h False by (simp add: local_step_def)
    then show ?thesis using view_eqD(1) h j by (metis stored_def)
  qed
  then show "stored is (f i r)" by (simp add: stored_def)
qed (rule assms(2))

lemma loop_reset:
  assumes "fits U K cfg" "distinct is" "listed cfg is"
  shows "loop_ok U K (\<lambda>r. views_good U K r \<and> stored is r) (reset_one env cfg) is"
  by (rule loop_rest [OF assms]) (use reset_step in blast)

lemma loop_keys:
  assumes "fits U K cfg" "distinct is" "listed cfg is"
  shows "loop_ok U K (\<lambda>r. views_good U K r \<and> stored is r) (keys_one cfg) is"
  by (rule loop_rest [OF assms]) (use keys_step in blast)

lemma delete_phase:
  assumes "reg_inv r" "views_good U K r" "fits U K cfg" "distinct is"
  defines "r' \<equiv> deleteSdkClients is r"
  shows "reg_inv r'" "views_good U K r'" "index_kept U K r r'"
    and "\<And>j. j \<notin> set is \<Longrightarrow> reg_view U K r' j = reg_view U K r j"
    and "\<And>i. i \<in> set is \<Longrightarrow> ar_sdkClients r' i = None"
proof -
  have ap: "apart U K" using assms(3) by (simp add: fits_def)
  have loop: "loop_ok U K (views_good U K) delete_one is" by (rule loop_delete [OF assms(3,4)])
  note l = local_loop_facts [OF loop assms(1,2) r'_def [unfolded deleteSdkClients_def, THEN meta_eq_to_obj_eq]]
  show "reg_inv r'" "views_good U K r'" "\<And>j. j \<notin> set is \<Longrightarrow> reg_view U K r' j = reg_view U K r j"
    using l(1-3) by blast+
  show "index_kept U K r r'" unfolding index_kept_def using l(5) by blast
  fix i assume "i \<in> set is"
  from l(4) [OF this] obtain r1 where "reg_inv r1" "views_good U K r1" "reg_view U K r' i = reg_view U K (delete_one i r1) i"
    by blast
  then show "ar_sdkClients r' i = None"
    using delete_step(2) [OF _ _ ap, of r1 i] view_eqD(1) by metis
qed

lemma add_phase:
  fixes env :: reg_env
  assumes "reg_inv r" "views_good U K r" "fits U K cfg" "distinct is"
    and absent: "unstored is r" and known: "listed cfg is"
  defines "r' \<equiv> addSdkClients env cfg is r"
  shows "reg_inv r'" "views_good U K r'" "index_kept U K r r'"
    and "\<And>j. j \<notin> set is \<Longrightarrow> reg_view U K r' j = reg_view U K r j"
    and "\<And>i m. i \<in> set is \<Longrightarrow> pm_SDKs cfg i = Some m \<Longrightarrow> served r' i m"
proof -
  have ap: "apart U K" using assms(3) by (simp add: fits_def)
  have ok: "pm_SDKs cfg i = Some m \<Longrightarrow> model_ok U K i m" for i m using assms(3) by (simp add: fits_def)
  have loop: "loop_ok U K (views_good U K) (add_one env cfg) is" by (rule loop_add [OF assms(3,4) known])
  note l = local_loop_facts [OF loop assms(1,2) r'_def [unfolded addSdkClients_def, THEN meta_eq_to_obj_eq]]
  show "reg_inv r'" "views_good U K r'" "\<And>j. j \<notin> set is \<Longrightarrow> reg_view U K r' j = reg_view U K r j"
    using l(1-3) by blast+
  show "index_kept U K r r'" unfolding index_kept_def using l(5) by blast
  fix i m assume i: "i \<in> set is" "pm_SDKs cfg i = Some m"
  from l(4) [OF i(1)] obtain r1 where r1: "reg_inv r1" "views_good U K r1" "reg_view U K r1 i = reg_view U K r i"
    "reg_view U K r' i = reg_view U K (add_one env cfg i r1) i" by blast
  have "ar_sdkClients r1 i = None" using absent i(1) view_eqD(1) [OF r1(3)] by (simp add: unstored_def)
  from add_step(2) [OF r1(1,2) ap i(2) ok [OF i(2)] this]
  have "served (add_one env cfg i r1) i m" by (simp add: served_def)
  then show "served r' i m" using view_eqD(2) [OF r1(4)] by simp
qed

lemma reset_phase:
  fixes env :: reg_env
  assumes "reg_inv r" "views_good U K r" "fits U K cfg" "distinct is" "stored is r"
    and known: "listed cfg is"
  defines "r' \<equiv> resetSdkClients env cfg is r"
  shows "reg_inv r'" "views_good U K r'" "index_kept U K r r'"
    and "\<And>j. j \<notin> set is \<Longrightarrow> reg_view U K r' j = reg_view U K r j"
    and "\<And>i m. i \<in> set is \<Longrightarrow> pm_SDKs cfg i = Some m \<Longrightarrow> served r' i m"
proof -
  let ?P = "\<lambda>r. views_good U K r \<and> stored is r"
  have ap: "apart U K" using assms(3) by (simp add: fits_def)
  have ok: "pm_SDKs cfg i = Some m \<Longrightarrow> model_ok U K i m" for i m using assms(3) by (simp add: fits_def)
  have P: "?P r" using assms(2,5) by simp
  have loop: "loop_ok U K ?P (reset_one env cfg) is" by (rule loop_reset [OF assms(3,4) known])
  note l = local_loop_facts [OF loop assms(1) P r'_def [unfolded resetSdkClients_def, THEN meta_eq_to_obj_eq]]
  show "reg_inv r'" "views_good U K r'" "\<And>j. j \<notin> set is \<Longrightarrow> reg_view U K r' j = reg_view U K r j"
    using l(1-3) by blast+
  show "index_kept U K r r'" unfolding index_kept_def using l(5) by blast
  fix i m assume i: "i \<in> set is" "pm_SDKs cfg i = Some m"
  from l(4) [OF i(1)] obtain r1 where r1: "reg_inv r1" "views_good U K r1" "stored is r1"
    "reg_view U K r' i = reg_view U K (reset_one env cfg i r1) i" by blast
  obtain e where "ar_sdkClients r1 i = Some e" using r1(3) i(1) by (auto simp: stored_def)
  from reset_step(2) [OF r1(1,2) ap i(2) ok [OF i(2)] this]
  have "served (reset_one env cfg i r1) i m" by (simp add: served_def)
  then show "served r' i m" using view_eqD(2) [OF r1(4)] by simp
qed

lemma keys_phase:
  assumes "reg_inv r" "views_good U K r" "fits U K cfg" "distinct is" "stored is r"
    and known: "listed cfg is"
  defines "r' \<equiv> foldl (\<lambda>r i. keys_one cfg i r) r is"
  shows "reg_inv r'" "views_good U K r'" "index_kept U K r r'" "stored is r'"
    and "\<And>j. j \<notin> set is \<Longrightarrow> reg_view U K r' j = reg_view U K r j"
    and "\<And>i m. i \<in> set is \<Longrightarrow> pm_SDKs cfg i = Some m \<Longrightarrow> \<not> needs_reset cfg r i \<Longrightarrow> served r' i m"
    and "\<And>i. i \<in> set is \<Longrightarrow> needs_reset cfg r i \<Longrightarrow> reg_view U K r' i = reg_view U K r i"
proof -
  let ?P = "\<lambda>r. views_good U K r \<and> stored is r"
  have ap: "apart U K" using assms(3) by (simp add: fits_def)
  have ok: "pm_SDKs cfg i = Some m \<Longrightarrow> model_ok U K i m" for i m using assms(3) by (simp add: fits_def)
  have P: "?P r" using assms(2,5) by simp
  have loop: "loop_ok U K ?P (keys_one cfg) is" by (rule loop_keys [OF assms(3,4) known])
  note l = local_loop_facts [OF loop assms(1) P r'_def [THEN meta_eq_to_obj_eq]]
  show "reg_inv r'" "views_good U K r'" "stored is r'"
    "\<And>j. j \<notin> set is \<Longrightarrow> reg_view U K r' j = reg_view U K r j"
    using l(1-3) by blast+
  show "index_kept U K r r'" unfolding index_kept_def using l(5) by blast
  {
  fix i m assume i: "i \<in> set is" "pm_SDKs cfg i = Some m" "\<not> needs_reset cfg r i"
  from l(4) [OF i(1)] obtain r1 where r1: "reg_inv r1" "views_good U K r1" "stored is r1"
    "reg_view U K r1 i = reg_view U K r i" "reg_view U K r' i = reg_view U K (keys_one cfg i r1) i" by blast
  obtain e where "ar_sdkClients r1 i = Some e" using r1(3) i(1) by (auto simp: stored_def)
  from keys_step(2) [OF r1(1,2) ap i(2) ok [OF i(2)] this] i(3) view_eqD(3) [OF r1(4)]
  have "served (keys_one cfg i r1) i m" by (auto simp: served_def)
  then show "served r' i m" using view_eqD(2) [OF r1(5)] by simp
  }
  fix i assume i: "i \<in> set is" "needs_reset cfg r i"
  from l(4) [OF i(1)] obtain r1 where r1: "reg_view U K r1 i = reg_view U K r i"
    "reg_view U K r' i = reg_view U K (keys_one cfg i r1) i" by blast
  have "needs_reset cfg r1 i" using i(2) view_eqD(3) [OF r1(1)] by simp
  then have "keys_one cfg i r1 = r1"
    by (auto simp: needs_reset_def keys_one_def keys_iteration_def Let_def split: prod.splits)
  with r1 show "reg_view U K r' i = reg_view U K r i" by simp
qed

lemma keys_loop_eq:
  assumes "reg_inv r" "views_good U K r" "fits U K cfg" "distinct is" "stored is r"
    and known: "listed cfg is"
  shows "foldl (keys_iteration cfg) (r, ks) is =
    (foldl (\<lambda>r i. keys_one cfg i r) r is, ks @ filter (needs_reset cfg r) is)"
  using assms(1,2,4,5) known
proof (induction "is" arbitrary: r ks)
  case (Cons i "is")
  have ap: "apart U K" using assms(3) by (simp add: fits_def)
  obtain m where m: "pm_SDKs cfg i = Some m" using Cons.prems(5) by (auto simp: listed_def)
  then have ok: "model_ok U K i m" using assms(3) by (simp add: fits_def)
  obtain e where e: "ar_sdkClients r i = Some e" using Cons.prems(4) by (auto simp: stored_def)
  let ?r1 = "keys_one cfg i r"
  have st: "local_step U K i r ?r1" "views_good U K ?r1"
    using keys_step(1) [OF Cons.prems(1,2) ap m ok e] by blast+
  have v: "reg_view U K ?r1 j = reg_view U K r j" if "j \<in> set is" for j
    using st(1) that Cons.prems(3) by (auto simp: local_step_def)
  have same: "filter (needs_reset cfg ?r1) is = filter (needs_reset cfg r) is"
    by (rule filter_cong [OF refl]) (rule view_eqD(3) [OF v])
  have "stored is ?r1" using Cons.prems(4) view_eqD(1) [OF v] by (simp add: stored_def)
  moreover have "reg_inv ?r1" using st(1) by (simp add: local_step_def)
  ultimately have "foldl (keys_iteration cfg) (?r1, ks') is =
      (foldl (\<lambda>r i. keys_one cfg i r) ?r1 is, ks' @ filter (needs_reset cfg r) is)" for ks'
    using Cons.IH [of ?r1 ks'] st(2) Cons.prems(3,5) same by (simp add: listed_def)
  then show ?case by (simp add: keys_iteration_eq)
qed simp

text \<open>The state between the deletions and the additions.\<close>

lemma remaining_phase:
  fixes env :: reg_env
  assumes r: "reg_inv r" "views_good U K r" "fits U K cfg" and "is": "distinct is" "stored is r"
    and known: "listed cfg is"
  defines "r' \<equiv> (if shouldUpdateOptions r (pm_Options cfg)
        then resetSdkClients env cfg is (r\<lparr>ar_options := pm_Options cfg\<rparr>)
        else (case foldl (keys_iteration cfg) (r, []) is of
                (r', resetKeys) \<Rightarrow> (if length resetKeys > 0 then resetSdkClients env cfg resetKeys r' else r')))"
  shows "reg_inv r'" "views_good U K r'" "index_kept U K r r'"
    and "\<And>j. j \<notin> set is \<Longrightarrow> reg_view U K r' j = reg_view U K r j"
    and "\<And>i m. i \<in> set is \<Longrightarrow> pm_SDKs cfg i = Some m \<Longrightarrow> served r' i m"
proof -
  have "reg_inv r' \<and> views_good U K r' \<and> index_kept U K r r'
      \<and> (\<forall>j. j \<notin> set is \<longrightarrow> reg_view U K r' j = reg_view U K r j)
      \<and> (\<forall>i m. i \<in> set is \<longrightarrow> pm_SDKs cfg i = Some m \<longrightarrow> served r' i m)"
  proof (cases "shouldUpdateOptions r (pm_Options cfg)")
    case True
    let ?r0 = "r\<lparr>ar_options := pm_Options cfg\<rparr>"
    have v: "reg_view U K ?r0 j = reg_view U K r j" for j by (rule view_frame) simp_all
    have r0: "reg_inv ?r0" "views_good U K ?r0" "stored is ?r0" "index_kept U K r ?r0"
      using r "is" v by (simp_all add: reg_inv_def views_good_def stored_def index_kept_def)
    note p = reset_phase [where env = env, OF r0(1,2) r(3) "is"(1) r0(3) known]
    have "r' = resetSdkClients env cfg is ?r0" using True by (simp add: r'_def)
    then show ?thesis using p index_kept_trans [OF r0(4) p(3)] v by simp
  next
    case False
    define q where "q = foldl (\<lambda>r i. keys_one cfg i r) r is"
    define ks where "ks = filter (needs_reset cfg r) is"
    note p = keys_phase [OF r "is" known, folded q_def]
    have r': "r' = resetSdkClients env cfg ks q"
      using False keys_loop_eq [OF r "is" known, of "[]", folded q_def ks_def]
      by (simp add: r'_def resetSdkClients_def)
    have ks: "distinct ks" "stored ks q" "listed cfg ks"
      using "is"(1) p(4) known by (auto simp: ks_def stored_def listed_def)
    note s = reset_phase [where env = env, OF p(1,2) r(3) ks, folded r']
    have "reg_view U K r' j = reg_view U K r j" if "j \<notin> set is" for j
      using s(4) [of j] p(5) [of j] that by (simp add: ks_def)
    moreover have "served r' i m" if i: "i \<in> set is" "pm_SDKs cfg i = Some m" for i m
    proof (cases "needs_reset cfg r i")
      case True
      then show ?thesis using s(5) [OF _ i(2)] i(1) by (simp add: ks_def)
    next
      case nr: False
      have "reg_view U K r' i = reg_view U K q i" using s(4) [of i] nr by (simp add: ks_def)
      then show ?thesis using p(6) [OF i nr] view_eqD(2) by blast
    qed
    ultimately show ?thesis
      using s(1,2) index_kept_trans [OF p(3) s(3)] by blast
  qed
  then show "reg_inv r'" "views_good U K r'" "index_kept U K r r'"
    "\<And>j. j \<notin> set is \<Longrightarrow> reg_view U K r' j = reg_view U K r j"
    "\<And>i m. i \<in> set is \<Longrightarrow> pm_SDKs cfg i = Some m \<Longrightarrow> served r' i m" by blast+
qed

text \<open>The whole refresh.\<close>

lemma applyConfig_facts:
  fixes env :: reg_env
  assumes r: "reg_inv r" "views_good U K r" "fits U K cfg"
    and en: "enumerates existing (ar_sdkClients r)" "enumerates remote (pm_SDKs cfg)"
  defines "r' \<equiv> applyConfig env cfg existing remote r"
  shows "reg_inv r'" "views_good U K r'" "index_kept U K r r'"
    and "\<And>i. pm_SDKs cfg i = None \<Longrightarrow> ar_sdkClients r' i = None"
    and "\<And>i m. pm_SDKs cfg i = Some m \<Longrightarrow> served r' i m"
proof -
  define adds where "adds = Except remote existing"
  define dels where "dels = Except existing remote"
  define rems where "rems = Except remote adds"
  define r1 where "r1 = deleteSdkClients dels r"
  define r2 where "r2 = (if shouldUpdateOptions r1 (pm_Options cfg)
        then resetSdkClients env cfg rems (r1\<lparr>ar_options := pm_Options cfg\<rparr>)
        else (case foldl (keys_iteration cfg) (r1, []) rems of
                (r', resetKeys) \<Rightarrow> (if length resetKeys > 0 then resetSdkClients env cfg resetKeys r' else r')))"
  have r': "r' = addSdkClients env cfg adds r2"
    unfolding r'_def applyConfig_def Let_def KeysOfMap_eq [OF en(1)] KeysOfMap_eq [OF en(2)]
      adds_def [symmetric] dels_def [symmetric] rems_def [symmetric] r1_def [symmetric] r2_def [symmetric] ..
  have ex: "i \<in> set existing \<longleftrightarrow> ar_sdkClients r i \<noteq> None" and re: "i \<in> set remote \<longleftrightarrow> pm_SDKs cfg i \<noteq> None" for i
    using en by (auto simp: enumerates_def)
  have dist: "distinct adds" "distinct dels" "distinct rems"
    using en by (simp_all add: adds_def dels_def rems_def enumerates_def)
  have sets: "set adds = set remote - set existing" "set dels = set existing - set remote"
    "set rems = set remote \<inter> set existing"
    by (auto simp: adds_def dels_def rems_def)
  note d = delete_phase [OF r dist(2), folded r1_def]
  have st: "stored rems r1"
    using view_eqD(1) [OF d(4)] ex sets by (auto simp: stored_def)
  have kn: "listed cfg rems" "listed cfg adds" using sets re by (auto simp: listed_def)
  note m = remaining_phase [where env = env, OF d(1,2) r(3) dist(3) st kn(1), folded r2_def]
  have v2: "ar_sdkClients r2 i = ar_sdkClients r1 i" if "i \<notin> set rems" for i
    using view_eqD(1) [OF m(4)] that by blast
  have v1: "ar_sdkClients r1 i = ar_sdkClients r i" if "i \<notin> set dels" for i
    using view_eqD(1) [OF d(4)] that by blast
  have "unstored adds r2"
    unfolding unstored_def
  proof
    fix i assume "i \<in> set adds"
    then show "ar_sdkClients r2 i = None" using v1 [of i] v2 [of i] ex re sets by auto
  qed
  note a = add_phase [where env = env, OF m(1,2) r(3) dist(1) this kn(2), folded r']
  show "reg_inv r'" "views_good U K r'" using a(1,2) by blast+
  show "index_kept U K r r'" using index_kept_trans [OF d(3) index_kept_trans [OF m(3) a(3)]] by blast
  show "ar_sdkClients r' i = None" if "pm_SDKs cfg i = None" for i
  proof -
    have n: "i \<notin> set remote" using that re by blast
    then have "ar_sdkClients r' i = ar_sdkClients r2 i" using view_eqD(1) [OF a(4)] sets(1) by blast
    also have "\<dots> = ar_sdkClients r1 i" using v2 n sets(3) by blast
    also have "\<dots> = None"
    proof (cases "i \<in> set existing")
      case True
      then show ?thesis using d(5) n sets(2) by blast
    next
      case False
      then show ?thesis using v1 ex sets(2) by auto
    qed
    finally show ?thesis .
  qed
  show "served r' i m" if i: "pm_SDKs cfg i = Some m" for i m
  proof (cases "i \<in> set existing")
    case True
    then have "i \<in> set rems" "i \<notin> set adds" using sets i re by auto
    then show ?thesis using m(5) [OF _ i] view_eqD(2) [OF a(4)] by blast
  next
    case False
    then have "i \<in> set adds" using sets i re by auto
    then show ?thesis using a(5) [OF _ i] by blast
  qed
qed

subsection \<open>Announcements and status calls\<close>

text \<open>The SDKs whose client (address or content) differs between two states.\<close>

definition shown :: "auto_registrar \<Rightarrow> string \<Rightarrow> (nat \<times> client) option" where
  "shown r i = map_option (\<lambda>a. (a, ar_objs r ! a)) (ar_sdkClients r i)"

definition changed_sdks :: "auto_registrar \<Rightarrow> auto_registrar \<Rightarrow> string set" where
  "changed_sdks r r' = {i. shown r' i \<noteq> shown r i}"

text \<open>What the status reporter does with a list of calls; \<open>None\<close> is the nil dereference of \<open>UpdateSdk\<close>.\<close>

fun replay :: "status_call list \<Rightarrow> string set \<Rightarrow> string set option" where
  "replay [] S = Some S"
| "replay (CallRegister i c # cs) S = replay cs (insert i S)"
| "replay (CallUpdate i c # cs) S = (if i \<in> S then replay cs S else None)"
| "replay (CallRemove i # cs) S = replay cs (S - {i})"

lemma replay_append: "replay (cs @ ds) S = (case replay cs S of None \<Rightarrow> None | Some S' \<Rightarrow> replay ds S')"
  by (induction cs S rule: replay.induct) auto

text \<open>A step that publishes each SDK it changes, once, changes only \<open>S\<close>, and keeps the reporter in step.\<close>

definition announces :: "string set \<Rightarrow> auto_registrar \<Rightarrow> auto_registrar \<Rightarrow> bool" where
  "announces S r r' \<longleftrightarrow>
     (\<exists>ps. ar_published r' = ar_published r @ ps \<and> distinct ps \<and> set ps = changed_sdks r r' \<and> set ps \<subseteq> S)
     \<and> (\<exists>cs. ar_status r' = ar_status r @ cs \<and> replay cs (dom (ar_sdkClients r)) = Some (dom (ar_sdkClients r')))"

lemma announces_refl: "announces S r r"
  by (simp add: announces_def changed_sdks_def)

lemma announces_trans:
  assumes "announces S r r'" "announces T r' r''" "S \<inter> T = {}"
  shows "announces (S \<union> T) r r''"
proof -
  from assms(1) obtain ps cs where 1: "ar_published r' = ar_published r @ ps" "distinct ps"
    "set ps = changed_sdks r r'" "set ps \<subseteq> S"
    "ar_status r' = ar_status r @ cs" "replay cs (dom (ar_sdkClients r)) = Some (dom (ar_sdkClients r'))"
    by (auto simp: announces_def)
  from assms(2) obtain ps' cs' where 2: "ar_published r'' = ar_published r' @ ps'" "distinct ps'"
    "set ps' = changed_sdks r' r''" "set ps' \<subseteq> T"
    "ar_status r'' = ar_status r' @ cs'" "replay cs' (dom (ar_sdkClients r')) = Some (dom (ar_sdkClients r''))"
    by (auto simp: announces_def)
  have ch: "changed_sdks r r'' = changed_sdks r r' \<union> changed_sdks r' r''"
  proof (intro set_eqI)
    fix i
    have "i \<notin> changed_sdks r r' \<or> i \<notin> changed_sdks r' r''" using 1(3,4) 2(3,4) assms(3) by blast
    then show "i \<in> changed_sdks r r'' \<longleftrightarrow> i \<in> changed_sdks r r' \<union> changed_sdks r' r''"
      by (auto simp: changed_sdks_def)
  qed
  have "ar_published r'' = ar_published r @ (ps @ ps')" using 1(1) 2(1) by simp
  moreover have "distinct (ps @ ps')" using 1(2,4) 2(2,4) assms(3) by auto
  moreover have "set (ps @ ps') = changed_sdks r r''" using ch 1(3) 2(3) by simp
  moreover have "set (ps @ ps') \<subseteq> S \<union> T" using 1(4) 2(4) by auto
  moreover have "ar_status r'' = ar_status r @ (cs @ cs')" using 1(5) 2(5) by simp
  moreover have "replay (cs @ cs') (dom (ar_sdkClients r)) = Some (dom (ar_sdkClients r''))"
    using 1(6) 2(6) by (simp add: replay_append)
  ultimately show ?thesis unfolding announces_def by blast
qed

lemma announces_mono: "announces S r r' \<Longrightarrow> S \<subseteq> T \<Longrightarrow> announces T r r'"
  unfolding announces_def by blast

lemma announces_loop:
  assumes "loop_ok U K P f is" "reg_inv r" "P r"
    and "\<And>r i. i \<in> set is \<Longrightarrow> reg_inv r \<Longrightarrow> P r \<Longrightarrow> announces {i} r (f i r)"
  shows "announces (set is) r (foldl (\<lambda>r i. f i r) r is)"
  using assms
proof (induction "is" arbitrary: r)
  case Nil
  then show ?case by (simp add: announces_refl)
next
  case (Cons i "is")
  have l: "loop_ok U K P f is" "i \<notin> set is" "local_step U K i r (f i r)" "P (f i r)"
    using Cons.prems(1-3) by (auto simp: loop_ok_def)
  have "announces (set is) (f i r) (foldl (\<lambda>r i. f i r) (f i r) is)"
    by (rule Cons.IH [OF l(1) _ l(4)]) (use l(3) Cons.prems(4) in \<open>auto simp: local_step_def\<close>)
  from announces_trans [OF Cons.prems(4) this] Cons.prems(2,3) l(2) show ?case by simp
qed

lemma announcesI:
  assumes "\<And>j. j \<noteq> i \<Longrightarrow> shown r' j = shown r j"
    and "ar_published r' = ar_published r @ (if shown r' i \<noteq> shown r i then [i] else [])"
    and "ar_status r' = ar_status r @ cs" "replay cs (dom (ar_sdkClients r)) = Some (dom (ar_sdkClients r'))"
  shows "announces {i} r r'"
proof -
  let ?ps = "if shown r' i \<noteq> shown r i then [i] else []"
  have "set ?ps = changed_sdks r r'"
  proof (intro set_eqI)
    fix j
    show "j \<in> set ?ps \<longleftrightarrow> j \<in> changed_sdks r r'"
      using assms(1) [of j] by (cases "j = i") (auto simp: changed_sdks_def)
  qed
  moreover have "distinct ?ps" "set ?ps \<subseteq> {i}" by auto
  ultimately show ?thesis unfolding announces_def using assms(2-4) by blast
qed

lemma local_shown: "local_step U K i r r' \<Longrightarrow> j \<noteq> i \<Longrightarrow> shown r' j = shown r j"
  by (simp add: local_step_def reg_view_def shown_def)

lemma announces_local:
  assumes "local_step U K i r r'"
    and "ar_published r' = ar_published r @ (if shown r' i \<noteq> shown r i then [i] else [])"
    and "ar_status r' = ar_status r @ cs" "replay cs (dom (ar_sdkClients r)) = Some (dom (ar_sdkClients r'))"
  shows "announces {i} r r'"
  by (rule announcesI [OF local_shown [OF assms(1)] assms(2-4)])

abbreviation any_keys :: "string \<Rightarrow> string set" where "any_keys \<equiv> (\<lambda>_. {})"

lemma untracked [simp]: "views_good {} K r" "fits {} K cfg" "apart {} K" "model_ok {} K i m"
  by (auto simp: views_good_def view_good_def reg_view_def index_of_def keys_ok_def fits_def apart_def
      model_ok_def fun_eq_iff split: option.splits)

lemma untracked_shown: "reg_view {} K r i = reg_view {} K r' i \<longleftrightarrow> shown r i = shown r' i"
  by (simp add: reg_view_def shown_def)

lemma delete_announces:
  assumes "reg_inv r"
  shows "announces {i} r (delete_one i r)"
proof (cases "ar_sdkClients r i")
  case None
  then show ?thesis by (simp add: delete_one_def announces_refl)
next
  case (Some a)
  have "local_step {} any_keys i r (delete_one i r)" using delete_step(1) [OF assms, of "{}" any_keys i] by simp
  moreover have "ar_sdkClients (delete_one i r) = (ar_sdkClients r)(i := None)"
    "ar_published (delete_one i r) = ar_published r @ [i]"
    "ar_status (delete_one i r) = ar_status r @ [CallRemove i]"
    using Some by (simp_all add: delete_one_def)
  ultimately show ?thesis
    by (intro announces_local [where cs = "[CallRemove i]"]) (simp_all add: shown_def Some)
qed

lemma add_announces:
  assumes "reg_inv r" "pm_SDKs cfg i \<noteq> None"
  shows "announces {i} r (add_one env cfg i r)"
proof (cases "ar_sdkClients r i")
  case None
  obtain m where m: "pm_SDKs cfg i = Some m" using assms(2) by auto
  let ?r' = "add_one env cfg i r" and ?c = "CallRegister i (buildSdkConfig (re_conf env) (ar_options r) i m)"
  have "local_step {} any_keys i r ?r'"
    using add_step(1) [OF assms(1) _ _ m _ None, of "{}" any_keys env] by simp
  moreover have "ar_sdkClients ?r' = (ar_sdkClients r)(i \<mapsto> length (ar_objs r))"
    "ar_published ?r' = ar_published r @ [i]" "ar_status ?r' = ar_status r @ [?c]"
    using None m by (simp_all add: add_one_def Let_def)
  ultimately show ?thesis
    by (intro announces_local [where cs = "[?c]"]) (simp_all add: shown_def None)
next
  case (Some a)
  then show ?thesis using assms(2) by (auto simp: add_one_def announces_refl)
qed

lemma reset_announces:
  assumes inv: "reg_inv r" and "pm_SDKs cfg i \<noteq> None" and e: "ar_sdkClients r i = Some e"
  shows "announces {i} r (reset_one env cfg i r)"
proof -
  obtain m where m: "pm_SDKs cfg i = Some m" using assms(2) by auto
  let ?r' = "reset_one env cfg i r" and ?c = "CallUpdate i (buildSdkConfig (re_conf env) (ar_options r) i m)"
  have "local_step {} any_keys i r ?r'"
    using reset_step(1) [OF inv _ _ m _ e, of "{}" any_keys env] by simp
  moreover have "e < length (ar_objs r)" using inv e heap_okD(1) by (simp add: reg_inv_def)
  moreover have "ar_sdkClients ?r' = (ar_sdkClients r)(i \<mapsto> length (ar_objs r))"
    "ar_published ?r' = ar_published r @ [i]" "ar_status ?r' = ar_status r @ [?c]"
    using e m by (simp_all add: reset_one_def Let_def)
  moreover have "i \<in> dom (ar_sdkClients r)" using e by blast
  ultimately show ?thesis
    by (intro announces_local [where cs = "[?c]"]) (simp_all add: shown_def e insert_absorb)
qed

lemma keys_announces:
  assumes inv: "reg_inv r" and "pm_SDKs cfg i \<noteq> None" and e: "ar_sdkClients r i = Some e"
  shows "announces {i} r (keys_one cfg i r)"
proof -
  obtain m where m: "pm_SDKs cfg i = Some m" using assms(2) by auto
  have loc: "local_step {} any_keys i r (keys_one cfg i r)"
    using keys_step(1) [OF inv _ _ m _ e, of "{}" any_keys] by simp
  have lt: "e < length (ar_objs r)" using inv e heap_okD(1) by (simp add: reg_inv_def)
  from e m show ?thesis
  proof (cases rule: keys_one_cases)
    case (3 idx)
    let ?c = "ar_objs r ! e"
    have "snd (SdkKeys (SetSecondarySdkKey (Key2 m) ?c)) \<noteq> snd (SdkKeys ?c)" using 3(3) by auto
    then have ne: "SetSecondarySdkKey (Key2 m) ?c \<noteq> ?c" by metis
    show ?thesis
      by (rule announces_local [OF loc, where cs = "[]"]) (use ne lt e 3(2) in \<open>simp_all add: shown_def\<close>)
  qed (simp_all add: announces_refl)
qed

lemma applyConfig_announces:
  fixes env :: reg_env
  assumes inv: "reg_inv r"
    and en: "enumerates existing (ar_sdkClients r)" "enumerates remote (pm_SDKs cfg)"
  shows "announces UNIV r (applyConfig env cfg existing remote r)"
proof -
  define adds where "adds = Except remote existing"
  define dels where "dels = Except existing remote"
  define rems where "rems = Except remote adds"
  define r1 where "r1 = deleteSdkClients dels r"
  define r2 where "r2 = (if shouldUpdateOptions r1 (pm_Options cfg)
        then resetSdkClients env cfg rems (r1\<lparr>ar_options := pm_Options cfg\<rparr>)
        else (case foldl (keys_iteration cfg) (r1, []) rems of
                (r', resetKeys) \<Rightarrow> (if length resetKeys > 0 then resetSdkClients env cfg resetKeys r' else r')))"
  have r': "applyConfig env cfg existing remote r = addSdkClients env cfg adds r2"
    unfolding applyConfig_def Let_def KeysOfMap_eq [OF en(1)] KeysOfMap_eq [OF en(2)]
      adds_def [symmetric] dels_def [symmetric] rems_def [symmetric] r1_def [symmetric] r2_def [symmetric] ..
  have ex: "i \<in> set existing \<longleftrightarrow> ar_sdkClients r i \<noteq> None" and re: "i \<in> set remote \<longleftrightarrow> pm_SDKs cfg i \<noteq> None" for i
    using en by (auto simp: enumerates_def)
  have dist: "distinct adds" "distinct dels" "distinct rems"
    using en by (simp_all add: adds_def dels_def rems_def enumerates_def)
  have sets: "set adds = set remote - set existing" "set dels = set existing - set remote"
    "set rems = set remote \<inter> set existing"
    by (auto simp: adds_def dels_def rems_def)
  have kn: "listed cfg rems" "listed cfg adds" using sets re by (auto simp: listed_def)
  let ?g = "views_good {} any_keys"
  note fit = untracked(2) [of any_keys cfg]
  note d = delete_phase [OF inv untracked(1) fit dist(2), folded r1_def]
  have st: "stored rems r1" using view_eqD(1) [OF d(4)] ex sets by (auto simp: stored_def)
  have A: "announces (set dels) r r1"
    unfolding r1_def deleteSdkClients_def
    by (rule announces_loop [OF loop_delete [OF fit dist(2)] inv]) (simp_all add: delete_announces)
  have B: "announces (set rems) r1 r2"
  proof (cases "shouldUpdateOptions r1 (pm_Options cfg)")
    case True
    let ?r0 = "r1\<lparr>ar_options := pm_Options cfg\<rparr>"
    have "announces (set rems) ?r0 (foldl (\<lambda>r i. reset_one env cfg i r) ?r0 rems)"
    proof (rule announces_loop [OF loop_reset [OF fit dist(3) kn(1)]])
      show "reg_inv ?r0" "?g ?r0 \<and> stored rems ?r0" using d(1) st by (simp_all add: reg_inv_def stored_def)
      fix r i assume "i \<in> set rems" "reg_inv r" "?g r \<and> stored rems r"
      then show "announces {i} r (reset_one env cfg i r)"
        using reset_announces kn(1) by (fastforce simp: listed_def stored_def)
    qed
    then show ?thesis using True
      by (simp add: r2_def resetSdkClients_def announces_def changed_sdks_def shown_def)
  next
    case False
    define q where "q = foldl (\<lambda>r i. keys_one cfg i r) r1 rems"
    define ks where "ks = filter (needs_reset cfg r1) rems"
    have r2: "r2 = resetSdkClients env cfg ks q"
      using False keys_loop_eq [OF d(1) untracked(1) fit dist(3) st kn(1), of "[]", folded q_def ks_def]
      by (simp add: r2_def resetSdkClients_def)
    note p = keys_phase [OF d(1) untracked(1) fit dist(3) st kn(1), folded q_def]
    have ks: "distinct ks" "stored ks q" "listed cfg ks" "set ks \<subseteq> set rems"
      using dist(3) p(4) kn(1) by (auto simp: ks_def stored_def listed_def)
    have 1: "announces (set rems) r1 q"
      unfolding q_def
    proof (rule announces_loop [OF loop_keys [OF fit dist(3) kn(1)] d(1)])
      show "?g r1 \<and> stored rems r1" using st by simp
      fix r i assume "i \<in> set rems" "reg_inv r" "?g r \<and> stored rems r"
      then show "announces {i} r (keys_one cfg i r)"
        using keys_announces kn(1) by (fastforce simp: listed_def stored_def)
    qed
    have 2: "announces (set ks) q r2"
      unfolding r2 resetSdkClients_def
    proof (rule announces_loop [OF loop_reset [OF fit ks(1,3)] p(1)])
      show "?g q \<and> stored ks q" using ks(2) by simp
      fix r i assume "i \<in> set ks" "reg_inv r" "?g r \<and> stored ks r"
      then show "announces {i} r (reset_one env cfg i r)"
        using reset_announces ks(3) by (fastforce simp: listed_def stored_def)
    qed
    have "shown q i = shown r1 i" if "i \<in> set ks" for i
      using p(7) [of i] that untracked_shown by (simp add: ks_def)
    then have "announces (set rems - set ks) r1 q"
      using 1 unfolding announces_def changed_sdks_def by blast
    from announces_trans [OF this 2] show ?thesis by (rule announces_mono) (use ks(4) in auto)
  qed
  have inv2: "reg_inv r2"
    using remaining_phase(1) [where env = env, OF d(1) untracked(1) fit dist(3) st kn(1), folded r2_def] .
  have C: "announces (set adds) r2 (addSdkClients env cfg adds r2)"
    unfolding addSdkClients_def
  proof (rule announces_loop [OF loop_add [OF fit dist(1) kn(2)] inv2 untracked(1)])
    fix r i assume "i \<in> set adds" "reg_inv r"
    then show "announces {i} r (add_one env cfg i r)"
      using add_announces kn(2) by (simp add: listed_def)
  qed
  show ?thesis unfolding r'
    by (rule announces_mono [OF announces_trans [OF announces_trans [OF A B] C]]) (use sets in auto)
qed

subsection \<open>The index of keys as a whole\<close>

definition registered_keys :: "auto_registrar \<Rightarrow> string \<Rightarrow> string set" where
  "registered_keys r i = (case ar_sdkClients r i of None \<Rightarrow> {} | Some a \<Rightarrow> keys_of_client (ar_objs r ! a))"

definition profile_keys :: "proxy_config_model \<Rightarrow> string \<Rightarrow> string set" where
  "profile_keys cfg i = (case pm_SDKs cfg i of None \<Rightarrow> {} | Some m \<Rightarrow> model_keys m)"

text \<open>The two keys of every SDK differ.\<close>

definition two_keys :: "string \<Rightarrow> string option \<Rightarrow> bool" where
  "two_keys k1 k2 \<longleftrightarrow> k1 = [] \<or> k2 \<noteq> Some k1"

definition keys_exact :: "auto_registrar \<Rightarrow> bool" where
  "keys_exact r \<longleftrightarrow> reg_inv r
     \<and> (\<forall>i a. ar_sdkClients r i = Some a \<longrightarrow> two_keys (fst (SdkKeys (ar_objs r ! a))) (snd (SdkKeys (ar_objs r ! a))))
     \<and> (\<forall>k a. k \<noteq> [] \<longrightarrow> (ar_sdkClientsBySdkKey r k = Some a \<longleftrightarrow>
          (\<exists>i. ar_sdkClients r i = Some a \<and> k \<in> keys_of_client (ar_objs r ! a))))"

text \<open>
  No key is shared by two SDKs, neither in the profile nor between an SDK of the registrar
  and another SDK of the new profile.
\<close>

definition no_key_moves :: "auto_registrar \<Rightarrow> proxy_config_model \<Rightarrow> bool" where
  "no_key_moves r cfg \<longleftrightarrow>
     (\<forall>i j. i \<noteq> j \<longrightarrow> (registered_keys r i \<union> profile_keys cfg i) \<inter> (registered_keys r j \<union> profile_keys cfg j) = {})
     \<and> (\<forall>i m. pm_SDKs cfg i = Some m \<longrightarrow> two_keys (Key1 m) (Some (Key2 m)))"

lemma plan_fits:
  assumes "no_key_moves r cfg"
  shows "fits UNIV (\<lambda>i. registered_keys r i \<union> profile_keys cfg i) cfg"
  unfolding fits_def
proof (intro conjI allI impI)
  show "apart UNIV (\<lambda>i. registered_keys r i \<union> profile_keys cfg i)"
    using assms unfolding no_key_moves_def apart_def by blast
  fix i m assume m: "pm_SDKs cfg i = Some m"
  then have "two_keys (Key1 m) (Some (Key2 m))" using assms unfolding no_key_moves_def by blast
  with m show "model_ok UNIV (\<lambda>i. registered_keys r i \<union> profile_keys cfg i) i m"
    by (auto simp: model_ok_def keys_ok_def profile_keys_def model_keys_def two_keys_def)
qed

lemma no_key_movesD:
  "no_key_moves r cfg \<Longrightarrow> k \<in> registered_keys r i \<union> profile_keys cfg i \<Longrightarrow>
   k \<in> registered_keys r j \<union> profile_keys cfg j \<Longrightarrow> j = i"
  unfolding no_key_moves_def by blast

lemma keys_exactD:
  assumes "keys_exact r"
  shows "reg_inv r"
    and "ar_sdkClients r i = Some a \<Longrightarrow> two_keys (fst (SdkKeys (ar_objs r ! a))) (snd (SdkKeys (ar_objs r ! a)))"
    and "k \<noteq> [] \<Longrightarrow> ar_sdkClientsBySdkKey r k = Some a \<Longrightarrow>
      \<exists>i. ar_sdkClients r i = Some a \<and> k \<in> keys_of_client (ar_objs r ! a)"
    and "ar_sdkClients r i = Some a \<Longrightarrow> k \<in> keys_of_client (ar_objs r ! a) \<Longrightarrow> ar_sdkClientsBySdkKey r k = Some a"
proof -
  show "reg_inv r"
    and "ar_sdkClients r i = Some a \<Longrightarrow> two_keys (fst (SdkKeys (ar_objs r ! a))) (snd (SdkKeys (ar_objs r ! a)))"
    and "k \<noteq> [] \<Longrightarrow> ar_sdkClientsBySdkKey r k = Some a \<Longrightarrow>
      \<exists>i. ar_sdkClients r i = Some a \<and> k \<in> keys_of_client (ar_objs r ! a)"
    using assms unfolding keys_exact_def by blast+
  assume a: "ar_sdkClients r i = Some a" "k \<in> keys_of_client (ar_objs r ! a)"
  then have "k \<noteq> []" by (simp add: keys_of_client_def)
  with assms a show "ar_sdkClientsBySdkKey r k = Some a" unfolding keys_exact_def by blast
qed

lemma exact_index:
  assumes ex: "keys_exact r" and nk: "no_key_moves r cfg"
    and k: "k \<in> registered_keys r i \<union> profile_keys cfg i" "k \<noteq> []"
  shows "ar_sdkClientsBySdkKey r k =
    (case ar_sdkClients r i of None \<Rightarrow> None | Some a \<Rightarrow> if k \<in> keys_of_client (ar_objs r ! a) then Some a else None)"
proof (cases "ar_sdkClientsBySdkKey r k")
  case None
  show ?thesis
  proof (cases "ar_sdkClients r i")
    case (Some a)
    have "k \<notin> keys_of_client (ar_objs r ! a)"
    proof
      assume "k \<in> keys_of_client (ar_objs r ! a)"
      from keys_exactD(4) [OF ex Some this] None show False by simp
    qed
    with Some None show ?thesis by simp
  qed (simp add: None)
next
  case (Some b)
  from keys_exactD(3) [OF ex k(2) Some]
  obtain j where j: "ar_sdkClients r j = Some b" "k \<in> keys_of_client (ar_objs r ! b)" by blast
  then have "k \<in> registered_keys r j \<union> profile_keys cfg j" by (simp add: registered_keys_def)
  then have "j = i" by (rule no_key_movesD [OF nk k(1)])
  with j Some show ?thesis by simp
qed

lemma exact_views:
  assumes "keys_exact r" "no_key_moves r cfg"
  shows "views_good UNIV (\<lambda>i. registered_keys r i \<union> profile_keys cfg i) r"
  unfolding views_good_def view_good_def
proof (intro allI conjI impI)
  let ?K = "\<lambda>i. registered_keys r i \<union> profile_keys cfg i"
  fix i
  show "snd (reg_view UNIV ?K r i) = index_of UNIV ?K i (fst (reg_view UNIV ?K r i))"
  proof
    fix k
    show "snd (reg_view UNIV ?K r i) k = index_of UNIV ?K i (fst (reg_view UNIV ?K r i)) k"
    proof (cases "k \<in> ?K i \<and> k \<noteq> []")
      case False
      then show ?thesis
        by (cases "ar_sdkClients r i") (auto simp: reg_view_def index_of_def keys_of_client_def)
    next
      case True
      from exact_index [OF assms conjunct1 [OF True] conjunct2 [OF True]] True
      show ?thesis by (cases "ar_sdkClients r i") (simp_all add: reg_view_def index_of_def)
    qed
  qed
  fix a c assume "fst (reg_view UNIV ?K r i) = Some (a, c)"
  then have a: "ar_sdkClients r i = Some a" "c = ar_objs r ! a" by (auto simp: reg_view_def)
  then have two: "two_keys (fst (SdkKeys c)) (snd (SdkKeys c))" using keys_exactD(2) [OF assms(1)] by simp
  have reg: "registered_keys r i = keys_of_client c" using a by (simp add: registered_keys_def)
  show "keys_ok UNIV (?K i) (fst (SdkKeys c)) (snd (SdkKeys c))"
    using two unfolding reg keys_ok_def two_keys_def keys_of_client_def by blast
qed

lemma views_exact:
  assumes "reg_inv r" "views_good UNIV K r" "apart UNIV K"
    and "\<And>k. k \<noteq> [] \<Longrightarrow> \<forall>j. k \<notin> K j \<Longrightarrow> ar_sdkClientsBySdkKey r k = None"
  shows "keys_exact r"
  unfolding keys_exact_def
proof (intro conjI allI impI)
  show "reg_inv r" by (rule assms(1))
  show "two_keys (fst (SdkKeys (ar_objs r ! a))) (snd (SdkKeys (ar_objs r ! a)))"
    if "ar_sdkClients r i = Some a" for i a
    using views_goodD(1) [OF assms(2) that] by (auto simp: keys_ok_def two_keys_def)
  fix k :: string and a assume k: "k \<noteq> []"
  have in_K: "k \<in> K i" if "ar_sdkClients r i = Some a" "k \<in> keys_of_client (ar_objs r ! a)" for i
    using keys_ok_client [OF views_goodD(1) [OF assms(2) that(1)]] that(2) by blast
  show "ar_sdkClientsBySdkKey r k = Some a \<longleftrightarrow>
      (\<exists>i. ar_sdkClients r i = Some a \<and> k \<in> keys_of_client (ar_objs r ! a))"
  proof
    assume h: "ar_sdkClientsBySdkKey r k = Some a"
    then obtain j where j: "k \<in> K j" using assms(4) [OF k] by force
    obtain b where b: "ar_sdkClients r j = Some b"
      using views_good_None [OF assms(2) _ j UNIV_I k] h by fastforce
    then show "\<exists>i. ar_sdkClients r i = Some a \<and> k \<in> keys_of_client (ar_objs r ! a)"
      using views_goodD(2) [OF assms(2) b j UNIV_I k] h by (auto split: if_splits)
  next
    assume "\<exists>i. ar_sdkClients r i = Some a \<and> k \<in> keys_of_client (ar_objs r ! a)"
    then obtain i where i: "ar_sdkClients r i = Some a" "k \<in> keys_of_client (ar_objs r ! a)" by blast
    then show "ar_sdkClientsBySdkKey r k = Some a"
      using views_goodD(2) [OF assms(2) i(1) in_K [OF i] UNIV_I k] by simp
  qed
qed

lemma applyConfig_exact:
  assumes "keys_exact r" "no_key_moves r cfg"
    and "enumerates existing (ar_sdkClients r)" "enumerates remote (pm_SDKs cfg)"
  shows "keys_exact (applyConfig env cfg existing remote r)"
proof -
  let ?K = "\<lambda>i. registered_keys r i \<union> profile_keys cfg i"
  have inv: "reg_inv r" using assms(1) by (simp add: keys_exact_def)
  note f = applyConfig_facts [where env = env, OF inv exact_views [OF assms(1,2)] plan_fits [OF assms(2)] assms(3,4)]
  show ?thesis
  proof (rule views_exact [OF f(1,2)])
    show "apart UNIV ?K" using plan_fits [OF assms(2)] by (simp add: fits_def)
    fix k :: string assume k: "k \<noteq> []" "\<forall>j. k \<notin> ?K j"
    have "ar_sdkClientsBySdkKey r k = None"
    proof (cases "ar_sdkClientsBySdkKey r k")
      case (Some a)
      then obtain i where "ar_sdkClients r i = Some a" "k \<in> keys_of_client (ar_objs r ! a)"
        using assms(1) k(1) unfolding keys_exact_def by blast
      then have "k \<in> ?K i" by (simp add: registered_keys_def)
      then show ?thesis using k(2) by blast
    qed
    then show "ar_sdkClientsBySdkKey (applyConfig env cfg existing remote r) k = None"
      using f(3) k unfolding index_kept_def by simp
  qed
qed

subsection \<open>The interface of a registrar\<close>

text \<open>
  What the handlers rely on when they resolve an SDK by its id or by one of its keys, for the
  registrars that are \<open>sound\<close>.
\<close>

locale sdk_registrar =
  fixes get :: "'r \<Rightarrow> string \<Rightarrow> nat option"
    and by_key :: "'r \<Rightarrow> string \<Rightarrow> nat option"
    and objs :: "'r \<Rightarrow> client list"
    and sound :: "'r \<Rightarrow> bool"
  assumes allocated: "sound r \<Longrightarrow> get r i = Some a \<Longrightarrow> a < length (objs r)"
    and open_client: "sound r \<Longrightarrow> get r i = Some a \<Longrightarrow> \<not> cl_closed (objs r ! a)"
    and named: "sound r \<Longrightarrow> get r i = Some a \<Longrightarrow> cx_SdkId (cl_ctx (objs r ! a)) = i"
    and key_sound: "sound r \<Longrightarrow> k \<noteq> [] \<Longrightarrow> by_key r k = Some a \<Longrightarrow>
      \<exists>i. get r i = Some a \<and> k \<in> keys_of_client (objs r ! a)"
    and key_complete: "sound r \<Longrightarrow> get r i = Some a \<Longrightarrow> k \<in> keys_of_client (objs r ! a) \<Longrightarrow>
      by_key r k = Some a"
begin

lemma by_key_iff:
  "sound r \<Longrightarrow> k \<noteq> [] \<Longrightarrow>
   by_key r k = Some a \<longleftrightarrow> (\<exists>i. get r i = Some a \<and> k \<in> keys_of_client (objs r ! a))"
  using key_sound key_complete by blast

text \<open>A key identifies an SDK id.\<close>

lemma key_owner:
  assumes "sound r" "get r i = Some a" "get r j = Some b"
    and "k \<in> keys_of_client (objs r ! a)" "k \<in> keys_of_client (objs r ! b)"
  shows "i = j"
proof -
  have "a = b" using key_complete [OF assms(1,2,4)] key_complete [OF assms(1,3,5)] by simp
  then show ?thesis using named [OF assms(1,2)] named [OF assms(1,3)] by simp
qed

text \<open>Looking up by a key returns the client found under the id it names.\<close>

lemma by_key_get:
  assumes "sound r" "k \<noteq> []" "by_key r k = Some a"
  shows "get r (cx_SdkId (cl_ctx (objs r ! a))) = Some a \<and> \<not> cl_closed (objs r ! a)"
proof -
  obtain i where i: "get r i = Some a" using key_sound [OF assms] by blast
  then show ?thesis using named [OF assms(1) i] open_client [OF assms(1) i] by simp
qed

end

lemma keys_exact_registrar:
  assumes "keys_exact r"
  shows "auto_GetSdkOrNil r i = Some a \<Longrightarrow> a < length (ar_objs r)"
    and "auto_GetSdkOrNil r i = Some a \<Longrightarrow> \<not> cl_closed (ar_objs r ! a)"
    and "auto_GetSdkOrNil r i = Some a \<Longrightarrow> cx_SdkId (cl_ctx (ar_objs r ! a)) = i"
    and "k \<noteq> [] \<Longrightarrow> auto_GetSdkByKeyOrNil r k = Some a \<Longrightarrow>
      \<exists>i. auto_GetSdkOrNil r i = Some a \<and> k \<in> keys_of_client (ar_objs r ! a)"
    and "auto_GetSdkOrNil r i = Some a \<Longrightarrow> k \<in> keys_of_client (ar_objs r ! a) \<Longrightarrow>
      auto_GetSdkByKeyOrNil r k = Some a"
  using keys_exactD(3,4) [OF assms] heap_okD(1-3) [OF keys_exactD(1) [OF assms, unfolded reg_inv_def]]
  unfolding auto_GetSdkOrNil_def auto_GetSdkByKeyOrNil_def by blast+

subsection \<open>The manual registrar\<close>

definition distinct_sdk_keys :: "config \<Rightarrow> bool" where
  "distinct_sdk_keys conf \<longleftrightarrow> (\<forall>i j x y. c_SDKs conf i = Some (Some x) \<and> c_SDKs conf j = Some (Some y)
     \<and> sdk_Key x = sdk_Key y \<longrightarrow> i = j)"

definition manual_entry :: "config \<Rightarrow> manual_registrar \<Rightarrow> string \<Rightarrow> nat \<Rightarrow> bool" where
  "manual_entry conf r i a \<longleftrightarrow> a < length (mr_objs r)
     \<and> \<not> cl_closed (mr_objs r ! a) \<and> cx_SdkId (cl_ctx (mr_objs r ! a)) = i
     \<and> c_SDKs conf i = Some (Some (cx_SDKConf (cl_ctx (mr_objs r ! a))))
     \<and> cx_SecondarySdkKey (cl_ctx (mr_objs r ! a)) = None"

definition manual_inv :: "config \<Rightarrow> string list \<Rightarrow> manual_registrar \<Rightarrow> bool" where
  "manual_inv conf done r \<longleftrightarrow>
     (\<forall>i a. mr_sdkClients r i = Some a \<longrightarrow> i \<in> set done \<and> manual_entry conf r i a
        \<and> mr_sdkClientsBySdkKey r (sdk_Key (cx_SDKConf (cl_ctx (mr_objs r ! a)))) = Some a)
     \<and> (\<forall>k a. mr_sdkClientsBySdkKey r k = Some a \<longrightarrow>
          (\<exists>i. mr_sdkClients r i = Some a \<and> k = sdk_Key (cx_SDKConf (cl_ctx (mr_objs r ! a)))))
     \<and> (\<forall>i x. i \<in> set done \<longrightarrow> c_SDKs conf i = Some (Some x) \<longrightarrow> (\<exists>a. mr_sdkClients r i = Some a))"

lemma manual_invD:
  assumes "manual_inv conf done r"
  shows "mr_sdkClients r i = Some a \<Longrightarrow> i \<in> set done"
    and "mr_sdkClients r i = Some a \<Longrightarrow> manual_entry conf r i a"
    and "mr_sdkClients r i = Some a \<Longrightarrow>
      mr_sdkClientsBySdkKey r (sdk_Key (cx_SDKConf (cl_ctx (mr_objs r ! a)))) = Some a"
    and "mr_sdkClientsBySdkKey r k = Some a \<Longrightarrow>
      \<exists>i. mr_sdkClients r i = Some a \<and> k = sdk_Key (cx_SDKConf (cl_ctx (mr_objs r ! a)))"
    and "i \<in> set done \<Longrightarrow> c_SDKs conf i = Some (Some x) \<Longrightarrow> \<exists>a. mr_sdkClients r i = Some a"
  using assms unfolding manual_inv_def by blast+

text \<open>One iteration of the constructor's loop, for a client \<open>c\<close> built from the SDK's configuration.\<close>

lemma manual_inv_step:
  assumes dk: "distinct_sdk_keys conf" and inv: "manual_inv conf done r" and fresh: "k \<notin> set done"
    and sdk: "c_SDKs conf k = Some (Some sc)"
    and c: "cx_SdkId (cl_ctx c) = k" "cx_SDKConf (cl_ctx c) = sc" "cx_SecondarySdkKey (cl_ctx c) = None"
      "\<not> cl_closed c"
  shows "manual_inv conf (done @ [k])
    \<lparr>mr_sdkClients = (mr_sdkClients r)(k \<mapsto> length (mr_objs r)),
     mr_sdkClientsBySdkKey = (mr_sdkClientsBySdkKey r)(sdk_Key sc \<mapsto> length (mr_objs r)),
     mr_objs = mr_objs r @ [c], mr_status = st\<rparr>" (is "manual_inv conf _ ?r")
proof -
  note d = manual_invD [OF inv]
  have old: "i \<noteq> k \<and> a < length (mr_objs r) \<and> sdk_Key (cx_SDKConf (cl_ctx (mr_objs r ! a))) \<noteq> sdk_Key sc"
    if "mr_sdkClients r i = Some a" for i a
  proof -
    have e: "manual_entry conf r i a" "i \<noteq> k" using d(1,2) [OF that] fresh by auto
    then have "c_SDKs conf i = Some (Some (cx_SDKConf (cl_ctx (mr_objs r ! a))))" by (simp add: manual_entry_def)
    then have "sdk_Key (cx_SDKConf (cl_ctx (mr_objs r ! a))) \<noteq> sdk_Key sc"
      using dk sdk e(2) unfolding distinct_sdk_keys_def by blast
    then show ?thesis using e by (simp add: manual_entry_def)
  qed
  show ?thesis
    unfolding manual_inv_def
  proof (intro conjI allI impI)
    fix i a assume h: "mr_sdkClients ?r i = Some a"
    show "i \<in> set (done @ [k])" "manual_entry conf ?r i a"
      "mr_sdkClientsBySdkKey ?r (sdk_Key (cx_SDKConf (cl_ctx (mr_objs ?r ! a)))) = Some a"
      using h c sdk old [of i a] d(1-3) [of i a]
      by (cases "i = k"; simp add: manual_entry_def nth_append)+
  next
    fix key a assume h: "mr_sdkClientsBySdkKey ?r key = Some a"
    show "\<exists>i. mr_sdkClients ?r i = Some a \<and> key = sdk_Key (cx_SDKConf (cl_ctx (mr_objs ?r ! a)))"
    proof (cases "key = sdk_Key sc")
      case True
      then show ?thesis using h c by (intro exI [of _ k]) (simp add: nth_append)
    next
      case False
      then obtain i where i: "mr_sdkClients r i = Some a" "key = sdk_Key (cx_SDKConf (cl_ctx (mr_objs r ! a)))"
        using h d(4) by auto
      then show ?thesis using old [OF i(1)] by (intro exI [of _ i]) (simp add: nth_append)
    qed
  next
    fix i x assume "i \<in> set (done @ [k])" "c_SDKs conf i = Some (Some x)"
    then show "\<exists>a. mr_sdkClients ?r i = Some a" using d(5) [of i x] by (cases "i = k") auto
  qed
qed

lemma manual_loop_inv:
  assumes "distinct_sdk_keys (re_conf env)"
  shows "manual_loop env ks r = Some r' \<Longrightarrow> distinct (done @ ks) \<Longrightarrow> manual_inv (re_conf env) done r \<Longrightarrow>
    manual_inv (re_conf env) (done @ ks) r'"
proof (induction ks arbitrary: r "done")
  case Nil
  then show ?case by simp
next
  case (Cons k ks)
  show ?case
  proof (cases "c_SDKs (re_conf env) k")
    case None
    then have "manual_inv (re_conf env) (done @ [k]) r"
      using Cons.prems(3) unfolding manual_inv_def by auto
    then show ?thesis using Cons.IH [of r "done @ [k]"] Cons.prems(1,2) None by simp
  next
    case (Some x)
    then obtain conf where conf: "c_SDKs (re_conf env) k = Some (Some conf)"
      using Cons.prems(1) by (cases x) auto
    define c where "c = new_client env \<lparr>cx_SdkId = k, cx_SecondarySdkKey = None, cx_SDKConf = conf,
      cx_GlobalDefaultAttrs = c_DefaultAttrs (re_conf env), cx_ExternalCache = re_cache_set env, cx_EvalReporter = False\<rparr>"
    define r1 where "r1 = \<lparr>mr_sdkClients = (mr_sdkClients r)(k \<mapsto> length (mr_objs r)),
      mr_sdkClientsBySdkKey = (mr_sdkClientsBySdkKey r)(sdk_Key conf \<mapsto> length (mr_objs r)),
      mr_objs = mr_objs r @ [c], mr_status = mr_status r @ [CallRegister k conf]\<rparr>"
    have "manual_inv (re_conf env) (done @ [k]) r1"
      unfolding r1_def
      by (rule manual_inv_step [OF assms Cons.prems(3) _ conf])
        (use Cons.prems(2) in \<open>simp_all add: c_def new_client_def NewClient_def\<close>)
    moreover have "manual_loop env ks r1 = Some r'"
      using Cons.prems(1) conf by (simp add: r1_def c_def Let_def)
    ultimately show ?thesis using Cons.IH [of r1 "done @ [k]"] Cons.prems(2) by simp
  qed
qed

text \<open>A manual registrar built from a configuration with distinct SDK keys.\<close>

definition manual_built :: "manual_registrar \<Rightarrow> bool" where
  "manual_built r \<longleftrightarrow> (\<exists>env ks. distinct_sdk_keys (re_conf env) \<and>
     enumerates ks (c_SDKs (re_conf env)) \<and> newManualRegistrar env ks = Some r)"

lemma manual_built_inv:
  assumes "manual_built r"
  shows "\<exists>conf ks. enumerates ks (c_SDKs conf) \<and> manual_inv conf ks r"
proof -
  obtain env ks where e: "distinct_sdk_keys (re_conf env)" "enumerates ks (c_SDKs (re_conf env))"
    "newManualRegistrar env ks = Some r" using assms by (auto simp: manual_built_def)
  have "manual_inv (re_conf env) ([] @ ks) r"
    by (rule manual_loop_inv [OF e(1) e(3) [unfolded newManualRegistrar_def]])
      (use e(2) in \<open>simp_all add: enumerates_def manual_inv_def\<close>)
  with e(2) show ?thesis by auto
qed

interpretation manual: sdk_registrar manual_GetSdkOrNil manual_GetSdkByKeyOrNil mr_objs manual_built
proof
  fix r i a assume r: "manual_built r"
  then obtain conf ks where inv: "manual_inv conf ks r" using manual_built_inv by blast
  note d = manual_invD [OF inv]
  show "a < length (mr_objs r)" "\<not> cl_closed (mr_objs r ! a)" "cx_SdkId (cl_ctx (mr_objs r ! a)) = i"
    if "manual_GetSdkOrNil r i = Some a"
    using d(2) [of i a] that by (simp_all add: manual_GetSdkOrNil_def manual_entry_def)
  show "\<exists>i. manual_GetSdkOrNil r i = Some a \<and> k \<in> keys_of_client (mr_objs r ! a)"
    if "k \<noteq> []" "manual_GetSdkByKeyOrNil r k = Some a" for k
    using d(4) [of k a] that
    by (auto simp: manual_GetSdkOrNil_def manual_GetSdkByKeyOrNil_def keys_of_client_def SdkKeys_def)
  show "manual_GetSdkByKeyOrNil r k = Some a"
    if "manual_GetSdkOrNil r i = Some a" "k \<in> keys_of_client (mr_objs r ! a)" for k
    using d(2,3) [of i a] that
    by (auto simp: manual_GetSdkOrNil_def manual_GetSdkByKeyOrNil_def keys_of_client_def SdkKeys_def
        manual_entry_def)
qed

subsection \<open>Closing\<close>

lemma close_all_cong: "(\<And>k. k \<in> set ks \<Longrightarrow> m k = m' k) \<Longrightarrow> close_all m ks objs = close_all m' ks objs"
  by (induction ks arbitrary: objs) (auto split: option.splits)

lemma heap_ok_close_all:
  "heap_ok m objs \<Longrightarrow> distinct ks \<Longrightarrow> heap_ok (m |` (- set ks)) (close_all m ks objs)"
proof (induction ks arbitrary: m objs)
  case (Cons k ks)
  let ?objs = "case m k of None \<Rightarrow> objs | Some a \<Rightarrow> close_at a objs"
  have "heap_ok (m(k := None)) ?objs"
    using Cons.prems(1) by (cases "m k") (auto simp: fun_upd_idem intro: heap_ok_close)
  then have "heap_ok ((m(k := None)) |` (- set ks)) (close_all (m(k := None)) ks ?objs)"
    by (rule Cons.IH) (use Cons.prems(2) in simp)
  moreover have "(m(k := None)) |` (- set ks) = m |` (- set (k # ks))"
    by (auto simp: restrict_map_def fun_eq_iff)
  moreover have "close_all (m(k := None)) ks ?objs = close_all m ks ?objs"
    by (rule close_all_cong) (use Cons.prems(2) in auto)
  ultimately show ?case by simp
qed (simp add: restrict_map_def)

lemma close_all_closes:
  assumes "heap_ok m objs" "enumerates ks m" "c \<in> set (close_all m ks objs)"
  shows "cl_closed c"
proof -
  have "m |` (- set ks) = Map.empty"
    using assms(2) by (auto simp: enumerates_def restrict_map_def fun_eq_iff dom_def)
  with heap_ok_close_all [OF assms(1)] assms(2) have "heap_ok Map.empty (close_all m ks objs)"
    by (metis enumerates_def)
  with assms(3) show ?thesis by (auto simp: heap_ok_def in_set_conv_nth)
qed

lemma manual_loop_heap:
  "manual_loop env ks r = Some r' \<Longrightarrow> distinct ks \<Longrightarrow> (\<And>k. k \<in> set ks \<Longrightarrow> mr_sdkClients r k = None) \<Longrightarrow>
   heap_ok (mr_sdkClients r) (mr_objs r) \<Longrightarrow> heap_ok (mr_sdkClients r') (mr_objs r')"
proof (induction ks arbitrary: r)
  case (Cons k ks)
  show ?case
  proof (cases "c_SDKs (re_conf env) k")
    case None
    then show ?thesis using Cons.IH [of r] Cons.prems by simp
  next
    case (Some sc)
    then obtain x where x: "c_SDKs (re_conf env) k = Some (Some x)" using Cons.prems(1) by (cases sc) auto
    define c where "c = new_client env \<lparr>cx_SdkId = k, cx_SecondarySdkKey = None, cx_SDKConf = x,
      cx_GlobalDefaultAttrs = c_DefaultAttrs (re_conf env), cx_ExternalCache = re_cache_set env, cx_EvalReporter = False\<rparr>"
    have c: "cx_SdkId (cl_ctx c) = k" "\<not> cl_closed c" by (simp_all add: c_def new_client_def NewClient_def)
    let ?r = "\<lparr>mr_sdkClients = (mr_sdkClients r)(k \<mapsto> length (mr_objs r)),
      mr_sdkClientsBySdkKey = (mr_sdkClientsBySdkKey r)(sdk_Key x \<mapsto> length (mr_objs r)),
      mr_objs = mr_objs r @ [c], mr_status = mr_status r @ [CallRegister k x]\<rparr>"
    have loop: "manual_loop env ks ?r = Some r'" using Cons.prems(1) x by (simp add: Let_def c_def)
    have heap: "heap_ok (mr_sdkClients ?r) (mr_objs ?r)"
      using heap_ok_fresh [OF Cons.prems(4) _ c] Cons.prems(3) by simp
    have fresh: "mr_sdkClients ?r k' = None" if "k' \<in> set ks" for k'
      using Cons.prems(2,3) that by auto
    show ?thesis by (rule Cons.IH [OF loop _ fresh heap]) (use Cons.prems(2) in simp)
  qed
qed simp

section \<open>Properties\<close>

text \<open>
  In a manual registrar built from a configuration whose SDK keys differ, a lookup by key
  finds a client exactly when the configuration has an SDK with this key, and finds the open
  client that the lookup by this SDK's identifier finds.
\<close>

lemma manual_lookup:
  assumes "distinct_sdk_keys (re_conf env)" and "enumerates ks (c_SDKs (re_conf env))"
    and "newManualRegistrar env ks = Some r" and "k \<noteq> []"
  shows "(manual_GetSdkByKeyOrNil r k = Some a \<longleftrightarrow>
      (\<exists>i. manual_GetSdkOrNil r i = Some a \<and> k \<in> keys_of_client (mr_objs r ! a)))
    \<and> (\<forall>i. manual_GetSdkOrNil r i = Some a \<longrightarrow> \<not> cl_closed (mr_objs r ! a) \<and> cx_SdkId (cl_ctx (mr_objs r ! a)) = i)"
proof -
  have "manual_built r" using assms(1-3) by (auto simp: manual_built_def)
  then show ?thesis using manual.by_key_iff assms(4) manual.open_client manual.named by blast
qed

end
