(* ===== verification/AutoRegistrar.thy ===== *)
theory AutoRegistrar
  imports Registrar
begin

text \<open>
  The rest of \<open>sdk/sdk_auto_registrar.go\<close>: loading the proxy profile from the server or from
  the cache, with ETags, the construction of the registrar, and \<open>refreshConfig\<close>, \<open>Refresh\<close>
  and \<open>Close\<close>. The shared cache is a store \<open>'c\<close> with the operations of \<open>ext_cache\<close>, the HTTP
  exchange a function from the request to the reply, the JSON decoder the parameter \<open>parse\<close>.
\<close>

section \<open>Definitions\<close>

subsection \<open>The cached profile\<close>

definition cacheSegmentsFromBytes :: "bytes \<Rightarrow> bytes \<times> string \<times> string option" where
  "cacheSegmentsFromBytes cacheBytes =
     (case index_byte cacheBytes newline_char of
        None \<Rightarrow> ([], [], Some ''number of values is fewer than expected'')
      | Some eTagIndex \<Rightarrow>
          (let eTagBytes = take eTagIndex cacheBytes; configBytes = drop (eTagIndex + 1) cacheBytes
           in if eTagBytes = [] then ([], [], Some ''empty eTag value'')
              else if configBytes = [] then ([], [], Some ''empty configuration JSON'')
              else (configBytes, eTagBytes, None)))"

definition cacheSegmentsToBytes :: "string \<Rightarrow> bytes \<Rightarrow> bytes" where
  "cacheSegmentsToBytes eTag config = (eTag @ [newline_char]) @ config"

text \<open>The environment of the profile: the shared cache, the HTTP exchange, the decoder.\<close>

datatype http_reply = TransportError string | Reply int string "bytes res"

record get_request =
  gr_Url :: string
  gr_IfNoneMatch :: "string option"
  gr_Authorization :: string

record 'c profile_env =
  pe_reg :: reg_env
  pe_cache :: "'c ext_cache option"
  pe_new_request :: "string \<Rightarrow> unit res"
  pe_http :: "get_request \<Rightarrow> http_reply"
  pe_parse :: "bytes \<Rightarrow> proxy_config_model res"

definition profile_conf :: "'c profile_env \<Rightarrow> profile_config" where
  "profile_conf env = c_Profile (re_conf (pe_reg env))"

definition profile_cacheKey :: "'c profile_env \<Rightarrow> string" where
  "profile_cacheKey env = ''configcat-proxy-profile-'' @ prof_Key (profile_conf env)"

definition readCache :: "'c profile_env \<Rightarrow> 'c \<Rightarrow> string \<Rightarrow> bytes \<times> string \<times> string option" where
  "readCache env c r_etag =
     (case pe_cache env of
        None \<Rightarrow> ([], r_etag, Some ''cache is not configured'')
      | Some xc \<Rightarrow>
          (case xc_Get xc c (profile_cacheKey env) of
             Inl err \<Rightarrow> ([], r_etag, Some err)
           | Inr cached \<Rightarrow>
               (if cached = [] then ([], [], Some ''no valid proxy profile found in cache'')
                else cacheSegmentsFromBytes cached)))"

definition writeCache :: "'c profile_env \<Rightarrow> 'c \<Rightarrow> bytes \<Rightarrow> string \<Rightarrow> string option \<times> 'c" where
  "writeCache env c config etag =
     (case pe_cache env of
        None \<Rightarrow> (Some ''cache is not configured'', c)
      | Some xc \<Rightarrow> xc_Set xc c (profile_cacheKey env) (cacheSegmentsToBytes etag config))"

definition fetch_request :: "'c profile_env \<Rightarrow> string \<Rightarrow> get_request" where
  "fetch_request env etag =
     \<lparr>gr_Url = prof_BaseUrl (profile_conf env) @ ''/v1/proxy/config/'' @ prof_Key (profile_conf env),
      gr_IfNoneMatch = (if etag \<noteq> [] then Some etag else None),
      gr_Authorization = ''Bearer '' @ prof_Secret (profile_conf env)\<rparr>"

text \<open>\<open>fetchConfig\<close>: a nil body stands for status 304.\<close>

definition fetchConfig :: "'c profile_env \<Rightarrow> string \<Rightarrow> (bytes option \<times> string) res" where
  "fetchConfig env etag =
     (let req = fetch_request env etag
      in case pe_new_request env (gr_Url req) of
           Inl err \<Rightarrow> Inl (''error during fetching proxy profile: '' @ err)
         | Inr _ \<Rightarrow>
             (case pe_http env req of
                TransportError err \<Rightarrow> Inl (''error during fetching proxy profile: '' @ err)
              | Reply code receivedEtag body \<Rightarrow>
                  (if code = 304 then Inr (None, [])
                   else if code \<noteq> 200
                   then Inl (''error during fetching proxy profile, status code: '' @ show_int code)
                   else (let etag' = (if has_prefix receivedEtag ''W/'' then drop 2 receivedEtag else receivedEtag)
                         in case body of
                              Inl err \<Rightarrow> Inl (''error during reading proxy profile response: '' @ err)
                            | Inr b \<Rightarrow> Inr (Some b, etag')))))"

definition parseConfig ::
  "(bytes \<Rightarrow> proxy_config_model res) \<Rightarrow> bytes \<Rightarrow> string \<Rightarrow> auto_registrar \<Rightarrow>
   proxy_config_model option res \<times> auto_registrar" where
  "parseConfig parse body etag r =
     (if etag = ar_etag r then (Inr None, r)
      else (case parse body of
          Inl err \<Rightarrow> (Inl (''error during parsing proxy profile: '' @ err), r)
        | Inr parsed \<Rightarrow> (Inr (Some parsed), r\<lparr>ar_etag := etag\<rparr>)))"

definition getConfig ::
  "'c profile_env \<Rightarrow> 'c \<Rightarrow> auto_registrar \<Rightarrow> (proxy_config_model option res \<times> auto_registrar) \<times> 'c" where
  "getConfig env c r =
     (let (cachedConfig, cachedEtag, cacheErr) = readCache env c (ar_etag r);
          from_cache = (case cacheErr of
              Some err \<Rightarrow> (Inl (''could not load proxy profile from cache: '' @ err), r)
            | None \<Rightarrow> parseConfig (pe_parse env) cachedConfig cachedEtag r)
      in if go_Enabled (c_GlobalOfflineConfig (re_conf (pe_reg env))) then (from_cache, c)
         else (case fetchConfig env cachedEtag of
             Inl fetchErr \<Rightarrow> (from_cache, c)
           | Inr (None, _) \<Rightarrow> (parseConfig (pe_parse env) cachedConfig cachedEtag r, c)
           | Inr (Some fetched, fetchedEtag) \<Rightarrow>
               (case writeCache env c fetched fetchedEtag of
                  (_, c') \<Rightarrow> (parseConfig (pe_parse env) fetched fetchedEtag r, c'))))"

subsection \<open>Construction, refresh and shutdown\<close>

definition init_one :: "reg_env \<Rightarrow> proxy_config_model \<Rightarrow> string \<Rightarrow> auto_registrar \<Rightarrow> auto_registrar" where
  "init_one env cfg sdkId r =
     (case pm_SDKs cfg sdkId of
        None \<Rightarrow> r
      | Some sdkModel \<Rightarrow>
          (let sdkConfig = buildSdkConfig (re_conf env) (ar_options r) sdkId sdkModel; a = length (ar_objs r)
           in r\<lparr>ar_status := ar_status r @ [CallRegister sdkId sdkConfig],
                ar_objs := ar_objs r @ [buildSdkClient env sdkId sdkConfig sdkModel],
                ar_sdkClients := (ar_sdkClients r)(sdkId \<mapsto> a),
                ar_sdkClientsBySdkKey := store_keys sdkModel a (ar_sdkClientsBySdkKey r)\<rparr>))"

definition empty_auto :: auto_registrar where
  "empty_auto = \<lparr>ar_options = \<lparr>om_PollInterval = 0, om_DataGovernance = []\<rparr>, ar_etag = ''initial'',
     ar_sdkClients = Map.empty, ar_sdkClientsBySdkKey = Map.empty, ar_objs = [], ar_published = [],
     ar_status = []\<rparr>"

definition init_clients :: "reg_env \<Rightarrow> proxy_config_model \<Rightarrow> string list \<Rightarrow> auto_registrar \<Rightarrow> auto_registrar" where
  "init_clients env cfg ids r = foldl (\<lambda>r i. init_one env cfg i r) (r\<lparr>ar_options := pm_Options cfg\<rparr>) ids"

text \<open>
  \<open>newAutoRegistrar\<close>: \<open>None\<close> is the panic on the nil profile that \<open>getConfig\<close> returns when the
  profile's ETag equals the placeholder \<open>initial\<close>. \<open>order\<close> enumerates the SDKs of the profile.
\<close>

definition newAutoRegistrar ::
  "'c profile_env \<Rightarrow> (proxy_config_model \<Rightarrow> string list) \<Rightarrow> 'c \<Rightarrow> auto_registrar res option \<times> 'c" where
  "newAutoRegistrar env order c =
     (case getConfig env c empty_auto of
        ((Inl err, r), c') \<Rightarrow> (Some (Inl err), c')
      | ((Inr None, r), c') \<Rightarrow> (None, c')
      | ((Inr (Some autoConfig), r), c') \<Rightarrow>
          (Some (Inr (init_clients (pe_reg env) autoConfig (order autoConfig) r)), c'))"

definition auto_interval :: "config \<Rightarrow> int" where
  "auto_interval conf =
     (let interval = (if go_Enabled (c_GlobalOfflineConfig conf)
                      then go_CachePollInterval (c_GlobalOfflineConfig conf)
                      else prof_PollInterval (c_Profile conf))
      in if interval < 1 then DefaultAutoSdkPollInterval else interval)"

definition refreshConfig ::
  "'c profile_env \<Rightarrow> (auto_registrar \<Rightarrow> string list) \<Rightarrow> (proxy_config_model \<Rightarrow> string list) \<Rightarrow>
   'c \<Rightarrow> auto_registrar \<Rightarrow> auto_registrar \<times> 'c" where
  "refreshConfig env existing remote c r =
     (case getConfig env c r of
        ((Inl err, r'), c') \<Rightarrow> (r', c')
      | ((Inr None, r'), c') \<Rightarrow> (r', c')
      | ((Inr (Some autoConfig), r'), c') \<Rightarrow>
          (applyConfig (pe_reg env) autoConfig (existing r') (remote autoConfig) r', c'))"

definition auto_Close :: "string list \<Rightarrow> auto_registrar \<Rightarrow> auto_registrar" where
  "auto_Close ks r =
     r\<lparr>ar_objs := close_all (ar_sdkClients r) ks (ar_objs r),
       ar_sdkClients := foldl (\<lambda>m k. m(k := None)) (ar_sdkClients r) ks,
       ar_sdkClientsBySdkKey := Map.empty\<rparr>"

section \<open>Lemmas\<close>

subsection \<open>The cached profile\<close>

lemma segments_roundtrip:
  assumes "etag \<noteq> []" "newline_char \<notin> set etag" "body \<noteq> []"
  shows "cacheSegmentsFromBytes (cacheSegmentsToBytes etag body) = (body, etag, None)"
  using assms by (simp add: cacheSegmentsFromBytes_def cacheSegmentsToBytes_def)

lemma segments_rebuild:
  assumes "cacheSegmentsFromBytes b = (body, etag, None)"
  shows "cacheSegmentsToBytes etag body = b \<and> etag \<noteq> [] \<and> newline_char \<notin> set etag \<and> body \<noteq> []"
proof -
  obtain i where i: "index_byte b newline_char = Some i" "etag = take i b" "body = drop (i + 1) b"
    "etag \<noteq> []" "body \<noteq> []"
    using assms by (auto simp: cacheSegmentsFromBytes_def Let_def split: option.splits if_splits)
  have "i < length b" "b ! i = newline_char" "newline_char \<notin> set (take i b)"
    using index_byte_SomeD [OF i(1)] by auto
  moreover from this have "take i b @ newline_char # drop (Suc i) b = b"
    using id_take_nth_drop [of i b] by simp
  ultimately show ?thesis using i by (simp add: cacheSegmentsToBytes_def)
qed

subsection \<open>Loading\<close>

lemma parseConfig_cases:
  "parseConfig parse body etag r = (res, r') \<Longrightarrow>
   (r' = r \<and> (\<forall>cfg. res \<noteq> Inr (Some cfg))) \<or>
   (\<exists>cfg. res = Inr (Some cfg) \<and> parse body = Inr cfg \<and> etag \<noteq> ar_etag r \<and> r' = r\<lparr>ar_etag := etag\<rparr>)"
  by (auto simp: parseConfig_def split: if_splits sum.splits)

text \<open>Only a new profile changes the state, and then only the ETag.\<close>

lemma getConfig_cases:
  assumes "getConfig env c r = ((res, r'), c')"
  shows "(r' = r \<and> (\<forall>cfg. res \<noteq> Inr (Some cfg))) \<or>
   (\<exists>cfg body etag. res = Inr (Some cfg) \<and> pe_parse env body = Inr cfg \<and> etag \<noteq> ar_etag r \<and> r' = r\<lparr>ar_etag := etag\<rparr>)"
  using assms unfolding getConfig_def Let_def
  by (auto split: prod.splits option.splits sum.splits if_splits dest!: parseConfig_cases)

text \<open>A profile that was loaded was decoded from some body.\<close>

lemma getConfig_parsed:
  assumes "getConfig env c r = ((Inr (Some cfg), r'), c')"
  shows "\<exists>b. pe_parse env b = Inr cfg"
  using getConfig_cases [OF assms] by blast

lemma getConfig_offline:
  assumes "go_Enabled (c_GlobalOfflineConfig (re_conf (pe_reg env)))"
  shows "getConfig (env\<lparr>pe_http := f\<rparr>) c r = getConfig env c r \<and> snd (getConfig env c r) = c"
proof -
  have "readCache (env\<lparr>pe_http := f\<rparr>) c e = readCache env c e" for e
    by (cases "pe_cache env") (simp_all add: readCache_def profile_cacheKey_def profile_conf_def)
  then show ?thesis using assms
    by (simp add: getConfig_def Let_def case_prod_beta cong: option.case_cong)
qed

subsection \<open>Construction\<close>

lemma init_one_add:
  "ar_sdkClients r i = None \<Longrightarrow>
   init_one env cfg i r = (add_one env cfg i r)\<lparr>ar_published := ar_published r\<rparr>"
  by (auto simp: init_one_def add_one_def Let_def split: option.splits)

lemma init_fold_add:
  assumes "distinct ids" "\<And>i. i \<in> set ids \<Longrightarrow> ar_sdkClients r i = None"
  shows "foldl (\<lambda>r i. init_one env cfg i r) r ids =
    (foldl (\<lambda>r i. add_one env cfg i r) r ids)\<lparr>ar_published := ar_published r\<rparr>"
proof -
  have pub: "add_one env cfg i (r\<lparr>ar_published := ps\<rparr>)\<lparr>ar_published := qs\<rparr> = add_one env cfg i r\<lparr>ar_published := qs\<rparr>"
    for r i ps qs
    by (auto simp: add_one_def Let_def split: option.splits)
  have other: "j \<noteq> i \<Longrightarrow> ar_sdkClients (add_one env cfg i r) j = ar_sdkClients r j" for r i j
    by (auto simp: add_one_def Let_def split: option.splits)
  show ?thesis
    using assms
  proof (induction ids rule: rev_induct)
    case (snoc i ids)
    let ?s = "foldl (\<lambda>r i. add_one env cfg i r) r ids"
    have "ar_sdkClients ?s i = ar_sdkClients r i"
    proof -
      have "i \<notin> set ids" using snoc.prems(1) by simp
      then show ?thesis by (induction ids rule: rev_induct) (simp_all add: other)
    qed
    then have "ar_sdkClients (?s\<lparr>ar_published := ar_published r\<rparr>) i = None" using snoc.prems(2) by simp
    with snoc show ?case by (simp add: init_one_add pub)
  qed simp
qed

lemma empty_auto_exact: "keys_exact empty_auto"
  by (simp add: keys_exact_def empty_auto_def reg_inv_def heap_ok_def)

lemma keys_exact_cong:
  "ar_sdkClients r = ar_sdkClients r' \<Longrightarrow> ar_objs r = ar_objs r' \<Longrightarrow>
   ar_sdkClientsBySdkKey r = ar_sdkClientsBySdkKey r' \<Longrightarrow> keys_exact r \<longleftrightarrow> keys_exact r'"
  by (simp add: keys_exact_def reg_inv_def)

text \<open>The profile gives every SDK keys of its own.\<close>

definition distinct_profile :: "proxy_config_model \<Rightarrow> bool" where
  "distinct_profile cfg \<longleftrightarrow> no_key_moves empty_auto cfg"

lemma distinct_profile_fits:
  assumes "distinct_profile cfg"
  shows "fits UNIV (profile_keys cfg) cfg"
  using plan_fits [OF assms [unfolded distinct_profile_def]]
  by (simp add: registered_keys_def empty_auto_def)

text \<open>The constructed registrar serves exactly the SDKs of the profile.\<close>

lemma init_clients_facts:
  fixes env :: reg_env
  assumes "enumerates ids (pm_SDKs cfg)" "ar_sdkClients r0 = Map.empty" "ar_objs r0 = []"
    "ar_sdkClientsBySdkKey r0 = Map.empty"
  defines "r \<equiv> init_clients env cfg ids r0"
  shows "reg_inv r" "pm_SDKs cfg i = None \<Longrightarrow> ar_sdkClients r i = None"
    and "pm_SDKs cfg i = Some m \<Longrightarrow> served r i m"
    and "distinct_profile cfg \<Longrightarrow> keys_exact r"
proof -
  let ?r0 = "r0\<lparr>ar_options := pm_Options cfg\<rparr>"
  define q where "q = addSdkClients env cfg ids ?r0"
  have d: "distinct ids" "set ids = dom (pm_SDKs cfg)" using assms(1) by (simp_all add: enumerates_def)
  have r: "r = q\<lparr>ar_published := ar_published ?r0\<rparr>"
    unfolding r_def init_clients_def q_def addSdkClients_def
    by (rule init_fold_add [OF d(1)]) (simp add: assms(2))
  have same: "reg_inv r = reg_inv q" "ar_sdkClients r = ar_sdkClients q" "ar_objs r = ar_objs q"
    "ar_sdkClientsBySdkKey r = ar_sdkClientsBySdkKey q" "served r = served q"
    by (simp_all add: r reg_inv_def served_def fun_eq_iff)
  have inv0: "reg_inv ?r0" "unstored ids ?r0" using assms by (simp_all add: reg_inv_def heap_ok_def unstored_def)
  have kn: "listed cfg ids" using d by (auto simp: listed_def)
  note p0 = add_phase [where env = env, OF inv0(1) untracked(1) untracked(2) [of any_keys cfg] d(1) inv0(2) kn,
      folded q_def]
  show "reg_inv r" using p0(1) same(1) by simp
  show "pm_SDKs cfg i = None \<Longrightarrow> ar_sdkClients r i = None"
    using view_eqD(1) [OF p0(4), of i] d(2) assms(2) same(2) by (auto simp: dom_def)
  show "pm_SDKs cfg i = Some m \<Longrightarrow> served r i m"
    using p0(5) [of i m] d(2) same(5) by (auto simp: dom_def)
  assume dp: "distinct_profile cfg"
  note fit = distinct_profile_fits [OF dp]
  have good0: "views_good UNIV (profile_keys cfg) ?r0"
    using assms by (simp add: views_good_def view_good_def reg_view_def index_of_def fun_eq_iff)
  note p1 = add_phase [where env = env, OF inv0(1) good0 fit d(1) inv0(2) kn, folded q_def]
  have "keys_exact q"
  proof (rule views_exact [OF p1(1,2)])
    show "apart UNIV (profile_keys cfg)" using fit by (simp add: fits_def)
    show "ar_sdkClientsBySdkKey q k = None" if "k \<noteq> []" "\<forall>j. k \<notin> profile_keys cfg j" for k
      using p1(3) that assms(4) by (simp add: index_kept_def)
  qed
  then show "keys_exact r" using keys_exact_cong [of r q] same by simp
qed

subsection \<open>Reachable registrars\<close>

text \<open>
  The registrar over its life: built from a profile, then refreshed with replies and cache
  contents of any kind, as long as each new profile respects the ownership of keys.
\<close>

inductive auto_reachable :: "'c profile_env \<Rightarrow> auto_registrar \<Rightarrow> bool" for env :: "'c profile_env" where
  built: "newAutoRegistrar (env\<lparr>pe_http := f\<rparr>) order c = (Some (Inr r), c') \<Longrightarrow>
     (\<And>cfg r0 c0. getConfig (env\<lparr>pe_http := f\<rparr>) c empty_auto = ((Inr (Some cfg), r0), c0) \<Longrightarrow>
        enumerates (order cfg) (pm_SDKs cfg) \<and> distinct_profile cfg) \<Longrightarrow>
     auto_reachable env r"
| refreshed: "auto_reachable env r \<Longrightarrow>
     refreshConfig (env\<lparr>pe_http := f\<rparr>) existing remote c r = (r', c') \<Longrightarrow>
     (\<And>cfg r0 c0. getConfig (env\<lparr>pe_http := f\<rparr>) c r = ((Inr (Some cfg), r0), c0) \<Longrightarrow>
        enumerates (existing r0) (ar_sdkClients r) \<and> enumerates (remote cfg) (pm_SDKs cfg) \<and> no_key_moves r cfg) \<Longrightarrow>
     auto_reachable env r'"

lemma no_key_moves_etag [simp]: "no_key_moves (r\<lparr>ar_etag := e\<rparr>) cfg = no_key_moves r cfg"
proof -
  have "registered_keys (r\<lparr>ar_etag := e\<rparr>) = registered_keys r"
    by (simp add: registered_keys_def fun_eq_iff split: option.splits)
  then show ?thesis by (simp add: no_key_moves_def)
qed

lemma reachable_exact: "auto_reachable env r \<Longrightarrow> keys_exact r"
proof (induction rule: auto_reachable.induct)
  case (built f order c r c')
  obtain res r0 c0 where g: "getConfig (env\<lparr>pe_http := f\<rparr>) c empty_auto = ((res, r0), c0)"
    by (metis surj_pair)
  with built(1) obtain cfg where cfg: "res = Inr (Some cfg)"
    "r = init_clients (pe_reg env) cfg (order cfg) r0"
    by (auto simp: newAutoRegistrar_def split: sum.splits option.splits)
  have "ar_sdkClients r0 = Map.empty \<and> ar_objs r0 = [] \<and> ar_sdkClientsBySdkKey r0 = Map.empty"
    using getConfig_cases [OF g] by (auto simp: empty_auto_def)
  moreover have "enumerates (order cfg) (pm_SDKs cfg)" "distinct_profile cfg" using built(2) g cfg(1) by blast+
  ultimately show ?case
    using init_clients_facts(4) [of "order cfg" cfg r0 "pe_reg env"] cfg(2) by simp
next
  case (refreshed r f existing remote c r' c')
  obtain res r0 c0 where g: "getConfig (env\<lparr>pe_http := f\<rparr>) c r = ((res, r0), c0)"
    by (metis surj_pair)
  show ?case
  proof (cases "\<exists>cfg. res = Inr (Some cfg)")
    case True
    then obtain cfg where cfg: "res = Inr (Some cfg)" by blast
    obtain e where r0: "r0 = r\<lparr>ar_etag := e\<rparr>" using getConfig_cases [OF g] cfg by auto
    have "keys_exact r0" using refreshed.IH keys_exact_cong [of r0 r] r0 by simp
    moreover have "no_key_moves r0 cfg" "enumerates (existing r0) (ar_sdkClients r0)" "enumerates (remote cfg) (pm_SDKs cfg)"
      using refreshed(3) g cfg r0 by auto
    ultimately have "keys_exact (applyConfig (pe_reg env) cfg (existing r0) (remote cfg) r0)"
      by (rule applyConfig_exact)
    then show ?thesis using refreshed(2) g cfg by (simp add: refreshConfig_def)
  next
    case False
    then have "r' = r0" using refreshed(2) g by (auto simp: refreshConfig_def split: sum.splits option.splits)
    then show ?thesis using getConfig_cases [OF g] False refreshed.IH by auto
  qed
qed

interpretation auto: sdk_registrar auto_GetSdkOrNil auto_GetSdkByKeyOrNil ar_objs "auto_reachable env" for env
proof
  fix r i a k assume r: "auto_reachable env r"
  note k = keys_exact_registrar [OF reachable_exact [OF r]]
  show "auto_GetSdkOrNil r i = Some a \<Longrightarrow> a < length (ar_objs r)" by (rule k(1))
  show "auto_GetSdkOrNil r i = Some a \<Longrightarrow> \<not> cl_closed (ar_objs r ! a)" by (rule k(2))
  show "auto_GetSdkOrNil r i = Some a \<Longrightarrow> cx_SdkId (cl_ctx (ar_objs r ! a)) = i" by (rule k(3))
  show "k \<noteq> [] \<Longrightarrow> auto_GetSdkByKeyOrNil r k = Some a \<Longrightarrow>
      \<exists>i. auto_GetSdkOrNil r i = Some a \<and> k \<in> keys_of_client (ar_objs r ! a)" by (rule k(4))
  show "auto_GetSdkOrNil r i = Some a \<Longrightarrow> k \<in> keys_of_client (ar_objs r ! a) \<Longrightarrow>
      auto_GetSdkByKeyOrNil r k = Some a" by (rule k(5))
qed

subsection \<open>Refreshing twice, and failures\<close>

lemma foldl_keeps: "(\<And>r i. g (f r i) = g r) \<Longrightarrow> g (foldl f r is) = g r"
  by (induction "is" arbitrary: r) simp_all

lemma applyConfig_etag [simp]: "ar_etag (applyConfig env cfg existing remote r) = ar_etag r"
proof -
  have 1: "ar_etag (delete_one i r) = ar_etag r" "ar_etag (add_one env cfg i r) = ar_etag r"
    "ar_etag (reset_one env cfg i r) = ar_etag r" for i r
    by (simp_all add: delete_one_def add_one_def reset_one_def Let_def split: option.splits)
  have 2: "ar_etag (fst (keys_iteration cfg st i)) = ar_etag (fst st)" for st i
    by (cases st) (simp add: keys_iteration_def Let_def split: option.splits prod.splits)
  have "ar_etag (deleteSdkClients ids r) = ar_etag r" "ar_etag (addSdkClients env cfg ids r) = ar_etag r"
    "ar_etag (resetSdkClients env cfg ids r) = ar_etag r" for ids r
    unfolding deleteSdkClients_def addSdkClients_def resetSdkClients_def
    by (rule foldl_keeps, rule 1)+
  moreover have "ar_etag (fst (foldl (keys_iteration cfg) st ids)) = ar_etag (fst st)" for st ids
    by (rule foldl_keeps [of "\<lambda>st. ar_etag (fst st)"]) (rule 2)
  ultimately show ?thesis by (simp add: applyConfig_def Let_def case_prod_beta)
qed

text \<open>After a profile with an ETag has been applied, the same reply changes nothing.\<close>

lemma refresh_idempotent:
  assumes online: "\<not> go_Enabled (c_GlobalOfflineConfig (re_conf (pe_reg env)))"
    and reply: "\<And>q. pe_http env q = Reply 200 etag (Inr body)" and url: "\<And>u. pe_new_request env u = Inr ()"
    and ok: "pe_parse env body = Inr cfg"
    and r1: "refreshConfig env existing remote c r = (r1, c1)"
  shows "fst (refreshConfig env existing remote c1 r1) = r1"
proof -
  define e where "e = (if has_prefix etag ''W/'' then drop 2 etag else etag)"
  have f: "fetchConfig env x = Inr (Some body, e)" for x
    by (simp add: fetchConfig_def url reply e_def)
  have g: "fst (getConfig env c r) = parseConfig (pe_parse env) body e r" for c r
    using online by (simp add: getConfig_def f Let_def case_prod_beta)
  have etag1: "ar_etag r1 = e"
  proof (cases "e = ar_etag r")
    case True
    then show ?thesis using r1 g [of c r]
      by (cases "getConfig env c r") (auto simp: refreshConfig_def parseConfig_def)
  next
    case False
    then have "fst (getConfig env c r) = (Inr (Some cfg), r\<lparr>ar_etag := e\<rparr>)"
      using g ok by (simp add: parseConfig_def)
    then have "r1 = applyConfig (pe_reg env) cfg (existing (r\<lparr>ar_etag := e\<rparr>)) (remote cfg) (r\<lparr>ar_etag := e\<rparr>)"
      using r1 by (cases "getConfig env c r") (auto simp: refreshConfig_def)
    then show ?thesis by (simp add: applyConfig_etag)
  qed
  have "fst (getConfig env c1 r1) = (Inr None, r1)" using g [of c1 r1] etag1 by (simp add: parseConfig_def)
  then show ?thesis by (cases "getConfig env c1 r1") (simp add: refreshConfig_def)
qed

section \<open>Properties\<close>

text \<open>Concrete data for the examples below: a proxy that reads the profile over HTTP.\<close>

definition main_profile :: "string \<Rightarrow> proxy_config_model" where
  "main_profile k = \<lparr>pm_SDKs = [''main'' \<mapsto> \<lparr>Key1 = k, Key2 = []\<rparr>],
     pm_Options = \<lparr>om_PollInterval = 60, om_DataGovernance = ''global''\<rparr>\<rparr>"

definition empty_snapshot :: snapshot where
  "empty_snapshot = \<lparr>sn_GetValueDetails = (\<lambda>u k. \<lparr>dt_Key = k, dt_Value = VNil, dt_VariationID = [],
      dt_User = u, dt_Error = Some (ErrKeyNotFound k), dt_MatchedPercentageOption = False,
      dt_MatchedTargetingRule = False\<rparr>),
     sn_GetAllValueDetails = (\<lambda>u. []), sn_GetAllKeys = []\<rparr>"

definition plain_reg :: reg_env where
  "plain_reg = \<lparr>re_conf = zero_config, re_ProduceCacheKey = (\<lambda>k. k),
     re_load = (\<lambda>cx. (\<lparr>en_ConfigJson = [], en_ETag = [], en_FetchTime = 0, en_Empty = False\<rparr>, empty_snapshot)),
     re_cache_set = False\<rparr>"

text \<open>The server answers with the key as body and ETag; the decoder builds the profile of one SDK.\<close>

definition serves :: "string \<Rightarrow> unit profile_env" where
  "serves k = \<lparr>pe_reg = plain_reg, pe_cache = None, pe_new_request = (\<lambda>u. Inr ()),
     pe_http = (\<lambda>q. Reply 200 k (Inr k)), pe_parse = (\<lambda>b. Inr (main_profile b))\<rparr>"

definition started :: "string \<Rightarrow> auto_registrar" where
  "started k = init_clients plain_reg (main_profile k) [''main''] (empty_auto\<lparr>ar_etag := k\<rparr>)"

lemma enumerates_main: "enumerates [''main''] (pm_SDKs (main_profile k))"
  by (simp add: enumerates_def main_profile_def)

lemma getConfig_serves:
  assumes "k \<noteq> ar_etag r" "has_prefix k ''W/'' = False"
  shows "getConfig (serves k) () r = ((Inr (Some (main_profile k)), r\<lparr>ar_etag := k\<rparr>), ())"
  using assms by (simp add: getConfig_def serves_def readCache_def fetchConfig_def parseConfig_def writeCache_def
      plain_reg_def zero_config_def)

lemma started_new:
  assumes "k \<noteq> ''initial''" "has_prefix k ''W/'' = False"
  shows "newAutoRegistrar (serves k) (\<lambda>_. [''main'']) () = (Some (Inr (started k)), ())"
  using getConfig_serves [of k empty_auto] assms
  by (simp add: newAutoRegistrar_def started_def empty_auto_def serves_def)

lemma distinct_main: "distinct_profile (main_profile k)"
  by (auto simp: distinct_profile_def no_key_moves_def registered_keys_def profile_keys_def main_profile_def
      empty_auto_def two_keys_def)

lemma serves_http: "serves k\<lparr>pe_http := pe_http (serves j)\<rparr> = serves j"
  by (simp add: serves_def)

lemma started_reachable:
  assumes "k \<noteq> ''initial''" "has_prefix k ''W/'' = False"
  shows "auto_reachable (serves j) (started k)"
proof (rule auto_reachable.built [where f = "pe_http (serves k)" and c = "()" and order = "\<lambda>_. [''main'']" and c' = "()"])
  show "newAutoRegistrar (serves j\<lparr>pe_http := pe_http (serves k)\<rparr>) (\<lambda>_. [''main'']) () = (Some (Inr (started k)), ())"
    using started_new [OF assms] by (simp add: serves_http)
  fix cfg r0 c0
  assume "getConfig (serves j\<lparr>pe_http := pe_http (serves k)\<rparr>) () empty_auto = ((Inr (Some cfg), r0), c0)"
  then have "cfg = main_profile k"
    using getConfig_serves [of k empty_auto] assms by (simp add: serves_http empty_auto_def)
  then show "enumerates [''main''] (pm_SDKs cfg) \<and> distinct_profile cfg"
    using enumerates_main distinct_main by simp
qed

lemma started_clients:
  "ar_sdkClients (started k) = [''main'' \<mapsto> 0]" "ar_etag (started k) = k" "length (ar_objs (started k)) = 1"
  "SdkKeys (ar_objs (started k) ! 0) = (k, None)"
  by (simp_all add: started_def init_clients_def init_one_def main_profile_def empty_auto_def
      buildSdkClient_def new_client_def NewClient_def SdkKeys_def buildSdkConfig_def plain_reg_def zero_config_def
      zero_sdk_def zero_offline_def Let_def)

lemma started_moves:
  "no_key_moves (started k) (main_profile j)"
  by (auto simp: no_key_moves_def registered_keys_def profile_keys_def main_profile_def started_clients two_keys_def
      split: if_splits)

text \<open>
  C1: a refresh that brings a new profile leaves the registrar with exactly the SDKs of the
  profile: the others are gone, each SDK of the profile has an open client that carries its
  identifier and its keys, and every client that is no longer stored has been closed.
\<close>

theorem refresh_converges:
  assumes "auto_reachable env r" and "getConfig env c r = ((Inr (Some cfg), r0), c0)"
    and "enumerates (existing r0) (ar_sdkClients r)" and "enumerates (remote cfg) (pm_SDKs cfg)"
    and "no_key_moves r cfg" and "refreshConfig env existing remote c r = (r', c')"
  shows "(\<forall>i. case pm_SDKs cfg i of
        None \<Rightarrow> auto_GetSdkOrNil r' i = None
      | Some m \<Rightarrow> (\<exists>a. auto_GetSdkOrNil r' i = Some a \<and> matches i m (ar_objs r' ! a)))
    \<and> (\<forall>a < length (ar_objs r'). cl_closed (ar_objs r' ! a) \<longleftrightarrow> (\<forall>i. auto_GetSdkOrNil r' i \<noteq> Some a))
    \<and> auto_reachable env r'"
proof -
  obtain e where r0: "r0 = r\<lparr>ar_etag := e\<rparr>" using getConfig_cases [OF assms(2)] by auto
  have same: "reg_inv r0" "no_key_moves r0 cfg" "enumerates (existing r0) (ar_sdkClients r0)"
    using keys_exactD(1) [OF reachable_exact [OF assms(1)]] assms(3,5) by (simp_all add: r0 reg_inv_def)
  have exact: "keys_exact r0" using reachable_exact [OF assms(1)] keys_exact_cong [of r0 r] by (simp add: r0)
  have r': "r' = applyConfig (pe_reg env) cfg (existing r0) (remote cfg) r0"
    using assms(2,6) by (simp add: refreshConfig_def)
  note f = applyConfig_facts [where env = "pe_reg env", OF same(1) exact_views [OF exact same(2)]
      plan_fits [OF same(2)] same(3) assms(4), folded r']
  have "auto_reachable env r'"
    using auto_reachable.refreshed [of env r "pe_http env" existing remote c r' c'] assms by simp
  moreover have "cl_closed (ar_objs r' ! a) \<longleftrightarrow> (\<forall>i. auto_GetSdkOrNil r' i \<noteq> Some a)" if "a < length (ar_objs r')" for a
    using f(1) that by (simp add: reg_inv_def heap_ok_def auto_GetSdkOrNil_def)
  ultimately show ?thesis
    using f(4,5) by (auto simp: auto_GetSdkOrNil_def served_def split: option.splits)
qed

theorem refresh_converges_witness:
  "\<exists>r' c' a. refreshConfig (serves ''k2'') (\<lambda>_. [''main'']) (\<lambda>_. [''main'']) () (started ''k1'') = (r', c') \<and>
     auto_GetSdkOrNil r' ''main'' = Some a \<and> matches ''main'' \<lparr>Key1 = ''k2'', Key2 = []\<rparr> (ar_objs r' ! a)"
proof -
  have g: "getConfig (serves ''k2'') () (started ''k1'')
      = ((Inr (Some (main_profile ''k2'')), (started ''k1'')\<lparr>ar_etag := ''k2''\<rparr>), ())"
    by (rule getConfig_serves) (simp_all add: started_clients has_prefix_def)
  obtain r' c' where r': "refreshConfig (serves ''k2'') (\<lambda>_. [''main'']) (\<lambda>_. [''main'']) () (started ''k1'') = (r', c')"
    by (rule prod.exhaust)
  have reach: "auto_reachable (serves ''k2'') (started ''k1'')"
    by (rule started_reachable) (simp_all add: has_prefix_def)
  have en: "enumerates [''main''] (ar_sdkClients (started ''k1''))"
    by (simp add: enumerates_def started_clients)
  from refresh_converges [OF reach g en enumerates_main started_moves r'] r' show ?thesis
    by (auto simp: main_profile_def dest: spec [of _ "''main''"] split: option.splits)
qed

text \<open>
  The cached form of a profile is read back as it was written, for an ETag without a line
  break and a body, and whatever is accepted from the cache is the cached form of what it
  yields.
\<close>

lemma profile_cache_format:
  "(etag \<noteq> [] \<and> newline_char \<notin> set etag \<and> body \<noteq> [] \<longleftrightarrow>
      cacheSegmentsFromBytes (cacheSegmentsToBytes etag body) = (body, etag, None))
    \<and> (cacheSegmentsFromBytes b = (body, etag, None) \<longrightarrow> cacheSegmentsToBytes etag body = b)"
  using segments_roundtrip segments_rebuild by blast

end
