(* ===== verification/Channel.thy ===== *)
theory Channel
  imports Client
begin

text \<open>
  \<open>stream/channel.go\<close> and \<open>stream/connection.go\<close>: a channel groups the connections of one
  subscription (a flag key, or all flags) whose users hash to the same discriminator; it
  evaluates once per change and sends the payload to each of its connections. A connection is
  named by a number; sending is the list of pairs \<open>(connection, message)\<close> in order. The Go
  comparison of two interface values is equality of \<open>go_val\<close> (flag values are never slices,
  on which it would panic, and a float is its bit pattern). So two floats differ when their bits do, where Go's
  \<open>!=\<close> takes 0.0 and -0.0 for equal and NaN for different from itself: the code does not send a change between
  the two zeros, and sends a NaN again.
\<close>

section \<open>Definitions\<close>

definition AllFlagsDiscriminator :: string where "AllFlagsDiscriminator = ''[ALL]''"

definition connection_capacity :: nat where "connection_capacity = 64"

datatype message =
    SinglePayload "response_payload option"
  | AllPayload "string \<rightharpoonup> response_payload"

record connection_holder =
  ch_connections :: "nat list"
  ch_user :: user_attrs

datatype channel =
    SingleFlagChannel "response_payload option" connection_holder
  | AllFlagsChannel "string \<rightharpoonup> response_payload" connection_holder

text \<open>\<open>connEstablished\<close>: the connection with its discriminator, the user and the flag key.\<close>

record conn_established =
  ce_conn :: nat
  ce_discriminator :: "64 word"
  ce_user :: user_attrs
  ce_key :: string

definition payload_map :: "(string \<rightharpoonup> eval_data) \<Rightarrow> (string \<rightharpoonup> response_payload)" where
  "payload_map values = (\<lambda>k. map_option PayloadFromEvalData (values k))"

definition createChannel :: "conn_established \<Rightarrow> client \<Rightarrow> channel" where
  "createChannel established sdkClient =
     (let holder = \<lparr>ch_connections = [], ch_user = ce_user established\<rparr>
      in if ce_key established = AllFlagsDiscriminator
         then AllFlagsChannel (payload_map (EvalAll sdkClient (ce_user established))) holder
         else SingleFlagChannel
                (Some (PayloadFromEvalData (Eval sdkClient (ce_key established) (ce_user established)))) holder)"

fun LastPayload :: "channel \<Rightarrow> message" where
  "LastPayload (SingleFlagChannel lastPayload h) = SinglePayload lastPayload"
| "LastPayload (AllFlagsChannel lastPayload h) = AllPayload lastPayload"

fun holder :: "channel \<Rightarrow> connection_holder" where
  "holder (SingleFlagChannel p h) = h"
| "holder (AllFlagsChannel p h) = h"

fun with_holder :: "connection_holder \<Rightarrow> channel \<Rightarrow> channel" where
  "with_holder h (SingleFlagChannel p h0) = SingleFlagChannel p h"
| "with_holder h (AllFlagsChannel p h0) = AllFlagsChannel p h"

text \<open>The sends of a loop over the connections, and how many.\<close>

fun send_all :: "message \<Rightarrow> nat list \<Rightarrow> (nat \<times> message) list \<Rightarrow> nat \<Rightarrow> (nat \<times> message) list \<times> nat" where
  "send_all m [] out sent = (out, sent)"
| "send_all m (conn # conns) out sent = send_all m conns (out @ [(conn, m)]) (sent + 1)"

definition Notify_single ::
  "client \<Rightarrow> string \<Rightarrow> response_payload option \<Rightarrow> connection_holder \<Rightarrow>
   response_payload option \<times> (nat \<times> message) list \<times> nat" where
  "Notify_single sdkClient key lastPayload sf =
     (let val = Eval sdkClient key (ch_user sf)
      in if ed_Error val \<noteq> None then (lastPayload, [], 0)
         else if lastPayload = None \<or> ed_Value val \<noteq> rp_Value (the lastPayload)
         then (let payload = PayloadFromEvalData val
               in (Some payload, send_all (SinglePayload (Some payload)) (ch_connections sf) [] 0))
         else (lastPayload, [], 0))"

definition Notify_all ::
  "client \<Rightarrow> (string \<rightharpoonup> response_payload) \<Rightarrow> connection_holder \<Rightarrow>
   (string \<rightharpoonup> response_payload) \<times> (nat \<times> message) list \<times> nat" where
  "Notify_all sdkClient lastPayload af =
     (let values = EvalAll sdkClient (ch_user af)
      in if values = Map.empty then (lastPayload, [], 0)
         else (let final = payload_map values
               in (final, if final \<noteq> Map.empty
                          then send_all (AllPayload final) (ch_connections af) [] 0 else ([], 0))))"

fun Notify :: "client \<Rightarrow> string \<Rightarrow> channel \<Rightarrow> channel \<times> (nat \<times> message) list \<times> nat" where
  "Notify sdkClient key (SingleFlagChannel p h) =
     (case Notify_single sdkClient key p h of (p', ms, sent) \<Rightarrow> (SingleFlagChannel p' h, ms, sent))"
| "Notify sdkClient key (AllFlagsChannel p h) =
     (case Notify_all sdkClient p h of (p', ms, sent) \<Rightarrow> (AllFlagsChannel p' h, ms, sent))"

definition AddConnection :: "nat \<Rightarrow> channel \<Rightarrow> channel" where
  "AddConnection conn ch =
     with_holder ((holder ch)\<lparr>ch_connections := ch_connections (holder ch) @ [conn]\<rparr>) ch"

text \<open>The index loop of \<open>RemoveConnection\<close> and the removal.\<close>

fun conn_index :: "nat \<Rightarrow> nat list \<Rightarrow> nat option" where
  "conn_index conn [] = None"
| "conn_index conn (c # cs) = (if c = conn then Some 0 else map_option Suc (conn_index conn cs))"

definition RemoveConnection :: "nat \<Rightarrow> channel \<Rightarrow> channel" where
  "RemoveConnection conn ch =
     (let cs = ch_connections (holder ch)
      in case conn_index conn cs of
           None \<Rightarrow> ch
         | Some i \<Rightarrow> with_holder ((holder ch)\<lparr>ch_connections := take i cs @ drop (i + 1) cs\<rparr>) ch)"

definition IsEmpty :: "channel \<Rightarrow> bool" where
  "IsEmpty ch = (length (ch_connections (holder ch)) = 0)"

abbreviation connections :: "channel \<Rightarrow> nat list" where
  "connections ch \<equiv> ch_connections (holder ch)"

section \<open>Lemmas\<close>

lemma holder_simps [simp]:
  "holder (with_holder h ch) = h" "LastPayload (with_holder h ch) = LastPayload ch"
  by (cases ch; simp)+

lemma send_all_eq: "send_all m cs out n = (out @ map (\<lambda>c. (c, m)) cs, n + length cs)"
  by (induction cs arbitrary: out n) simp_all

lemma conn_index_remove:
  "(case conn_index c cs of None \<Rightarrow> cs | Some i \<Rightarrow> take i cs @ drop (i + 1) cs) = remove1 c cs"
  by (induction cs) (auto split: option.splits)

lemma AddConnection_simps [simp]:
  "connections (AddConnection c ch) = connections ch @ [c]" "LastPayload (AddConnection c ch) = LastPayload ch"
  "ch_user (holder (AddConnection c ch)) = ch_user (holder ch)"
  by (simp_all add: AddConnection_def)

lemma RemoveConnection_simps [simp]:
  "connections (RemoveConnection c ch) = remove1 c (connections ch)"
  "LastPayload (RemoveConnection c ch) = LastPayload ch"
  "ch_user (holder (RemoveConnection c ch)) = ch_user (holder ch)"
  using conn_index_remove [where c = c and cs = "connections ch"]
  by (auto simp: RemoveConnection_def Let_def split: option.splits)

lemma IsEmpty_iff [simp]: "IsEmpty ch \<longleftrightarrow> connections ch = []"
  by (simp add: IsEmpty_def)

lemma payload_map_empty [simp]: "payload_map m = Map.empty \<longleftrightarrow> m = Map.empty"
  by (simp add: payload_map_def fun_eq_iff)

lemma createChannel_simps [simp]:
  "connections (createChannel e c) = []" "ch_user (holder (createChannel e c)) = ce_user e"
  by (simp_all add: createChannel_def Let_def)

subsection \<open>The interface of a channel\<close>

text \<open>
  What the stream relies on: connections are kept in order of arrival, a notification keeps
  them and sends either nothing, leaving the last payload, or the new last payload to each.
\<close>

locale stream_channel =
  fixes notify :: "'ch \<Rightarrow> 'ch \<times> (nat \<times> message) list \<times> nat"
    and add :: "nat \<Rightarrow> 'ch \<Rightarrow> 'ch"
    and remove :: "nat \<Rightarrow> 'ch \<Rightarrow> 'ch"
    and conns :: "'ch \<Rightarrow> nat list"
    and lastp :: "'ch \<Rightarrow> message"
    and is_empty :: "'ch \<Rightarrow> bool"
  assumes add: "conns (add c ch) = conns ch @ [c]" "lastp (add c ch) = lastp ch"
    and remove: "conns (remove c ch) = remove1 c (conns ch)" "lastp (remove c ch) = lastp ch"
    and empty_iff: "is_empty ch \<longleftrightarrow> conns ch = []"
    and notify: "notify ch = (ch', ms, n) \<Longrightarrow> conns ch' = conns ch \<and> n = length ms \<and>
      (ms = map (\<lambda>c. (c, lastp ch')) (conns ch) \<or> ms = [] \<and> lastp ch' = lastp ch)"
begin

text \<open>
  The messages of one connection: after joining (when it is sent the last payload) and any
  number of notifications, the last message it got is the channel's last payload.
\<close>

definition current :: "(nat \<Rightarrow> message list) \<Rightarrow> 'ch \<Rightarrow> bool" where
  "current sent ch \<longleftrightarrow> (\<forall>c \<in> set (conns ch). sent c \<noteq> [] \<and> last (sent c) = lastp ch)"

definition deliver :: "(nat \<times> message) list \<Rightarrow> (nat \<Rightarrow> message list) \<Rightarrow> nat \<Rightarrow> message list" where
  "deliver ms sent c = sent c @ map snd (filter (\<lambda>(c', m). c' = c) ms)"

lemma current_add:
  "current sent ch \<Longrightarrow> current (deliver [(c, lastp (add c ch))] sent) (add c ch)"
  by (auto simp: current_def deliver_def add)

lemma current_remove: "current sent ch \<Longrightarrow> current sent (remove c ch)"
  using set_remove1_subset [of c "conns ch"] by (auto simp: current_def remove)

lemma deliver_map:
  "c \<in> set cs \<Longrightarrow> deliver (map (\<lambda>c. (c, m)) cs) sent c \<noteq> [] \<and> last (deliver (map (\<lambda>c. (c, m)) cs) sent c) = m"
proof -
  assume c: "c \<in> set cs"
  let ?xs = "map snd (filter (\<lambda>(c', m). c' = c) (map (\<lambda>c. (c, m)) cs))"
  have "?xs \<noteq> []" using c by (induction cs) auto
  moreover have "x \<in> set ?xs \<Longrightarrow> x = m" for x by auto
  ultimately show ?thesis using last_in_set [of ?xs] by (simp add: deliver_def)
qed

lemma current_notify:
  assumes "current sent ch" "notify ch = (ch', ms, n)"
  shows "current (deliver ms sent) ch'"
  using notify [OF assms(2)] assms(1) deliver_map [of _ "conns ch"]
  by (auto simp: current_def) (auto simp: deliver_def)

end

interpretation channel: stream_channel "Notify sdkClient key" AddConnection RemoveConnection
  connections LastPayload IsEmpty for sdkClient key
proof
  fix ch ch' ms n
  assume "Notify sdkClient key ch = (ch', ms, n)"
  then show "connections ch' = connections ch \<and> n = length ms \<and>
      (ms = map (\<lambda>c. (c, LastPayload ch')) (connections ch) \<or> ms = [] \<and> LastPayload ch' = LastPayload ch)"
    by (cases ch) (auto simp: Notify_single_def Notify_all_def Let_def send_all_eq split: if_splits)
qed simp_all

lemma Notify_user [simp]: "Notify sdkClient key ch = (ch', r) \<Longrightarrow> ch_user (holder ch') = ch_user (holder ch)"
  by (cases ch) (auto simp: Notify_single_def Notify_all_def Let_def split: if_splits)

text \<open>The payload a channel stands at after a notification whose evaluation succeeds.\<close>

fun up_to_date :: "client \<Rightarrow> string \<Rightarrow> channel \<Rightarrow> bool" where
  "up_to_date sdkClient key (SingleFlagChannel p h) \<longleftrightarrow>
     (\<exists>q. p = Some q \<and> rp_Value q = ed_Value (Eval sdkClient key (ch_user h)))"
| "up_to_date sdkClient key (AllFlagsChannel p h) \<longleftrightarrow> p = payload_map (EvalAll sdkClient (ch_user h))"

fun evaluates :: "client \<Rightarrow> string \<Rightarrow> channel \<Rightarrow> bool" where
  "evaluates sdkClient key (SingleFlagChannel p h) \<longleftrightarrow> ed_Error (Eval sdkClient key (ch_user h)) = None"
| "evaluates sdkClient key (AllFlagsChannel p h) \<longleftrightarrow> EvalAll sdkClient (ch_user h) \<noteq> Map.empty"

lemma Notify_up_to_date:
  "evaluates sdkClient key ch \<Longrightarrow> Notify sdkClient key ch = (ch', r) \<Longrightarrow> up_to_date sdkClient key ch'"
  by (cases ch) (auto simp: Notify_single_def Notify_all_def Let_def PayloadFromEvalData_def split: if_splits)

lemma create_up_to_date: "up_to_date sdkClient (ce_key e) (createChannel e sdkClient)"
  by (simp add: createChannel_def Let_def PayloadFromEvalData_def)

end
