(* ===== verification/Stream.thy ===== *)
theory Stream
  imports Channel
begin

text \<open>
  \<open>stream/stream.go\<close>: one stream per SDK. Its goroutine owns the channels, a map from the flag
  key to a map from the discriminator to the channel, and serves one event at a time; the model
  has one function per event. \<open>st_sent c\<close> is every message sent to connection \<open>c\<close>, in order. The
  seed of the discriminator is fixed per stream: the hash functions are parameters.
\<close>

section \<open>Definitions\<close>

record stream =
  st_channels :: "string \<rightharpoonup> (64 word \<rightharpoonup> channel)"
  st_connCount :: int
  st_client :: client
  st_sent :: "nat \<Rightarrow> message list"

definition NewStream :: "client \<Rightarrow> stream" where
  "NewStream sdkClient = \<lparr>st_channels = Map.empty, st_connCount = 0, st_client = sdkClient, st_sent = (\<lambda>_. [])\<rparr>"

definition CanEval :: "stream \<Rightarrow> string \<Rightarrow> bool" where
  "CanEval s key = HasKey (st_client s) key"

definition stream_IsInValidState :: "stream \<Rightarrow> bool" where
  "stream_IsInValidState s = IsInValidState (st_client s)"

definition stream_SdkKeys :: "stream \<Rightarrow> string \<times> string option" where
  "stream_SdkKeys s = SdkKeys (st_client s)"

text \<open>
  \<open>CreateConnection\<close>: the event it hands to the goroutine; \<open>conn\<close> names the new connection,
  \<open>ks\<close> is the iteration order of the user's attributes.
\<close>

definition CreateConnection ::
  "(bytes \<Rightarrow> 64 word) \<Rightarrow> (64 word \<Rightarrow> string) \<Rightarrow> string list \<Rightarrow> nat \<Rightarrow> string \<Rightarrow> user_attrs \<Rightarrow> conn_established" where
  "CreateConnection hash fmtf ks conn key user =
     \<lparr>ce_conn = conn,
      ce_discriminator = (if user \<noteq> None then Discriminator hash fmtf ks user else 0),
      ce_user = user, ce_key = key\<rparr>"

definition send_msgs :: "(nat \<times> message) list \<Rightarrow> (nat \<Rightarrow> message list) \<Rightarrow> (nat \<Rightarrow> message list)" where
  "send_msgs ms sent = foldl (\<lambda>f (c, m). f(c := f c @ [m])) sent ms"

definition addConnection :: "conn_established \<Rightarrow> stream \<Rightarrow> stream" where
  "addConnection established s =
     (let key = ce_key established; d = ce_discriminator established; conn = ce_conn established;
          bucket0 = (case st_channels s key of
              None \<Rightarrow> [d \<mapsto> createChannel established (st_client s)]
            | Some bucket \<Rightarrow> bucket);
          ch0 = (case bucket0 d of None \<Rightarrow> createChannel established (st_client s) | Some ch \<Rightarrow> ch);
          ch = AddConnection conn ch0
      in s\<lparr>st_channels := (st_channels s)(key \<mapsto> bucket0(d \<mapsto> ch)),
           st_sent := send_msgs [(conn, LastPayload ch)] (st_sent s)\<rparr>)"

definition removeConnection :: "nat \<Rightarrow> 64 word \<Rightarrow> string \<Rightarrow> stream \<Rightarrow> stream" where
  "removeConnection conn d key s =
     (case st_channels s key of
        None \<Rightarrow> s
      | Some bucket \<Rightarrow>
          (case bucket d of
             None \<Rightarrow> s
           | Some ch0 \<Rightarrow>
               (let ch = RemoveConnection conn ch0;
                    bucket1 = (if IsEmpty ch then bucket(d := None) else bucket(d \<mapsto> ch))
                in s\<lparr>st_channels := (if bucket1 = Map.empty then (st_channels s)(key := None)
                                    else (st_channels s)(key \<mapsto> bucket1))\<rparr>)))"

text \<open>
  \<open>notifyConnections\<close>: the body of the nested loop for one channel, and the loop over the
  pairs \<open>(key, discriminator)\<close> in iteration order.
\<close>

definition notify_one :: "string \<Rightarrow> 64 word \<Rightarrow> stream \<Rightarrow> stream \<times> nat" where
  "notify_one key d s =
     (case st_channels s key of
        None \<Rightarrow> (s, 0)
      | Some bucket \<Rightarrow>
          (case bucket d of
             None \<Rightarrow> (s, 0)
           | Some ch \<Rightarrow>
               (case Notify (st_client s) key ch of
                  (ch', ms, cnt) \<Rightarrow>
                    (s\<lparr>st_channels := (st_channels s)(key \<mapsto> bucket(d \<mapsto> ch')),
                       st_sent := send_msgs ms (st_sent s)\<rparr>, cnt))))"

fun notify_loop :: "(string \<times> 64 word) list \<Rightarrow> stream \<Rightarrow> nat \<Rightarrow> stream \<times> nat" where
  "notify_loop [] s sent = (s, sent)"
| "notify_loop ((key, d) # order) s sent =
     (case notify_one key d s of (s', cnt) \<Rightarrow> notify_loop order s' (sent + cnt))"

definition notifyConnections :: "(string \<times> 64 word) list \<Rightarrow> stream \<Rightarrow> stream" where
  "notifyConnections order s = fst (notify_loop order s 0)"

text \<open>The events of \<open>run\<close>, and \<open>ResetSdk\<close>, which swaps the client from another goroutine.\<close>

datatype stream_op =
    Established conn_established
  | Closed nat "64 word" string
  | ConfigChanged "(string \<times> 64 word) list"
  | ResetSdk client

fun stream_step :: "stream \<Rightarrow> stream_op \<Rightarrow> stream" where
  "stream_step s (Established e) = (let s' = addConnection e s in s'\<lparr>st_connCount := st_connCount s' + 1\<rparr>)"
| "stream_step s (Closed c d key) =
     (let s' = removeConnection c d key s in s'\<lparr>st_connCount := st_connCount s' - 1\<rparr>)"
| "stream_step s (ConfigChanged order) = notifyConnections order s"
| "stream_step s (ResetSdk c) = s\<lparr>st_client := c\<rparr>"

section \<open>Lemmas\<close>

subsection \<open>Looking up a channel\<close>

definition chan_at :: "stream \<Rightarrow> string \<Rightarrow> 64 word \<Rightarrow> channel option" where
  "chan_at s key d = (case st_channels s key of None \<Rightarrow> None | Some bucket \<Rightarrow> bucket d)"

lemma send_msgs_eq: "send_msgs ms sent c = channel.deliver ms sent c"
proof (induction ms arbitrary: sent)
  case Nil
  then show ?case by (simp add: send_msgs_def channel.deliver_def)
next
  case (Cons m ms)
  obtain c' x where m: "m = (c', x)" by fastforce
  have "send_msgs (m # ms) sent c = send_msgs ms (sent(c' := sent c' @ [x])) c"
    by (simp add: send_msgs_def m)
  also have "\<dots> = channel.deliver (m # ms) sent c"
    using Cons by (simp add: channel.deliver_def m)
  finally show ?case .
qed

lemma chan_at_add:
  "chan_at (addConnection e s) key d =
     (if key = ce_key e \<and> d = ce_discriminator e
      then Some (AddConnection (ce_conn e)
             (case chan_at s key d of None \<Rightarrow> createChannel e (st_client s) | Some ch \<Rightarrow> ch))
      else chan_at s key d)"
  by (auto simp: chan_at_def addConnection_def Let_def split: option.splits)

lemma chan_at_remove:
  "chan_at (removeConnection c d' key' s) key d =
     (if key = key' \<and> d = d'
      then (case chan_at s key d of None \<Rightarrow> None
            | Some ch \<Rightarrow> if IsEmpty (RemoveConnection c ch) then None else Some (RemoveConnection c ch))
      else chan_at s key d)"
proof -
  have "bucket d \<noteq> None \<Longrightarrow> bucket(x := y) = Map.empty \<Longrightarrow> d = x" for bucket :: "64 word \<rightharpoonup> channel" and d x y
    by (metis fun_upd_apply)
  then show ?thesis
    by (auto simp: chan_at_def removeConnection_def Let_def fun_eq_iff split: option.splits if_splits)
qed

lemma chan_at_notify_one:
  "chan_at (fst (notify_one k d s)) k' d' =
     (if k' = k \<and> d' = d then map_option (fst \<circ> Notify (st_client s) k) (chan_at s k d) else chan_at s k' d')"
  by (auto simp: chan_at_def notify_one_def split: option.splits prod.splits)

lemma notify_one_frame [simp]:
  "st_client (fst (notify_one k d s)) = st_client s" "st_connCount (fst (notify_one k d s)) = st_connCount s"
  by (simp_all add: notify_one_def split: option.splits prod.splits)

lemma notify_one_None: "chan_at s k d = None \<Longrightarrow> notify_one k d s = (s, 0)"
  by (simp add: chan_at_def notify_one_def split: option.splits)

lemma notify_one_Some:
  "chan_at s k d = Some ch \<Longrightarrow> Notify (st_client s) k ch = (ch', ms, n) \<Longrightarrow>
   snd (notify_one k d s) = n \<and> st_sent (fst (notify_one k d s)) = send_msgs ms (st_sent s)"
  by (auto simp: chan_at_def notify_one_def split: option.splits)

subsection \<open>The registered connections\<close>

text \<open>The abstraction of a stream: which connection is registered under which key and discriminator.\<close>

definition registered :: "stream \<Rightarrow> (nat \<times> string \<times> 64 word) set" where
  "registered s = {(c, k, d). \<exists>ch. chan_at s k d = Some ch \<and> c \<in> set (connections ch)}"

fun registered_step :: "(nat \<times> string \<times> 64 word) set \<Rightarrow> stream_op \<Rightarrow> (nat \<times> string \<times> 64 word) set" where
  "registered_step R (Established e) = insert (ce_conn e, ce_key e, ce_discriminator e) R"
| "registered_step R (Closed c d key) = R - {(c, key, d)}"
| "registered_step R _ = R"

fun stream_ok :: "stream \<Rightarrow> stream_op \<Rightarrow> bool" where
  "stream_ok s (Established e) \<longleftrightarrow> st_sent s (ce_conn e) = []"
| "stream_ok s (Closed c d key) \<longleftrightarrow> (c, key, d) \<in> registered s"
| "stream_ok s _ \<longleftrightarrow> True"

definition channels_ok :: "stream \<Rightarrow> bool" where
  "channels_ok s \<longleftrightarrow>
     (\<forall>k. st_channels s k \<noteq> Some Map.empty)
     \<and> (\<forall>k d ch. chan_at s k d = Some ch \<longrightarrow>
          connections ch \<noteq> [] \<and> distinct (connections ch) \<and> channel.current (st_sent s) ch)
     \<and> (\<forall>c k d k' d'. (c, k, d) \<in> registered s \<and> (c, k', d') \<in> registered s \<longrightarrow> k = k' \<and> d = d')"

definition stream_inv :: "stream \<Rightarrow> bool" where
  "stream_inv s \<longleftrightarrow> channels_ok s \<and> finite (registered s) \<and> st_connCount s = int (card (registered s))"

lemma channels_okD:
  assumes "channels_ok s"
  shows "st_channels s k \<noteq> Some Map.empty"
    and "chan_at s k d = Some ch \<Longrightarrow> connections ch \<noteq> []"
    and "chan_at s k d = Some ch \<Longrightarrow> distinct (connections ch)"
    and "chan_at s k d = Some ch \<Longrightarrow> channel.current (st_sent s) ch"
    and "chan_at s k d = Some ch \<Longrightarrow> chan_at s k' d' = Some ch' \<Longrightarrow> c \<in> set (connections ch) \<Longrightarrow>
      c \<in> set (connections ch') \<Longrightarrow> k' = k \<and> d' = d"
  using assms unfolding channels_ok_def registered_def by blast+

lemma channels_okI:
  assumes "\<And>k. st_channels s k \<noteq> Some Map.empty"
    and "\<And>k d ch. chan_at s k d = Some ch \<Longrightarrow> connections ch \<noteq> [] \<and> distinct (connections ch)"
    and "\<And>k d ch. chan_at s k d = Some ch \<Longrightarrow> channel.current (st_sent s) ch"
    and "\<And>c k d ch k' d' ch'. chan_at s k d = Some ch \<Longrightarrow> chan_at s k' d' = Some ch' \<Longrightarrow>
      c \<in> set (connections ch) \<Longrightarrow> c \<in> set (connections ch') \<Longrightarrow> k = k' \<and> d = d'"
  shows "channels_ok s"
  unfolding channels_ok_def registered_def using assms by blast

lemma deliver_other: "(\<And>m. (c, m) \<notin> set ms) \<Longrightarrow> channel.deliver ms sent c = sent c"
  by (auto simp: channel.deliver_def filter_empty_conv)

lemma current_cong:
  "(\<And>c. c \<in> set (connections ch) \<Longrightarrow> sent' c = sent c) \<Longrightarrow> channel.current sent ch \<Longrightarrow> channel.current sent' ch"
  by (simp add: channel.current_def)

lemma current_nonempty: "channel.current sent ch \<Longrightarrow> c \<in> set (connections ch) \<Longrightarrow> sent c \<noteq> []"
  by (simp add: channel.current_def)

lemma Notify_targets:
  "Notify sdkClient key ch = (ch', ms, n) \<Longrightarrow>
   connections ch' = connections ch \<and> (\<forall>c m. (c, m) \<in> set ms \<longrightarrow> c \<in> set (connections ch))"
  using channel.notify [of sdkClient key ch ch' ms n] by auto

lemma notify_one_ok:
  assumes ok: "channels_ok s"
  shows "channels_ok (fst (notify_one k d s))" and "registered (fst (notify_one k d s)) = registered s"
proof -
  let ?s = "fst (notify_one k d s)"
  note D = channels_okD [OF ok]
  have "channels_ok ?s \<and> registered ?s = registered s"
  proof (cases "chan_at s k d")
    case None
    then show ?thesis using ok by (simp add: notify_one_None)
  next
    case (Some ch)
    obtain ch' ms n where n: "Notify (st_client s) k ch = (ch', ms, n)" by (metis surj_pair)
    note tg = Notify_targets [OF n]
    have at: "chan_at ?s k' d' = (if k' = k \<and> d' = d then Some ch' else chan_at s k' d')" for k' d'
      by (simp add: chan_at_notify_one Some n)
    have sent: "st_sent ?s = channel.deliver ms (st_sent s)"
      using notify_one_Some [OF Some n] by (simp add: send_msgs_eq fun_eq_iff)
    have conns: "chan_at ?s k' d' = Some ch2 \<Longrightarrow> \<exists>ch1. chan_at s k' d' = Some ch1 \<and> connections ch2 = connections ch1"
      for k' d' ch2
      using at tg Some by (auto split: if_splits)
    have "registered ?s = registered s"
      unfolding registered_def using at tg Some by auto
    moreover have "channels_ok ?s"
    proof (rule channels_okI)
      show "st_channels ?s k' \<noteq> Some Map.empty" for k'
        using D(1) [of k'] Some n
        by (auto simp: notify_one_def chan_at_def fun_eq_iff split: option.splits if_splits)
      show "connections ch2 \<noteq> [] \<and> distinct (connections ch2)" if "chan_at ?s k' d' = Some ch2" for k' d' ch2
        using conns [OF that] D(2,3) by metis
      show "k' = k'' \<and> d' = d''"
        if "chan_at ?s k' d' = Some ch1" "chan_at ?s k'' d'' = Some ch2" "c \<in> set (connections ch1)"
          "c \<in> set (connections ch2)" for c k' d' ch1 k'' d'' ch2
        using conns [OF that(1)] conns [OF that(2)] that(3,4) D(5) by metis
      show "channel.current (st_sent ?s) ch2" if h: "chan_at ?s k' d' = Some ch2" for k' d' ch2
      proof (cases "k' = k \<and> d' = d")
        case True
        then show ?thesis
          using h at channel.current_notify [OF D(4) [OF Some] n] by (simp add: sent)
      next
        case False
        then have old: "chan_at s k' d' = Some ch2" using h at by auto
        have "st_sent ?s c = st_sent s c" if "c \<in> set (connections ch2)" for c
        proof -
          have "c \<notin> set (connections ch)" using D(5) [OF Some old _ that] False by blast
          then show ?thesis unfolding sent using tg by (intro deliver_other) blast
        qed
        then show ?thesis using current_cong [OF _ D(4) [OF old]] by blast
      qed
    qed
    ultimately show ?thesis by blast
  qed
  then show "channels_ok ?s" "registered ?s = registered s" by blast+
qed

lemma notify_loop_ok:
  "channels_ok s \<Longrightarrow> channels_ok (fst (notify_loop order s n)) \<and>
     registered (fst (notify_loop order s n)) = registered s \<and>
     st_connCount (fst (notify_loop order s n)) = st_connCount s \<and>
     st_client (fst (notify_loop order s n)) = st_client s"
proof (induction order arbitrary: s n)
  case (Cons kd order)
  obtain k d where kd: "kd = (k, d)" by fastforce
  show ?case
    using Cons.IH [OF notify_one_ok(1) [OF Cons.prems]] notify_one_ok(2) [OF Cons.prems]
    by (simp add: kd case_prod_beta)
qed simp

lemma add_ok:
  assumes ok: "channels_ok s" and fresh: "st_sent s (ce_conn e) = []"
  defines "s' \<equiv> addConnection e s"
  shows "channels_ok s'"
    and "registered s' = insert (ce_conn e, ce_key e, ce_discriminator e) (registered s)"
    and "(ce_conn e, k, d) \<notin> registered s"
proof -
  let ?c = "ce_conn e" and ?k = "ce_key e" and ?d = "ce_discriminator e"
  note D = channels_okD [OF ok]
  define ch0 where "ch0 = (case chan_at s ?k ?d of None \<Rightarrow> createChannel e (st_client s) | Some ch \<Rightarrow> ch)"
  have at: "chan_at s' k d = (if k = ?k \<and> d = ?d then Some (AddConnection ?c ch0) else chan_at s k d)" for k d
    by (simp add: s'_def chan_at_add ch0_def)
  have not_in: "?c \<notin> set (connections ch)" if "chan_at s k d = Some ch" for k d ch
    using current_nonempty [OF D(4) [OF that]] fresh by blast
  then show "(?c, k, d) \<notin> registered s" by (auto simp: registered_def)
  have ch0: "distinct (connections ch0)" "?c \<notin> set (connections ch0)" "channel.current (st_sent s) ch0"
    using D(3,4) not_in by (auto simp: ch0_def channel.current_def split: option.splits)
  have old0: "c \<in> set (connections ch0) \<Longrightarrow> chan_at s ?k ?d = Some ch0" for c
    by (auto simp: ch0_def split: option.splits)
  have sent: "st_sent s' = channel.deliver [(?c, LastPayload (AddConnection ?c ch0))] (st_sent s)"
    by (auto simp: s'_def addConnection_def Let_def send_msgs_eq fun_eq_iff ch0_def chan_at_def split: option.splits)
  show "registered s' = insert (?c, ?k, ?d) (registered s)"
  proof (intro set_eqI)
    fix x :: "nat \<times> string \<times> 64 word"
    obtain c k d where x: "x = (c, k, d)" by (metis surj_pair)
    show "x \<in> registered s' \<longleftrightarrow> x \<in> insert (?c, ?k, ?d) (registered s)"
      unfolding registered_def x using at old0 [of c]
      by (cases "k = ?k \<and> d = ?d") (auto simp: ch0_def split: option.splits)
  qed
  show "channels_ok s'"
  proof (rule channels_okI)
    show "st_channels s' k \<noteq> Some Map.empty" for k
      using D(1) [of k] by (auto simp: s'_def addConnection_def Let_def fun_eq_iff split: if_splits)
    show "connections ch \<noteq> [] \<and> distinct (connections ch)" if h: "chan_at s' k d = Some ch" for k d ch
    proof (cases "k = ?k \<and> d = ?d")
      case True
      then show ?thesis using h at ch0 by auto
    next
      case False
      then have "chan_at s k d = Some ch" using h at by auto
      then show ?thesis using D(2,3) by blast
    qed
    show "channel.current (st_sent s') ch" if h: "chan_at s' k d = Some ch" for k d ch
    proof (cases "k = ?k \<and> d = ?d")
      case True
      then show ?thesis using h at channel.current_add [OF ch0(3), of ?c] by (simp add: sent)
    next
      case False
      then have old: "chan_at s k d = Some ch" using h at by auto
      have "st_sent s' c = st_sent s c" if "c \<in> set (connections ch)" for c
        unfolding sent by (rule deliver_other) (use not_in [OF old] that in auto)
      then show ?thesis using current_cong [OF _ D(4) [OF old]] by blast
    qed
    have src: "c = ?c \<and> k = ?k \<and> d = ?d \<or> c \<noteq> ?c \<and> (\<exists>ch'. chan_at s k d = Some ch' \<and> c \<in> set (connections ch'))"
      if "chan_at s' k d = Some ch" "c \<in> set (connections ch)" for c k d ch
    proof (cases "k = ?k \<and> d = ?d")
      case True
      then show ?thesis using that at old0 [of c] ch0(2) by auto
    next
      case False
      then have "chan_at s k d = Some ch" using that(1) at by auto
      then show ?thesis using not_in that(2) by blast
    qed
    show "k = k' \<and> d = d'" if h: "chan_at s' k d = Some ch" "chan_at s' k' d' = Some ch'"
      "c \<in> set (connections ch)" "c \<in> set (connections ch')" for c k d ch k' d' ch'
      using src [OF h(1,3)] src [OF h(2,4)] D(5) by metis
  qed
qed

lemma remove_ok:
  fixes c :: nat and d :: "64 word" and key :: string
  assumes ok: "channels_ok s"
  defines "s' \<equiv> removeConnection c d key s"
  shows "channels_ok s'" and "registered s' = registered s - {(c, key, d)}"
proof -
  note D = channels_okD [OF ok]
  have sent: "st_sent s' = st_sent s"
    by (simp add: s'_def removeConnection_def Let_def split: option.splits)
  have at: "chan_at s' k d' = Some ch' \<longleftrightarrow>
      (if k = key \<and> d' = d then \<exists>ch. chan_at s k d' = Some ch \<and> ch' = RemoveConnection c ch \<and> connections ch' \<noteq> []
       else chan_at s k d' = Some ch')" for k d' ch'
    unfolding s'_def by (subst chan_at_remove) (auto split: option.splits)
  have src: "\<exists>ch. chan_at s k d' = Some ch \<and> (\<forall>x \<in> set (connections ch'). x \<in> set (connections ch))
      \<and> connections ch' \<noteq> [] \<and> distinct (connections ch') \<and> channel.current (st_sent s) ch'"
    if h: "chan_at s' k d' = Some ch'" for k d' ch'
  proof (cases "k = key \<and> d' = d")
    case True
    then obtain ch where ch: "chan_at s k d' = Some ch" "ch' = RemoveConnection c ch" "connections ch' \<noteq> []"
      using h at [of k d' ch'] by auto
    then show ?thesis
      using D(3,4) [OF ch(1)] channel.current_remove set_remove1_subset [of c "connections ch"]
      by (intro exI [of _ ch]) (auto intro: distinct_remove1)
  next
    case False
    then have "chan_at s k d' = Some ch'" using h at [of k d' ch'] by simp
    then show ?thesis using D(2-4) by blast
  qed
  show "registered s' = registered s - {(c, key, d)}"
  proof (intro set_eqI)
    fix x :: "nat \<times> string \<times> 64 word"
    obtain c' k' d' where x: "x = (c', k', d')" by (metis surj_pair)
    show "x \<in> registered s' \<longleftrightarrow> x \<in> registered s - {(c, key, d)}"
    proof (cases "k' = key \<and> d' = d")
      case True
      have "(\<exists>ch'. chan_at s' key d = Some ch' \<and> c' \<in> set (connections ch')) \<longleftrightarrow>
          (\<exists>ch. chan_at s key d = Some ch \<and> c' \<in> set (remove1 c (connections ch)))"
        using at [of key d] by auto
      also have "\<dots> \<longleftrightarrow> (\<exists>ch. chan_at s key d = Some ch \<and> c' \<in> set (connections ch) \<and> c' \<noteq> c)"
        using D(3) [of key d] set_remove1_eq by (cases "chan_at s key d") auto
      finally show ?thesis using True by (auto simp: registered_def x)
    next
      case False
      then have "chan_at s' k' d' = Some ch' \<longleftrightarrow> chan_at s k' d' = Some ch'" for ch'
        by (simp only: at False if_False)
      with False show ?thesis by (auto simp: registered_def x)
    qed
  qed
  show "channels_ok s'"
  proof (rule channels_okI)
    show "st_channels s' k \<noteq> Some Map.empty" for k
      using D(1) [of k] by (auto simp: s'_def removeConnection_def Let_def split: option.splits if_splits)
    show "connections ch' \<noteq> [] \<and> distinct (connections ch')" if "chan_at s' k d' = Some ch'" for k d' ch'
      using src [OF that] by blast
    show "channel.current (st_sent s') ch'" if "chan_at s' k d' = Some ch'" for k d' ch'
      unfolding sent using src [OF that] by blast
    show "k = k' \<and> d1 = d2" if h: "chan_at s' k d1 = Some ch" "chan_at s' k' d2 = Some ch'"
      "x \<in> set (connections ch)" "x \<in> set (connections ch')" for x k d1 ch k' d2 ch'
      using src [OF h(1)] src [OF h(2)] h(3,4) D(5) by metis
  qed
qed

lemma stream_step_inv:
  assumes inv: "stream_inv s" and ok: "stream_ok s e"
  shows "stream_inv (stream_step s e) \<and> registered (stream_step s e) = registered_step (registered s) e"
proof -
  have inv': "channels_ok s" "finite (registered s)" "st_connCount s = int (card (registered s))"
    using inv by (simp_all add: stream_inv_def)
  have upd: "channels_ok (t\<lparr>st_connCount := n\<rparr>) = channels_ok t" "registered (t\<lparr>st_connCount := n\<rparr>) = registered t"
    "channels_ok (t\<lparr>st_client := x\<rparr>) = channels_ok t" "registered (t\<lparr>st_client := x\<rparr>) = registered t" for t n x
    by (simp_all add: channels_ok_def registered_def chan_at_def)
  show ?thesis
  proof (cases e)
    case (Established es)
    have count: "st_connCount (addConnection es s) = st_connCount s" by (simp add: addConnection_def Let_def)
    have fresh: "st_sent s (ce_conn es) = []" using ok Established by simp
    from add_ok [OF inv'(1) fresh] show ?thesis
      using Established inv'(2,3) count by (simp add: stream_inv_def upd Let_def)
  next
    case (Closed c d key)
    have count: "st_connCount (removeConnection c d key s) = st_connCount s"
      by (simp add: removeConnection_def Let_def split: option.splits)
    have mem: "(c, key, d) \<in> registered s" using ok Closed by simp
    then have "card (registered s) > 0" using inv'(2) card_gt_0_iff by blast
    then have "int (card (registered s - {(c, key, d)})) = int (card (registered s)) - 1"
      using mem inv'(2) by (simp add: of_nat_diff)
    with remove_ok [OF inv'(1), of c d key] show ?thesis
      using Closed inv'(2,3) count by (simp add: stream_inv_def upd Let_def)
  next
    case (ConfigChanged order)
    then show ?thesis using notify_loop_ok [OF inv'(1), of order 0] inv'
      by (simp add: stream_inv_def notifyConnections_def)
  next
    case (ResetSdk x)
    then show ?thesis using inv' by (simp add: stream_inv_def upd)
  qed
qed

text \<open>The stream simulates the plain set of registered connections.\<close>

interpretation stream_machine: simulation stream_step stream_ok stream_inv registered registered_step
  by unfold_locales (use stream_step_inv in blast)+

lemma stream_inv_New: "stream_inv (NewStream c)"
proof -
  have "registered (NewStream c) = {}" by (auto simp: registered_def chan_at_def NewStream_def)
  then show ?thesis by (simp add: stream_inv_def channels_ok_def) (simp add: chan_at_def NewStream_def)
qed

subsection \<open>Every subscriber gets its own evaluation\<close>

text \<open>
  \<open>users c\<close> are the attributes connection \<open>c\<close> was created with. When the discriminator
  separates the users of a stream, a channel's user is the user of each of its connections.
\<close>

fun isolated_ok :: "(user_attrs \<Rightarrow> 64 word) \<Rightarrow> (nat \<Rightarrow> user_attrs) \<Rightarrow> stream \<Rightarrow> stream_op \<Rightarrow> bool" where
  "isolated_ok D users s (Established e) \<longleftrightarrow>
     ce_user e = users (ce_conn e) \<and> ce_discriminator e = D (users (ce_conn e))"
| "isolated_ok D users s _ \<longleftrightarrow> True"

definition isolated :: "(user_attrs \<Rightarrow> 64 word) \<Rightarrow> (nat \<Rightarrow> user_attrs) \<Rightarrow> stream \<Rightarrow> bool" where
  "isolated D users s \<longleftrightarrow> (\<forall>k d ch. chan_at s k d = Some ch \<longrightarrow>
     ch_user (holder ch) \<in> range users \<and> d = D (ch_user (holder ch)) \<and>
     (\<forall>c \<in> set (connections ch). users c = ch_user (holder ch)))"

lemma isolatedD:
  "isolated D users s \<Longrightarrow> chan_at s k d = Some ch \<Longrightarrow> ch_user (holder ch) \<in> range users"
  "isolated D users s \<Longrightarrow> chan_at s k d = Some ch \<Longrightarrow> d = D (ch_user (holder ch))"
  "isolated D users s \<Longrightarrow> chan_at s k d = Some ch \<Longrightarrow> c \<in> set (connections ch) \<Longrightarrow> users c = ch_user (holder ch)"
  unfolding isolated_def by blast+

lemma isolated_same:
  assumes "isolated D users s"
    and "\<And>k d ch'. chan_at s' k d = Some ch' \<Longrightarrow> \<exists>ch. chan_at s k d = Some ch \<and>
      ch_user (holder ch') = ch_user (holder ch) \<and> set (connections ch') \<subseteq> set (connections ch)"
  shows "isolated D users s'"
  unfolding isolated_def
proof (intro allI impI)
  fix k d ch' assume "chan_at s' k d = Some ch'"
  from assms(2) [OF this] isolatedD [OF assms(1)]
  show "ch_user (holder ch') \<in> range users \<and> d = D (ch_user (holder ch')) \<and>
     (\<forall>c \<in> set (connections ch'). users c = ch_user (holder ch'))" by fastforce
qed

lemma isolated_notify_one:
  assumes "isolated D users s"
  shows "isolated D users (fst (notify_one k d s))"
proof (rule isolated_same [OF assms])
  fix k' d' ch' assume h: "chan_at (fst (notify_one k d s)) k' d' = Some ch'"
  show "\<exists>ch. chan_at s k' d' = Some ch \<and> ch_user (holder ch') = ch_user (holder ch) \<and>
      set (connections ch') \<subseteq> set (connections ch)"
  proof (cases "k' = k \<and> d' = d")
    case True
    then obtain ch where ch: "chan_at s k d = Some ch" "ch' = fst (Notify (st_client s) k ch)"
      using h by (auto simp: chan_at_notify_one)
    obtain r where "Notify (st_client s) k ch = (ch', r)" using ch(2) by (metis prod.collapse)
    with ch True show ?thesis using Notify_targets by (cases r) auto
  next
    case False
    then show ?thesis using h by (auto simp: chan_at_notify_one)
  qed
qed

lemma isolated_step:
  assumes sep: "inj_on D (range users)" and iso: "isolated D users s" and ok: "isolated_ok D users s e"
  shows "isolated D users (stream_step s e)"
proof (cases e)
  case (Established es)
  let ?c = "ce_conn es"
  have e: "ce_user es = users ?c" "ce_discriminator es = D (users ?c)" using ok Established by auto
  define ch0 where "ch0 = (case chan_at s (ce_key es) (ce_discriminator es) of
      None \<Rightarrow> createChannel es (st_client s) | Some ch \<Rightarrow> ch)"
  have user0: "ch_user (holder ch0) = users ?c \<and> (\<forall>c \<in> set (connections ch0). users c = users ?c)"
  proof (cases "chan_at s (ce_key es) (ce_discriminator es)")
    case None
    then show ?thesis by (simp add: ch0_def e)
  next
    case (Some ch)
    have "D (ch_user (holder ch)) = D (users ?c)" using isolatedD(2) [OF iso Some] e by simp
    then have "ch_user (holder ch) = users ?c"
      using sep isolatedD(1) [OF iso Some] by (auto dest: inj_onD)
    then show ?thesis using isolatedD(3) [OF iso Some] Some by (simp add: ch0_def)
  qed
  have at: "chan_at (stream_step s e) k d =
      (if k = ce_key es \<and> d = ce_discriminator es then Some (AddConnection ?c ch0) else chan_at s k d)" for k d
  proof -
    have "chan_at (t\<lparr>st_connCount := n\<rparr>) k d = chan_at t k d" for t n by (simp add: chan_at_def)
    then show ?thesis by (simp add: Established Let_def chan_at_add ch0_def)
  qed
  show ?thesis
    unfolding isolated_def
  proof (intro allI impI)
    fix k d ch assume h: "chan_at (stream_step s e) k d = Some ch"
    show "ch_user (holder ch) \<in> range users \<and> d = D (ch_user (holder ch)) \<and>
       (\<forall>c \<in> set (connections ch). users c = ch_user (holder ch))"
    proof (cases "k = ce_key es \<and> d = ce_discriminator es")
      case True
      then have "ch = AddConnection ?c ch0" using h at by simp
      then show ?thesis using True user0 e by auto
    next
      case False
      then have "chan_at s k d = Some ch" using h at by auto
      then show ?thesis using isolatedD [OF iso] by blast
    qed
  qed
next
  case (Closed c d key)
  show ?thesis
  proof (rule isolated_same [OF iso])
    fix k' d' ch' assume h: "chan_at (stream_step s e) k' d' = Some ch'"
    have "chan_at (removeConnection c d key s) k' d' = Some ch'"
      using h by (simp add: Closed Let_def chan_at_def)
    then show "\<exists>ch. chan_at s k' d' = Some ch \<and> ch_user (holder ch') = ch_user (holder ch) \<and>
        set (connections ch') \<subseteq> set (connections ch)"
      using set_remove1_subset by (auto simp: chan_at_remove split: if_splits option.splits) fastforce+
  qed
next
  case (ConfigChanged order)
  have "isolated D users (fst (notify_loop order s n))" for n
    using iso
  proof (induction order arbitrary: s n)
    case (Cons kd order)
    then show ?case using isolated_notify_one by (cases kd) (simp add: case_prod_beta)
  qed simp
  then show ?thesis by (simp add: ConfigChanged notifyConnections_def)
next
  case (ResetSdk x)
  then show ?thesis using iso by (simp add: isolated_def chan_at_def)
qed

subsection \<open>A configuration change reaches every connection\<close>

lemma chan_at_notify_loop:
  "distinct order \<Longrightarrow> chan_at (fst (notify_loop order s n)) k d =
     (if (k, d) \<in> set order then map_option (fst \<circ> Notify (st_client s) k) (chan_at s k d) else chan_at s k d)"
proof (induction order arbitrary: s n)
  case (Cons kd order)
  then show ?case by (cases kd) (auto simp: case_prod_beta chan_at_notify_one comp_def)
qed simp

definition covers :: "(string \<times> 64 word) list \<Rightarrow> stream \<Rightarrow> bool" where
  "covers order s \<longleftrightarrow> distinct order \<and> (\<forall>k d. chan_at s k d \<noteq> None \<longrightarrow> (k, d) \<in> set order)"

lemma evaluates_cong:
  "Notify c k ch = (ch', r) \<Longrightarrow> evaluates c k ch' \<longleftrightarrow> evaluates c k ch"
  by (cases ch) (auto simp: Notify_single_def Notify_all_def Let_def split: if_splits)

lemma notify_up_to_date:
  assumes "covers order s" and at: "chan_at (notifyConnections order s) k d = Some ch'"
    and "evaluates (st_client s) k ch'"
  shows "up_to_date (st_client s) k ch'"
proof -
  have "distinct order" using assms(1) by (simp add: covers_def)
  note eq = chan_at_notify_loop [OF this, of s 0 k d]
  have "(k, d) \<in> set order"
    using at eq assms(1) by (cases "(k, d) \<in> set order") (auto simp: notifyConnections_def covers_def)
  then obtain ch where ch: "chan_at s k d = Some ch" "ch' = fst (Notify (st_client s) k ch)"
    using at eq by (auto simp: notifyConnections_def)
  obtain r where n: "Notify (st_client s) k ch = (ch', r)" using ch(2) by (metis prod.collapse)
  show ?thesis by (rule Notify_up_to_date [OF _ n]) (use assms(3) evaluates_cong [OF n] in simp)
qed

section \<open>Properties\<close>

text \<open>A client for the examples: every flag evaluates to the user's attribute \<open>groups\<close>.\<close>

definition echo_details :: "user_attrs \<Rightarrow> string \<Rightarrow> details" where
  "echo_details u k = \<lparr>dt_Key = k, dt_Value = GetAttribute u ''groups'', dt_VariationID = [], dt_User = u,
     dt_Error = None, dt_MatchedPercentageOption = False, dt_MatchedTargetingRule = True\<rparr>"

definition echo_client :: client where
  "echo_client = NewClient (\<lambda>k. k) \<lparr>en_ConfigJson = ''x'', en_ETag = ''e'', en_FetchTime = 0, en_Empty = False\<rparr>
     \<lparr>sn_GetValueDetails = echo_details, sn_GetAllValueDetails = (\<lambda>u. [echo_details u ''flag'']),
      sn_GetAllKeys = [''flag'']\<rparr>
     \<lparr>cx_SdkId = ''main'', cx_SecondarySdkKey = None, cx_SDKConf = zero_sdk, cx_GlobalDefaultAttrs = None,
      cx_ExternalCache = False, cx_EvalReporter = False\<rparr>"

definition conn_of :: "nat \<Rightarrow> 64 word \<Rightarrow> conn_established" where
  "conn_of c d = \<lparr>ce_conn = c, ce_discriminator = d,
     ce_user = Some [''groups'' \<mapsto> VString (if d = 1 then ''a'' else ''b'')], ce_key = ''flag''\<rparr>"

interpretation isolation: invariant_machine stream_step "isolated_ok D users"
    "\<lambda>s. inj_on D (range users) \<and> isolated D users s" for D users
  by unfold_locales (auto intro: isolated_step)

lemma isolated_New: "isolated D users (NewStream c)"
  by (simp add: isolated_def chan_at_def NewStream_def)

lemma run_stream:
  assumes "admissible stream_step stream_ok (NewStream c) es"
  shows "stream_inv (run_ops stream_step (NewStream c) es)"
    and "registered (run_ops stream_step (NewStream c) es) = run_ops registered_step {} es"
proof -
  show "stream_inv (run_ops stream_step (NewStream c) es)"
    by (rule stream_machine.run_inv [OF stream_inv_New assms])
  have "registered (NewStream c) = {}" by (auto simp: registered_def chan_at_def NewStream_def)
  then show "registered (run_ops stream_step (NewStream c) es) = run_ops registered_step {} es"
    using stream_machine.run_sim [OF stream_inv_New assms] by simp
qed

text \<open>
  C7: after any sequence of events of a stream, the registered connections are exactly those
  that were established and not closed, the connection counter is their number, no channel is
  left without a connection, and the last message every connection was sent is the last payload
  of its channel.
\<close>

theorem stream_runs:
  assumes "admissible stream_step stream_ok (NewStream c) es"
  shows "let s = run_ops stream_step (NewStream c) es in
    registered s = run_ops registered_step {} es \<and> st_connCount s = int (card (registered s))
    \<and> (\<forall>k d ch. chan_at s k d = Some ch \<longrightarrow> connections ch \<noteq> [] \<and>
        (\<forall>conn \<in> set (connections ch). st_sent s conn \<noteq> [] \<and> last (st_sent s conn) = LastPayload ch))"
proof -
  define s where "s = run_ops stream_step (NewStream c) es"
  have inv: "stream_inv s" and reg: "registered s = run_ops registered_step {} es"
    using run_stream [OF assms] by (simp_all add: s_def)
  then have "channels_ok s" "st_connCount s = int (card (registered s))" by (simp_all add: stream_inv_def)
  moreover from this have "connections ch \<noteq> [] \<and> channel.current (st_sent s) ch" if "chan_at s k d = Some ch" for k d ch
    using that channels_okD by blast
  ultimately show ?thesis
    unfolding s_def [symmetric] Let_def using reg by (simp add: channel.current_def)
qed

theorem stream_runs_witness:
  "st_connCount (run_ops stream_step (NewStream echo_client)
     [Established (conn_of 0 1), Established (conn_of 1 2), Closed 0 1 ''flag'']) = 1"
proof -
  let ?es = "[Established (conn_of 0 1), Established (conn_of 1 2), Closed 0 1 ''flag'']"
  have "admissible stream_step stream_ok (NewStream echo_client) ?es"
    by (auto simp: NewStream_def conn_of_def addConnection_def createChannel_def AllFlagsDiscriminator_def
        send_msgs_def registered_def chan_at_def Let_def AddConnection_def)
  note f = stream_runs [OF this, unfolded Let_def]
  have "run_ops registered_step {} ?es = {(1, ''flag'', 2)}" by (auto simp: conn_of_def)
  with f have "registered (run_ops stream_step (NewStream echo_client) ?es) = {(1, ''flag'', 2)}" by metis
  with f have "st_connCount (run_ops stream_step (NewStream echo_client) ?es) = int (card {(1 :: nat, ''flag'', 2 :: 64 word)})"
    by metis
  then show ?thesis by (simp del: run_ops_Cons)
qed

text \<open>
  When a stream handles a configuration change, every registered connection keeps its
  channel, the last message it was sent is the last payload of that channel, and that payload is
  the evaluation of the flag by the stream's current client for the channel's user, unless the
  evaluation fails. \<open>order\<close> is any order that visits every channel.
\<close>

lemma change_reaches_connections:
  assumes "admissible stream_step stream_ok (NewStream c) es" and "s = run_ops stream_step (NewStream c) es"
    and "covers order s" and "(conn, k, d) \<in> registered s"
  shows "\<exists>ch. chan_at (stream_step s (ConfigChanged order)) k d = Some ch \<and> conn \<in> set (connections ch)
    \<and> last (st_sent (stream_step s (ConfigChanged order)) conn) = LastPayload ch
    \<and> (evaluates (st_client s) k ch \<longrightarrow> up_to_date (st_client s) k ch)"
proof -
  let ?s = "stream_step s (ConfigChanged order)"
  have inv: "stream_inv s" using run_stream [OF assms(1)] assms(2) by simp
  have step: "stream_inv ?s" "registered ?s = registered s"
    using stream_step_inv [OF inv, of "ConfigChanged order"] by auto
  then have "(conn, k, d) \<in> registered ?s" using assms(4) by (simp only:)
  then obtain ch where ch: "chan_at ?s k d = Some ch" "conn \<in> set (connections ch)"
    unfolding registered_def by blast
  have "channel.current (st_sent ?s) ch"
    using step(1) ch(1) channels_okD(4) unfolding stream_inv_def by blast
  moreover have "evaluates (st_client s) k ch \<longrightarrow> up_to_date (st_client s) k ch"
    using notify_up_to_date [OF assms(3)] ch(1) by simp
  ultimately show ?thesis using ch by (auto simp: channel.current_def)
qed

text \<open>
  C11: users do not see each other's evaluations: as long as the discriminator separates the users
  of a stream, the channel of a registered connection evaluates for the user this connection was
  created with.
\<close>

theorem users_isolated:
  assumes "inj_on D (range users)" and "admissible stream_step (isolated_ok D users) (NewStream c) es"
    and "s = run_ops stream_step (NewStream c) es" and "(conn, k, d) \<in> registered s"
  shows "\<exists>ch. chan_at s k d = Some ch \<and> conn \<in> set (connections ch) \<and> ch_user (holder ch) = users conn"
proof -
  have "inj_on D (range users) \<and> isolated D users s"
    unfolding assms(3) by (rule isolation.run_inv) (simp_all add: assms(1,2) isolated_New)
  moreover obtain ch where "chan_at s k d = Some ch" "conn \<in> set (connections ch)"
    using assms(4) by (auto simp: registered_def)
  ultimately show ?thesis using isolatedD(3) by fastforce
qed

theorem users_isolated_witness:
  "\<exists>ch. chan_at (run_ops stream_step (NewStream echo_client) [Established (conn_of 0 1), Established (conn_of 1 2)])
     ''flag'' 2 = Some ch \<and> ch_user (holder ch) = Some [''groups'' \<mapsto> VString ''b'']"
proof -
  let ?D = "\<lambda>u. if u = Some [''groups'' \<mapsto> VString ''a''] then 1 else 2 :: 64 word"
  let ?users = "\<lambda>c. if c = 0 then Some [''groups'' \<mapsto> VString ''a''] else Some [''groups'' \<mapsto> VString ''b''] :: user_attrs"
  let ?es = "[Established (conn_of 0 1), Established (conn_of 1 2)]"
  let ?s = "run_ops stream_step (NewStream echo_client) ?es"
  have inj: "inj_on ?D (range ?users)"
    by (auto simp: inj_on_def fun_eq_iff)
  have ok: "admissible stream_step (isolated_ok ?D ?users) (NewStream echo_client) ?es"
    by (simp add: conn_of_def fun_eq_iff)
  have a: "admissible stream_step stream_ok (NewStream echo_client) ?es"
    by (simp add: NewStream_def conn_of_def addConnection_def send_msgs_def Let_def)
  have "registered ?s = run_ops registered_step {} ?es" using run_stream(2) [OF a] .
  then have "(1, ''flag'', 2) \<in> registered ?s" by (simp add: conn_of_def)
  from users_isolated [OF inj ok refl this] show ?thesis by auto
qed

text \<open>
  C34: the discriminator does not separate users that differ only in an attribute that is a list
  of strings: the second of two such users is sent the evaluation made for the first one.
\<close>

theorem string_lists_share_channel:
  "let e0 = CreateConnection hash fmtf ks 0 key (Some (m(k \<mapsto> VStrList xs)));
       e1 = CreateConnection hash fmtf ks 1 key (Some (m(k \<mapsto> VStrList ys)));
       s = run_ops stream_step (NewStream c) [Established e0, Established e1]
   in ce_discriminator e0 = ce_discriminator e1 \<and> st_sent s 1 = [LastPayload (createChannel e0 c)]"
proof -
  have "Discriminator hash fmtf ks (Some (m(k \<mapsto> VStrList xs))) =
      Discriminator hash fmtf ks (Some (m(k \<mapsto> VStrList ys)))"
    by (simp add: Discriminator_def) (rule disc_loop_cong, simp)
  then show ?thesis
    by (simp add: CreateConnection_def addConnection_def NewStream_def send_msgs_def Let_def)
qed

end
