(* ===== verification/StreamServer.thy ===== *)
theory StreamServer
  imports AutoRegistrar Stream
begin

text \<open>
  \<open>stream/server.go\<close>: one stream per SDK, found by the SDK's identifier or by one of its keys,
  kept in step with the registrar by the identifiers it publishes. Streams live at addresses of
  \<open>ss_objs\<close>; a stream points to its client by the client's address in the registrar, because the
  registrar changes the keys of a client in place. What happens inside a stream is the theory
  \<open>Stream\<close>.
\<close>

section \<open>Definitions\<close>

record str_obj =
  so_sdkId :: string
  so_client :: nat
  so_closed :: bool

record stream_server =
  ss_streams :: "string \<rightharpoonup> nat"
  ss_streamsBySdkKey :: "string \<rightharpoonup> nat"
  ss_objs :: "str_obj list"

definition new_str :: "string \<Rightarrow> nat \<Rightarrow> str_obj" where
  "new_str sdkId a = \<lparr>so_sdkId = sdkId, so_client = a, so_closed = False\<rparr>"

text \<open>\<open>SdkKeys\<close> of the stream at an address, read through its client.\<close>

definition str_SdkKeys :: "client list \<Rightarrow> stream_server \<Rightarrow> nat \<Rightarrow> string \<times> string option" where
  "str_SdkKeys heap sv s = SdkKeys (heap ! so_client (ss_objs sv ! s))"

definition store_str_keys :: "string \<times> string option \<Rightarrow> nat \<Rightarrow> (string \<rightharpoonup> nat) \<Rightarrow> (string \<rightharpoonup> nat)" where
  "store_str_keys ks s m =
     (let m1 = (if fst ks \<noteq> [] then m(fst ks \<mapsto> s) else m)
      in case snd ks of None \<Rightarrow> m1 | Some k2 \<Rightarrow> if k2 \<noteq> [] then m1(k2 \<mapsto> s) else m1)"

definition add_stream :: "client list \<Rightarrow> string \<times> nat \<Rightarrow> stream_server \<Rightarrow> stream_server" where
  "add_stream heap ia sv =
     (case ia of (i, a) \<Rightarrow>
        (let s = length (ss_objs sv); objs = ss_objs sv @ [new_str i a]
         in \<lparr>ss_streams = (ss_streams sv)(i \<mapsto> s),
             ss_streamsBySdkKey = store_str_keys (SdkKeys (heap ! a)) s (ss_streamsBySdkKey sv),
             ss_objs = objs\<rparr>))"

text \<open>\<open>NewServer\<close> over the clients of \<open>GetAll\<close> in iteration order.\<close>

definition NewServer :: "client list \<Rightarrow> (string \<times> nat) list \<Rightarrow> stream_server" where
  "NewServer heap all =
     foldl (\<lambda>sv ia. add_stream heap ia sv)
       \<lparr>ss_streams = Map.empty, ss_streamsBySdkKey = Map.empty, ss_objs = []\<rparr> all"

definition close_str :: "nat \<Rightarrow> str_obj list \<Rightarrow> str_obj list" where
  "close_str s objs = objs[s := (objs ! s)\<lparr>so_closed := True\<rparr>]"

text \<open>\<open>handleSdkId\<close>; \<open>get\<close> is the registrar's \<open>GetSdkOrNil\<close> and \<open>heap\<close> its clients.\<close>

definition handleSdkId :: "(string \<Rightarrow> nat option) \<Rightarrow> client list \<Rightarrow> string \<Rightarrow> stream_server \<Rightarrow> stream_server" where
  "handleSdkId get heap sdkId sv =
     (case get sdkId of
        Some a \<Rightarrow>
          (case ss_streams sv sdkId of
             None \<Rightarrow> add_stream heap (sdkId, a) sv
           | Some s \<Rightarrow>
               (let m1 = delete_keys (str_SdkKeys heap sv s) (ss_streamsBySdkKey sv);
                    objs = (ss_objs sv)[s := (ss_objs sv ! s)\<lparr>so_client := a\<rparr>]
                in sv\<lparr>ss_objs := objs,
                      ss_streamsBySdkKey := store_str_keys (SdkKeys (heap ! a)) s m1\<rparr>))
      | None \<Rightarrow>
          (case ss_streams sv sdkId of
             None \<Rightarrow> sv
           | Some s \<Rightarrow>
               sv\<lparr>ss_streams := (ss_streams sv)(sdkId := None),
                  ss_streamsBySdkKey := delete_keys (str_SdkKeys heap sv s) (ss_streamsBySdkKey sv),
                  ss_objs := close_str s (ss_objs sv)\<rparr>))"

text \<open>\<open>run\<close>: the published identifiers are handled one after the other.\<close>

definition handle_all :: "(string \<Rightarrow> nat option) \<Rightarrow> client list \<Rightarrow> string list \<Rightarrow> stream_server \<Rightarrow> stream_server" where
  "handle_all get heap ids sv = foldl (\<lambda>sv i. handleSdkId get heap i sv) sv ids"

definition GetStreamOrNil :: "stream_server \<Rightarrow> string \<Rightarrow> nat option" where
  "GetStreamOrNil sv sdkId = ss_streams sv sdkId"

definition GetStreamBySdkKeyOrNil :: "stream_server \<Rightarrow> string \<Rightarrow> nat option" where
  "GetStreamBySdkKeyOrNil sv sdkKey = ss_streamsBySdkKey sv sdkKey"

text \<open>\<open>Close\<close> over the streams in iteration order.\<close>

fun close_streams :: "string list \<Rightarrow> stream_server \<Rightarrow> stream_server" where
  "close_streams [] sv = sv"
| "close_streams (k # ks) sv =
     (case ss_streams sv k of
        None \<Rightarrow> close_streams ks sv
      | Some s \<Rightarrow> close_streams ks (sv\<lparr>ss_objs := close_str s (ss_objs sv), ss_streams := (ss_streams sv)(k := None)\<rparr>))"

definition server_Close :: "string list \<Rightarrow> stream_server \<Rightarrow> stream_server" where
  "server_Close ks sv = (close_streams ks sv)\<lparr>ss_streamsBySdkKey := Map.empty\<rparr>"

section \<open>Lemmas\<close>

lemma store_str_keys_eq:
  "k \<noteq> [] \<Longrightarrow> store_str_keys (SdkKeys c) s m k = (if k \<in> keys_of_client c then Some s else m k)"
  by (auto simp: store_str_keys_def keys_of_client_def Let_def split: option.splits)

lemma str_keys_nil:
  "store_str_keys ks s m [] = m []" "delete_keys ks m [] = m []"
  by (auto simp: store_str_keys_def delete_keys_def delete_key_def Let_def split: option.splits)

lemma keys_nonempty: "k \<in> keys_of_client c \<Longrightarrow> k \<noteq> []" by (simp add: keys_of_client_def)

subsection \<open>The server follows the registrar\<close>

text \<open>
  \<open>C i\<close> are the clients SDK \<open>i\<close> has over the time considered; the keys of two SDKs differ.
  Every stream of the server is open, belongs to its SDK and has exactly the keys of its client.
\<close>

definition keys_apart :: "client list \<Rightarrow> (string \<Rightarrow> nat set) \<Rightarrow> bool" where
  "keys_apart heap C \<longleftrightarrow> (\<forall>i j a b. i \<noteq> j \<and> a \<in> C i \<and> b \<in> C j \<longrightarrow>
     keys_of_client (heap ! a) \<inter> keys_of_client (heap ! b) = {})"

definition server_inv :: "client list \<Rightarrow> (string \<Rightarrow> nat set) \<Rightarrow> stream_server \<Rightarrow> bool" where
  "server_inv heap C sv \<longleftrightarrow>
     (\<forall>i s. ss_streams sv i = Some s \<longrightarrow> s < length (ss_objs sv) \<and> so_sdkId (ss_objs sv ! s) = i \<and>
        \<not> so_closed (ss_objs sv ! s) \<and> so_client (ss_objs sv ! s) \<in> C i \<and>
        (\<forall>k. ss_streamsBySdkKey sv k = Some s \<longleftrightarrow> k \<in> keys_of_client (heap ! so_client (ss_objs sv ! s))))
     \<and> (\<forall>k s. ss_streamsBySdkKey sv k = Some s \<longrightarrow> (\<exists>i. ss_streams sv i = Some s))"

definition synced :: "(string \<Rightarrow> nat option) \<Rightarrow> stream_server \<Rightarrow> string \<Rightarrow> bool" where
  "synced get sv i \<longleftrightarrow>
     get i = map_option (\<lambda>s. so_client (ss_objs sv ! s)) (ss_streams sv i)"

lemma server_invD:
  assumes "server_inv heap C sv"
  shows "ss_streams sv i = Some s \<Longrightarrow> s < length (ss_objs sv)"
    and "ss_streams sv i = Some s \<Longrightarrow> so_sdkId (ss_objs sv ! s) = i"
    and "ss_streams sv i = Some s \<Longrightarrow> \<not> so_closed (ss_objs sv ! s)"
    and "ss_streams sv i = Some s \<Longrightarrow> so_client (ss_objs sv ! s) \<in> C i"
    and "ss_streams sv i = Some s \<Longrightarrow>
      ss_streamsBySdkKey sv k = Some s \<longleftrightarrow> k \<in> keys_of_client (heap ! so_client (ss_objs sv ! s))"
    and "ss_streamsBySdkKey sv k = Some s \<Longrightarrow> \<exists>i. ss_streams sv i = Some s"
  using assms unfolding server_inv_def by blast+

lemma server_invI:
  assumes "\<And>i s. ss_streams sv i = Some s \<Longrightarrow> s < length (ss_objs sv) \<and> so_sdkId (ss_objs sv ! s) = i \<and>
      \<not> so_closed (ss_objs sv ! s) \<and> so_client (ss_objs sv ! s) \<in> C i"
    and "\<And>i s k. ss_streams sv i = Some s \<Longrightarrow>
      ss_streamsBySdkKey sv k = Some s \<longleftrightarrow> k \<in> keys_of_client (heap ! so_client (ss_objs sv ! s))"
    and "\<And>k s. ss_streamsBySdkKey sv k = Some s \<Longrightarrow> \<exists>i. ss_streams sv i = Some s"
  shows "server_inv heap C sv"
  unfolding server_inv_def using assms by blast

lemma inv_key:
  assumes "server_inv heap C sv"
  shows "ss_streamsBySdkKey sv k = Some s \<longleftrightarrow>
    (\<exists>i. ss_streams sv i = Some s \<and> k \<in> keys_of_client (heap ! so_client (ss_objs sv ! s)))"
  using server_invD(5,6) [OF assms] by blast

lemma inv_stream_inj:
  assumes "server_inv heap C sv" "ss_streams sv i = Some s" "ss_streams sv j = Some s"
  shows "i = j"
  using server_invD(2) [OF assms(1)] assms(2,3) by metis

text \<open>What handling one identifier does, stated per SDK.\<close>

lemma handle_frame:
  assumes "server_inv heap C sv" "j \<noteq> i"
  shows "ss_streams (handleSdkId get heap i sv) j = ss_streams sv j"
    and "ss_streams sv j = Some s \<Longrightarrow> ss_objs (handleSdkId get heap i sv) ! s = ss_objs sv ! s"
proof -
  show "ss_streams (handleSdkId get heap i sv) j = ss_streams sv j"
    using assms(2) by (auto simp: handleSdkId_def add_stream_def Let_def split: option.splits)
  show "ss_objs (handleSdkId get heap i sv) ! s = ss_objs sv ! s" if "ss_streams sv j = Some s"
  proof -
    have "s < length (ss_objs sv)" by (rule server_invD(1) [OF assms(1) that])
    moreover have "ss_streams sv i = Some s' \<Longrightarrow> s' \<noteq> s" for s'
      using inv_stream_inj [OF assms(1) that] assms(2) by metis
    ultimately show ?thesis
      by (auto simp: handleSdkId_def add_stream_def close_str_def Let_def nth_append split: option.splits)
  qed
qed

lemma handle_synced: "server_inv heap C sv \<Longrightarrow> synced get (handleSdkId get heap i sv) i"
  using server_invD(1) [of heap C sv i]
  by (auto simp: synced_def handleSdkId_def add_stream_def new_str_def Let_def split: option.splits)

lemma handle_synced_other:
  assumes "server_inv heap C sv" "j \<noteq> i" "synced get sv j"
  shows "synced get (handleSdkId get' heap i sv) j"
  using handle_frame [OF assms(1,2)] assms(3)
  by (cases "ss_streams sv j") (auto simp: synced_def)

text \<open>The invariant after an operation that replaces the stream of SDK \<open>i\<close> by \<open>g\<close>.\<close>

definition client_keys_at :: "client list \<Rightarrow> stream_server \<Rightarrow> nat option \<Rightarrow> string set" where
  "client_keys_at heap sv g =
     (case g of None \<Rightarrow> {} | Some s \<Rightarrow> keys_of_client (heap ! so_client (ss_objs sv ! s)))"

lemma server_inv_update:
  assumes inv: "server_inv heap C sv" and apart: "keys_apart heap C"
    and streams: "ss_streams sv' = (ss_streams sv)(i := g)"
    and frame: "\<And>j s. j \<noteq> i \<Longrightarrow> ss_streams sv j = Some s \<Longrightarrow> ss_objs sv' ! s = ss_objs sv ! s"
    and len: "length (ss_objs sv) \<le> length (ss_objs sv')"
    and g: "\<And>s. g = Some s \<Longrightarrow> s < length (ss_objs sv') \<and> so_sdkId (ss_objs sv' ! s) = i \<and>
      \<not> so_closed (ss_objs sv' ! s) \<and> so_client (ss_objs sv' ! s) \<in> C i \<and>
      (ss_streams sv i = Some s \<or> s = length (ss_objs sv))"
    and keys: "\<And>k. ss_streamsBySdkKey sv' k =
      (if k \<in> client_keys_at heap sv' g then g
       else if k \<in> client_keys_at heap sv (ss_streams sv i) then None else ss_streamsBySdkKey sv k)"
  shows "server_inv heap C sv'"
proof (rule server_invI)
  note D = server_invD [OF inv]
  show "s < length (ss_objs sv') \<and> so_sdkId (ss_objs sv' ! s) = j \<and> \<not> so_closed (ss_objs sv' ! s)
      \<and> so_client (ss_objs sv' ! s) \<in> C j" if "ss_streams sv' j = Some s" for j s
    using that g frame [of j s] D(1-4) [of j s] len by (cases "j = i") (auto simp: streams)
  have old: "ss_streamsBySdkKey sv k = Some s \<Longrightarrow> ss_streams sv i = Some s \<Longrightarrow>
      k \<in> client_keys_at heap sv (ss_streams sv i)" for k s
    using D(5) by (simp add: client_keys_at_def)
  show "ss_streamsBySdkKey sv' k = Some s \<longleftrightarrow> k \<in> keys_of_client (heap ! so_client (ss_objs sv' ! s))"
    if st: "ss_streams sv' j = Some s" for j s k
  proof (cases "j = i")
    case True
    then have gs: "g = Some s" using st streams by simp
    have "\<not> (ss_streamsBySdkKey sv k = Some s \<and> k \<notin> client_keys_at heap sv (ss_streams sv i))"
      using g [OF gs] old [of k s] D(6) [of k s] D(1) by auto
    then show ?thesis using keys [of k] by (auto simp: gs client_keys_at_def)
  next
    case False
    then have sj: "ss_streams sv j = Some s" using st streams by simp
    have ne: "g \<noteq> Some s" "ss_streams sv i \<noteq> Some s"
      using g [of s] D(1) [OF sj] inv_stream_inj [OF inv sj, of i] False by auto
    have sep: "k \<notin> client_keys_at heap sv' g \<and> k \<notin> client_keys_at heap sv (ss_streams sv i)"
      if "k \<in> keys_of_client (heap ! so_client (ss_objs sv ! s))"
    proof -
      have "a \<in> C i \<Longrightarrow> k \<notin> keys_of_client (heap ! a)" for a
        using apart False D(4) [OF sj] that unfolding keys_apart_def by blast
      then show ?thesis using g D(4) [of i] by (auto simp: client_keys_at_def split: option.splits)
    qed
    show ?thesis
      using keys [of k] sep ne D(5) [OF sj, of k] frame [OF False sj] by (auto split: if_splits)
  qed
  show "\<exists>j. ss_streams sv' j = Some s" if "ss_streamsBySdkKey sv' k = Some s" for k s
  proof (cases "g = Some s")
    case True
    then show ?thesis using streams by auto
  next
    case False
    then have k: "ss_streamsBySdkKey sv k = Some s" "k \<notin> client_keys_at heap sv (ss_streams sv i)"
      using that keys [of k] by (auto split: if_splits)
    from D(6) [OF k(1)] obtain j where j: "ss_streams sv j = Some s" by blast
    moreover have "j \<noteq> i" using old [OF k(1)] k(2) j by auto
    ultimately show ?thesis using streams by (intro exI [of _ j]) simp
  qed
qed

lemma handle_inv:
  assumes inv: "server_inv heap C sv" and apart: "keys_apart heap C"
    and get: "\<And>a. get i = Some a \<Longrightarrow> a \<in> C i"
  shows "server_inv heap C (handleSdkId get heap i sv)"
proof (rule server_inv_update [OF inv apart, where i = i and g = "ss_streams (handleSdkId get heap i sv) i"])
  let ?sv = "handleSdkId get heap i sv"
  note D = server_invD [OF inv]
  show "ss_streams ?sv = (ss_streams sv)(i := ss_streams ?sv i)"
    using handle_frame(1) [OF inv] by (auto simp: fun_eq_iff)
  show "ss_objs ?sv ! s = ss_objs sv ! s" if "j \<noteq> i" "ss_streams sv j = Some s" for j s
    by (rule handle_frame(2) [OF inv that])
  show "length (ss_objs sv) \<le> length (ss_objs ?sv)"
    by (auto simp: handleSdkId_def add_stream_def close_str_def Let_def split: option.splits)
  show "s < length (ss_objs ?sv) \<and> so_sdkId (ss_objs ?sv ! s) = i \<and> \<not> so_closed (ss_objs ?sv ! s)
      \<and> so_client (ss_objs ?sv ! s) \<in> C i \<and> (ss_streams sv i = Some s \<or> s = length (ss_objs sv))"
    if "ss_streams ?sv i = Some s" for s
    using that get D(1-3) [of i] by (auto simp: handleSdkId_def add_stream_def new_str_def Let_def split: option.splits)
  have nil: "ss_streamsBySdkKey sv [] = None"
    using D(6) [of "[]"] D(5) keys_nonempty by (metis not_None_eq)
  show "ss_streamsBySdkKey ?sv k = (if k \<in> client_keys_at heap ?sv (ss_streams ?sv i) then ss_streams ?sv i
      else if k \<in> client_keys_at heap sv (ss_streams sv i) then None else ss_streamsBySdkKey sv k)" for k
  proof (cases "k = []")
    case True
    then show ?thesis
      using nil keys_nonempty
      by (auto simp: handleSdkId_def add_stream_def client_keys_at_def str_keys_nil Let_def split: option.splits)
  next
    case False
    then show ?thesis
      using D(1) [of i]
      by (auto simp: handleSdkId_def add_stream_def new_str_def client_keys_at_def str_SdkKeys_def Let_def
          store_str_keys_eq delete_keys_eq split: option.splits)
  qed
qed

lemma handle_all_inv:
  assumes "server_inv heap C sv" and "keys_apart heap C" and "\<forall>i a. get i = Some a \<longrightarrow> a \<in> C i"
  shows "server_inv heap C (handle_all get heap ids sv)
    \<and> (\<forall>i. i \<in> set ids \<or> synced get sv i \<longrightarrow> synced get (handle_all get heap ids sv) i)"
  using assms(1)
proof (induction ids arbitrary: sv)
  case Nil
  then show ?case by (simp add: handle_all_def)
next
  case (Cons i ids)
  let ?sv = "handleSdkId get heap i sv"
  have inv: "server_inv heap C ?sv" using handle_inv [OF Cons.prems assms(2)] assms(3) by blast
  have step: "\<forall>j. j \<in> set (i # ids) \<or> synced get sv j \<longrightarrow> j \<in> set ids \<or> synced get ?sv j"
    using handle_synced [OF Cons.prems, of get i] handle_synced_other [OF Cons.prems, of _ i get get]
    by (metis set_ConsD)
  have "handle_all get heap (i # ids) sv = handle_all get heap ids ?sv" by (simp add: handle_all_def)
  then show ?case using Cons.IH [OF inv] step by metis
qed

text \<open>A new server is in step with the clients it is built from.\<close>

lemma NewServer_handles:
  assumes "distinct (map fst all)"
  shows "NewServer heap all =
    handle_all (map_of all) heap (map fst all) \<lparr>ss_streams = Map.empty, ss_streamsBySdkKey = Map.empty, ss_objs = []\<rparr>"
proof -
  have "foldl (\<lambda>sv ia. add_stream heap ia sv) sv xs = foldl (\<lambda>sv i. handleSdkId (map_of all) heap i sv) sv (map fst xs)"
    if "set xs \<subseteq> set all" "distinct (map fst xs)" "\<forall>i \<in> fst ` set xs. ss_streams sv i = None" for xs sv
    using that
  proof (induction xs arbitrary: sv)
    case (Cons ia xs)
    obtain i a where ia: "ia = (i, a)" by fastforce
    have "map_of all i = Some a" using Cons.prems(1) assms by (simp add: ia)
    moreover have "ss_streams sv i = None" using Cons.prems(3) by (simp add: ia)
    ultimately have "handleSdkId (map_of all) heap i sv = add_stream heap ia sv" by (simp add: handleSdkId_def ia)
    moreover have "\<forall>j \<in> fst ` set xs. ss_streams (add_stream heap ia sv) j = None"
      using Cons.prems(2,3) by (auto simp: add_stream_def ia Let_def)
    ultimately show ?case using Cons by (simp add: ia)
  qed simp
  from this [of all] show ?thesis using assms by (simp add: NewServer_def handle_all_def)
qed

lemma NewServer_inv:
  assumes "distinct (map fst all)" and "keys_apart heap C" and "\<forall>(i, a) \<in> set all. a \<in> C i"
  shows "server_inv heap C (NewServer heap all) \<and> (\<forall>i. synced (map_of all) (NewServer heap all) i)"
proof -
  let ?e = "\<lparr>ss_streams = Map.empty, ss_streamsBySdkKey = Map.empty, ss_objs = []\<rparr>"
  have e: "server_inv heap C ?e" by (rule server_invI) auto
  have get: "\<forall>i a. map_of all i = Some a \<longrightarrow> a \<in> C i" using assms(3) by (auto dest!: map_of_SomeD)
  have "i \<in> set (map fst all) \<or> synced (map_of all) ?e i" for i
    by (cases "map_of all i") (auto simp: synced_def map_of_eq_None_iff dest!: map_of_SomeD intro: rev_image_eqI)
  then show ?thesis
    unfolding NewServer_handles [OF assms(1)] using handle_all_inv [OF e assms(2) get] by blast
qed

subsection \<open>After a refresh of the registrar\<close>

definition clients_of :: "auto_registrar \<Rightarrow> string \<Rightarrow> nat set" where
  "clients_of r i = set_option (ar_sdkClients r i)"

lemma server_inv_change:
  assumes "server_inv heap C sv"
    and "\<And>i s. ss_streams sv i = Some s \<Longrightarrow> so_client (ss_objs sv ! s) \<in> C' i"
    and "\<And>i s. ss_streams sv i = Some s \<Longrightarrow>
      keys_of_client (heap' ! so_client (ss_objs sv ! s)) = keys_of_client (heap ! so_client (ss_objs sv ! s))"
  shows "server_inv heap' C' sv"
  using assms server_invD [OF assms(1)] by (intro server_invI) metis+

text \<open>
  When the published identifiers of a refresh have been handled, the server serves the new
  registrar exactly, provided no client changed its keys in place.
\<close>

lemma follow_changes:
  assumes inv: "server_inv (ar_objs r) (clients_of r) sv" and sync: "\<forall>i. synced (auto_GetSdkOrNil r) sv i"
    and apart: "keys_apart (ar_objs r') (\<lambda>i. clients_of r i \<union> clients_of r' i)"
    and stable: "\<forall>i a. ar_sdkClients r i = Some a \<longrightarrow> keys_of_client (ar_objs r' ! a) = keys_of_client (ar_objs r ! a)"
    and ids: "changed_sdks r r' \<subseteq> set ids"
  defines "sv' \<equiv> handle_all (auto_GetSdkOrNil r') (ar_objs r') ids sv"
  shows "server_inv (ar_objs r') (clients_of r') sv' \<and> (\<forall>i. synced (auto_GetSdkOrNil r') sv' i)"
proof -
  let ?C = "\<lambda>i. clients_of r i \<union> clients_of r' i"
  have cl: "ss_streams sv i = Some s \<Longrightarrow> ar_sdkClients r i = Some (so_client (ss_objs sv ! s))" for i s
    using sync by (auto simp: synced_def auto_GetSdkOrNil_def)
  have "server_inv (ar_objs r') ?C sv"
  proof (rule server_inv_change [OF inv])
    fix i s assume s: "ss_streams sv i = Some s"
    show "so_client (ss_objs sv ! s) \<in> ?C i" using cl [OF s] by (simp add: clients_of_def)
    show "keys_of_client (ar_objs r' ! so_client (ss_objs sv ! s)) = keys_of_client (ar_objs r ! so_client (ss_objs sv ! s))"
      using stable cl [OF s] by blast
  qed
  moreover have "\<forall>i a. auto_GetSdkOrNil r' i = Some a \<longrightarrow> a \<in> ?C i" by (simp add: auto_GetSdkOrNil_def clients_of_def)
  ultimately have all: "server_inv (ar_objs r') ?C sv'"
    "\<forall>i. i \<in> set ids \<or> synced (auto_GetSdkOrNil r') sv i \<longrightarrow> synced (auto_GetSdkOrNil r') sv' i"
    unfolding sv'_def using handle_all_inv [OF _ apart] by blast+
  have "i \<in> set ids \<or> synced (auto_GetSdkOrNil r') sv i" for i
  proof (cases "i \<in> changed_sdks r r'")
    case False
    then have "ar_sdkClients r' i = ar_sdkClients r i"
      by (cases "ar_sdkClients r i"; cases "ar_sdkClients r' i") (auto simp: changed_sdks_def shown_def)
    then show ?thesis using sync by (auto simp: synced_def auto_GetSdkOrNil_def)
  qed (use ids in auto)
  with all(2) have sync': "\<forall>i. synced (auto_GetSdkOrNil r') sv' i" by blast
  moreover have "server_inv (ar_objs r') (clients_of r') sv'"
    by (rule server_inv_change [OF all(1)]) (use sync' in \<open>auto simp: synced_def auto_GetSdkOrNil_def clients_of_def\<close>)
  ultimately show ?thesis by blast
qed

lemma synced_lookup:
  assumes "server_inv (ar_objs r) (clients_of r) sv" and "\<forall>i. synced (auto_GetSdkOrNil r) sv i"
  shows "GetStreamBySdkKeyOrNil sv k = Some s \<longleftrightarrow>
    (\<exists>i a. GetStreamOrNil sv i = Some s \<and> auto_GetSdkOrNil r i = Some a \<and> k \<in> keys_of_client (ar_objs r ! a))"
proof -
  have "ss_streams sv i = Some s \<Longrightarrow> auto_GetSdkOrNil r i = Some (so_client (ss_objs sv ! s))" for i
    using assms(2) by (simp add: synced_def)
  then show ?thesis
    unfolding GetStreamBySdkKeyOrNil_def GetStreamOrNil_def inv_key [OF assms(1)] by auto
qed

subsection \<open>Keys changed in place\<close>

text \<open>
  The registrar may replace the secondary key of a client without replacing the client. The
  server then no longer sees the key it had stored: the revoked key keeps its stream.
\<close>

lemma revoked_key_kept:
  assumes "ss_streamsBySdkKey sv k = Some s" and "ss_streams sv i = Some s"
    and "get i = Some (so_client (ss_objs sv ! s))" and "s < length (ss_objs sv)"
    and "k \<noteq> []" and "k \<notin> keys_of_client (heap ! so_client (ss_objs sv ! s))"
  shows "GetStreamBySdkKeyOrNil (handleSdkId get heap i sv) k = Some s"
  using assms by (simp add: GetStreamBySdkKeyOrNil_def handleSdkId_def str_SdkKeys_def Let_def
      delete_keys_eq store_str_keys_eq)

subsection \<open>Shutdown\<close>

lemma close_streams_keeps:
  "so_closed (ss_objs t ! s) \<Longrightarrow> s < length (ss_objs t) \<Longrightarrow> so_closed (ss_objs (close_streams js t) ! s)"
proof (induction js t rule: close_streams.induct)
  case (2 k ks sv)
  have "so_closed (close_str s' (ss_objs sv) ! s)" for s'
    using 2(3,4) by (cases "s' = s") (simp_all add: close_str_def)
  then show ?case using 2 by (cases "ss_streams sv k") (simp_all add: close_str_def)
qed simp

lemma close_streams_facts:
  assumes "\<forall>i s. ss_streams sv i = Some s \<longrightarrow> s < length (ss_objs sv)" and "dom (ss_streams sv) \<subseteq> set ks"
  shows "ss_streams (close_streams ks sv) = Map.empty \<and>
    (\<forall>i s. ss_streams sv i = Some s \<longrightarrow> so_closed (ss_objs (close_streams ks sv) ! s))"
  using assms
proof (induction ks sv rule: close_streams.induct)
  case (2 k ks sv)
  show ?case
  proof (cases "ss_streams sv k")
    case None
    then have "dom (ss_streams sv) \<subseteq> set ks" using 2(4) by auto
    then show ?thesis using 2(1) [OF None 2(3)] None by simp
  next
    case (Some s)
    let ?sv = "sv\<lparr>ss_objs := close_str s (ss_objs sv), ss_streams := (ss_streams sv)(k := None)\<rparr>"
    have "\<forall>i s. ss_streams ?sv i = Some s \<longrightarrow> s < length (ss_objs ?sv)" using 2(3) by (simp add: close_str_def)
    moreover have "dom (ss_streams ?sv) \<subseteq> set ks" using 2(4) by auto
    ultimately have IH: "ss_streams (close_streams ks ?sv) = Map.empty"
      "\<forall>i s. ss_streams ?sv i = Some s \<longrightarrow> so_closed (ss_objs (close_streams ks ?sv) ! s)"
      using 2(2) [OF Some] by blast+
    have s: "so_closed (ss_objs (close_streams ks ?sv) ! s)"
      using close_streams_keeps [of ?sv s] 2(3) Some by (simp add: close_str_def)
    have "so_closed (ss_objs (close_streams ks ?sv) ! s')" if "ss_streams sv i = Some s'" for i s'
    proof (cases "i = k")
      case True
      then show ?thesis using that Some s by simp
    next
      case False
      then have "ss_streams ?sv i = Some s'" using that by simp
      then show ?thesis using IH(2) by blast
    qed
    then show ?thesis using IH(1) Some by simp
  qed
qed auto

end
