(* ===== verification/Http.thy ===== *)
theory Http
  imports Config
begin

text \<open>
  Requests and responses of \<open>net/http\<close> as the handlers see them, and the middlewares of
  \<open>web/mware\<close>: \<open>auth.go\<close>, \<open>cors.go\<close>, \<open>headers.go\<close>, \<open>options.go\<close>, \<open>compress.go\<close> and
  \<open>reqlog.go\<close>. A handler is a function from the request and the response so far; what it does
  outside the response (refreshing an SDK, opening a stream) is the list \<open>rs_effects\<close>. Header
  names are canonical, as \<open>http.Header\<close> stores them. The body of a compressed response is kept
  uncompressed, with \<open>rs_gzip\<close> set.
\<close>

section \<open>Definitions\<close>

subsection \<open>Requests and responses\<close>

text \<open>\<open>textproto.CanonicalMIMEHeaderKey\<close>: names with a byte that is not a token byte are kept.\<close>

definition token_char :: "char \<Rightarrow> bool" where
  "token_char c = (let n = (of_char c :: nat) in
     48 \<le> n \<and> n \<le> 57 \<or> 65 \<le> n \<and> n \<le> 90 \<or> 97 \<le> n \<and> n \<le> 122
     \<or> n \<in> {33, 35, 36, 37, 38, 39, 42, 43, 45, 46, 94, 95, 96, 124, 126})"

fun recase :: "bool \<Rightarrow> string \<Rightarrow> string" where
  "recase up [] = []"
| "recase up (c # cs) = (if up then upper_char c else lower_char c) # recase (c = CHR ''-'') cs"

definition canonical_key :: "string \<Rightarrow> string" where
  "canonical_key s = (if list_all token_char s then recase True s else s)"

record request =
  rq_method :: string
  rq_path :: string
  rq_header :: "string \<rightharpoonup> string"
  rq_path_value :: "string \<Rightarrow> string"
  rq_query :: "string \<Rightarrow> string"
  rq_body :: "bytes res"
  rq_basic :: "(string \<times> string) option"

definition header_get :: "request \<Rightarrow> string \<Rightarrow> string" where
  "header_get r k = (case rq_header r (canonical_key k) of None \<Rightarrow> [] | Some v \<Rightarrow> v)"

record 'e response =
  rs_code :: "nat option"
  rs_header :: "string \<rightharpoonup> string"
  rs_body :: bytes
  rs_gzip :: bool
  rs_effects :: "'e list"

type_synonym 'e handler = "request \<Rightarrow> 'e response \<Rightarrow> 'e response"

definition new_response :: "'e response" where
  "new_response = \<lparr>rs_code = None, rs_header = Map.empty, rs_body = [], rs_gzip = False, rs_effects = []\<rparr>"

text \<open>The operations of a \<open>ResponseWriter\<close>: headers and the status are fixed by the first write.\<close>

definition set_header :: "string \<Rightarrow> string \<Rightarrow> 'e response \<Rightarrow> 'e response" where
  "set_header k v w =
     (if rs_code w = None then w\<lparr>rs_header := (rs_header w)(canonical_key k \<mapsto> v)\<rparr> else w)"

definition del_header :: "string \<Rightarrow> 'e response \<Rightarrow> 'e response" where
  "del_header k w = (if rs_code w = None then w\<lparr>rs_header := (rs_header w)(canonical_key k := None)\<rparr> else w)"

definition write_header :: "nat \<Rightarrow> 'e response \<Rightarrow> 'e response" where
  "write_header code w =
     (let w1 = (if rs_gzip w then del_header ''Content-Length'' w else w)
      in if rs_code w1 = None then w1\<lparr>rs_code := Some code\<rparr> else w1)"

definition write_body :: "bytes \<Rightarrow> 'e response \<Rightarrow> 'e response" where
  "write_body b w = (let w1 = (if rs_code w = None then write_header 200 w else w) in w1\<lparr>rs_body := rs_body w1 @ b\<rparr>)"

text \<open>\<open>http.Error\<close>.\<close>

definition http_error :: "string \<Rightarrow> nat \<Rightarrow> 'e response \<Rightarrow> 'e response" where
  "http_error msg code w =
     write_body (msg @ [newline_char])
       (write_header code
         (set_header ''X-Content-Type-Options'' ''nosniff''
           (set_header ''Content-Type'' ''text/plain; charset=utf-8'' (del_header ''Content-Length'' w))))"

text \<open>The status a finished response is sent with.\<close>

definition status_code :: "'e response \<Rightarrow> nat" where
  "status_code w = (case rs_code w of None \<Rightarrow> 200 | Some c \<Rightarrow> c)"

definition with_effect :: "'e \<Rightarrow> 'e response \<Rightarrow> 'e response" where
  "with_effect e w = w\<lparr>rs_effects := rs_effects w @ [e]\<rparr>"

subsection \<open>Authentication\<close>

text \<open>\<open>BasicAuth\<close>: both digests are compared; \<open>sha\<close> is SHA-256.\<close>

definition BasicAuth :: "(bytes \<Rightarrow> bytes) \<Rightarrow> string \<Rightarrow> string \<Rightarrow> 'e handler \<Rightarrow> 'e handler" where
  "BasicAuth sha user pass next r w =
     (case rq_basic r of
        None \<Rightarrow> http_error ''Unauthorized'' 401 w
      | Some (username, password) \<Rightarrow>
          (let userMatch = (sha username = sha user); passMatch = (sha password = sha pass)
           in if \<not> userMatch \<or> \<not> passMatch then http_error ''Unauthorized'' 401 w else next r w))"

text \<open>\<open>HeaderAuth\<close>: the configured headers in iteration order.\<close>

fun HeaderAuth :: "(string \<times> string) list \<Rightarrow> 'e handler \<Rightarrow> 'e handler" where
  "HeaderAuth [] next r w = next r w"
| "HeaderAuth ((k, v) # authHeaders) next r w =
     (let h = header_get r k
      in if h \<noteq> v then http_error ''Unauthorized'' 401 w else HeaderAuth authHeaders next r w)"

subsection \<open>Extra headers, OPTIONS, compression, logging\<close>

fun set_headers :: "(string \<times> string) list \<Rightarrow> 'e response \<Rightarrow> 'e response" where
  "set_headers [] w = w"
| "set_headers ((k, v) # hs) w = set_headers hs (set_header k v w)"

definition ExtraHeaders :: "(string \<times> string) list \<Rightarrow> 'e handler \<Rightarrow> 'e handler" where
  "ExtraHeaders headers next r w = next r (set_headers headers w)"

definition AutoOptions :: "'e handler \<Rightarrow> 'e handler" where
  "AutoOptions next r w = (if rq_method r = ''OPTIONS'' then write_header 204 w else next r w)"

definition GZip :: "'e handler \<Rightarrow> 'e handler" where
  "GZip next r w =
     (if str_contains (header_get r ''Accept-Encoding'') ''gzip''
      then next r ((set_header ''Vary'' ''Accept-Encoding'' (set_header ''Content-Encoding'' ''gzip'' w))\<lparr>rs_gzip := True\<rparr>)
      else next r w)"

text \<open>
  \<open>DebugLog\<close>: the response passes through unchanged; the log line has the status that was
  written, 200 if none was, and the number of bytes.
\<close>

definition DebugLog :: "'e handler \<Rightarrow> 'e handler" where
  "DebugLog next r w = next r w"

definition DebugLog_line :: "'e handler \<Rightarrow> request \<Rightarrow> 'e response \<Rightarrow> nat \<times> nat" where
  "DebugLog_line next r w =
     (let w' = next r w in (status_code w', length (rs_body w') - length (rs_body w)))"

subsection \<open>CORS\<close>

definition defaultAllowedHeaders :: "string list" where
  "defaultAllowedHeaders = [''Cache-Control'', ''Content-Type'', ''Content-Length'', ''Accept-Encoding'', ''If-None-Match'']"

definition defaultExposedHeaders :: "string list" where
  "defaultExposedHeaders = [''Content-Length'', ''ETag'', ''Date'', ''Content-Encoding'']"

text \<open>
  \<open>determineOrigin\<close>; the compiled expressions of the configuration are its pattern texts
  and \<open>match\<close> decides whether an expression matches.
\<close>

fun regex_loop :: "(string \<Rightarrow> string \<Rightarrow> bool) \<Rightarrow> string \<Rightarrow> string list \<Rightarrow> string option" where
  "regex_loop match requestOrigin [] = None"
| "regex_loop match requestOrigin (regex # rs) =
     (if match regex requestOrigin then Some requestOrigin else regex_loop match requestOrigin rs)"

definition determineOrigin ::
  "(string \<Rightarrow> string \<Rightarrow> bool) \<Rightarrow> string \<Rightarrow> string list \<Rightarrow> origin_regex_config \<Rightarrow> string" where
  "determineOrigin match requestOrigin allowedOrigins rx =
     (let hasAllowedOriginsSet = allowedOrigins \<noteq> []; hasOriginRegexSet = Regexes rx \<noteq> []
      in if hasAllowedOriginsSet \<and> requestOrigin \<in> set allowedOrigins then requestOrigin
         else (let default1 = (if hasAllowedOriginsSet then hd allowedOrigins else ''*'')
               in case (if hasOriginRegexSet then regex_loop match requestOrigin (Regexes rx) else None) of
                    Some origin \<Rightarrow> origin
                  | None \<Rightarrow>
                      (let default2 = (if hasOriginRegexSet then IfNoMatch rx else default1)
                       in if \<not> hasAllowedOriginsSet \<and> \<not> hasOriginRegexSet \<and> requestOrigin \<noteq> []
                          then requestOrigin else default2)))"

definition header_list :: "string list \<Rightarrow> string list \<Rightarrow> string" where
  "header_list defaults extra =
     join_with '','' (if extra \<noteq> [] then DedupStringSlice (defaults @ extra) else defaults)"

definition setDefaultCORSHeaders ::
  "(string \<Rightarrow> string \<Rightarrow> bool) \<Rightarrow> string \<Rightarrow> string list \<Rightarrow> string \<Rightarrow> origin_regex_config \<Rightarrow> 'e response \<Rightarrow> 'e response" where
  "setDefaultCORSHeaders match requestOrigin allowedOrigins exposedHeaders rx w =
     set_header ''Access-Control-Expose-Headers'' exposedHeaders
       (set_header ''Access-Control-Allow-Origin'' (determineOrigin match requestOrigin allowedOrigins rx) w)"

definition setOptionsCORSHeaders ::
  "(string \<Rightarrow> string \<Rightarrow> bool) \<Rightarrow> string \<Rightarrow> string list \<Rightarrow> origin_regex_config \<Rightarrow> string list \<Rightarrow> string \<Rightarrow> string \<Rightarrow>
   'e response \<Rightarrow> 'e response" where
  "setOptionsCORSHeaders match requestOrigin allowedOrigins rx allowedMethods exposeHeaders allowedHeaders w =
     (let w1 = setDefaultCORSHeaders match requestOrigin allowedOrigins exposeHeaders rx w;
          w2 = set_header ''Access-Control-Allow-Headers'' allowedHeaders
                 (set_header ''Access-Control-Max-Age'' ''600''
                   (set_header ''Access-Control-Allow-Credentials'' ''false'' w1))
      in if allowedMethods \<noteq> []
         then set_header ''Access-Control-Allow-Methods'' (join_with '','' allowedMethods) w2 else w2)"

definition CORS ::
  "(string \<Rightarrow> string \<Rightarrow> bool) \<Rightarrow> string list \<Rightarrow> string list \<Rightarrow> string list \<Rightarrow> string list \<Rightarrow> origin_regex_config \<Rightarrow>
   'e handler \<Rightarrow> 'e handler" where
  "CORS match allowedMethods allowedOrigins responseHeaders requestHeaders rx next r w =
     (let exposed = header_list defaultExposedHeaders responseHeaders;
          allowed = header_list defaultAllowedHeaders requestHeaders;
          origin = header_get r ''Origin''
      in next r
           (if rq_method r = ''OPTIONS''
            then setOptionsCORSHeaders match origin allowedOrigins rx allowedMethods exposed allowed w
            else setDefaultCORSHeaders match origin allowedOrigins exposed rx w))"

section \<open>Lemmas\<close>

named_theorems http_simps \<open>evaluation of the response writer and the middlewares\<close>

lemmas [http_simps] = set_header_def del_header_def write_header_def write_body_def http_error_def
  status_code_def with_effect_def new_response_def Let_def

subsection \<open>Frames of the writer\<close>

lemma effects_simps [simp]:
  "rs_effects (set_header k v w) = rs_effects w" "rs_effects (del_header k w) = rs_effects w"
  "rs_effects (write_header c w) = rs_effects w" "rs_effects (write_body b w) = rs_effects w"
  "rs_effects (http_error m c w) = rs_effects w" "rs_effects (set_headers hs w) = rs_effects w"
proof -
  show 1: "rs_effects (set_header k v w) = rs_effects w" for k v and w :: "'e response" by (simp add: http_simps)
  show 2: "rs_effects (del_header k w) = rs_effects w" for k and w :: "'e response" by (simp add: http_simps)
  show 3: "rs_effects (write_header c w) = rs_effects w" for c and w :: "'e response"
    by (simp add: write_header_def Let_def 2)
  show 4: "rs_effects (write_body b w) = rs_effects w" for b and w :: "'e response"
    by (simp add: write_body_def Let_def 3)
  show "rs_effects (http_error m c w) = rs_effects w" by (simp add: http_error_def 1 2 3 4)
  show "rs_effects (set_headers hs w) = rs_effects w"
    by (induction hs arbitrary: w) (auto simp: 1)
qed

lemma code_simps [simp]:
  "rs_code (set_header k v w) = rs_code w" "rs_code (del_header k w) = rs_code w"
  "rs_code (write_header c w) = (if rs_code w = None then Some c else rs_code w)"
  "rs_code (write_body b w) = (if rs_code w = None then Some 200 else rs_code w)"
  "rs_code (set_headers hs w) = rs_code w" "rs_code (with_effect e w) = rs_code w"
proof -
  show 1: "rs_code (set_header k v w) = rs_code w" for k v and w :: "'e response" by (simp add: http_simps)
  show 2: "rs_code (del_header k w) = rs_code w" for k and w :: "'e response" by (simp add: http_simps)
  show 3: "rs_code (write_header c w) = (if rs_code w = None then Some c else rs_code w)" for c and w :: "'e response"
    by (simp add: write_header_def Let_def 2)
  show "rs_code (write_body b w) = (if rs_code w = None then Some 200 else rs_code w)"
    by (simp add: write_body_def Let_def 3)
  show "rs_code (set_headers hs w) = rs_code w" by (induction hs arbitrary: w) (auto simp: 1)
  show "rs_code (with_effect e w) = rs_code w" by (simp add: with_effect_def)
qed

lemma http_error_code [simp]: "rs_code w = None \<Longrightarrow> rs_code (http_error m c w) = Some c"
  by (simp add: http_error_def)

subsection \<open>Middlewares around a handler\<close>

lemma HeaderAuth_eq:
  "HeaderAuth hs next r w =
     (if list_all (\<lambda>(k, v). header_get r k = v) hs then next r w else http_error ''Unauthorized'' 401 w)"
  by (induction hs) (auto simp: Let_def)

lemma regex_loop_eq:
  "regex_loop match o1 rs = (if list_ex (\<lambda>x. match x o1) rs then Some o1 else None)"
  by (induction rs) auto

text \<open>An origin is granted when nothing restricts it, when it is listed, or when an expression matches.\<close>

lemma determineOrigin_eq:
  "determineOrigin match o1 allowed rx =
     (if o1 \<in> set allowed \<or> list_ex (\<lambda>x. match x o1) (Regexes rx) then o1
      else if Regexes rx \<noteq> [] then IfNoMatch rx
      else if allowed \<noteq> [] then hd allowed
      else if o1 \<noteq> [] then o1 else ''*'')"
  by (auto simp: determineOrigin_def regex_loop_eq Let_def)

text \<open>
  The contract of the middlewares that stand between the router and a handler: they answer
  themselves without effects, or pass the request on with the effects and the status of the
  response so far.
\<close>

locale middleware =
  fixes m :: "'e handler \<Rightarrow> 'e handler"
  assumes passes: "\<exists>w'. rs_effects w' = rs_effects w \<and> rs_code w' = rs_code w \<and>
      (m next r w = next r w' \<or> rs_effects (m next r w) = rs_effects w)"
begin

text \<open>A handler that answers a request without effects does so behind the middleware.\<close>

lemma no_effects:
  assumes "\<And>w. rs_effects (next r w) = rs_effects w"
  shows "rs_effects (m next r w) = rs_effects w"
  using passes [of w "next" r] assms by auto

end

text \<open>Middlewares stack.\<close>

locale middleware_pair = outer: middleware m1 + inner: middleware m2
  for m1 :: "'e handler \<Rightarrow> 'e handler" and m2 :: "'e handler \<Rightarrow> 'e handler"

sublocale middleware_pair \<subseteq> stack: middleware "m1 \<circ> m2"
proof
  fix w :: "'e response" and "next" :: "'e handler" and r
  from outer.passes [of w "m2 next" r] obtain w1 where w1: "rs_effects w1 = rs_effects w" "rs_code w1 = rs_code w"
    "m1 (m2 next) r w = m2 next r w1 \<or> rs_effects (m1 (m2 next) r w) = rs_effects w" by blast
  from inner.passes [of w1 "next" r] obtain w2 where "rs_effects w2 = rs_effects w1" "rs_code w2 = rs_code w1"
    "m2 next r w1 = next r w2 \<or> rs_effects (m2 next r w1) = rs_effects w1" by blast
  with w1 show "\<exists>w'. rs_effects w' = rs_effects w \<and> rs_code w' = rs_code w \<and>
      ((m1 \<circ> m2) next r w = next r w' \<or> rs_effects ((m1 \<circ> m2) next r w) = rs_effects w)"
    by (intro exI [of _ w2]) auto
qed

interpretation basic_auth: middleware "BasicAuth sha user pass" for sha user pass
  by unfold_locales (auto simp: BasicAuth_def Let_def split: option.splits)

interpretation header_auth: middleware "HeaderAuth hs" for hs
  by unfold_locales (auto simp: HeaderAuth_eq)

interpretation auto_options: middleware AutoOptions
  by unfold_locales (auto simp: AutoOptions_def)

interpretation extra_headers: middleware "ExtraHeaders hs" for hs
proof
  fix w :: "'e response" and "next" :: "'e handler" and r
  show "\<exists>w'. rs_effects w' = rs_effects w \<and> rs_code w' = rs_code w \<and>
      (ExtraHeaders hs next r w = next r w' \<or> rs_effects (ExtraHeaders hs next r w) = rs_effects w)"
    by (rule exI [of _ "set_headers hs w"]) (simp add: ExtraHeaders_def)
qed

interpretation gzip: middleware GZip
proof
  fix w :: "'e response" and "next" :: "'e handler" and r
  let ?w = "(set_header ''Vary'' ''Accept-Encoding'' (set_header ''Content-Encoding'' ''gzip'' w))\<lparr>rs_gzip := True\<rparr>"
  show "\<exists>w'. rs_effects w' = rs_effects w \<and> rs_code w' = rs_code w \<and>
      (GZip next r w = next r w' \<or> rs_effects (GZip next r w) = rs_effects w)"
  proof (cases "str_contains (header_get r ''Accept-Encoding'') ''gzip''")
    case True
    then show ?thesis by (intro exI [of _ ?w]) (simp add: GZip_def)
  next
    case False
    then show ?thesis by (intro exI [of _ w]) (simp add: GZip_def)
  qed
qed

interpretation debug_log: middleware DebugLog
  by unfold_locales (auto simp: DebugLog_def)

lemma cors_frame [simp]:
  "rs_effects (setDefaultCORSHeaders match o1 allowed ex rx w) = rs_effects w"
  "rs_code (setDefaultCORSHeaders match o1 allowed ex rx w) = rs_code w"
  "rs_effects (setOptionsCORSHeaders match o1 allowed rx ms ex ah w) = rs_effects w"
  "rs_code (setOptionsCORSHeaders match o1 allowed rx ms ex ah w) = rs_code w"
  by (simp_all add: setDefaultCORSHeaders_def setOptionsCORSHeaders_def Let_def)

interpretation cors: middleware "CORS match ms allowed resp req rx" for match ms allowed resp req rx
proof
  fix w :: "'e response" and "next" :: "'e handler" and r
  let ?w = "if rq_method r = ''OPTIONS''
    then setOptionsCORSHeaders match (header_get r ''Origin'') allowed rx ms
           (header_list defaultExposedHeaders resp) (header_list defaultAllowedHeaders req) w
    else setDefaultCORSHeaders match (header_get r ''Origin'') allowed (header_list defaultExposedHeaders resp) rx w"
  show "\<exists>w'. rs_effects w' = rs_effects w \<and> rs_code w' = rs_code w \<and>
      (CORS match ms allowed resp req rx next r w = next r w' \<or>
       rs_effects (CORS match ms allowed resp req rx next r w) = rs_effects w)"
    by (rule exI [of _ ?w]) (simp add: CORS_def Let_def)
qed

interpretation auth_options: middleware_pair AutoOptions "HeaderAuth hs" for hs
  ..

end
