(* ===== verification/WebApi.thy ===== *)
theory WebApi
  imports AutoRegistrar Http
begin

text \<open>
  The request handlers \<open>web/api/api.go\<close>, \<open>web/cdnproxy/cdnproxy.go\<close> and
  \<open>web/ofrep/ofrep.go\<close>. A registrar is seen through its two lookups. The JSON codec of the
  bodies is the record \<open>json\<close>; a JSON \<open>null\<close> body decodes to \<open>None\<close>, which leaves the zero
  request in place.
\<close>

section \<open>Definitions\<close>

subsection \<open>What the handlers see of the rest of the proxy\<close>

record registrar_view =
  rv_GetSdkOrNil :: "string \<Rightarrow> (nat \<times> client) option"
  rv_GetSdkByKeyOrNil :: "string \<Rightarrow> (nat \<times> client) option"

definition auto_view :: "auto_registrar \<Rightarrow> registrar_view" where
  "auto_view r = \<lparr>rv_GetSdkOrNil = (\<lambda>i. map_option (\<lambda>a. (a, ar_objs r ! a)) (auto_GetSdkOrNil r i)),
     rv_GetSdkByKeyOrNil = (\<lambda>k. map_option (\<lambda>a. (a, ar_objs r ! a)) (auto_GetSdkByKeyOrNil r k))\<rparr>"

definition manual_view :: "manual_registrar \<Rightarrow> registrar_view" where
  "manual_view r = \<lparr>rv_GetSdkOrNil = (\<lambda>i. map_option (\<lambda>a. (a, mr_objs r ! a)) (manual_GetSdkOrNil r i)),
     rv_GetSdkByKeyOrNil = (\<lambda>k. map_option (\<lambda>a. (a, mr_objs r ! a)) (manual_GetSdkByKeyOrNil r k))\<rparr>"

text \<open>What a handler does besides answering: refreshing the client, or listening to the stream, at an address.\<close>

datatype effect = RefreshClient nat | ListenStream nat string user_attrs

datatype reason = DefaultReason | TargetingMatch

datatype error_code = GeneralError | FlagNotFound | InvalidContext

record evaluation_response =
  ov_Key :: string
  ov_Reason :: reason
  ov_Variant :: string
  ov_Value :: go_val

datatype ofrep_body =
    EvaluationBody evaluation_response
  | ErrorBody string error_code string
  | BulkBody "ofrep_body list"
  | BulkErrorBody error_code string
  | GeneralErrorBody string

record json =
  js_EvalRequest :: "bytes \<Rightarrow> eval_request option res"
  js_Context :: "bytes \<Rightarrow> user_attrs option res"
  js_Payload :: "response_payload \<Rightarrow> bytes res"
  js_Payloads :: "(string \<rightharpoonup> response_payload) \<Rightarrow> bytes res"
  js_Keys :: "string list \<Rightarrow> bytes res"
  js_Ofrep :: "ofrep_body \<Rightarrow> bytes res"

definition zero_request :: eval_request where
  "zero_request = \<lparr>er_SdkKey = [], er_Key = [], er_User = None\<rparr>"

definition SdkKeyHeader :: string where "SdkKeyHeader = ''X-ConfigCat-SdkKey''"
definition SdkIdHeader :: string where "SdkIdHeader = ''X-ConfigCat-SdkId''"

definition not_identified :: string where "not_identified = ''could not identify a configured SDK''"

definition invalid_state :: string where
  "invalid_state = ''requested SDK is in an invalid state; please check the logs for more details''"

subsection \<open>\<open>web/api\<close>\<close>

text \<open>The failures carry the message and the status code.\<close>

definition api_getSDKClient :: "registrar_view \<Rightarrow> request \<Rightarrow> (string \<times> nat) + (nat \<times> client)" where
  "api_getSDKClient rv r =
     (let sdkId = rq_path_value r ''sdkId''; sdkKey = header_get r SdkKeyHeader
      in if sdkId = [] \<and> sdkKey = []
         then Inl (''either the '' @ quoted ''sdkId'' @ '' path variable or '' @ quoted SdkKeyHeader @
                   '' header must be set'', 400)
         else (case (if sdkId = [] then rv_GetSdkByKeyOrNil rv sdkKey else rv_GetSdkOrNil rv sdkId) of
             None \<Rightarrow> Inl (not_identified, 404)
           | Some (a, c) \<Rightarrow> if \<not> IsInValidState c then Inl (invalid_state, 500) else Inr (a, c)))"

definition api_parseRequest ::
  "json \<Rightarrow> registrar_view \<Rightarrow> request \<Rightarrow> (string \<times> nat) + ((nat \<times> client) \<times> eval_request)" where
  "api_parseRequest js rv r =
     (case rq_body r of
        Inl err \<Rightarrow> Inl (''failed to read request body'', 400)
      | Inr reqBody \<Rightarrow>
          (case js_EvalRequest js reqBody of
             Inl err \<Rightarrow> Inl (''failed to parse JSON body: '' @ err, 400)
           | Inr decoded \<Rightarrow>
               (case api_getSDKClient rv r of
                  Inl e \<Rightarrow> Inl e
                | Inr c \<Rightarrow> Inr (c, case decoded of None \<Rightarrow> zero_request | Some q \<Rightarrow> q))))"

definition write_json :: "bytes res \<Rightarrow> effect response \<Rightarrow> effect response" where
  "write_json data w =
     (case data of
        Inl err \<Rightarrow> http_error err 500 w
      | Inr b \<Rightarrow> write_body b (set_header ''Content-Type'' ''application/json'' w))"

definition flag_not_found :: "string \<Rightarrow> string" where
  "flag_not_found key = ''feature flag or setting with key '' @ quoted key @ '' not found''"

definition api_Eval :: "json \<Rightarrow> registrar_view \<Rightarrow> effect handler" where
  "api_Eval js rv r w =
     (case api_parseRequest js rv r of
        Inl (msg, code) \<Rightarrow> http_error msg code w
      | Inr ((a, c), evalReq) \<Rightarrow>
          (let ev = Eval c (er_Key evalReq) (er_User evalReq)
           in case ed_Error ev of
                Some (ErrKeyNotFound t) \<Rightarrow> http_error (flag_not_found (er_Key evalReq)) 400 w
              | Some _ \<Rightarrow> http_error ''the request failed; please check the logs for more details'' 500 w
              | None \<Rightarrow> write_json (js_Payload js (PayloadFromEvalData ev)) w))"

definition api_EvalAll :: "json \<Rightarrow> registrar_view \<Rightarrow> effect handler" where
  "api_EvalAll js rv r w =
     (case api_parseRequest js rv r of
        Inl (msg, code) \<Rightarrow> http_error msg code w
      | Inr ((a, c), evalReq) \<Rightarrow>
          (let details = EvalAll c (er_User evalReq)
           in write_json (js_Payloads js (\<lambda>k. map_option PayloadFromEvalData (details k))) w))"

definition api_Keys :: "json \<Rightarrow> registrar_view \<Rightarrow> effect handler" where
  "api_Keys js rv r w =
     (case api_getSDKClient rv r of
        Inl (msg, code) \<Rightarrow> http_error msg code w
      | Inr (a, c) \<Rightarrow> write_json (js_Keys js (client_Keys c)) w)"

text \<open>\<open>refresh a\<close> is the error of refreshing the client at address \<open>a\<close>, if any.\<close>

definition api_Refresh :: "(nat \<Rightarrow> string option) \<Rightarrow> registrar_view \<Rightarrow> effect handler" where
  "api_Refresh refresh rv r w =
     (case api_getSDKClient rv r of
        Inl (msg, code) \<Rightarrow> http_error msg code w
      | Inr (a, c) \<Rightarrow>
          (let w' = with_effect (RefreshClient a) w
           in case refresh a of Some err \<Rightarrow> http_error err 500 w' | None \<Rightarrow> w'))"

definition ICanHasCoffee :: "effect handler" where
  "ICanHasCoffee r w = write_header 418 w"

subsection \<open>\<open>web/cdnproxy\<close>\<close>

definition cdn_getSDKClient :: "registrar_view \<Rightarrow> request \<Rightarrow> (string \<times> nat) + (nat \<times> client)" where
  "cdn_getSDKClient rv r =
     (let path = rq_path_value r ''path'';
          found = (if has_prefix path ''configcat-proxy/''
                   then rv_GetSdkOrNil rv (trim_suffix (trim_prefix path ''configcat-proxy/'') ''/config_v6.json'')
                   else rv_GetSdkByKeyOrNil rv (trim_suffix path ''/config_v6.json''))
      in case found of
           None \<Rightarrow> Inl (not_identified, 404)
         | Some (a, c) \<Rightarrow> if \<not> IsInValidState c then Inl (invalid_state, 500) else Inr (a, c))"

definition cdn_ServeHTTP :: "registrar_view \<Rightarrow> effect handler" where
  "cdn_ServeHTTP rv r w =
     (case cdn_getSDKClient rv r of
        Inl (msg, code) \<Rightarrow> http_error msg code w
      | Inr (a, cl) \<Rightarrow>
          (let w1 = set_header ''Cache-Control'' ''max-age=0, must-revalidate'' w;
               etag0 = header_get r ''If-None-Match'';
               etag = (if etag0 = [] then rq_query r ''ccetag'' else etag0);
               c = GetCachedJson cl
           in if etag = [] \<or> en_ETag c \<noteq> etag
              then write_body (en_ConfigJson c)
                     (set_header ''Content-Type'' ''application/json'' (set_header ''ETag'' (en_ETag c) w1))
              else write_header 304 (set_header ''ETag'' (en_ETag c) w1)))"

subsection \<open>\<open>web/ofrep\<close>\<close>

definition ofrep_getSDKClient ::
  "registrar_view \<Rightarrow> request \<Rightarrow> (string \<times> error_code \<times> nat) + (nat \<times> client)" where
  "ofrep_getSDKClient rv r =
     (let sdkId = header_get r SdkIdHeader; sdkKey = header_get r SdkKeyHeader
      in if sdkId = [] \<and> sdkKey = []
         then Inl (''either the '' @ quoted SdkIdHeader @ '' or '' @ quoted SdkKeyHeader @
                   '' header must be set'', GeneralError, 400)
         else (case (if sdkId = [] then rv_GetSdkByKeyOrNil rv sdkKey else rv_GetSdkOrNil rv sdkId) of
             None \<Rightarrow> Inl (not_identified, GeneralError, 400)
           | Some (a, c) \<Rightarrow> if \<not> IsInValidState c then Inl (invalid_state, GeneralError, 500) else Inr (a, c)))"

definition ofrep_parseRequest ::
  "json \<Rightarrow> registrar_view \<Rightarrow> request \<Rightarrow> (string \<times> error_code \<times> nat) + ((nat \<times> client) \<times> user_attrs)" where
  "ofrep_parseRequest js rv r =
     (case rq_body r of
        Inl err \<Rightarrow> Inl (''failed to read request body'', GeneralError, 400)
      | Inr reqBody \<Rightarrow>
          (case (if length reqBody > 0 then js_Context js reqBody else Inr None) of
             Inl err \<Rightarrow> Inl (''failed to parse JSON body: '' @ err, InvalidContext, 400)
           | Inr decoded \<Rightarrow>
               (case ofrep_getSDKClient rv r of
                  Inl e \<Rightarrow> Inl e
                | Inr c \<Rightarrow> Inr (c, case decoded of None \<Rightarrow> None | Some u \<Rightarrow> u))))"

definition mapTargetingKeyToIdentifier :: "user_attrs \<Rightarrow> user_attrs" where
  "mapTargetingKeyToIdentifier attr =
     (case attr of
        None \<Rightarrow> None
      | Some m \<Rightarrow> (case m ''targetingKey'' of None \<Rightarrow> Some m | Some v \<Rightarrow> Some (m(''Identifier'' \<mapsto> v))))"

definition toEvalResponse :: "eval_data \<Rightarrow> string \<Rightarrow> evaluation_response" where
  "toEvalResponse data key = \<lparr>ov_Key = key,
     ov_Reason = (if ed_IsTargeting data then TargetingMatch else DefaultReason),
     ov_Variant = ed_VariationId data, ov_Value = ed_Value data\<rparr>"

definition writeError :: "json \<Rightarrow> ofrep_body \<Rightarrow> nat \<Rightarrow> effect response \<Rightarrow> effect response" where
  "writeError js body code w =
     write_body (case js_Ofrep js body of Inl err \<Rightarrow> [] | Inr data \<Rightarrow> data)
       (write_header code (set_header ''Content-Type'' ''application/json'' w))"

definition write_ofrep :: "json \<Rightarrow> string option \<Rightarrow> ofrep_body \<Rightarrow> effect response \<Rightarrow> effect response" where
  "write_ofrep js etag payload w =
     (case js_Ofrep js payload of
        Inl err \<Rightarrow> writeError js (GeneralErrorBody err) 500 w
      | Inr data \<Rightarrow>
          (let w1 = (case etag of None \<Rightarrow> w | Some e \<Rightarrow> set_header ''ETag'' e w)
           in write_body data (set_header ''Content-Type'' ''application/json'' w1)))"

definition ofrep_Eval :: "json \<Rightarrow> registrar_view \<Rightarrow> effect handler" where
  "ofrep_Eval js rv r w =
     (let key = rq_path_value r ''key''
      in if key = [] then writeError js (ErrorBody [] GeneralError (quoted ''key'' @ '' path parameter must be set'')) 400 w
         else (case ofrep_parseRequest js rv r of
             Inl (msg, errCode, code) \<Rightarrow>
               (if code = 500 then writeError js (GeneralErrorBody msg) code w
                else writeError js (ErrorBody key errCode msg) code w)
           | Inr ((a, c), ctx) \<Rightarrow>
               (let ev = Eval c key (mapTargetingKeyToIdentifier ctx)
                in case ed_Error ev of
                     Some (ErrKeyNotFound t) \<Rightarrow> writeError js (ErrorBody key FlagNotFound (flag_not_found key)) 404 w
                   | Some _ \<Rightarrow> writeError js (GeneralErrorBody
                       ''the request failed; please check the server logs for more details'') 500 w
                   | None \<Rightarrow> write_ofrep js None (EvaluationBody (toEvalResponse ev key)) w)))"

text \<open>
  \<open>calcEtag\<close>: the configuration's ETag followed by the eight bytes of the attributes' hash.
  \<open>disc\<close> is \<open>Discriminator\<close> with the server's seed, \<open>bytes_of\<close> is \<open>Uint64ToBytes\<close>.
\<close>

definition calcEtag ::
  "(bytes \<Rightarrow> bytes) \<Rightarrow> (user_attrs \<Rightarrow> 64 word) \<Rightarrow> user_attrs \<Rightarrow> string \<Rightarrow> string" where
  "calcEtag xxhash disc attr configJsonEtag =
     GenerateEtag xxhash (configJsonEtag @ Uint64ToBytes (disc attr))"

text \<open>\<open>order\<close> enumerates the evaluated flags as the loop meets them.\<close>

fun bulk_loop :: "(string \<rightharpoonup> eval_data) \<Rightarrow> string list \<Rightarrow> ofrep_body list \<Rightarrow> ofrep_body list" where
  "bulk_loop details [] flags = flags"
| "bulk_loop details (key # keys) flags =
     bulk_loop details keys
       (case details key of
          None \<Rightarrow> flags
        | Some detail \<Rightarrow>
            (case ed_Error detail of
               Some err \<Rightarrow> flags @ [ErrorBody key GeneralError (error_text err)]
             | None \<Rightarrow> flags @ [EvaluationBody (toEvalResponse detail key)]))"

definition ofrep_EvalAll ::
  "json \<Rightarrow> (bytes \<Rightarrow> bytes) \<Rightarrow> (user_attrs \<Rightarrow> 64 word) \<Rightarrow> ((string \<rightharpoonup> eval_data) \<Rightarrow> string list) \<Rightarrow>
   registrar_view \<Rightarrow> effect handler" where
  "ofrep_EvalAll js xxhash disc order rv r w =
     (case ofrep_parseRequest js rv r of
        Inl (msg, errCode, code) \<Rightarrow>
          (if code = 500 then writeError js (GeneralErrorBody msg) code w
           else writeError js (BulkErrorBody errCode msg) code w)
      | Inr ((a, cl), ctx) \<Rightarrow>
          (let etag = header_get r ''If-None-Match'';
               genEtag = calcEtag xxhash disc ctx (en_ETag (GetCachedJson cl))
           in if etag \<noteq> [] \<and> etag = genEtag then write_header 304 (set_header ''ETag'' genEtag w)
              else (let details = EvalAll cl (mapTargetingKeyToIdentifier ctx)
                    in write_ofrep js (Some genEtag) (BulkBody (bulk_loop details (order details) [])) w)))"

section \<open>Lemmas\<close>

named_theorems api_simps \<open>the handlers' parsing steps\<close>

lemmas [api_simps] = api_getSDKClient_def api_parseRequest_def write_json_def api_Eval_def api_EvalAll_def
  api_Keys_def api_Refresh_def cdn_getSDKClient_def cdn_ServeHTTP_def ofrep_getSDKClient_def
  ofrep_parseRequest_def writeError_def write_ofrep_def ofrep_Eval_def ofrep_EvalAll_def Let_def

lemma write_json_effects [simp]: "rs_effects (write_json d w) = rs_effects w"
  by (simp add: write_json_def split: sum.splits)

lemma writeError_effects [simp]: "rs_effects (writeError js b c w) = rs_effects w"
  by (simp add: writeError_def)

lemma write_ofrep_effects [simp]: "rs_effects (write_ofrep js e b w) = rs_effects w"
  by (simp add: write_ofrep_def Let_def split: sum.splits option.splits)

subsection \<open>Which handlers act\<close>

lemma read_only_handlers:
  "rs_effects (api_Eval js rv r w) = rs_effects w" "rs_effects (api_EvalAll js rv r w) = rs_effects w"
  "rs_effects (api_Keys js rv r w) = rs_effects w" "rs_effects (ICanHasCoffee r w) = rs_effects w"
  "rs_effects (cdn_ServeHTTP rv r w) = rs_effects w" "rs_effects (ofrep_Eval js rv r w) = rs_effects w"
  "rs_effects (ofrep_EvalAll js xxhash disc order rv r w) = rs_effects w"
  by (simp_all add: api_Eval_def api_EvalAll_def api_Keys_def ICanHasCoffee_def cdn_ServeHTTP_def
      ofrep_Eval_def ofrep_EvalAll_def Let_def split: sum.splits prod.splits option.splits eval_error.splits)

subsection \<open>The loop over the flags\<close>

definition flag_body :: "string \<Rightarrow> eval_data \<Rightarrow> ofrep_body" where
  "flag_body key detail = (case ed_Error detail of
     Some err \<Rightarrow> ErrorBody key GeneralError (error_text err)
   | None \<Rightarrow> EvaluationBody (toEvalResponse detail key))"

lemma bulk_loop_eq:
  "bulk_loop details keys flags =
     flags @ List.map_filter (\<lambda>k. map_option (flag_body k) (details k)) keys"
  by (induction keys arbitrary: flags)
    (auto simp: flag_body_def List.map_filter_simps split: option.splits)

subsection \<open>Resolving the SDK\<close>

subsection \<open>ETags\<close>

lemma calcEtag_eq_iff:
  assumes "inj_on xxhash {e @ Uint64ToBytes (disc u), e' @ Uint64ToBytes (disc u')}" and "length e = length e'"
  shows "calcEtag xxhash disc u e = calcEtag xxhash disc u' e' \<longleftrightarrow> e = e' \<and> disc u = disc u'"
proof -
  have "calcEtag xxhash disc u e = calcEtag xxhash disc u' e' \<longleftrightarrow>
      e @ Uint64ToBytes (disc u) = e' @ Uint64ToBytes (disc u')"
    using inj_on_eq_iff [OF assms(1)] by (simp add: calcEtag_def GenerateEtag_eq_iff)
  also have "\<dots> \<longleftrightarrow> e = e' \<and> disc u = disc u'"
    using assms(2) Uint64ToBytes_inj by (auto dest: injD)
  finally show ?thesis .
qed

section \<open>Properties\<close>

text \<open>
  The CDN proxy answers a conditional request as RFC 9110 asks: 304 without a body when the
  client's ETag (header, or else the query parameter) is the current one, and otherwise 200 with
  the configuration JSON; the current ETag is set in both cases.
\<close>

lemma cdn_conditional:
  assumes "cdn_getSDKClient rv r = Inr (a, cl)"
    and "etag = (if header_get r ''If-None-Match'' = [] then rq_query r ''ccetag'' else header_get r ''If-None-Match'')"
    and "w' = cdn_ServeHTTP rv r new_response"
  shows "(if etag \<noteq> [] \<and> etag = en_ETag (GetCachedJson cl)
      then rs_code w' = Some 304 \<and> rs_body w' = []
      else rs_code w' = Some 200 \<and> rs_body w' = en_ConfigJson (GetCachedJson cl))
    \<and> rs_header w' (canonical_key ''ETag'') = Some (en_ETag (GetCachedJson cl))"
proof -
  have keys: "canonical_key ''ETag'' \<noteq> canonical_key ''Content-Type''" by code_simp
  show ?thesis
    using assms keys by (auto simp: cdn_ServeHTTP_def Let_def http_simps new_response_def)
qed

end
