(* ===== verification/Webhook.thy ===== *)
theory Webhook
  imports WebApi
begin

text \<open>
  \<open>web/webhook/webhook.go\<close>: the webhook that makes an SDK refresh its configuration, and its
  test endpoint. The keyed hash (HMAC with SHA-256) is the parameter \<open>hmac\<close>, a function of the
  key and the payload; the clock is the parameter \<open>now\<close>, in seconds.
\<close>

section \<open>Definitions\<close>

definition signatureHeader :: string where "signatureHeader = ''X-ConfigCat-Webhook-Signature-V1''"
definition idHeader :: string where "idHeader = ''X-ConfigCat-Webhook-ID''"
definition timestampHeader :: string where "timestampHeader = ''X-ConfigCat-Webhook-Timestamp''"

text \<open>\<open>base64.StdEncoding\<close>: the URL alphabet with its last two characters exchanged.\<close>

definition std_char :: "char \<Rightarrow> char" where
  "std_char c = (if c = CHR ''-'' then CHR ''+'' else if c = CHR ''_'' then CHR ''/'' else c)"

definition StdEncoding :: "bytes \<Rightarrow> string" where
  "StdEncoding b = map std_char (encode_b64 ''='' b)"

text \<open>The loop over the received signatures.\<close>

fun signature_found :: "string \<Rightarrow> string list \<Rightarrow> bool \<Rightarrow> bool" where
  "signature_found calcSignature [] found = found"
| "signature_found calcSignature (sig # sigs) found =
     signature_found calcSignature sigs (if sig = calcSignature then True else found)"

text \<open>\<open>time.Now().Unix()-int64(validFor)\<close> in 64-bit two's complement arithmetic.\<close>

definition oldest_allowed :: "int \<Rightarrow> int \<Rightarrow> int" where
  "oldest_allowed now validFor = sint (word_of_int (now - validFor) :: 64 word)"

definition validateSignature ::
  "(bytes \<Rightarrow> bytes \<Rightarrow> bytes) \<Rightarrow> int \<Rightarrow> string \<Rightarrow> int \<Rightarrow> request \<Rightarrow> bool" where
  "validateSignature hmac now signingKey validFor r =
     (let signatures = header_get r signatureHeader;
          webhookId = header_get r idHeader;
          timestampStr = header_get r timestampHeader
      in if signatures = [] \<or> webhookId = [] \<or> timestampStr = [] then False
         else (case parse_int64 timestampStr of
             None \<Rightarrow> False
           | Some timestamp \<Rightarrow>
               (if timestamp < oldest_allowed now validFor then False
                else (case rq_body r of
                    Inl err \<Rightarrow> False
                  | Inr body \<Rightarrow>
                      (let payloadToSign = webhookId @ timestampStr @ body;
                           calcSignature = StdEncoding (hmac signingKey payloadToSign);
                           receivedSignatures = split_on CHR '','' signatures
                       in signature_found calcSignature receivedSignatures False)))))"

definition ServeWebhookTest ::
  "(bytes \<Rightarrow> bytes \<Rightarrow> bytes) \<Rightarrow> int \<Rightarrow> profile_config \<Rightarrow> effect handler" where
  "ServeWebhookTest hmac now autoSdkConfig r w =
     (if prof_WebhookSigningKey autoSdkConfig \<noteq> []
         \<and> \<not> validateSignature hmac now (prof_WebhookSigningKey autoSdkConfig)
               (prof_WebhookSignatureValidFor autoSdkConfig) r
      then http_error ''Signature validation failed'' 400 w
      else w)"

definition ServeWebhookSdkId ::
  "(bytes \<Rightarrow> bytes \<Rightarrow> bytes) \<Rightarrow> int \<Rightarrow> registrar_view \<Rightarrow> effect handler" where
  "ServeWebhookSdkId hmac now rv r w =
     (let sdkId = rq_path_value r ''sdkId''
      in if sdkId = [] then http_error (quoted ''sdkId'' @ '' path parameter must be set'') 400 w
         else (case rv_GetSdkOrNil rv sdkId of
             None \<Rightarrow> http_error (''SDK not found for identifier: '' @ quoted sdkId) 404 w
           | Some (a, sdkClient) \<Rightarrow>
               (if WebhookSigningKey sdkClient \<noteq> []
                   \<and> \<not> validateSignature hmac now (WebhookSigningKey sdkClient) (WebhookSignatureValidFor sdkClient) r
                then http_error ''Signature validation failed'' 400 w
                else with_effect (RefreshClient a) w)))"

section \<open>Lemmas\<close>

lemma signature_found_iff: "signature_found s sigs found \<longleftrightarrow> found \<or> s \<in> set sigs"
  by (induction sigs arbitrary: found) auto

text \<open>What the validation asks for, on one line.\<close>

lemma validateSignature_iff:
  "validateSignature hmac now key validFor r \<longleftrightarrow>
     header_get r idHeader \<noteq> [] \<and> header_get r signatureHeader \<noteq> [] \<and>
     (\<exists>t body. parse_int64 (header_get r timestampHeader) = Some t \<and> oldest_allowed now validFor \<le> t \<and>
        rq_body r = Inr body \<and>
        StdEncoding (hmac key (header_get r idHeader @ header_get r timestampHeader @ body))
          \<in> set (split_on CHR '','' (header_get r signatureHeader)))"
proof -
  have "parse_int64 [] = None" by (simp add: parse_int64_def)
  then show ?thesis
    by (auto simp: validateSignature_def signature_found_iff Let_def split: option.splits sum.splits)
qed

lemma validateSignatureI:
  assumes "header_get r idHeader \<noteq> []" and "header_get r signatureHeader \<noteq> []"
    and "parse_int64 (header_get r timestampHeader) = Some t" and "oldest_allowed now validFor \<le> t"
    and "rq_body r = Inr body"
    and "StdEncoding (hmac key (header_get r idHeader @ header_get r timestampHeader @ body))
          \<in> set (split_on CHR '','' (header_get r signatureHeader))"
  shows "validateSignature hmac now key validFor r"
  using assms by (auto simp: validateSignature_iff)

lemma ServeWebhookSdkId_effects:
  "rs_effects (ServeWebhookSdkId hmac now rv r w) =
     rs_effects w @ (case rv_GetSdkOrNil rv (rq_path_value r ''sdkId'') of
        Some (a, c) \<Rightarrow>
          (if rq_path_value r ''sdkId'' \<noteq> [] \<and>
              (WebhookSigningKey c = [] \<or>
               validateSignature hmac now (WebhookSigningKey c) (WebhookSignatureValidFor c) r)
           then [RefreshClient a] else [])
      | None \<Rightarrow> [])"
  by (auto simp: ServeWebhookSdkId_def with_effect_def Let_def split: option.splits)

lemma ServeWebhookTest_effects [simp]: "rs_effects (ServeWebhookTest hmac now conf r w) = rs_effects w"
  by (simp add: ServeWebhookTest_def)

subsection \<open>Base64 has no commas\<close>

lemma b64_char_cases:
  "b64_char v \<in> {CHR ''-'', CHR ''_''} \<or> (\<exists>n. b64_char v = char_of (n :: nat) \<and> 48 \<le> n \<and> n < 123)"
proof -
  consider "v < 26" | "26 \<le> v" "v < 52" | "52 \<le> v" "v < 62" | "62 \<le> v" by linarith
  then show ?thesis
  proof cases
    case 1
    then show ?thesis by (intro disjI2 exI [of _ "v + 65"]) (simp add: b64_char_def)
  next
    case 2
    then show ?thesis by (intro disjI2 exI [of _ "v + 71"]) (simp add: b64_char_def)
  next
    case 3
    then have "48 \<le> v - 4 \<and> v - 4 < 123" by arith
    with 3 show ?thesis by (intro disjI2 exI [of _ "v - 4"]) (simp add: b64_char_def)
  next
    case 4
    then show ?thesis by (simp add: b64_char_def)
  qed
qed

lemma std_char_comma: "std_char (b64_char v) \<noteq> CHR '',''"
proof
  assume "std_char (b64_char v) = CHR '',''"
  then have v: "b64_char v = CHR '',''" by (auto simp: std_char_def split: if_splits)
  then obtain n :: nat where "CHR '','' = (char_of n :: char)" "48 \<le> n" "n < 123"
    using b64_char_cases [of v] by auto
  then have "(of_char (CHR '','') :: nat) = n mod 256" by simp
  with \<open>48 \<le> n\<close> \<open>n < 123\<close> show False by simp
qed

lemma StdEncoding_comma: "CHR '','' \<notin> set (StdEncoding b)"
proof -
  have "std_char CHR ''='' \<noteq> CHR '',''" by (simp add: std_char_def)
  moreover have "\<exists>c \<in> set (encode_b64 pad b). std_char c = CHR '','' \<Longrightarrow> \<exists>c \<in> set pad. std_char c = CHR '',''" for pad
    by (induction pad b rule: encode_b64.induct) (auto simp: std_char_comma)
  ultimately show ?thesis by (auto simp: StdEncoding_def) (metis empty_iff list.set(1) set_ConsD)
qed

text \<open>A sender that signs with the key is let through, alone or among other signatures.\<close>

lemma signed_request_valid:
  assumes headers: "header_get r idHeader = whid" "header_get r timestampHeader = show_int t"
    and sigs: "header_get r signatureHeader = join_with '','' sigs" "\<forall>s \<in> set sigs. CHR '','' \<notin> set s"
    and signed: "StdEncoding (hmac key (whid @ show_int t @ body)) \<in> set sigs"
    and body: "rq_body r = Inr body" and whid: "whid \<noteq> []"
    and range: "- (2 ^ 63) \<le> t" "t < 2 ^ 63" "oldest_allowed now validFor \<le> t"
    and nonempty: "join_with '','' sigs \<noteq> []"
  shows "validateSignature hmac now key validFor r"
proof (rule validateSignatureI [OF _ _ _ range(3) body])
  have "sigs \<noteq> []" using signed by auto
  then have "split_on CHR '','' (join_with '','' sigs) = sigs"
    using split_join [of sigs "CHR '',''"] sigs(2) by simp
  then show "StdEncoding (hmac key (header_get r idHeader @ header_get r timestampHeader @ body))
      \<in> set (split_on CHR '','' (header_get r signatureHeader))"
    using signed by (simp add: headers sigs)
qed (use whid nonempty range parse_show_int in \<open>simp_all add: headers sigs\<close>)

subsection \<open>The signed payload\<close>

text \<open>
  The identifier and the timestamp are signed without a separator, and the timestamp has no
  upper bound: moving the last digit of the identifier to the front of the timestamp keeps the
  signature and postpones the expiry.
\<close>

definition shift_digit :: "request \<Rightarrow> string \<Rightarrow> char \<Rightarrow> string \<Rightarrow> request" where
  "shift_digit r whid d ts = r\<lparr>rq_header := (rq_header r)(canonical_key idHeader \<mapsto> whid,
     canonical_key timestampHeader \<mapsto> d # ts)\<rparr>"

lemma canonical_headers:
  "canonical_key idHeader = ''X-Configcat-Webhook-Id''"
  "canonical_key timestampHeader = ''X-Configcat-Webhook-Timestamp''"
  "canonical_key signatureHeader = ''X-Configcat-Webhook-Signature-V1''"
  by code_simp+

lemma shift_digit_get:
  "header_get (shift_digit r whid d ts) idHeader = whid"
  "header_get (shift_digit r whid d ts) timestampHeader = d # ts"
  "header_get (shift_digit r whid d ts) signatureHeader = header_get r signatureHeader"
  "rq_body (shift_digit r whid d ts) = rq_body r"
  by (simp_all add: shift_digit_def header_get_def canonical_headers)

lemma replay_shifted:
  assumes valid: "validateSignature hmac now key validFor r"
    and req: "header_get r idHeader = whid @ [d]" "header_get r timestampHeader = ts" "whid \<noteq> []"
    and t: "parse_int64 (d # ts) = Some t" "oldest_allowed later validFor \<le> t"
  shows "validateSignature hmac later key validFor (shift_digit r whid d ts)"
proof -
  from valid obtain body where b: "rq_body r = Inr body" "header_get r signatureHeader \<noteq> []"
    "StdEncoding (hmac key ((whid @ [d]) @ ts @ body)) \<in> set (split_on CHR '','' (header_get r signatureHeader))"
    unfolding validateSignature_iff req by blast
  show ?thesis
    by (rule validateSignatureI [where t = t and body = body]) (use b t req in \<open>simp_all add: shift_digit_get\<close>)
qed

section \<open>Properties\<close>

text \<open>
  A webhook that is signed as documented (Base64 of the HMAC over identifier, timestamp and
  body, as one of the listed signatures, with a recent timestamp) passes the validation.
\<close>

lemma signed_webhook_accepted:
  assumes "header_get r idHeader = whid" "header_get r timestampHeader = show_int t" "rq_body r = Inr body"
    and "header_get r signatureHeader = join_with '','' (sigs1 @ StdEncoding (hmac key (whid @ show_int t @ body)) # sigs2)"
    and "\<forall>s \<in> set (sigs1 @ sigs2). CHR '','' \<notin> set s" and "whid \<noteq> []"
    and "StdEncoding (hmac key (whid @ show_int t @ body)) \<noteq> []"
    and "- (2 ^ 63) \<le> t" "t < 2 ^ 63" "oldest_allowed now validFor \<le> t"
  shows "validateSignature hmac now key validFor r"
proof (rule signed_request_valid [OF assms(1,2,4) _ _ assms(3,6,8,9,10)])
  show "\<forall>s \<in> set (sigs1 @ StdEncoding (hmac key (whid @ show_int t @ body)) # sigs2). CHR '','' \<notin> set s"
    using assms(5) StdEncoding_comma by auto
  have ne: "x \<in> set xs \<Longrightarrow> x \<noteq> [] \<Longrightarrow> join_with sep xs \<noteq> []" for x xs sep
    by (induction sep xs rule: join_with.induct) auto
  show "join_with '','' (sigs1 @ StdEncoding (hmac key (whid @ show_int t @ body)) # sigs2) \<noteq> []"
    by (rule ne [OF _ assms(7)]) simp
qed simp

lemma StdEncoding_Nil: "StdEncoding b = [] \<longleftrightarrow> b = []"
proof -
  have "encode_b64 pad b = [] \<longleftrightarrow> b = []" for pad by (induction pad b rule: encode_b64.induct) simp_all
  then show ?thesis by (simp add: StdEncoding_def)
qed

text \<open>
  C23: a webhook request refreshes a client exactly when it names a registered SDK and, if this
  SDK has a signing key, carries an identifier, a timestamp that is a 64-bit number and not older
  than the SDK allows, a readable body and, among its comma-separated signatures, the Base64 of
  the HMAC over identifier, timestamp and body; it then refreshes that client, once, and
  nothing else, and answers 200. Every other request has no effect and is answered with 400, or
  404 for an unknown SDK. So a sender that signs with the key is heard, whatever other signatures
  it sends along before or after its own.
\<close>

theorem webhook_refreshes:
  "(case (if rq_path_value r ''sdkId'' = [] then None else rv_GetSdkOrNil rv (rq_path_value r ''sdkId'')) of
      None \<Rightarrow>
        rs_effects (ServeWebhookSdkId hmac now rv r new_response) = []
        \<and> status_code (ServeWebhookSdkId hmac now rv r new_response) = (if rq_path_value r ''sdkId'' = [] then 400 else 404)
    | Some (a, c) \<Rightarrow>
        (if WebhookSigningKey c = [] \<or>
            header_get r idHeader \<noteq> [] \<and> header_get r signatureHeader \<noteq> [] \<and>
            (\<exists>t body. parse_int64 (header_get r timestampHeader) = Some t
               \<and> oldest_allowed now (WebhookSignatureValidFor c) \<le> t \<and> rq_body r = Inr body
               \<and> StdEncoding (hmac (WebhookSigningKey c) (header_get r idHeader @ header_get r timestampHeader @ body))
                   \<in> set (split_on CHR '','' (header_get r signatureHeader)))
         then rs_effects (ServeWebhookSdkId hmac now rv r new_response) = [RefreshClient a]
           \<and> status_code (ServeWebhookSdkId hmac now rv r new_response) = 200
         else rs_effects (ServeWebhookSdkId hmac now rv r new_response) = []
           \<and> status_code (ServeWebhookSdkId hmac now rv r new_response) = 400))
   \<and> (\<forall>a c whid t body before after.
        rq_path_value r ''sdkId'' \<noteq> [] \<and> rv_GetSdkOrNil rv (rq_path_value r ''sdkId'') = Some (a, c)
        \<and> header_get r idHeader = whid \<and> whid \<noteq> [] \<and> header_get r timestampHeader = show_int t
        \<and> t \<in> {- (2 ^ 63)..<2 ^ 63} \<and> oldest_allowed now (WebhookSignatureValidFor c) \<le> t \<and> rq_body r = Inr body
        \<and> hmac (WebhookSigningKey c) (whid @ show_int t @ body) \<noteq> []
        \<and> (\<forall>s \<in> set (before @ after). CHR '','' \<notin> set s)
        \<and> header_get r signatureHeader =
            join_with '','' (before @ StdEncoding (hmac (WebhookSigningKey c) (whid @ show_int t @ body)) # after)
        \<longrightarrow> rs_effects (ServeWebhookSdkId hmac now rv r new_response) = [RefreshClient a])"
  (is "?exact \<and> ?signed")
proof
  show ?exact
    by (auto simp: ServeWebhookSdkId_def validateSignature_iff http_simps split: option.splits)
  show ?signed
    using signed_webhook_accepted [of r, where hmac = hmac and now = now]
    by (auto simp: ServeWebhookSdkId_effects new_response_def StdEncoding_Nil)
qed

text \<open>A sender that rotates its keys and sends two signatures, the second one made with the current key.\<close>

definition hook_client :: client where
  "hook_client = NewClient id \<lparr>en_ConfigJson = [], en_ETag = [], en_FetchTime = 0, en_Empty = False\<rparr> empty_snapshot
     \<lparr>cx_SdkId = ''main'', cx_SecondarySdkKey = None,
      cx_SDKConf = zero_sdk\<lparr>sdk_WebhookSigningKey := ''key'', sdk_WebhookSignatureValidFor := 300\<rparr>,
      cx_GlobalDefaultAttrs = None, cx_ExternalCache = False, cx_EvalReporter = False\<rparr>"

definition signed_request :: request where
  "signed_request = \<lparr>rq_method = ''POST'', rq_path = ''/hook/main'',
     rq_header = [''X-Configcat-Webhook-Id'' \<mapsto> ''7'', ''X-Configcat-Webhook-Timestamp'' \<mapsto> show_int 1000,
       ''X-Configcat-Webhook-Signature-V1'' \<mapsto> join_with '','' [''b2xk'', StdEncoding (''key'' @ ''7'' @ show_int 1000 @ ''{}'')]],
     rq_path_value = (\<lambda>n. ''main''), rq_query = (\<lambda>n. []), rq_body = Inr ''{}'', rq_basic = None\<rparr>"

theorem webhook_refreshes_witness:
  "rs_effects (ServeWebhookSdkId (\<lambda>key payload. key @ payload) 1200
     \<lparr>rv_GetSdkOrNil = [''main'' \<mapsto> (3, hook_client)], rv_GetSdkByKeyOrNil = (\<lambda>k. None)\<rparr>
     signed_request new_response) = [RefreshClient 3]"
proof (rule webhook_refreshes [THEN conjunct2, rule_format, where c = hook_client and before = "[''b2xk'']"
      and after = "[]" and t = 1000 and whid = "''7''" and body = "''{}''"])
  have "WebhookSigningKey hook_client = ''key''" "WebhookSignatureValidFor hook_client = 300"
    by (simp_all add: hook_client_def NewClient_def client_simps)
  moreover have "oldest_allowed 1200 300 \<le> 1000" by code_simp
  ultimately show "rq_path_value signed_request ''sdkId'' \<noteq> []
    \<and> rv_GetSdkOrNil \<lparr>rv_GetSdkOrNil = [''main'' \<mapsto> (3, hook_client)], rv_GetSdkByKeyOrNil = (\<lambda>k. None)\<rparr>
        (rq_path_value signed_request ''sdkId'') = Some (3, hook_client)
    \<and> header_get signed_request idHeader = ''7'' \<and> ''7'' \<noteq> [] \<and> header_get signed_request timestampHeader = show_int 1000
    \<and> 1000 \<in> {- (2 ^ 63)..<2 ^ 63 :: int} \<and> oldest_allowed 1200 (WebhookSignatureValidFor hook_client) \<le> 1000
    \<and> rq_body signed_request = Inr ''{}'' \<and> WebhookSigningKey hook_client @ ''7'' @ show_int 1000 @ ''{}'' \<noteq> []
    \<and> (\<forall>s \<in> set ([''b2xk''] @ []). CHR '','' \<notin> set s)
    \<and> header_get signed_request signatureHeader = join_with '','' ([''b2xk''] @
        StdEncoding (WebhookSigningKey hook_client @ ''7'' @ show_int 1000 @ ''{}'') # [])"
    by (simp add: signed_request_def header_get_def canonical_headers)
qed

text \<open>
  The signature does not protect the timestamp: identifier and timestamp are concatenated
  without a separator. A valid request whose identifier ends in a digit stays valid when this
  digit is moved to the front of the timestamp, and the moved request is accepted at any later
  time up to the larger timestamp, long after the original has expired.
\<close>

lemma webhook_replay:
  assumes "validateSignature hmac now key validFor r"
    and "header_get r idHeader = whid @ [d]" and "header_get r timestampHeader = ts" and "whid \<noteq> []"
    and "parse_int64 (d # ts) = Some t" and "oldest_allowed later validFor \<le> t"
  shows "validateSignature hmac later key validFor (shift_digit r whid d ts)"
  by (rule replay_shifted [OF assms])

end
