(* ===== verification/Sse.thy ===== *)
theory Sse
  imports WebApi Stream
begin

text \<open>
  \<open>web/sse/sse.go\<close>: the handlers that open an event stream for one flag or for all flags, and
  the framing of the events they send. The stream server is seen through its two lookups, which
  give a stream and its address; what a handler does with the stream is the effect
  \<open>ListenStream\<close>, and the loop that serves the connection is \<open>listen_loop\<close>. Writes to
  the connection succeed; the code only logs one that fails.
\<close>

section \<open>Definitions\<close>

definition streamDataName :: string where "streamDataName = ''data''"

record streams_view =
  sv_GetStreamOrNil :: "string \<Rightarrow> (nat \<times> stream) option"
  sv_GetStreamBySdkKeyOrNil :: "string \<Rightarrow> (nat \<times> stream) option"

text \<open>\<open>Header().Add\<close>: the model keeps the first value of a header, the one \<open>Get\<close> returns.\<close>

definition add_header :: "string \<Rightarrow> string \<Rightarrow> 'e response \<Rightarrow> 'e response" where
  "add_header k v w = (if rs_header w (canonical_key k) = None then set_header k v w else w)"

definition stream_headers :: "'e response \<Rightarrow> 'e response" where
  "stream_headers w =
     add_header ''X-Accel-Buffering'' ''no''
       (set_header ''Connection'' ''keep-alive''
         (set_header ''Cache-Control'' ''no-cache''
           (set_header ''Content-Type'' ''text/event-stream'' w)))"

text \<open>\<open>prepareResponse\<close> after its headers: the request of the \<open>data\<close> parameter, or the error message.\<close>

definition parse_data :: "json \<Rightarrow> request \<Rightarrow> bool \<Rightarrow> string + eval_request" where
  "parse_data js r dataMustSet =
     (let streamData = rq_path_value r streamDataName
      in if streamData = []
         then (if dataMustSet then Inl (quoted streamDataName @ '' path parameter must be set'') else Inr zero_request)
         else (case Base64URLDecode streamData of
             Inl err \<Rightarrow> Inl (''failed to decode incoming '' @ quoted streamDataName)
           | Inr streamContext \<Rightarrow>
               (case js_EvalRequest js streamContext of
                  Inl err \<Rightarrow> Inl (''failed to deserialize incoming '' @ quoted streamDataName @ '': '' @ err)
                | Inr None \<Rightarrow> Inr zero_request
                | Inr (Some evalReq) \<Rightarrow> Inr evalReq)))"

definition prepareResponse ::
  "json \<Rightarrow> request \<Rightarrow> bool \<Rightarrow> 'e response \<Rightarrow> 'e response \<times> eval_request option" where
  "prepareResponse js r dataMustSet w =
     (let w1 = stream_headers w
      in case parse_data js r dataMustSet of
           Inl msg \<Rightarrow> (http_error msg 400 w1, None)
         | Inr evalReq \<Rightarrow> (w1, Some evalReq))"

definition getStream ::
  "streams_view \<Rightarrow> string \<Rightarrow> string \<Rightarrow> 'e response \<Rightarrow> 'e response \<times> (nat \<times> stream) option" where
  "getStream sv sdkId sdkKey w =
     (if sdkId = [] \<and> sdkKey = []
      then (http_error (''either the '' @ quoted ''sdkId'' @ '' path parameter or the '' @ quoted ''sdkKey'' @
              '' data parameter must be set'') 400 w, None)
      else (case (if sdkId \<noteq> [] then sv_GetStreamOrNil sv sdkId else sv_GetStreamBySdkKeyOrNil sv sdkKey) of
          None \<Rightarrow> (http_error not_identified 404 w, None)
        | Some (a, str) \<Rightarrow>
            (if \<not> stream_IsInValidState str then (http_error invalid_state 500 w, None)
             else (w, Some (a, str)))))"

text \<open>The start of \<open>listenAndRespond\<close>: the connection is created, then the headers are flushed.\<close>

definition start_listening :: "nat \<Rightarrow> string \<Rightarrow> user_attrs \<Rightarrow> effect response \<Rightarrow> effect response" where
  "start_listening a key user w = write_header 200 (with_effect (ListenStream a key user) w)"

definition sse_SingleFlag :: "json \<Rightarrow> streams_view \<Rightarrow> bool \<Rightarrow> effect handler" where
  "sse_SingleFlag js sv flushable r w =
     (if \<not> flushable then http_error ''streaming not supported'' 501 w
      else (case prepareResponse js r True w of
          (w1, None) \<Rightarrow> w1
        | (w1, Some evalReq) \<Rightarrow>
            (case getStream sv (rq_path_value r ''sdkId'') (er_SdkKey evalReq) w1 of
               (w2, None) \<Rightarrow> w2
             | (w2, Some (a, str)) \<Rightarrow>
                 (if er_Key evalReq = [] then http_error (quoted ''key'' @ '' must be set'') 400 w2
                  else if \<not> CanEval str (er_Key evalReq) then http_error (flag_not_found (er_Key evalReq)) 400 w2
                  else start_listening a (er_Key evalReq) (er_User evalReq) w2))))"

definition sse_AllFlags :: "json \<Rightarrow> streams_view \<Rightarrow> bool \<Rightarrow> effect handler" where
  "sse_AllFlags js sv flushable r w =
     (if \<not> flushable then http_error ''streaming not supported'' 501 w
      else (case prepareResponse js r (rq_path_value r ''sdkId'' = []) w of
          (w1, None) \<Rightarrow> w1
        | (w1, Some evalReq) \<Rightarrow>
            (case getStream sv (rq_path_value r ''sdkId'') (er_SdkKey evalReq) w1 of
               (w2, None) \<Rightarrow> w2
             | (w2, Some (a, str)) \<Rightarrow> start_listening a AllFlagsDiscriminator (er_User evalReq) w2)))"

definition formatSseMsg :: "bytes \<Rightarrow> bytes" where
  "formatSseMsg b = ''data: '' @ b @ [newline_char, newline_char]"

text \<open>
  The loop of \<open>listenAndRespond\<close> over the events its \<open>select\<close> receives. It returns whether it
  closed the connection, \<open>None\<close> while it is still listening; \<open>marshal\<close> is the JSON encoder.
\<close>

datatype listen_event = PayloadReceived message | RequestDone | StreamStopped | ServerStopped

fun listen_loop ::
  "(message \<Rightarrow> bytes res) \<Rightarrow> listen_event list \<Rightarrow> 'e response \<Rightarrow> 'e response \<times> bool option" where
  "listen_loop marshal [] w = (w, None)"
| "listen_loop marshal (PayloadReceived payload # evs) w =
     (case marshal payload of
        Inr data \<Rightarrow> listen_loop marshal evs (write_body (formatSseMsg data) w)
      | Inl err \<Rightarrow> listen_loop marshal evs w)"
| "listen_loop marshal (RequestDone # evs) w = (w, Some True)"
| "listen_loop marshal (StreamStopped # evs) w = (w, Some False)"
| "listen_loop marshal (ServerStopped # evs) w = (w, Some False)"

section \<open>Lemmas\<close>

lemma add_header_frame [simp]:
  "rs_effects (add_header k v w) = rs_effects w" "rs_code (add_header k v w) = rs_code w"
  by (simp_all add: add_header_def)

lemma stream_headers_frame [simp]:
  "rs_effects (stream_headers w) = rs_effects w" "rs_code (stream_headers w) = rs_code w"
  by (simp_all add: stream_headers_def)

lemma prepareResponse_effects:
  "prepareResponse js r m w = (w1, q) \<Longrightarrow> rs_effects w1 = rs_effects w"
  by (auto simp: prepareResponse_def Let_def split: sum.splits)

lemma getStream_effects:
  "getStream sv i k w = (w1, q) \<Longrightarrow> rs_effects w1 = rs_effects w"
  by (auto simp: getStream_def split: if_splits option.splits)

lemma start_listening_effects [simp]:
  "rs_effects (start_listening a k u w) = rs_effects w @ [ListenStream a k u]"
  by (simp add: start_listening_def with_effect_def)

lemma prepareResponse_Some:
  "prepareResponse js r m w = (w1, Some q) \<longleftrightarrow> parse_data js r m = Inr q \<and> w1 = stream_headers w"
  by (auto simp: prepareResponse_def Let_def split: sum.splits)

lemma getStream_Some:
  "getStream sv i k w = (w1, Some (a, str)) \<longleftrightarrow>
     w1 = w \<and> (i \<noteq> [] \<or> k \<noteq> []) \<and> stream_IsInValidState str \<and>
     (if i \<noteq> [] then sv_GetStreamOrNil sv i else sv_GetStreamBySdkKeyOrNil sv k) = Some (a, str)"
  by (auto simp: getStream_def split: option.splits)

subsection \<open>What a stream request opens\<close>

definition opened :: "'e response \<Rightarrow> 'e response \<Rightarrow> 'e list" where
  "opened w w' = drop (length (rs_effects w)) (rs_effects w')"

text \<open>At most one stream is opened, for a valid SDK, by identifier if one is given.\<close>

lemma AllFlags_opens:
  "rs_effects (sse_AllFlags js sv flushable r w) = rs_effects w @
     (case (flushable, parse_data js r (rq_path_value r ''sdkId'' = [])) of
        (True, Inr q) \<Rightarrow>
          (case getStream sv (rq_path_value r ''sdkId'') (er_SdkKey q) (stream_headers w) of
             (_, Some (a, str)) \<Rightarrow> [ListenStream a AllFlagsDiscriminator (er_User q)]
           | _ \<Rightarrow> [])
      | _ \<Rightarrow> [])"
  by (auto simp: sse_AllFlags_def prepareResponse_def Let_def dest!: getStream_effects
      split: prod.splits option.splits sum.splits)

lemma SingleFlag_opens:
  assumes "ListenStream a k u \<in> set (rs_effects (sse_SingleFlag js sv flushable r w))"
    and "ListenStream a k u \<notin> set (rs_effects w)"
  shows "\<exists>q str. parse_data js r True = Inr q \<and> k = er_Key q \<and> u = er_User q \<and> k \<noteq> []
    \<and> (if rq_path_value r ''sdkId'' \<noteq> [] then sv_GetStreamOrNil sv (rq_path_value r ''sdkId'')
       else sv_GetStreamBySdkKeyOrNil sv (er_SdkKey q)) = Some (a, str)
    \<and> stream_IsInValidState str \<and> CanEval str k"
proof -
  obtain w1 q0 where p: "prepareResponse js r True w = (w1, q0)" by fastforce
  have fl: flushable using assms by (cases flushable) (auto simp: sse_SingleFlag_def)
  obtain q where q: "q0 = Some q"
    using assms fl prepareResponse_effects [OF p] by (cases q0) (auto simp: sse_SingleFlag_def p)
  obtain w2 s0 where g: "getStream sv (rq_path_value r ''sdkId'') (er_SdkKey q) w1 = (w2, s0)" by fastforce
  have fr: "rs_effects w2 = rs_effects w" using prepareResponse_effects [OF p] getStream_effects [OF g] by simp
  obtain a' str where s: "s0 = Some (a', str)"
    using assms fl fr by (cases s0) (auto simp: sse_SingleFlag_def p q g)
  have "er_Key q \<noteq> [] \<and> CanEval str (er_Key q) \<and> a' = a \<and> er_Key q = k \<and> er_User q = u"
    using assms fl fr by (auto simp: sse_SingleFlag_def p q g s split: if_splits)
  then show ?thesis
    using p g unfolding q s prepareResponse_Some getStream_Some by blast
qed

subsection \<open>Framing\<close>

text \<open>A reader of the event stream: the payloads of the complete events, and what is left.\<close>

fun read_events :: "bytes \<Rightarrow> bytes \<Rightarrow> bytes list" where
  "read_events acc [] = []"
| "read_events acc [c] = []"
| "read_events acc (c # d # s) =
     (if c = newline_char \<and> d = newline_char then trim_prefix (rev acc) ''data: '' # read_events [] s
      else read_events (c # acc) (d # s))"

lemma read_events_frame:
  "newline_char \<notin> set p \<Longrightarrow>
   read_events acc (p @ [newline_char, newline_char] @ s) = trim_prefix (rev acc @ p) ''data: '' # read_events [] s"
proof (induction p arbitrary: acc)
  case (Cons c p)
  then have "read_events acc ((c # p) @ [newline_char, newline_char] @ s)
      = read_events (c # acc) (p @ [newline_char, newline_char] @ s)"
    by (cases p) auto
  then show ?case using Cons by simp
qed simp

lemma read_events_formatSseMsg:
  "newline_char \<notin> set b \<Longrightarrow> read_events [] (formatSseMsg b @ s) = b # read_events [] s"
  using read_events_frame [of "''data: '' @ b" "[]" s] by (simp add: formatSseMsg_def str_simps)

lemma read_concat:
  "(\<And>b. b \<in> set bs \<Longrightarrow> newline_char \<notin> set b) \<Longrightarrow> read_events [] (concat (map formatSseMsg bs)) = bs"
  by (induction bs) (simp_all add: read_events_formatSseMsg)

text \<open>The body the loop writes is the sequence of the framed payloads received before it returned.\<close>

fun before_stop :: "listen_event list \<Rightarrow> message list" where
  "before_stop (PayloadReceived m # evs) = m # before_stop evs"
| "before_stop _ = []"

lemma listen_loop_body:
  "rs_body (fst (listen_loop marshal evs w)) = rs_body w @
     concat (map formatSseMsg (List.map_filter (\<lambda>m. case marshal m of Inr b \<Rightarrow> Some b | Inl _ \<Rightarrow> None) (before_stop evs)))"
proof (induction marshal evs w rule: listen_loop.induct)
  case (2 marshal payload evs w)
  then show ?case
    by (cases "marshal payload")
      (auto simp: List.map_filter_simps write_body_def write_header_def del_header_def Let_def split: if_splits)
qed (simp_all add: List.map_filter_simps)

text \<open>
  The connection is taken off the stream exactly when the request ends first: a stopped stream
  drops its connections itself.
\<close>

lemma listen_loop_closes:
  "snd (listen_loop marshal evs w) =
     (case dropWhile (\<lambda>e. \<exists>m. e = PayloadReceived m) evs of [] \<Rightarrow> None | e # _ \<Rightarrow> Some (e = RequestDone))"
  by (induction marshal evs w rule: listen_loop.induct) (auto split: sum.splits)

section \<open>Properties\<close>

text \<open>
  C30: a client that reads the event stream gets back exactly the JSON documents of the payloads
  received before the connection ended, in order; payloads that cannot be encoded are skipped.
\<close>

theorem sse_roundtrip:
  assumes "\<forall>m \<in> set (before_stop evs). \<forall>b. marshal m = Inr b \<longrightarrow> newline_char \<notin> set b"
  shows "read_events [] (rs_body (fst (listen_loop marshal evs new_response))) =
    List.map_filter (\<lambda>m. case marshal m of Inr b \<Rightarrow> Some b | Inl _ \<Rightarrow> None) (before_stop evs)"
proof -
  let ?bs = "List.map_filter (\<lambda>m. case marshal m of Inr b \<Rightarrow> Some b | Inl _ \<Rightarrow> None) (before_stop evs)"
  have "newline_char \<notin> set b" if "b \<in> set ?bs" for b
    using that assms by (auto simp: List.map_filter_def split: sum.splits)
  then show ?thesis by (simp add: listen_loop_body new_response_def read_concat)
qed

theorem sse_roundtrip_witness:
  "read_events [] (rs_body (fst (listen_loop (\<lambda>m. Inr ''x'')
     [PayloadReceived (SinglePayload None), PayloadReceived (AllPayload Map.empty), RequestDone, PayloadReceived (SinglePayload None)]
     new_response))) = [''x'', ''x'']"
  by (subst sse_roundtrip) (simp_all add: List.map_filter_simps)

end
