(* ===== verification/Router.thy ===== *)
theory Router
  imports Webhook Sse Logger
begin

text \<open>
  \<open>web/router.go\<close>: the routes of the HTTP server, the middlewares around each handler and the
  dispatch of a request. \<open>http.ServeMux\<close> is modelled as far as the router uses it: patterns of a
  method and a path with wildcards, the redirect to the cleaned path, the redirect to a path
  with a trailing slash, 404 and 405. Paths are decoded paths without escaped slashes.
\<close>

section \<open>Definitions\<close>

subsection \<open>\<open>http.ServeMux\<close>\<close>

datatype segment = Lit string | Wild string | Rest string

definition parse_segment :: "string \<Rightarrow> segment" where
  "parse_segment s =
     (if s \<noteq> [] \<and> hd s = CHR ''{'' \<and> last s = CHR ''}''
      then (let name = butlast (tl s)
            in if has_suffix name ''...'' then Rest (trim_suffix name ''...'') else Wild name)
      else Lit s)"

definition parse_pattern :: "string \<Rightarrow> segment list" where
  "parse_pattern path = map parse_segment (split_on CHR ''/'' (tl path))"

text \<open>The bindings of the wildcards when the segments of a path match a pattern.\<close>

fun match_path :: "segment list \<Rightarrow> string list \<Rightarrow> (string \<times> string) list option" where
  "match_path [] [] = Some []"
| "match_path (Lit s # ps) (x # xs) = (if s = x then match_path ps xs else None)"
| "match_path (Wild n # ps) (x # xs) =
     (if x = [] then None else map_option (\<lambda>b. (n, x) # b) (match_path ps xs))"
| "match_path [Rest n] (x # xs) = Some [(n, join_with ''/'' (x # xs))]"
| "match_path _ _ = None"

text \<open>A pattern for GET serves HEAD as well.\<close>

definition match_method :: "string \<Rightarrow> string \<Rightarrow> bool" where
  "match_method pattern method \<longleftrightarrow> pattern = method \<or> pattern = ''GET'' \<and> method = ''HEAD''"

record route =
  rt_method :: string
  rt_path :: string
  rt_handler :: "effect handler"

fun clean_segments :: "string list \<Rightarrow> string list \<Rightarrow> string list" where
  "clean_segments acc [] = rev acc"
| "clean_segments acc (s # ss) =
     (if s = [] \<or> s = ''.'' then clean_segments acc ss
      else if s = ''..'' then clean_segments (tl acc) ss
      else clean_segments (s # acc) ss)"

definition cleanPath :: "string \<Rightarrow> string" where
  "cleanPath p =
     (if p = [] then ''/''
      else (let np = ''/'' @ join_with ''/'' (clean_segments [] (split_on CHR ''/'' p))
            in if last p = CHR ''/'' \<and> np \<noteq> ''/'' then np @ ''/'' else np))"

definition path_segments :: "string \<Rightarrow> string list" where
  "path_segments path = split_on CHR ''/'' (tl path)"

fun find_route :: "route list \<Rightarrow> string \<Rightarrow> string list \<Rightarrow> (route \<times> (string \<times> string) list) option" where
  "find_route [] method segs = None"
| "find_route (rt # rts) method segs =
     (case (if match_method (rt_method rt) method then match_path (parse_pattern (rt_path rt)) segs else None) of
        Some b \<Rightarrow> Some (rt, b)
      | None \<Rightarrow> find_route rts method segs)"

text \<open>A pattern that ends in a multi-segment wildcard matches the path with an empty rest.\<close>

definition redirects_to_slash :: "route list \<Rightarrow> string \<Rightarrow> string \<Rightarrow> bool" where
  "redirects_to_slash rts method path \<longleftrightarrow>
     \<not> has_suffix path ''/'' \<and> find_route rts method (path_segments path) = None \<and>
     list_ex (\<lambda>rt. match_method (rt_method rt) method \<and>
        (let ps = parse_pattern (rt_path rt)
         in (case last ps of Rest n \<Rightarrow> match_path (butlast ps) (path_segments path) \<noteq> None | _ \<Rightarrow> False))) rts"

definition redirect :: "string \<Rightarrow> effect response \<Rightarrow> effect response" where
  "redirect url w = write_header 301 (set_header ''Location'' url w)"

definition mux_ServeHTTP :: "route list \<Rightarrow> effect handler" where
  "mux_ServeHTTP rts r w =
     (let path = (if rq_method r = ''CONNECT'' then rq_path r else cleanPath (rq_path r))
      in if redirects_to_slash rts (rq_method r) path then redirect (path @ ''/'') w
         else if path \<noteq> rq_path r then redirect path w
         else (case find_route rts (rq_method r) (path_segments path) of
             Some (rt, b) \<Rightarrow>
               rt_handler rt (r\<lparr>rq_path_value := (\<lambda>n. case map_of b n of None \<Rightarrow> [] | Some v \<Rightarrow> v)\<rparr>) w
           | None \<Rightarrow>
               (if list_ex (\<lambda>rt. match_path (parse_pattern (rt_path rt)) (path_segments path) \<noteq> None) rts
                then http_error ''Method Not Allowed'' 405 w
                else http_error ''404 page not found'' 404 w)))"

subsection \<open>What the router is built from\<close>

record router_env =
  re_json :: json
  re_xxhash :: "bytes \<Rightarrow> bytes"
  re_disc :: "user_attrs \<Rightarrow> 64 word"
  re_order :: "(string \<rightharpoonup> eval_data) \<Rightarrow> string list"
  re_hmac :: "bytes \<Rightarrow> bytes \<Rightarrow> bytes"
  re_sha :: "bytes \<Rightarrow> bytes"
  re_now :: int
  re_registrar :: registrar_view
  re_streams :: streams_view
  re_refresh :: "nat \<Rightarrow> string option"
  re_status :: "bytes res"
  re_match :: "string \<Rightarrow> string \<Rightarrow> bool"
  re_ord :: "(string \<rightharpoonup> string) \<Rightarrow> string list"
  re_instrumented :: bool
  re_otel :: "string \<Rightarrow> effect handler \<Rightarrow> effect handler"

text \<open>\<open>InstrumentHttp\<close>; \<open>re_otel\<close> is the handler of the OpenTelemetry library.\<close>

definition InstrumentHttp :: "router_env \<Rightarrow> string \<Rightarrow> string \<Rightarrow> effect handler \<Rightarrow> effect handler" where
  "InstrumentHttp env operation method h =
     (if re_instrumented env then re_otel env (''HTTP '' @ method @ '' '' @ operation) h else h)"

definition header_pairs :: "router_env \<Rightarrow> (string \<rightharpoonup> string) \<Rightarrow> (string \<times> string) list" where
  "header_pairs env m = map (\<lambda>k. (k, case m k of None \<Rightarrow> [] | Some v \<Rightarrow> v)) (re_ord env m)"

text \<open>
  The layers every endpoint with CORS gets: automatic OPTIONS, extra headers, CORS headers and
  the debug log, from the inside out.
\<close>

definition cors_layers ::
  "router_env \<Rightarrow> bool \<Rightarrow> (string \<rightharpoonup> string) \<Rightarrow> cors_config \<Rightarrow> string \<Rightarrow> string list \<Rightarrow> effect handler \<Rightarrow> effect handler" where
  "cors_layers env debug headers cors method requestHeaders h0 =
     (let h1 = AutoOptions h0;
          h2 = (if re_ord env headers \<noteq> [] then ExtraHeaders (header_pairs env headers) h1 else h1);
          h3 = (if cors_Enabled cors
                then CORS (re_match env) [method, ''OPTIONS''] (AllowedOrigins cors)
                       (KeysOfMap headers (re_ord env headers)) requestHeaders (AllowedOriginsRegex cors) h2
                else h2)
      in if debug then DebugLog h3 else h3)"

definition auth_layer :: "router_env \<Rightarrow> (string \<rightharpoonup> string) \<Rightarrow> effect handler \<Rightarrow> effect handler" where
  "auth_layer env authHeaders h =
     (if re_ord env authHeaders \<noteq> [] then HeaderAuth (header_pairs env authHeaders) h else h)"

text \<open>An endpoint is registered for its method and for OPTIONS.\<close>

definition plain_routes :: "string \<Rightarrow> string \<Rightarrow> effect handler \<Rightarrow> route list" where
  "plain_routes path method h =
     [\<lparr>rt_method = method, rt_path = path, rt_handler = h\<rparr>,
      \<lparr>rt_method = ''OPTIONS'', rt_path = path, rt_handler = h\<rparr>]"

definition instrumented_routes :: "router_env \<Rightarrow> string \<Rightarrow> string list \<Rightarrow> effect handler \<Rightarrow> route list" where
  "instrumented_routes env path methods h =
     map (\<lambda>m. \<lparr>rt_method = m, rt_path = path, rt_handler = InstrumentHttp env path m h\<rparr>) methods"

subsection \<open>The groups of routes\<close>

definition sse_endpoints :: "router_env \<Rightarrow> (string \<times> effect handler \<times> string) list" where
  "sse_endpoints env =
     (let single = sse_SingleFlag (re_json env) (re_streams env) True;
          alls = sse_AllFlags (re_json env) (re_streams env) True
      in [(''/sse/{sdkId}/eval/{data}'', single, ''GET''),
          (''/sse/{sdkId}/eval-all/{data}'', alls, ''GET''),
          (''/sse/{sdkId}/eval-all'', alls, ''GET''),
          (''/sse/eval/k/{data}'', single, ''GET''),
          (''/sse/eval-all/k/{data}'', alls, ''GET'')])"

definition setupSSERoutes :: "router_env \<Rightarrow> bool \<Rightarrow> sse_config \<Rightarrow> route list" where
  "setupSSERoutes env debug conf =
     concat (map (\<lambda>(path, h, method).
        plain_routes path method (cors_layers env debug (sse_Headers conf) (sse_CORS conf) method [] h))
      (sse_endpoints env))"

definition webhook_handler :: "router_env \<Rightarrow> bool \<Rightarrow> webhook_config \<Rightarrow> effect handler" where
  "webhook_handler env debug conf =
     (let h0 = ServeWebhookSdkId (re_hmac env) (re_now env) (re_registrar env);
          h1 = (if auth_User (wh_Auth conf) \<noteq> [] \<and> auth_Password (wh_Auth conf) \<noteq> []
                then BasicAuth (re_sha env) (auth_User (wh_Auth conf)) (auth_Password (wh_Auth conf)) h0 else h0);
          h2 = auth_layer env (wh_AuthHeaders conf) h1
      in if debug then DebugLog h2 else h2)"

definition setupWebhookRoutes :: "router_env \<Rightarrow> bool \<Rightarrow> webhook_config \<Rightarrow> profile_config \<Rightarrow> route list" where
  "setupWebhookRoutes env debug conf autoSdkConfig =
     (let testHandler0 = ServeWebhookTest (re_hmac env) (re_now env) autoSdkConfig;
          testHandler = (if debug then DebugLog testHandler0 else testHandler0)
      in instrumented_routes env ''/hook/{sdkId}'' [''GET'', ''POST''] (webhook_handler env debug conf)
         @ instrumented_routes env ''/hook-test'' [''GET'', ''POST''] testHandler)"

definition setupCDNProxyRoutes :: "router_env \<Rightarrow> bool \<Rightarrow> cdn_proxy_config \<Rightarrow> route list" where
  "setupCDNProxyRoutes env debug conf =
     instrumented_routes env ''/configuration-files/{path...}'' [''GET'', ''OPTIONS'']
       (cors_layers env debug (cdn_Headers conf) (cdn_CORS conf) ''GET'' [] (GZip (cdn_ServeHTTP (re_registrar env))))"

definition status_handler :: "bytes res \<Rightarrow> effect handler" where
  "status_handler marshalled r w =
     (let w1 = (case marshalled of Inl err \<Rightarrow> http_error ''Error producing status'' 500 w | Inr b \<Rightarrow> w)
      in write_body (case marshalled of Inl err \<Rightarrow> [] | Inr b \<Rightarrow> b) (set_header ''Content-Type'' ''application/json'' w1))"

definition setupStatusRoutes :: "router_env \<Rightarrow> route list" where
  "setupStatusRoutes env = plain_routes ''/status'' ''GET'' (AutoOptions (GZip (status_handler (re_status env))))"

definition api_endpoints :: "router_env \<Rightarrow> (string \<times> effect handler \<times> string) list" where
  "api_endpoints env =
     (let eval = GZip (api_Eval (re_json env) (re_registrar env));
          evalAll = GZip (api_EvalAll (re_json env) (re_registrar env));
          keys = GZip (api_Keys (re_json env) (re_registrar env));
          refresh = api_Refresh (re_refresh env) (re_registrar env)
      in [(''/api/{sdkId}/eval'', eval, ''POST''),
          (''/api/{sdkId}/eval-all'', evalAll, ''POST''),
          (''/api/{sdkId}/keys'', keys, ''GET''),
          (''/api/{sdkId}/refresh'', refresh, ''POST''),
          (''/api/eval'', eval, ''POST''),
          (''/api/eval-all'', evalAll, ''POST''),
          (''/api/keys'', keys, ''GET''),
          (''/api/refresh'', refresh, ''POST''),
          (''/api/icanhascoffee'', ICanHasCoffee, ''GET'')])"

definition setupAPIRoutes :: "router_env \<Rightarrow> bool \<Rightarrow> api_config \<Rightarrow> route list" where
  "setupAPIRoutes env debug conf =
     concat (map (\<lambda>(path, h, method).
        instrumented_routes env path [method, ''OPTIONS'']
          (cors_layers env debug (api_Headers conf) (api_CORS conf) method
             (KeysOfMap (api_AuthHeaders conf) (re_ord env (api_AuthHeaders conf)))
             (auth_layer env (api_AuthHeaders conf) h)))
      (api_endpoints env))"

definition ofrep_endpoints :: "router_env \<Rightarrow> (string \<times> effect handler \<times> string) list" where
  "ofrep_endpoints env =
     [(''/ofrep/v1/evaluate/flags/{key}'', GZip (ofrep_Eval (re_json env) (re_registrar env)), ''POST''),
      (''/ofrep/v1/evaluate/flags'',
       GZip (ofrep_EvalAll (re_json env) (re_xxhash env) (re_disc env) (re_order env) (re_registrar env)), ''POST'')]"

definition setupOFREPRoutes :: "router_env \<Rightarrow> bool \<Rightarrow> ofrep_config \<Rightarrow> route list" where
  "setupOFREPRoutes env debug conf =
     concat (map (\<lambda>(path, h, method).
        instrumented_routes env path [method, ''OPTIONS'']
          (cors_layers env debug (ofrep_Headers conf) (ofrep_CORS conf) method
             (KeysOfMap (ofrep_AuthHeaders conf) (re_ord env (ofrep_AuthHeaders conf)) @ [SdkIdHeader])
             (auth_layer env (ofrep_AuthHeaders conf) h)))
      (ofrep_endpoints env))"

text \<open>\<open>NewRouter\<close>: the log level decides on the debug layer.\<close>

definition NewRouter :: "router_env \<Rightarrow> http_config \<Rightarrow> profile_config \<Rightarrow> logger \<Rightarrow> route list" where
  "NewRouter env conf autoSdkConfig log =
     (let httpLog = WithPrefix ''http'' (WithLevel (GetLevel (http_Log conf)) log);
          debug = (lg_level httpLog = Debug)
      in (if sse_Enabled (http_Sse conf) then setupSSERoutes env debug (http_Sse conf) else [])
         @ (if wh_Enabled (http_Webhook conf) then setupWebhookRoutes env debug (http_Webhook conf) autoSdkConfig else [])
         @ (if cdn_Enabled (http_CdnProxy conf) then setupCDNProxyRoutes env debug (http_CdnProxy conf) else [])
         @ (if api_Enabled (http_Api conf) then setupAPIRoutes env debug (http_Api conf) else [])
         @ (if ofrep_Enabled (http_OFREP conf) then setupOFREPRoutes env debug (http_OFREP conf) else [])
         @ (if st_Enabled (http_Status conf) then setupStatusRoutes env else []))"

definition ServeHTTP :: "route list \<Rightarrow> effect handler" where
  "ServeHTTP rts req w =
     (let path = rq_path req
      in mux_ServeHTTP rts
           (if rq_method req \<noteq> ''CONNECT'' \<and> path \<noteq> ''/'' \<and> length path > 1 \<and> last path = CHR ''/''
            then req\<lparr>rq_path := butlast path\<rparr> else req) w)"

section \<open>Lemmas\<close>

subsection \<open>Patterns\<close>

lemma parsed_patterns:
  "parse_pattern ''/sse/{sdkId}/eval/{data}'' = [Lit ''sse'', Wild ''sdkId'', Lit ''eval'', Wild ''data'']"
  "parse_pattern ''/sse/{sdkId}/eval-all/{data}'' = [Lit ''sse'', Wild ''sdkId'', Lit ''eval-all'', Wild ''data'']"
  "parse_pattern ''/sse/{sdkId}/eval-all'' = [Lit ''sse'', Wild ''sdkId'', Lit ''eval-all'']"
  "parse_pattern ''/sse/eval/k/{data}'' = [Lit ''sse'', Lit ''eval'', Lit ''k'', Wild ''data'']"
  "parse_pattern ''/sse/eval-all/k/{data}'' = [Lit ''sse'', Lit ''eval-all'', Lit ''k'', Wild ''data'']"
  "parse_pattern ''/hook/{sdkId}'' = [Lit ''hook'', Wild ''sdkId'']"
  "parse_pattern ''/hook-test'' = [Lit ''hook-test'']"
  "parse_pattern ''/configuration-files/{path...}'' = [Lit ''configuration-files'', Rest ''path'']"
  "parse_pattern ''/status'' = [Lit ''status'']"
  "parse_pattern ''/api/{sdkId}/eval'' = [Lit ''api'', Wild ''sdkId'', Lit ''eval'']"
  "parse_pattern ''/api/{sdkId}/eval-all'' = [Lit ''api'', Wild ''sdkId'', Lit ''eval-all'']"
  "parse_pattern ''/api/{sdkId}/keys'' = [Lit ''api'', Wild ''sdkId'', Lit ''keys'']"
  "parse_pattern ''/api/{sdkId}/refresh'' = [Lit ''api'', Wild ''sdkId'', Lit ''refresh'']"
  "parse_pattern ''/api/eval'' = [Lit ''api'', Lit ''eval'']"
  "parse_pattern ''/api/eval-all'' = [Lit ''api'', Lit ''eval-all'']"
  "parse_pattern ''/api/keys'' = [Lit ''api'', Lit ''keys'']"
  "parse_pattern ''/api/refresh'' = [Lit ''api'', Lit ''refresh'']"
  "parse_pattern ''/api/icanhascoffee'' = [Lit ''api'', Lit ''icanhascoffee'']"
  "parse_pattern ''/ofrep/v1/evaluate/flags/{key}'' =
     [Lit ''ofrep'', Lit ''v1'', Lit ''evaluate'', Lit ''flags'', Wild ''key'']"
  "parse_pattern ''/ofrep/v1/evaluate/flags'' = [Lit ''ofrep'', Lit ''v1'', Lit ''evaluate'', Lit ''flags'']"
  by code_simp+

text \<open>Two patterns that no path matches together.\<close>

fun apart_patterns :: "segment list \<Rightarrow> segment list \<Rightarrow> bool" where
  "apart_patterns [] [] = False"
| "apart_patterns [] (q # qs) = True"
| "apart_patterns (p # ps) [] = True"
| "apart_patterns (Lit a # ps) (Lit b # qs) = (a \<noteq> b \<or> apart_patterns ps qs)"
| "apart_patterns (Rest n # ps) (q # qs) = False"
| "apart_patterns (p # ps) (Rest n # qs) = False"
| "apart_patterns (p # ps) (q # qs) = apart_patterns ps qs"

lemma match_path_LitD: "match_path (Lit s # ps) segs = Some b \<Longrightarrow> \<exists>xs. segs = s # xs \<and> match_path ps xs = Some b"
  by (cases segs) (auto split: if_splits)

lemma match_path_WildD: "match_path (Wild n # ps) segs = Some b \<Longrightarrow>
  \<exists>x xs b'. segs = x # xs \<and> x \<noteq> [] \<and> match_path ps xs = Some b' \<and> b = (n, x) # b'"
  by (cases segs) (auto split: if_splits)

lemma match_path_nil: "match_path [] segs = Some b \<longleftrightarrow> segs = [] \<and> b = []"
  by (cases segs) auto

lemma match_path_Rest: "match_path (Rest n # ps) segs \<noteq> None \<Longrightarrow> segs \<noteq> []"
  by (cases segs) auto

lemma apart_patterns_sound:
  "apart_patterns ps qs \<Longrightarrow> match_path ps segs \<noteq> None \<Longrightarrow> match_path qs segs = None"
proof (induction ps qs arbitrary: segs rule: apart_patterns.induct)
  case (2 q qs)
  then show ?case by (cases segs; cases q) auto
next
  case (3 p ps)
  then show ?case by (cases segs; cases p) auto
qed (auto dest!: match_path_LitD match_path_WildD split: if_splits)

text \<open>Every path the router registers.\<close>

definition all_paths :: "string list" where
  "all_paths = [''/sse/{sdkId}/eval/{data}'', ''/sse/{sdkId}/eval-all/{data}'', ''/sse/{sdkId}/eval-all'',
     ''/sse/eval/k/{data}'', ''/sse/eval-all/k/{data}'', ''/hook/{sdkId}'', ''/hook-test'',
     ''/configuration-files/{path...}'', ''/api/{sdkId}/eval'', ''/api/{sdkId}/eval-all'', ''/api/{sdkId}/keys'',
     ''/api/{sdkId}/refresh'', ''/api/eval'', ''/api/eval-all'', ''/api/keys'', ''/api/refresh'',
     ''/api/icanhascoffee'', ''/ofrep/v1/evaluate/flags/{key}'', ''/ofrep/v1/evaluate/flags'', ''/status'']"

lemma all_paths_apart:
  "list_all (\<lambda>p. list_all (\<lambda>q. p = q \<or> apart_patterns (parse_pattern p) (parse_pattern q)) all_paths) all_paths"
  by code_simp

lemma path_unambiguous:
  assumes "p \<in> set all_paths" "q \<in> set all_paths" "match_path (parse_pattern p) segs \<noteq> None"
    "match_path (parse_pattern q) segs \<noteq> None"
  shows "p = q"
proof (rule ccontr)
  assume "p \<noteq> q"
  then have "apart_patterns (parse_pattern p) (parse_pattern q)"
    using all_paths_apart assms(1,2) by (auto simp: list_all_iff)
  from apart_patterns_sound [OF this assms(3)] assms(4) show False by simp
qed

subsection \<open>The registered routes\<close>

lemmas route_defs = setupSSERoutes_def setupWebhookRoutes_def setupCDNProxyRoutes_def setupAPIRoutes_def
  setupOFREPRoutes_def setupStatusRoutes_def sse_endpoints_def api_endpoints_def ofrep_endpoints_def
  instrumented_routes_def plain_routes_def Let_def

abbreviation route_keys :: "route list \<Rightarrow> (string \<times> string) list" where
  "route_keys rts \<equiv> map (\<lambda>rt. (rt_method rt, rt_path rt)) rts"

lemma group_keys:
  "route_keys (setupSSERoutes env d sse) = concat (map (\<lambda>p. [(''GET'', p), (''OPTIONS'', p)]) (take 5 all_paths))"
  "route_keys (setupWebhookRoutes env d wh prof) =
     [(''GET'', ''/hook/{sdkId}''), (''POST'', ''/hook/{sdkId}''), (''GET'', ''/hook-test''), (''POST'', ''/hook-test'')]"
  "route_keys (setupCDNProxyRoutes env d cdn) =
     [(''GET'', ''/configuration-files/{path...}''), (''OPTIONS'', ''/configuration-files/{path...}'')]"
  "route_keys (setupAPIRoutes env d api) =
     concat (map (\<lambda>(m, p). [(m, p), (''OPTIONS'', p)])
       (zip [''POST'', ''POST'', ''GET'', ''POST'', ''POST'', ''POST'', ''GET'', ''POST'', ''GET''] (take 9 (drop 8 all_paths))))"
  "route_keys (setupOFREPRoutes env d ofrep) =
     concat (map (\<lambda>p. [(''POST'', p), (''OPTIONS'', p)]) (take 2 (drop 17 all_paths)))"
  "route_keys (setupStatusRoutes env) = [(''GET'', ''/status''), (''OPTIONS'', ''/status'')]"
  by (simp_all add: route_defs all_paths_def)

lemma distinct_enabled:
  "distinct (concat (map snd gs)) \<Longrightarrow> distinct (concat (map (\<lambda>(b, g). if b then g else []) gs))"
proof (induction gs)
  case (Cons bg gs)
  have "set (concat (map (\<lambda>(b, g). if b then g else []) gs)) \<subseteq> set (concat (map snd gs))" by auto
  then show ?case using Cons by (cases bg) auto
qed simp

definition all_groups :: "(string \<times> string) list list" where
  "all_groups =
    [concat (map (\<lambda>p. [(''GET'', p), (''OPTIONS'', p)]) (take 5 all_paths)),
     [(''GET'', ''/hook/{sdkId}''), (''POST'', ''/hook/{sdkId}''), (''GET'', ''/hook-test''), (''POST'', ''/hook-test'')],
     [(''GET'', ''/configuration-files/{path...}''), (''OPTIONS'', ''/configuration-files/{path...}'')],
     concat (map (\<lambda>(m, p). [(m, p), (''OPTIONS'', p)])
       (zip [''POST'', ''POST'', ''GET'', ''POST'', ''POST'', ''POST'', ''GET'', ''POST'', ''GET''] (take 9 (drop 8 all_paths)))),
     concat (map (\<lambda>p. [(''POST'', p), (''OPTIONS'', p)]) (take 2 (drop 17 all_paths))),
     [(''GET'', ''/status''), (''OPTIONS'', ''/status'')]]"

lemma NewRouter_keys:
  "route_keys (NewRouter env conf prof log) = concat (map (\<lambda>(b, g). if b then g else [])
     (zip [sse_Enabled (http_Sse conf), wh_Enabled (http_Webhook conf), cdn_Enabled (http_CdnProxy conf),
           api_Enabled (http_Api conf), ofrep_Enabled (http_OFREP conf), st_Enabled (http_Status conf)] all_groups))"
  by (simp add: NewRouter_def Let_def all_groups_def if_distrib [where f = route_keys] group_keys)

lemma NewRouter_distinct: "distinct (route_keys (NewRouter env conf prof log))"
  unfolding NewRouter_keys
proof (rule distinct_enabled)
  have "distinct (concat all_groups)" by code_simp
  moreover have "map snd (zip bs all_groups) = all_groups" if "length bs = 6" for bs :: "bool list"
    using that by (simp add: all_groups_def)
  ultimately show "distinct (concat (map snd (zip [sse_Enabled (http_Sse conf), wh_Enabled (http_Webhook conf),
      cdn_Enabled (http_CdnProxy conf), api_Enabled (http_Api conf), ofrep_Enabled (http_OFREP conf),
      st_Enabled (http_Status conf)] all_groups)))" by simp
qed

lemma NewRouter_paths:
  assumes "rt \<in> set (NewRouter env conf prof log)"
  shows "rt_path rt \<in> set all_paths"
proof -
  have "rt_path rt \<in> snd ` set (route_keys (NewRouter env conf prof log))" using assms by force
  also have "\<dots> \<subseteq> snd ` set (concat all_groups)"
    unfolding NewRouter_keys by (intro image_mono) (auto split: if_splits dest: set_zip_rightD)
  also have "\<dots> = set all_paths" by code_simp
  finally show ?thesis .
qed

lemma find_route_Some:
  "find_route rts method segs = Some (rt, b) \<Longrightarrow>
   rt \<in> set rts \<and> match_method (rt_method rt) method \<and> match_path (parse_pattern (rt_path rt)) segs = Some b"
  by (induction rts) (auto split: if_splits option.splits)

text \<open>The order of the routes does not matter: a request matches at most one of them.\<close>

lemma NewRouter_unambiguous:
  assumes "rt \<in> set (NewRouter env conf prof log)" "rt' \<in> set (NewRouter env conf prof log)"
    and "match_path (parse_pattern (rt_path rt)) segs \<noteq> None" "match_path (parse_pattern (rt_path rt')) segs \<noteq> None"
    and "rt_method rt = rt_method rt'"
  shows "rt = rt'"
proof -
  have "rt_path rt = rt_path rt'"
    using path_unambiguous [OF NewRouter_paths [OF assms(1)] NewRouter_paths [OF assms(2)] assms(3,4)] .
  then have "(rt_method rt, rt_path rt) = (rt_method rt', rt_path rt')" using assms(5) by simp
  then show ?thesis
    using NewRouter_distinct [of env conf prof log] assms(1,2) unfolding distinct_map inj_on_def by blast
qed

subsection \<open>The layers around a handler\<close>

lemma ExtraHeaders_pass: "ExtraHeaders hs h r w = h r (set_headers hs w)"
  by (simp add: ExtraHeaders_def)

lemma CORS_pass:
  "\<exists>w'. rs_effects w' = rs_effects w \<and> rs_code w' = rs_code w \<and> CORS mt ms allowed resp rq rx h r w = h r w'"
  by (intro exI [of _ "if rq_method r = ''OPTIONS''
      then setOptionsCORSHeaders mt (header_get r ''Origin'') allowed rx ms
        (header_list defaultExposedHeaders resp) (header_list defaultAllowedHeaders rq) w
      else setDefaultCORSHeaders mt (header_get r ''Origin'') allowed (header_list defaultExposedHeaders resp) rx w"])
    (simp add: CORS_def Let_def)

text \<open>Behind the layers of an endpoint, OPTIONS is answered and everything else reaches the handler.\<close>

lemma cors_layers_pass:
  "\<exists>w'. rs_effects w' = rs_effects w \<and> rs_code w' = rs_code w \<and>
     cors_layers env d hs cors m rh h r w = (if rq_method r = ''OPTIONS'' then write_header 204 w' else h r w')"
proof -
  let ?h1 = "AutoOptions h"
  let ?h2 = "if re_ord env hs \<noteq> [] then ExtraHeaders (header_pairs env hs) ?h1 else ?h1"
  have h2: "\<exists>w'. rs_effects w' = rs_effects w \<and> rs_code w' = rs_code w \<and> ?h2 r w = ?h1 r w'" for w
    by (rule exI [of _ "if re_ord env hs \<noteq> [] then set_headers (header_pairs env hs) w else w"])
      (simp add: ExtraHeaders_pass)
  have "\<exists>w'. rs_effects w' = rs_effects w \<and> rs_code w' = rs_code w \<and> cors_layers env d hs cors m rh h r w = ?h2 r w'"
    using CORS_pass [of w] by (auto simp: cors_layers_def DebugLog_def Let_def)
  then obtain w1 where w1: "rs_effects w1 = rs_effects w" "rs_code w1 = rs_code w"
    "cors_layers env d hs cors m rh h r w = ?h2 r w1" by blast
  from h2 [of w1] obtain w2 where "rs_effects w2 = rs_effects w1" "rs_code w2 = rs_code w1" "?h2 r w1 = ?h1 r w2"
    by blast
  with w1 show ?thesis by (intro exI [of _ w2]) (simp add: AutoOptions_def)
qed

definition unauthorised :: "(string \<rightharpoonup> string) \<Rightarrow> request \<Rightarrow> bool" where
  "unauthorised authHeaders r \<longleftrightarrow> (\<exists>k v. authHeaders k = Some v \<and> header_get r k \<noteq> v)"

lemma auth_layer_eq:
  assumes "enumerates (re_ord env authHeaders) authHeaders"
  shows "auth_layer env authHeaders h r w =
     (if unauthorised authHeaders r then http_error ''Unauthorized'' 401 w else h r w)"
proof -
  have val: "k \<in> set (re_ord env authHeaders) \<longleftrightarrow> (\<exists>v. authHeaders k = Some v)" for k
    using enumeratesD(2) [OF assms] by auto
  have "list_all (\<lambda>(k, v). header_get r k = v) (header_pairs env authHeaders) \<longleftrightarrow>
      (\<forall>k \<in> set (re_ord env authHeaders). header_get r k = (case authHeaders k of None \<Rightarrow> [] | Some v \<Rightarrow> v))"
    by (simp add: header_pairs_def list_all_iff)
  also have "\<dots> \<longleftrightarrow> \<not> unauthorised authHeaders r"
    using val by (auto simp: unauthorised_def split: option.splits)
  finally have ok: "list_all (\<lambda>(k, v). header_get r k = v) (header_pairs env authHeaders) \<longleftrightarrow> \<not> unauthorised authHeaders r" .
  show ?thesis
  proof (cases "re_ord env authHeaders = []")
    case True
    then have "\<not> unauthorised authHeaders r" using ok by (simp add: header_pairs_def)
    with True show ?thesis by (simp add: auth_layer_def)
  next
    case False
    then show ?thesis by (simp add: auth_layer_def HeaderAuth_eq ok)
  qed
qed

text \<open>An instrumented handler is the handler: OpenTelemetry's handler records and forwards.\<close>

definition transparent_otel :: "router_env \<Rightarrow> bool" where
  "transparent_otel env \<longleftrightarrow> (\<forall>operation h. re_otel env operation h = h)"

lemma InstrumentHttp_eq: "transparent_otel env \<Longrightarrow> InstrumentHttp env operation method h = h"
  by (simp add: InstrumentHttp_def transparent_otel_def)

text \<open>The protected groups turn a request without the configured headers away before the handler.\<close>

lemma protected_route:
  assumes "transparent_otel env" and "enumerates (re_ord env authHeaders) authHeaders"
    and rt: "rt \<in> set (instrumented_routes env path ms (cors_layers env d hs cors m rh (auth_layer env authHeaders h)))"
    and "unauthorised authHeaders r"
  shows "rs_effects (rt_handler rt r w) = rs_effects w"
    and "rq_method r \<noteq> ''OPTIONS'' \<Longrightarrow> rs_code w = None \<Longrightarrow> rs_code (rt_handler rt r w) = Some 401"
proof -
  have h: "rt_handler rt = cors_layers env d hs cors m rh (auth_layer env authHeaders h)"
    using rt InstrumentHttp_eq [OF assms(1)] by (auto simp: instrumented_routes_def)
  from cors_layers_pass [of w env d hs cors m rh "auth_layer env authHeaders h" r] obtain w' where
    w': "rs_effects w' = rs_effects w" "rs_code w' = rs_code w"
    "rt_handler rt r w = (if rq_method r = ''OPTIONS'' then write_header 204 w' else http_error ''Unauthorized'' 401 w')"
    unfolding h using auth_layer_eq [OF assms(2)] assms(4) by auto
  then show "rs_effects (rt_handler rt r w) = rs_effects w" by simp
  show "rs_code (rt_handler rt r w) = Some 401" if "rq_method r \<noteq> ''OPTIONS''" "rs_code w = None"
    using that w' by simp
qed

lemma api_route_protected:
  assumes "transparent_otel env" "enumerates (re_ord env (api_AuthHeaders conf)) (api_AuthHeaders conf)"
    and "rt \<in> set (setupAPIRoutes env d conf)" and "unauthorised (api_AuthHeaders conf) r"
  shows "rs_effects (rt_handler rt r w) = rs_effects w"
    and "rq_method r \<noteq> ''OPTIONS'' \<Longrightarrow> rs_code w = None \<Longrightarrow> rs_code (rt_handler rt r w) = Some 401"
  using assms(3) protected_route [OF assms(1,2) _ assms(4)]
  by (auto simp: setupAPIRoutes_def)

lemma ofrep_route_protected:
  assumes "transparent_otel env" "enumerates (re_ord env (ofrep_AuthHeaders conf)) (ofrep_AuthHeaders conf)"
    and "rt \<in> set (setupOFREPRoutes env d conf)" and "unauthorised (ofrep_AuthHeaders conf) r"
  shows "rs_effects (rt_handler rt r w) = rs_effects w"
    and "rq_method r \<noteq> ''OPTIONS'' \<Longrightarrow> rs_code w = None \<Longrightarrow> rs_code (rt_handler rt r w) = Some 401"
  using assms(3) protected_route [OF assms(1,2) _ assms(4)]
  by (auto simp: setupOFREPRoutes_def)

subsection \<open>Which requests act\<close>

lemma cors_layers_effects:
  "(\<And>w. rs_effects (h r w) = rs_effects w) \<Longrightarrow> rs_effects (cors_layers env d hs cors m rh h r w) = rs_effects w"
  using cors_layers_pass [of w env d hs cors m rh h r] by auto

lemma auth_layer_effects:
  "(\<And>w. rs_effects (h r w) = rs_effects w) \<Longrightarrow> rs_effects (auth_layer env hs h r w) = rs_effects w"
  unfolding auth_layer_def using header_auth.no_effects [of h r] by simp

text \<open>The groups that only read.\<close>

lemma reading_routes:
  assumes "transparent_otel env"
    and "rt \<in> set (setupCDNProxyRoutes env d cdn) \<union> set (setupOFREPRoutes env d ofrep) \<union> set (setupStatusRoutes env)"
  shows "rs_effects (rt_handler rt r w) = rs_effects w"
proof -
  have gz: "rs_effects (GZip h r w) = rs_effects w" if "\<And>w. rs_effects (h r w) = rs_effects w" for h :: "effect handler" and r w
    by (rule gzip.no_effects) (rule that)
  have st: "rs_effects (status_handler js r w) = rs_effects w" for js r w
    by (simp add: status_handler_def Let_def split: sum.splits)
  from assms(2) consider "rt \<in> set (setupCDNProxyRoutes env d cdn)" | "rt \<in> set (setupOFREPRoutes env d ofrep)"
    | "rt \<in> set (setupStatusRoutes env)" by blast
  then show ?thesis
  proof cases
    case 1
    then show ?thesis using InstrumentHttp_eq [OF assms(1)]
      by (auto simp: setupCDNProxyRoutes_def instrumented_routes_def intro!: cors_layers_effects gz read_only_handlers)
  next
    case 2
    then show ?thesis using InstrumentHttp_eq [OF assms(1)]
      by (auto simp: setupOFREPRoutes_def ofrep_endpoints_def instrumented_routes_def
          intro!: cors_layers_effects auth_layer_effects gz read_only_handlers)
  next
    case 3
    then show ?thesis
      by (auto simp: setupStatusRoutes_def plain_routes_def AutoOptions_def gz [OF st])
  qed
qed

lemma mux_acts:
  assumes "rs_effects (mux_ServeHTTP rts r w) \<noteq> rs_effects w"
  shows "\<exists>rt r'. rt \<in> set rts \<and> rq_method r' = rq_method r \<and> rq_header r' = rq_header r
    \<and> match_path (parse_pattern (rt_path rt)) (path_segments (rq_path r)) \<noteq> None
    \<and> match_method (rt_method rt) (rq_method r) \<and> rs_effects (rt_handler rt r' w) \<noteq> rs_effects w"
proof -
  let ?path = "if rq_method r = ''CONNECT'' then rq_path r else cleanPath (rq_path r)"
  have p: "\<not> redirects_to_slash rts (rq_method r) ?path" "?path = rq_path r"
    using assms by (auto simp: mux_ServeHTTP_def redirect_def Let_def split: if_splits)
  obtain rt b where f: "find_route rts (rq_method r) (path_segments (rq_path r)) = Some (rt, b)"
    using assms p by (cases "find_route rts (rq_method r) (path_segments (rq_path r))")
      (auto simp: mux_ServeHTTP_def Let_def split: if_splits)
  let ?r = "r\<lparr>rq_path_value := (\<lambda>n. case map_of b n of None \<Rightarrow> [] | Some v \<Rightarrow> v)\<rparr>"
  have "rs_effects (rt_handler rt ?r w) \<noteq> rs_effects w"
    using assms p f by (auto simp: mux_ServeHTTP_def Let_def split: if_splits)
  with find_route_Some [OF f] show ?thesis by (intro exI [of _ rt] exI [of _ ?r]) auto
qed

lemma split_on_snoc: "split_on c (s @ [c]) = split_on c s @ [[]]"
  by (induction c s rule: split_on.induct) (auto split: list.splits)

lemma path_segments_stripped:
  assumes "length p > 1" "last p = CHR ''/''"
  shows "path_segments p = path_segments (butlast p) @ [[]]"
proof -
  obtain a q where p: "p = a # q" "q \<noteq> []" using assms(1) by (cases p) auto
  then have "q = butlast q @ [CHR ''/'']" using assms(2) by (metis append_butlast_last_id last_ConsR)
  then show ?thesis using p split_on_snoc [of "CHR ''/''" "butlast q"] by (simp add: path_segments_def)
qed

lemma ServeHTTP_acts:
  assumes "rs_effects (ServeHTTP rts r w) \<noteq> rs_effects w"
  obtains rt r' segs where "rt \<in> set rts" "rq_method r' = rq_method r" "rq_header r' = rq_header r"
    "match_path (parse_pattern (rt_path rt)) segs \<noteq> None" "match_method (rt_method rt) (rq_method r)"
    "rs_effects (rt_handler rt r' w) \<noteq> rs_effects w"
    "path_segments (rq_path r) = segs \<or> path_segments (rq_path r) = segs @ [[]]"
proof (cases "rq_method r \<noteq> ''CONNECT'' \<and> rq_path r \<noteq> ''/'' \<and> length (rq_path r) > 1 \<and> last (rq_path r) = CHR ''/''")
  case True
  then have "rs_effects (mux_ServeHTTP rts (r\<lparr>rq_path := butlast (rq_path r)\<rparr>) w) \<noteq> rs_effects w"
    using assms by (simp add: ServeHTTP_def Let_def)
  from mux_acts [OF this] show ?thesis
    using that path_segments_stripped [of "rq_path r"] True by auto
next
  case False
  then have "ServeHTTP rts r w = mux_ServeHTTP rts r w" by (auto simp: ServeHTTP_def Let_def)
  then show ?thesis using mux_acts [of rts r w] assms that by metis
qed

lemma streaming_paths:
  assumes "rt \<in> set (setupSSERoutes env d sse) \<union> set (setupWebhookRoutes env d' wh prof)"
    and "rt_path rt \<noteq> ''/hook-test''" and "match_path (parse_pattern (rt_path rt)) segs \<noteq> None"
  shows "hd segs \<in> {''sse'', ''hook''} \<and> segs \<noteq> []"
proof -
  have "rt_path rt \<in> {''/sse/{sdkId}/eval/{data}'', ''/sse/{sdkId}/eval-all/{data}'', ''/sse/{sdkId}/eval-all'',
     ''/sse/eval/k/{data}'', ''/sse/eval-all/k/{data}'', ''/hook/{sdkId}''}"
    using assms(1,2) by (auto simp: route_defs)
  then show ?thesis
    using assms(3) by (auto simp: parsed_patterns dest!: match_path_LitD)
qed

lemma hook_test_effects:
  assumes "transparent_otel env" and "rt \<in> set (setupWebhookRoutes env d wh prof)" and "rt_path rt = ''/hook-test''"
  shows "rs_effects (rt_handler rt r w) = rs_effects w"
  using assms InstrumentHttp_eq [OF assms(1)]
  by (auto simp: setupWebhookRoutes_def instrumented_routes_def DebugLog_def Let_def)

text \<open>
  Without the headers the API asks for, a request has no effect unless it goes to the event
  streams or to the webhook, which have their own checks.
\<close>

lemma unauthorised_requests:
  assumes otel: "transparent_otel env"
    and ord: "enumerates (re_ord env (api_AuthHeaders (http_Api conf))) (api_AuthHeaders (http_Api conf))"
    and un: "unauthorised (api_AuthHeaders (http_Api conf)) r"
    and acts: "rs_effects (ServeHTTP (NewRouter env conf prof log) r w) \<noteq> rs_effects w"
  shows "hd (path_segments (rq_path r)) \<in> {''sse'', ''hook''}"
proof -
  from acts obtain rt r' segs where rt: "rt \<in> set (NewRouter env conf prof log)" "rq_header r' = rq_header r"
    "match_path (parse_pattern (rt_path rt)) segs \<noteq> None" "rs_effects (rt_handler rt r' w) \<noteq> rs_effects w"
    "path_segments (rq_path r) = segs \<or> path_segments (rq_path r) = segs @ [[]]"
    by (rule ServeHTTP_acts)
  define d where "d = (GetLevel (http_Log conf) = Debug)"
  have un': "unauthorised (api_AuthHeaders (http_Api conf)) r'"
    using un rt(2) by (simp add: unauthorised_def header_get_def)
  have grp: "rt \<in> set (setupSSERoutes env d (http_Sse conf)) \<union> set (setupWebhookRoutes env d (http_Webhook conf) prof)
      \<union> (set (setupCDNProxyRoutes env d (http_CdnProxy conf)) \<union> set (setupOFREPRoutes env d (http_OFREP conf))
         \<union> set (setupStatusRoutes env)) \<union> set (setupAPIRoutes env d (http_Api conf))"
    using rt(1) by (auto simp: NewRouter_def Let_def d_def split: if_splits)
  have "rt \<notin> set (setupCDNProxyRoutes env d (http_CdnProxy conf)) \<union> set (setupOFREPRoutes env d (http_OFREP conf))
         \<union> set (setupStatusRoutes env)"
    using reading_routes [OF otel] rt(4) by blast
  moreover have "rt \<notin> set (setupAPIRoutes env d (http_Api conf))"
    using api_route_protected(1) [OF otel ord _ un'] rt(4) by blast
  ultimately have open_grp: "rt \<in> set (setupSSERoutes env d (http_Sse conf)) \<union> set (setupWebhookRoutes env d (http_Webhook conf) prof)"
    using grp by blast
  have "rt_path rt \<noteq> ''/hook-test''"
  proof
    assume "rt_path rt = ''/hook-test''"
    moreover from this have "rt \<notin> set (setupSSERoutes env d (http_Sse conf))" by (auto simp: route_defs)
    ultimately show False
      using open_grp hook_test_effects [OF otel] rt(4) by blast
  qed
  then have "hd segs \<in> {''sse'', ''hook''} \<and> segs \<noteq> []" by (rule streaming_paths [OF open_grp _ rt(3)])
  then show ?thesis using rt(5) by auto
qed

subsection \<open>The trailing slash\<close>

text \<open>
  \<open>ServeMux\<close> redirects the root of the CDN proxy to the path with a trailing slash, which the
  router strips again: the redirect leads to itself.
\<close>

lemma no_route_cdn_root:
  assumes "rt \<in> set (NewRouter env conf prof log)"
  shows "match_path (parse_pattern (rt_path rt)) [''configuration-files''] = None"
proof -
  have "list_all (\<lambda>p. match_path (parse_pattern p) [''configuration-files''] = None) all_paths" by code_simp
  then show ?thesis using NewRouter_paths [OF assms] by (auto simp: list_all_iff)
qed

lemma cdn_root_redirects:
  assumes "cdn_Enabled (http_CdnProxy conf)" and "rq_method r = ''GET''"
    and "rq_path r \<in> {''/configuration-files'', ''/configuration-files/''}"
  shows "ServeHTTP (NewRouter env conf prof log) r w = redirect ''/configuration-files/'' w"
proof -
  let ?rts = "NewRouter env conf prof log"
  have "(''GET'', ''/configuration-files/{path...}'') \<in> set (route_keys ?rts)"
    unfolding NewRouter_keys all_groups_def using assms(1) by simp
  then obtain rt where rt: "rt \<in> set ?rts" "rt_method rt = ''GET''" "rt_path rt = ''/configuration-files/{path...}''"
    by auto
  have segs: "path_segments ''/configuration-files'' = [''configuration-files'']" by code_simp
  have clean: "cleanPath ''/configuration-files'' = ''/configuration-files''" by code_simp
  have none: "find_route ?rts ''GET'' [''configuration-files''] = None"
  proof (rule ccontr)
    assume "find_route ?rts ''GET'' [''configuration-files''] \<noteq> None"
    then obtain rt' b where "find_route ?rts ''GET'' [''configuration-files''] = Some (rt', b)" by fastforce
    from find_route_Some [OF this] no_route_cdn_root [of rt' env conf prof log] show False by simp
  qed
  have sl: "redirects_to_slash ?rts ''GET'' ''/configuration-files''"
    unfolding redirects_to_slash_def list_ex_iff segs
  proof (intro conjI bexI [OF _ rt(1)])
    show "\<not> has_suffix ''/configuration-files'' ''/''" by code_simp
  qed (use rt none in \<open>simp_all add: match_method_def parsed_patterns Let_def\<close>)
  have "mux_ServeHTTP ?rts r' w = redirect ''/configuration-files/'' w"
    if "rq_path r' = ''/configuration-files''" "rq_method r' = ''GET''" for r'
    using that clean sl by (simp add: mux_ServeHTTP_def)
  then show ?thesis using assms(2,3) by (auto simp: ServeHTTP_def)
qed

section \<open>Properties\<close>

text \<open>
  C16: without the headers the API asks for, no request makes the proxy act (refresh a client or
  open a stream) unless it goes to the event streams or to the webhook, which have their own
  checks; whatever the path, the method and the configuration of the other endpoints.
\<close>

theorem unauthorised_requests_inert:
  assumes "\<forall>operation h. re_otel env operation h = h"
    and "enumerates (re_ord env (api_AuthHeaders (http_Api conf))) (api_AuthHeaders (http_Api conf))"
    and "api_AuthHeaders (http_Api conf) k = Some v" and "header_get r k \<noteq> v"
    and "hd (path_segments (rq_path r)) \<notin> {''sse'', ''hook''}"
  shows "rs_effects (ServeHTTP (NewRouter env conf prof log) r w) = rs_effects w"
  using unauthorised_requests [of env conf r prof log w] assms
  by (auto simp: transparent_otel_def unauthorised_def)

definition no_registrar :: registrar_view where
  "no_registrar = \<lparr>rv_GetSdkOrNil = (\<lambda>i. None), rv_GetSdkByKeyOrNil = (\<lambda>k. None)\<rparr>"

definition plain_router :: "(string \<rightharpoonup> string) \<Rightarrow> string list \<Rightarrow> router_env" where
  "plain_router hs ks = \<lparr>re_json = \<lparr>js_EvalRequest = (\<lambda>b. Inr None), js_Context = (\<lambda>b. Inr None), js_Payload = (\<lambda>p. Inr []),
       js_Payloads = (\<lambda>p. Inr []), js_Keys = (\<lambda>k. Inr []), js_Ofrep = (\<lambda>b. Inr [])\<rparr>,
     re_xxhash = (\<lambda>b. b), re_disc = (\<lambda>u. 0), re_order = (\<lambda>m. []), re_hmac = (\<lambda>k m. []), re_sha = (\<lambda>b. b), re_now = 0,
     re_registrar = no_registrar,
     re_streams = \<lparr>sv_GetStreamOrNil = (\<lambda>i. None), sv_GetStreamBySdkKeyOrNil = (\<lambda>k. None)\<rparr>,
     re_refresh = (\<lambda>a. None), re_status = Inr [], re_match = (\<lambda>p s. False), re_ord = (\<lambda>m. if m = hs then ks else []),
     re_instrumented = False, re_otel = (\<lambda>operation h. h)\<rparr>"

definition anonymous_get :: "string \<Rightarrow> request" where
  "anonymous_get path = \<lparr>rq_method = ''GET'', rq_path = path, rq_header = Map.empty, rq_path_value = (\<lambda>n. []),
     rq_query = (\<lambda>n. []), rq_body = Inr [], rq_basic = None\<rparr>"

theorem unauthorised_requests_inert_witness:
  "rs_effects (ServeHTTP (NewRouter (plain_router [''X-Api'' \<mapsto> ''s''] [''X-Api''])
      (zero_http\<lparr>http_Api := (http_Api zero_http)\<lparr>api_AuthHeaders := [''X-Api'' \<mapsto> ''s'']\<rparr>\<rparr>) (c_Profile zero_config) NewNullLogger)
      (anonymous_get ''/api/keys'') new_response) = []"
proof -
  let ?conf = "zero_http\<lparr>http_Api := (http_Api zero_http)\<lparr>api_AuthHeaders := [''X-Api'' \<mapsto> ''s'']\<rparr>\<rparr>"
  let ?env = "plain_router [''X-Api'' \<mapsto> ''s''] [''X-Api'']"
  have o: "\<forall>operation h. re_otel ?env operation h = h" by (simp add: plain_router_def)
  have e: "enumerates (re_ord ?env (api_AuthHeaders (http_Api ?conf))) (api_AuthHeaders (http_Api ?conf))"
    by (simp add: plain_router_def enumerates_def)
  have k: "api_AuthHeaders (http_Api ?conf) ''X-Api'' = Some ''s''" by simp
  have g: "header_get (anonymous_get ''/api/keys'') ''X-Api'' \<noteq> ''s''" by (simp add: header_get_def anonymous_get_def)
  have "path_segments ''/api/keys'' = [''api'', ''keys'']" by code_simp
  then have p: "hd (path_segments (rq_path (anonymous_get ''/api/keys''))) \<notin> {''sse'', ''hook''}"
    by (simp add: anonymous_get_def)
  have "rs_effects (ServeHTTP (NewRouter ?env ?conf (c_Profile zero_config) NewNullLogger) (anonymous_get ''/api/keys'') new_response) =
      rs_effects (new_response :: effect response)"
    by (rule unauthorised_requests_inert [OF o e k g p])
  then show ?thesis by (simp add: new_response_def)
qed

text \<open>
  C17: every route of the API and of OFREP answers 401 to a request (other than a preflight) that
  lacks a configured header, before its handler runs and whatever the other layers are.
\<close>

theorem protected_routes_401:
  assumes "\<forall>operation h. re_otel env operation h = h"
    and "enumerates (re_ord env (api_AuthHeaders api)) (api_AuthHeaders api)"
    and "enumerates (re_ord env (ofrep_AuthHeaders ofrep)) (ofrep_AuthHeaders ofrep)"
    and "rt \<in> set (setupAPIRoutes env d api) \<and> api_AuthHeaders api k = Some v
      \<or> rt \<in> set (setupOFREPRoutes env d ofrep) \<and> ofrep_AuthHeaders ofrep k = Some v"
    and "header_get r k \<noteq> v" and "rq_method r \<noteq> ''OPTIONS''" and "rs_code w = None"
  shows "rs_code (rt_handler rt r w) = Some 401 \<and> rs_effects (rt_handler rt r w) = rs_effects w"
proof -
  have otel: "transparent_otel env" using assms(1) by (simp add: transparent_otel_def)
  have un: "m k = Some v \<Longrightarrow> unauthorised m r" for m using assms(5) by (auto simp: unauthorised_def)
  from assms(4) show ?thesis
  proof
    assume "rt \<in> set (setupAPIRoutes env d api) \<and> api_AuthHeaders api k = Some v"
    then show ?thesis using api_route_protected [OF otel assms(2)] un assms(6,7) by blast
  next
    assume "rt \<in> set (setupOFREPRoutes env d ofrep) \<and> ofrep_AuthHeaders ofrep k = Some v"
    then show ?thesis using ofrep_route_protected [OF otel assms(3)] un assms(6,7) by blast
  qed
qed

theorem protected_routes_401_witness:
  "\<exists>rt \<in> set (setupAPIRoutes (plain_router [''X-Api'' \<mapsto> ''s''] [''X-Api'']) False
      ((http_Api zero_http)\<lparr>api_AuthHeaders := [''X-Api'' \<mapsto> ''s'']\<rparr>)).
    rs_code (rt_handler rt (anonymous_get ''/api/keys'') new_response) = Some 401"
proof -
  let ?api = "(http_Api zero_http)\<lparr>api_AuthHeaders := [''X-Api'' \<mapsto> ''s'']\<rparr>"
  let ?env = "plain_router [''X-Api'' \<mapsto> ''s''] [''X-Api'']"
  have o: "\<forall>operation h. re_otel ?env operation h = h" by (simp add: plain_router_def)
  have e: "enumerates (re_ord ?env (api_AuthHeaders ?api)) (api_AuthHeaders ?api)"
    by (simp add: plain_router_def enumerates_def)
  have e': "enumerates (re_ord ?env (ofrep_AuthHeaders (http_OFREP zero_http))) (ofrep_AuthHeaders (http_OFREP zero_http))"
    by (simp add: plain_router_def zero_http_def fun_eq_iff)
  have "setupAPIRoutes ?env False ?api \<noteq> []" by (simp add: setupAPIRoutes_def api_endpoints_def instrumented_routes_def Let_def)
  then obtain rt where rt: "rt \<in> set (setupAPIRoutes ?env False ?api)" by (meson last_in_set)
  have "rs_code (rt_handler rt (anonymous_get ''/api/keys'') new_response) = Some 401 \<and>
      rs_effects (rt_handler rt (anonymous_get ''/api/keys'') new_response) = rs_effects (new_response :: effect response)"
    by (rule protected_routes_401 [OF o e e', where d = False and k = "''X-Api''" and v = "''s''"])
      (use rt in \<open>simp_all add: anonymous_get_def header_get_def new_response_def\<close>)
  with rt show ?thesis by blast
qed

text \<open>
  C32: the routing table has no conflict: two registered routes of the same method that match the
  same path are the same route, so that the order of registration plays no role.
\<close>

theorem routes_unambiguous:
  assumes "rt \<in> set (NewRouter env conf prof log)" "rt' \<in> set (NewRouter env conf prof log)"
    and "rt_method rt = rt_method rt'" and "match_path (parse_pattern (rt_path rt)) segs \<noteq> None"
    and "match_path (parse_pattern (rt_path rt')) segs \<noteq> None"
  shows "rt = rt'"
  by (rule NewRouter_unambiguous [OF assms(1,2,4,5,3)])

definition status_router :: "route list" where
  "status_router = NewRouter (plain_router Map.empty []) (zero_http\<lparr>http_Status := \<lparr>st_Enabled = True\<rparr>\<rparr>)
     (c_Profile zero_config) NewNullLogger"

theorem routes_unambiguous_witness:
  "{rt. rt \<in> set status_router \<and> rt_method rt = ''GET'' \<and> match_path (parse_pattern (rt_path rt)) [''status''] \<noteq> None}
    = {hd (setupStatusRoutes (plain_router Map.empty []))}"
proof -
  let ?st = "hd (setupStatusRoutes (plain_router Map.empty []))"
  let ?found = "\<lambda>rt. rt \<in> set status_router \<and> rt_method rt = ''GET'' \<and> match_path (parse_pattern (rt_path rt)) [''status''] \<noteq> None"
  have s: "?found ?st"
    by (simp add: status_router_def NewRouter_def setupStatusRoutes_def plain_routes_def parsed_patterns Let_def)
  have "rt = ?st" if "?found rt" for rt
  proof (rule routes_unambiguous)
    show "rt \<in> set (NewRouter (plain_router Map.empty []) (zero_http\<lparr>http_Status := \<lparr>st_Enabled = True\<rparr>\<rparr>)
        (c_Profile zero_config) NewNullLogger)"
      "?st \<in> set (NewRouter (plain_router Map.empty []) (zero_http\<lparr>http_Status := \<lparr>st_Enabled = True\<rparr>\<rparr>)
        (c_Profile zero_config) NewNullLogger)"
      using that s unfolding status_router_def by blast+
    show "rt_method rt = rt_method ?st" using that s by simp
    show "match_path (parse_pattern (rt_path rt)) [''status''] \<noteq> None"
      "match_path (parse_pattern (rt_path ?st)) [''status''] \<noteq> None" using that s by blast+
  qed
  with s show ?thesis by blast
qed

end
