(* ===== verification/Grpc.thy ===== *)
theory Grpc
  imports Sse StreamServer Status Logger
begin

text \<open>
  \<open>grpc/flag_service.go\<close>, \<open>grpc/mware.go\<close> and the parts of \<open>grpc/server.go\<close> that decide: the
  requests of the flag service, the streaming loops, the interceptors and the health check. The
  messages are those of \<open>flag_service.proto\<close>; the status codes of the gRPC library are the type
  \<open>grpc_code\<close>.
\<close>

section \<open>Definitions\<close>

subsection \<open>Messages\<close>

datatype target = TargetSdkId string | TargetSdkKey string | TargetUnset

datatype user_value =
    NumberValue "64 word"
  | StringValue string
  | TimeValue int
  | StringListValue "string list"
  | UnsetValue

record grpc_request =
  gr_SdkId :: string
  gr_Key :: string
  gr_User :: "(string \<rightharpoonup> user_value) option"
  gr_Target :: "target option"

datatype proto_value = IntValue "32 word" | DoubleValue "64 word" | ProtoString string | BoolValue bool

record eval_response =
  ep_Value :: "proto_value option"
  ep_VariationId :: string

datatype grpc_code = InvalidArgument | Internal | NotFound | Unknown | Aborted

type_synonym 'a grpc_result = "(grpc_code \<times> string) + 'a"

subsection \<open>Requests\<close>

fun target_SdkId :: "target \<Rightarrow> string" where
  "target_SdkId (TargetSdkId i) = i"
| "target_SdkId _ = []"

fun target_SdkKey :: "target \<Rightarrow> string" where
  "target_SdkKey (TargetSdkKey k) = k"
| "target_SdkKey _ = []"

definition identifyTarget :: "target option \<Rightarrow> string \<Rightarrow> string \<times> string" where
  "identifyTarget target sdkId =
     (case target of None \<Rightarrow> (sdkId, []) | Some t \<Rightarrow> (target_SdkId t, target_SdkKey t))"

fun user_attr :: "user_value \<Rightarrow> go_val option" where
  "user_attr (NumberValue n) = Some (VFloat n)"
| "user_attr (StringValue s) = Some (VString s)"
| "user_attr (TimeValue t) = Some (VTime t)"
| "user_attr (StringListValue vs) = Some (VStrList vs)"
| "user_attr UnsetValue = None"

definition getUserAttrs :: "(string \<rightharpoonup> user_value) \<Rightarrow> attrs" where
  "getUserAttrs attrs = (\<lambda>k. case attrs k of None \<Rightarrow> None | Some v \<Rightarrow> user_attr v)"

definition request_user :: "grpc_request \<Rightarrow> user_attrs" where
  "request_user req = map_option getUserAttrs (gr_User req)"

definition no_target :: string where "no_target = ''either the sdk id or the sdk key parameter must be set''"

text \<open>The lookup the handlers share; \<open>byId\<close> and \<open>byKey\<close> are the lookups of the registrar or the stream server.\<close>

definition find_target :: "(string \<Rightarrow> 'a option) \<Rightarrow> (string \<Rightarrow> 'a option) \<Rightarrow> string \<times> string \<Rightarrow> 'a option" where
  "find_target byId byKey ids = (if fst ids \<noteq> [] then byId (fst ids) else byKey (snd ids))"

definition parseEvalRequest ::
  "registrar_view \<Rightarrow> grpc_request \<Rightarrow> bool \<Rightarrow> ((nat \<times> client) \<times> user_attrs) grpc_result" where
  "parseEvalRequest rv req checkKey =
     (let ids = identifyTarget (gr_Target req) (gr_SdkId req)
      in if fst ids = [] \<and> snd ids = [] then Inl (InvalidArgument, no_target)
         else if checkKey \<and> gr_Key req = [] then Inl (InvalidArgument, ''key request parameter missing'')
         else (case find_target (rv_GetSdkOrNil rv) (rv_GetSdkByKeyOrNil rv) ids of
             None \<Rightarrow> Inl (InvalidArgument, not_identified)
           | Some (a, c) \<Rightarrow>
               (if \<not> IsInValidState c then Inl (Internal, invalid_state) else Inr ((a, c), request_user req))))"

definition parseEvalStreamRequest ::
  "streams_view \<Rightarrow> grpc_request \<Rightarrow> bool \<Rightarrow> ((nat \<times> stream) \<times> user_attrs) grpc_result" where
  "parseEvalStreamRequest sv req checkKey =
     (let ids = identifyTarget (gr_Target req) (gr_SdkId req)
      in if fst ids = [] \<and> snd ids = [] then Inl (InvalidArgument, no_target)
         else if checkKey \<and> gr_Key req = [] then Inl (InvalidArgument, ''key request parameter missing'')
         else (case find_target (sv_GetStreamOrNil sv) (sv_GetStreamBySdkKeyOrNil sv) ids of
             None \<Rightarrow> Inl (InvalidArgument, not_identified)
           | Some (a, str) \<Rightarrow>
               (if \<not> stream_IsInValidState str then Inl (Internal, invalid_state)
                else if checkKey \<and> \<not> CanEval str (gr_Key req) then Inl (InvalidArgument, flag_not_found (gr_Key req))
                else Inr ((a, str), request_user req))))"

text \<open>\<open>int32(intVal)\<close> keeps the low 32 bits.\<close>

definition toPayload :: "response_payload \<Rightarrow> eval_response" where
  "toPayload resp =
     \<lparr>ep_Value = (case rp_Value resp of
        VBool b \<Rightarrow> Some (BoolValue b)
      | VInt i \<Rightarrow> Some (IntValue (word_of_int i))
      | VFloat d \<Rightarrow> Some (DoubleValue d)
      | VString s \<Rightarrow> Some (ProtoString s)
      | _ \<Rightarrow> None),
      ep_VariationId = rp_VariationId resp\<rparr>"

definition EvalFlag :: "registrar_view \<Rightarrow> grpc_request \<Rightarrow> eval_response grpc_result" where
  "EvalFlag rv req =
     (case parseEvalRequest rv req True of
        Inl err \<Rightarrow> Inl err
      | Inr ((a, c), user) \<Rightarrow>
          (let ev = Eval c (gr_Key req) user
           in case ed_Error ev of
                Some (ErrKeyNotFound t) \<Rightarrow> Inl (NotFound, flag_not_found (gr_Key req))
              | Some _ \<Rightarrow> Inl (Unknown, ''the request failed; please check the logs for more details'')
              | None \<Rightarrow> Inr (toPayload (PayloadFromEvalData ev))))"

definition EvalAllFlags :: "registrar_view \<Rightarrow> grpc_request \<Rightarrow> (string \<rightharpoonup> eval_response) grpc_result" where
  "EvalAllFlags rv req =
     (case parseEvalRequest rv req False of
        Inl err \<Rightarrow> Inl err
      | Inr ((a, c), user) \<Rightarrow>
          (let details = EvalAll c user in Inr (\<lambda>k. map_option (\<lambda>v. toPayload (PayloadFromEvalData v)) (details k))))"

text \<open>\<open>GetKeys\<close> and \<open>Refresh\<close>; \<open>refresh a\<close> is the error of refreshing the client at \<open>a\<close>, if any.\<close>

definition GetKeys :: "registrar_view \<Rightarrow> grpc_request \<Rightarrow> string list grpc_result" where
  "GetKeys rv req =
     (let ids = identifyTarget (gr_Target req) (gr_SdkId req)
      in if fst ids = [] \<and> snd ids = [] then Inl (InvalidArgument, no_target)
         else (case find_target (rv_GetSdkOrNil rv) (rv_GetSdkByKeyOrNil rv) ids of
             None \<Rightarrow> Inl (InvalidArgument, not_identified)
           | Some (a, c) \<Rightarrow> if \<not> IsInValidState c then Inl (Internal, invalid_state) else Inr (client_Keys c)))"

definition grpc_Refresh ::
  "(nat \<Rightarrow> string option) \<Rightarrow> registrar_view \<Rightarrow> grpc_request \<Rightarrow> unit grpc_result \<times> effect list" where
  "grpc_Refresh refresh rv req =
     (let ids = identifyTarget (gr_Target req) (gr_SdkId req)
      in if fst ids = [] \<and> snd ids = [] then (Inl (InvalidArgument, no_target), [])
         else (case find_target (rv_GetSdkOrNil rv) (rv_GetSdkByKeyOrNil rv) ids of
             None \<Rightarrow> (Inl (InvalidArgument, not_identified), [])
           | Some (a, c) \<Rightarrow>
               (case refresh a of
                  Some err \<Rightarrow> (Inl (Unknown, err), [RefreshClient a])
                | None \<Rightarrow> (Inr (), [RefreshClient a]))))"

subsection \<open>Streaming\<close>

text \<open>
  The loops over the events their \<open>select\<close> receives: the responses sent and how the loop ends,
  \<open>None\<close> while it is still running. A nil payload would be dereferenced.
\<close>

datatype loop_end = ClosedConnection | AbortedConnection | ServerDown | NilPayload

fun flag_loop :: "listen_event list \<Rightarrow> eval_response list \<Rightarrow> eval_response list \<times> loop_end option" where
  "flag_loop [] out = (out, None)"
| "flag_loop (PayloadReceived (SinglePayload (Some resp)) # evs) out =
     (let payload = toPayload resp in flag_loop evs (if ep_Value payload \<noteq> None then out @ [payload] else out))"
| "flag_loop (PayloadReceived (SinglePayload None) # evs) out = (out, Some NilPayload)"
| "flag_loop (PayloadReceived (AllPayload m) # evs) out = flag_loop evs out"
| "flag_loop (RequestDone # evs) out = (out, Some ClosedConnection)"
| "flag_loop (StreamStopped # evs) out = (out, Some AbortedConnection)"
| "flag_loop (ServerStopped # evs) out = (out, Some ServerDown)"

fun all_flags_loop ::
  "listen_event list \<Rightarrow> (string \<rightharpoonup> eval_response) list \<Rightarrow> (string \<rightharpoonup> eval_response) list \<times> loop_end option" where
  "all_flags_loop [] out = (out, None)"
| "all_flags_loop (PayloadReceived (AllPayload resp) # evs) out =
     all_flags_loop evs (out @ [\<lambda>k. map_option toPayload (resp k)])"
| "all_flags_loop (PayloadReceived (SinglePayload p) # evs) out = all_flags_loop evs out"
| "all_flags_loop (RequestDone # evs) out = (out, Some ClosedConnection)"
| "all_flags_loop (StreamStopped # evs) out = (out, Some AbortedConnection)"
| "all_flags_loop (ServerStopped # evs) out = (out, Some ServerDown)"

definition EvalFlagStream ::
  "streams_view \<Rightarrow> grpc_request \<Rightarrow> listen_event list \<Rightarrow> (eval_response list \<times> loop_end option) grpc_result \<times> effect list" where
  "EvalFlagStream sv req evs =
     (case parseEvalStreamRequest sv req True of
        Inl err \<Rightarrow> (Inl err, [])
      | Inr ((a, str), user) \<Rightarrow> (Inr (flag_loop evs []), [ListenStream a (gr_Key req) user]))"

definition EvalAllFlagsStream ::
  "streams_view \<Rightarrow> grpc_request \<Rightarrow> listen_event list \<Rightarrow>
   ((string \<rightharpoonup> eval_response) list \<times> loop_end option) grpc_result \<times> effect list" where
  "EvalAllFlagsStream sv req evs =
     (case parseEvalStreamRequest sv req False of
        Inl err \<Rightarrow> (Inl err, [])
      | Inr ((a, str), user) \<Rightarrow> (Inr (all_flags_loop evs []), [ListenStream a AllFlagsDiscriminator user]))"

subsection \<open>Interceptors and the health check\<close>

definition shouldIgnore :: "string \<Rightarrow> bool" where
  "shouldIgnore method \<longleftrightarrow> str_contains method ''grpc.health'' \<or> str_contains method ''grpc.reflection''"

text \<open>
  The debug interceptors: \<open>addr\<close> is the peer of the context and \<open>agent\<close> the user agents of its metadata, if it
  has them. The handler gives its result and its effects; a result is \<open>OK\<close> or has the code of its error.
\<close>

datatype rpc_log =
    RpcStarting string string "string list"
  | RequestFinished string string "string list" "grpc_code option"

fun rpc_code :: "'a grpc_result \<Rightarrow> grpc_code option" where
  "rpc_code (Inl (code, msg)) = Some code"
| "rpc_code (Inr resp) = None"

definition DebugLogUnaryInterceptor ::
  "string \<Rightarrow> string option \<Rightarrow> string list option \<Rightarrow> (unit \<Rightarrow> 'a grpc_result \<times> 'e list) \<Rightarrow>
   'a grpc_result \<times> 'e list \<times> rpc_log list" where
  "DebugLogUnaryInterceptor method addr agent handler =
     (if shouldIgnore method then (case handler () of (resp, es) \<Rightarrow> (resp, es, []))
      else case addr of
        None \<Rightarrow> (Inl (InvalidArgument, ''missing peer info''), [], [])
      | Some peer \<Rightarrow>
          (case agent of
             None \<Rightarrow> (Inl (InvalidArgument, ''missing metadata''), [], [])
           | Some md \<Rightarrow>
               (case handler () of (resp, es) \<Rightarrow>
                  (resp, es, [RpcStarting method peer md, RequestFinished method peer md (rpc_code resp)]))))"

definition DebugLogStreamInterceptor ::
  "string \<Rightarrow> string option \<Rightarrow> string list option \<Rightarrow> (unit \<Rightarrow> unit grpc_result \<times> 'e list) \<Rightarrow>
   unit grpc_result \<times> 'e list \<times> rpc_log list" where
  "DebugLogStreamInterceptor method addr agent handler =
     (if shouldIgnore method then (case handler () of (err, es) \<Rightarrow> (err, es, []))
      else case addr of
        None \<Rightarrow> (Inl (InvalidArgument, ''missing peer info''), [], [])
      | Some peer \<Rightarrow>
          (case agent of
             None \<Rightarrow> (Inl (InvalidArgument, ''missing metadata''), [], [])
           | Some md \<Rightarrow>
               (case handler () of (err, es) \<Rightarrow>
                  (err, es, [RpcStarting method peer md, RequestFinished method peer md (rpc_code err)]))))"

datatype serving_status = SERVING | NOT_SERVING

datatype health_event = HealthTick health | HealthStop

text \<open>\<open>runHealthCheck\<close>: one \<open>select\<close>, no loop around it; the statuses it sets.\<close>

definition runHealthCheck :: "bool \<Rightarrow> health_event list \<Rightarrow> serving_status list" where
  "runHealthCheck enabled evs =
     (if \<not> enabled then []
      else (case evs of
          HealthTick stat # rest \<Rightarrow> [if stat = Down then NOT_SERVING else SERVING]
        | _ \<Rightarrow> []))"

section \<open>Lemmas\<close>

lemmas grpc_parse = parseEvalRequest_def parseEvalStreamRequest_def GetKeys_def grpc_Refresh_def EvalFlag_def
  EvalAllFlags_def EvalFlagStream_def EvalAllFlagsStream_def find_target_def Let_def

text \<open>An evaluation over gRPC and one over the HTTP API give the same payload.\<close>

lemma parse_same_client:
  assumes "parseEvalRequest rv req ck = Inr ((a, c), user)"
  shows "IsInValidState c" "user = request_user req"
    and "find_target (rv_GetSdkOrNil rv) (rv_GetSdkByKeyOrNil rv) (identifyTarget (gr_Target req) (gr_SdkId req)) = Some (a, c)"
    and "ck \<Longrightarrow> gr_Key req \<noteq> []"
  using assms by (auto simp: parseEvalRequest_def Let_def split: if_splits option.splits)

lemma EvalFlag_iff:
  "EvalFlag rv req = Inr p \<longleftrightarrow>
     (\<exists>a c user. parseEvalRequest rv req True = Inr ((a, c), user) \<and>
        ed_Error (Eval c (gr_Key req) user) = None \<and> p = toPayload (PayloadFromEvalData (Eval c (gr_Key req) user)))"
  by (auto simp: EvalFlag_def Let_def split: sum.splits option.splits eval_error.splits)

subsection \<open>Integers on the wire\<close>

lemma toPayload_int:
  "ep_Value (toPayload \<lparr>rp_Value = VInt i, rp_VariationId = v\<rparr>) = Some (IntValue w) \<longleftrightarrow> w = word_of_int i"
  by (auto simp: toPayload_def)

lemma int32_exact_iff: "sint (word_of_int i :: 32 word) = i \<longleftrightarrow> - (2 ^ 31) \<le> i \<and> i < 2 ^ 31"
proof
  assume "sint (word_of_int i :: 32 word) = i"
  then show "- (2 ^ 31) \<le> i \<and> i < 2 ^ 31"
    using sint_greater_eq [of "word_of_int i :: 32 word"] sint_less [of "word_of_int i :: 32 word"] by simp
next
  assume "- (2 ^ 31) \<le> i \<and> i < 2 ^ 31"
  then show "sint (word_of_int i :: 32 word) = i"
    by (simp add: sint_sbintrunc' signed_take_bit_int_eq_self word_of_int_inverse signed_take_bit_int_eq_self_iff)
qed

subsection \<open>What the streams send\<close>

fun sendable :: "message \<Rightarrow> eval_response option" where
  "sendable (SinglePayload (Some resp)) = (if ep_Value (toPayload resp) \<noteq> None then Some (toPayload resp) else None)"
| "sendable _ = None"

lemma flag_loop_eq:
  "(\<forall>m \<in> set ms. m \<noteq> SinglePayload None) \<Longrightarrow>
   flag_loop (map PayloadReceived ms @ evs) out = flag_loop evs (out @ List.map_filter sendable ms)"
proof (induction ms arbitrary: out)
  case (Cons m ms)
  show ?case
  proof (cases m)
    case (SinglePayload p)
    then obtain resp where "p = Some resp" using Cons.prems by (cases p) auto
    then show ?thesis using Cons SinglePayload by (simp add: List.map_filter_simps Let_def)
  next
    case (AllPayload x)
    then show ?thesis using Cons by (simp add: List.map_filter_simps)
  qed
qed (simp add: List.map_filter_simps)

text \<open>
  With the peer and the metadata of the gRPC library, a handler gives through the interceptors what it gives
  without them; a call without them reaches no handler.
\<close>

lemma interceptors_transparent:
  assumes "addr \<noteq> None" "agent \<noteq> None"
  shows "(let (resp, es, logged) = DebugLogUnaryInterceptor method addr agent handler in (resp, es)) = handler ()"
    and "(let (err, es, logged) = DebugLogStreamInterceptor method addr agent stream in (err, es)) = stream ()"
  using assms by (auto simp: DebugLogUnaryInterceptor_def DebugLogStreamInterceptor_def split: prod.splits)

lemma interceptors_reject:
  assumes "\<not> shouldIgnore method" "addr = None \<or> agent = None"
  shows "fst (snd (DebugLogUnaryInterceptor method addr agent handler)) = []"
    and "rpc_code (fst (DebugLogUnaryInterceptor method addr agent handler)) = Some InvalidArgument"
  using assms by (auto simp: DebugLogUnaryInterceptor_def split: option.splits)

text \<open>The first tick ends the check: later changes of the health are never reported.\<close>

lemma runHealthCheck_once: "length (runHealthCheck enabled evs) \<le> 1"
  by (auto simp: runHealthCheck_def split: list.splits health_event.splits)

section \<open>Properties\<close>

text \<open>
  C31: an integer flag is sent over gRPC as its low 32 bits: a client reads the value of the flag
  exactly when it fits into 32 bits, and two values arrive as the same answer exactly when they
  are congruent modulo \<open>2 ^ 32\<close>.
\<close>

theorem grpc_int:
  "\<exists>w. ep_Value (toPayload \<lparr>rp_Value = VInt i, rp_VariationId = v\<rparr>) = Some (IntValue w)
     \<and> (sint w = i \<longleftrightarrow> - (2 ^ 31) \<le> i \<and> i < 2 ^ 31)
     \<and> (toPayload \<lparr>rp_Value = VInt i, rp_VariationId = v\<rparr> = toPayload \<lparr>rp_Value = VInt j, rp_VariationId = v\<rparr>
        \<longleftrightarrow> i mod 2 ^ 32 = j mod 2 ^ 32)"
proof (intro exI conjI)
  let ?p = "\<lambda>i. toPayload \<lparr>rp_Value = VInt i, rp_VariationId = v\<rparr>"
  show "ep_Value (?p i) = Some (IntValue (word_of_int i))" by (simp only: toPayload_int)
  show "sint (word_of_int i :: 32 word) = i \<longleftrightarrow> - (2 ^ 31) \<le> i \<and> i < 2 ^ 31" by (rule int32_exact_iff)
  have "?p i = ?p j \<longleftrightarrow> (word_of_int i :: 32 word) = word_of_int j" by (simp add: toPayload_def)
  also have "\<dots> \<longleftrightarrow> i mod 2 ^ 32 = j mod 2 ^ 32"
    by (simp only: word_of_int_eq_iff take_bit_eq_mod len_num0 len_num1 len_bit0 len_bit1) simp
  finally show "?p i = ?p j \<longleftrightarrow> i mod 2 ^ 32 = j mod 2 ^ 32" .
qed

end
