(* ===== verification/AutoLoop.thy ===== *)
theory AutoLoop
  imports AutoRegistrar
begin

text \<open>
  The goroutine \<open>run\<close> of the automatic registrar with the calls of \<open>Refresh\<close> and \<open>Close\<close> from other
  goroutines, as a step relation. Loading the profile and applying it are two steps, so that
  \<open>Close\<close> can fall between them, as it can in the code: \<open>Close\<close> cancels the context and closes the
  clients without waiting for \<open>run\<close>. Applying a profile and the loop of \<open>Close\<close> over the clients are
  steps of their own.
\<close>

section \<open>Definitions\<close>

datatype run_phase = Selecting | Applying proxy_config_model | RunReturned

record 'c auto_loop =
  al_reg :: auto_registrar
  al_cache :: 'c
  al_phase :: run_phase
  al_cancelled :: bool
  al_callers :: nat
  al_closed :: bool

datatype loop_event =
    PollTick "get_request \<Rightarrow> http_reply"
  | CallRefresh
  | ReceiveRefresh "get_request \<Rightarrow> http_reply"
  | ApplyProfile "string list" "string list"
  | CancelContext
  | CloseClients "string list"
  | RunReturn

text \<open>With a cancelled context every exchange with the server and the cache fails.\<close>

definition cancelled_env :: "'c profile_env \<Rightarrow> 'c profile_env" where
  "cancelled_env env = env
     \<lparr>pe_cache := map_option (\<lambda>xc. \<lparr>xc_Get = (\<lambda>c k. Inl ''context canceled''),
         xc_Set = (\<lambda>c k v. (Some ''context canceled'', c))\<rparr>) (pe_cache env),
      pe_http := (\<lambda>q. TransportError ''context canceled'')\<rparr>"

text \<open>The first half of \<open>refreshConfig\<close>; \<open>f\<close> answers the request.\<close>

definition load_profile :: "'c profile_env \<Rightarrow> (get_request \<Rightarrow> http_reply) \<Rightarrow> 'c auto_loop \<Rightarrow> 'c auto_loop" where
  "load_profile env f s =
     (case getConfig (if al_cancelled s then cancelled_env env else env\<lparr>pe_http := f\<rparr>) (al_cache s) (al_reg s) of
        ((res, r'), c') \<Rightarrow> s\<lparr>al_reg := r', al_cache := c',
          al_phase := (case res of Inr (Some cfg) \<Rightarrow> Applying cfg | _ \<Rightarrow> Selecting)\<rparr>)"

text \<open>A call of \<open>Refresh\<close> waits at the unbuffered channel, unless the context is done when it starts.\<close>

definition auto_Refresh :: "'c auto_loop \<Rightarrow> 'c auto_loop" where
  "auto_Refresh s = (if al_cancelled s then s else s\<lparr>al_callers := Suc (al_callers s)\<rparr>)"

inductive auto_step :: "'c profile_env \<Rightarrow> 'c auto_loop \<Rightarrow> loop_event \<Rightarrow> 'c auto_loop \<Rightarrow> bool"
  for env :: "'c profile_env" where
  poll_tick: "al_phase s = Selecting \<Longrightarrow> auto_step env s (PollTick f) (load_profile env f s)"
| call_refresh: "auto_step env s CallRefresh (auto_Refresh s)"
| receive_refresh: "al_phase s = Selecting \<Longrightarrow> al_callers s = Suc n \<Longrightarrow>
     auto_step env s (ReceiveRefresh f) (load_profile env f (s\<lparr>al_callers := n\<rparr>))"
| apply_profile: "al_phase s = Applying cfg \<Longrightarrow> enumerates existing (ar_sdkClients (al_reg s)) \<Longrightarrow>
     enumerates remote (pm_SDKs cfg) \<Longrightarrow>
     auto_step env s (ApplyProfile existing remote)
       (s\<lparr>al_reg := applyConfig (pe_reg env) cfg existing remote (al_reg s), al_phase := Selecting\<rparr>)"
| cancel_context: "auto_step env s CancelContext (s\<lparr>al_cancelled := True\<rparr>)"
| close_clients: "al_cancelled s \<Longrightarrow> \<not> al_closed s \<Longrightarrow> enumerates ks (ar_sdkClients (al_reg s)) \<Longrightarrow>
     auto_step env s (CloseClients ks) (s\<lparr>al_reg := auto_Close ks (al_reg s), al_closed := True\<rparr>)"
| run_return: "al_phase s = Selecting \<Longrightarrow> al_cancelled s \<Longrightarrow>
     auto_step env s RunReturn (s\<lparr>al_phase := RunReturned\<rparr>)"

text \<open>\<open>newAutoRegistrar\<close> starts the goroutine on the registrar it has built.\<close>

definition loop_start :: "auto_registrar \<Rightarrow> 'c \<Rightarrow> 'c auto_loop" where
  "loop_start r c = \<lparr>al_reg = r, al_cache = c, al_phase = Selecting, al_cancelled = False, al_callers = 0, al_closed = False\<rparr>"

text \<open>\<open>RefreshAll\<close>: the clients it refreshes, in the order of the loop.\<close>

definition auto_RefreshAll :: "string list \<Rightarrow> auto_registrar \<Rightarrow> nat list" where
  "auto_RefreshAll ks r = List.map_filter (ar_sdkClients r) ks"

section \<open>Lemmas\<close>

declare auto_Refresh_def [simp]

inductive_simps auto_step_simps:
  "auto_step env s (PollTick f) s'" "auto_step env s CallRefresh s'" "auto_step env s (ReceiveRefresh f) s'"
  "auto_step env s (ApplyProfile existing remote) s'" "auto_step env s CancelContext s'"
  "auto_step env s (CloseClients ks) s'" "auto_step env s RunReturn s'"

inductive_cases auto_stepE: "auto_step env s e s'"

lemma load_profile_frame [simp]:
  "al_cancelled (load_profile env f s) = al_cancelled s" "al_callers (load_profile env f s) = al_callers s"
  "al_closed (load_profile env f s) = al_closed s"
  by (simp_all add: load_profile_def split: prod.splits)

lemma load_profile_cases:
  obtains "al_reg (load_profile env f s) = al_reg s" "al_phase (load_profile env f s) = Selecting"
  | cfg e c' where "al_reg (load_profile env f s) = (al_reg s)\<lparr>ar_etag := e\<rparr>" "al_phase (load_profile env f s) = Applying cfg"
      "getConfig (if al_cancelled s then cancelled_env env else env\<lparr>pe_http := f\<rparr>) (al_cache s) (al_reg s) =
         ((Inr (Some cfg), (al_reg s)\<lparr>ar_etag := e\<rparr>), c')"
proof -
  obtain res r' c' where g: "getConfig (if al_cancelled s then cancelled_env env else env\<lparr>pe_http := f\<rparr>) (al_cache s) (al_reg s)
      = ((res, r'), c')" by (metis surj_pair)
  from getConfig_cases [OF g] show thesis
  proof
    assume "r' = al_reg s \<and> (\<forall>cfg. res \<noteq> Inr (Some cfg))"
    then show thesis
      using that(1) g by (auto simp: load_profile_def split: sum.splits option.splits)
  next
    assume "\<exists>cfg body etag. res = Inr (Some cfg) \<and>
        pe_parse (if al_cancelled s then cancelled_env env else env\<lparr>pe_http := f\<rparr>) body = Inr cfg \<and>
        etag \<noteq> ar_etag (al_reg s) \<and> r' = (al_reg s)\<lparr>ar_etag := etag\<rparr>"
    then show thesis using that(2) g by (auto simp: load_profile_def)
  qed
qed

text \<open>A load that starts after the cancellation brings nothing.\<close>

lemma cancelled_load:
  assumes "getConfig (cancelled_env env) c r = ((res, r'), c')"
  shows "r' = r \<and> (\<forall>cfg. res \<noteq> Inr (Some cfg))"
proof -
  have cache: "\<exists>b e err. readCache (cancelled_env env) c (ar_etag r) = (b, e, Some err)"
    by (auto simp: readCache_def cancelled_env_def split: option.splits)
  have fetch: "\<exists>err. fetchConfig (cancelled_env env) e = Inl err" for e
    by (auto simp: fetchConfig_def cancelled_env_def Let_def split: sum.splits)
  obtain b e err where "readCache (cancelled_env env) c (ar_etag r) = (b, e, Some err)" using cache by blast
  moreover obtain err' where "fetchConfig (cancelled_env env) (ar_etag r) = Inl err'" using fetch by blast
  moreover obtain err'' where "fetchConfig (cancelled_env env) e = Inl err''" using fetch by blast
  ultimately show ?thesis
    using assms by (auto simp: getConfig_def Let_def split: if_splits prod.splits sum.splits option.splits)
qed

lemma load_after_cancel:
  assumes "al_cancelled s"
  shows "al_reg (load_profile env f s) = al_reg s" "al_phase (load_profile env f s) = Selecting"
proof -
  obtain res r' c' where g: "getConfig (cancelled_env env) (al_cache s) (al_reg s) = ((res, r'), c')"
    by (metis surj_pair)
  show "al_reg (load_profile env f s) = al_reg s" "al_phase (load_profile env f s) = Selecting"
    using cancelled_load [OF g] g assms
    by (auto simp: load_profile_def split: sum.splits option.splits)
qed

subsection \<open>The invariant of the loop\<close>

definition loop_inv :: "'c auto_loop \<Rightarrow> bool" where
  "loop_inv s \<longleftrightarrow> reg_inv (al_reg s) \<and> (al_closed s \<longrightarrow> al_cancelled s) \<and> (al_phase s = RunReturned \<longrightarrow> al_cancelled s)"

lemma reg_inv_etag [simp]: "reg_inv (r\<lparr>ar_etag := e\<rparr>) = reg_inv r"
  by (simp add: reg_inv_def)

lemma load_inv:
  assumes "loop_inv s" "al_phase s = Selecting"
  shows "loop_inv (load_profile env f s)"
proof (rule load_profile_cases [of env f s])
qed (use assms in \<open>simp_all add: loop_inv_def\<close>)

lemma Close_inv: "reg_inv r \<Longrightarrow> enumerates ks (ar_sdkClients r) \<Longrightarrow> reg_inv (auto_Close ks r)"
  and Close_empty: "enumerates ks (ar_sdkClients r) \<Longrightarrow> ar_sdkClients (auto_Close ks r) = Map.empty"
proof -
  have remove: "foldl (\<lambda>m k. m(k := None)) m ks = m |` (- set ks)" for m :: "string \<rightharpoonup> nat"
    by (induction ks arbitrary: m) (auto simp: restrict_map_def fun_eq_iff)
  show empty: "ar_sdkClients (auto_Close ks r) = Map.empty" if "enumerates ks (ar_sdkClients r)"
    using that by (auto simp: auto_Close_def remove enumerates_def restrict_map_def fun_eq_iff)
  show "reg_inv (auto_Close ks r)" if "reg_inv r" "enumerates ks (ar_sdkClients r)"
    unfolding reg_inv_def empty [OF that(2)]
    using close_all_closes [of "ar_sdkClients r" "ar_objs r" ks] that
    by (auto simp: heap_ok_def reg_inv_def auto_Close_def)
qed

interpretation refresh_loop: lts_invariant "auto_step env" loop_inv for env
proof
  fix s e s' assume inv: "loop_inv s" and step: "auto_step env s e s'"
  from step show "loop_inv s'"
  proof cases
    case (poll_tick f)
    show ?thesis unfolding poll_tick by (rule load_inv) (use inv poll_tick in simp_all)
  next
    case (receive_refresh n f)
    have "loop_inv (s\<lparr>al_callers := n\<rparr>)" using inv by (simp add: loop_inv_def)
    then show ?thesis unfolding receive_refresh by (rule load_inv) (simp add: receive_refresh)
  next
    case (apply_profile cfg existing remote)
    have "reg_inv (applyConfig (pe_reg env) cfg existing remote (al_reg s))"
      by (rule applyConfig_facts(1) [of _ "{}" any_keys]) (use inv apply_profile in \<open>simp_all add: loop_inv_def\<close>)
    then show ?thesis using inv apply_profile by (simp add: loop_inv_def)
  next
    case (close_clients ks)
    then show ?thesis using inv Close_inv by (simp add: loop_inv_def)
  qed (use inv in \<open>auto simp: loop_inv_def\<close>)
qed

subsection \<open>Refinement of the reachable registrars\<close>

text \<open>
  Until \<open>Close\<close> removes the clients, the registrar of the loop is a reachable one whenever the
  loop is at its \<open>select\<close>, and it differs from one only in the ETag while a profile waits to be
  applied, provided that no profile moves a key from one SDK to another.
\<close>

definition stable_step :: "'c profile_env \<Rightarrow> 'c auto_loop \<Rightarrow> loop_event \<Rightarrow> 'c auto_loop \<Rightarrow> bool" where
  "stable_step env s e s' \<longleftrightarrow> auto_step env s e s' \<and>
     (\<forall>cfg existing remote. e = ApplyProfile existing remote \<and> al_phase s = Applying cfg \<longrightarrow> no_key_moves (al_reg s) cfg)"

definition loop_sound :: "'c profile_env \<Rightarrow> 'c auto_loop \<Rightarrow> bool" where
  "loop_sound env s \<longleftrightarrow> al_closed s \<or>
     (case al_phase s of
        Applying cfg \<Rightarrow> (\<exists>r f c c'. auto_reachable env r \<and> getConfig (env\<lparr>pe_http := f\<rparr>) c r = ((Inr (Some cfg), al_reg s), c'))
      | _ \<Rightarrow> auto_reachable env (al_reg s))"

lemma load_sound:
  assumes "auto_reachable env (al_reg s)"
  shows "loop_sound env (load_profile env f s)"
proof (cases "al_cancelled s")
  case True
  then show ?thesis using load_after_cancel [OF True] assms by (simp add: loop_sound_def)
next
  case False
  show ?thesis
  proof (rule load_profile_cases [of env f s])
  next
    fix cfg e c'
    assume "al_reg (load_profile env f s) = (al_reg s)\<lparr>ar_etag := e\<rparr>" "al_phase (load_profile env f s) = Applying cfg"
      "getConfig (if al_cancelled s then cancelled_env env else env\<lparr>pe_http := f\<rparr>) (al_cache s) (al_reg s) =
         ((Inr (Some cfg), (al_reg s)\<lparr>ar_etag := e\<rparr>), c')"
    then show ?thesis using False assms by (auto simp: loop_sound_def)
  qed (use assms in \<open>simp add: loop_sound_def\<close>)
qed

interpretation sound_loop: lts_invariant "stable_step env" "loop_sound env" for env
proof
  fix s e s' assume inv: "loop_sound env s" and step: "stable_step env s e s'"
  then have "auto_step env s e s'" by (simp add: stable_step_def)
  then show "loop_sound env s'"
  proof cases
    case (poll_tick f)
    show ?thesis
    proof (cases "al_closed s")
      case False
      then have "auto_reachable env (al_reg s)" using inv poll_tick by (simp add: loop_sound_def)
      then show ?thesis unfolding poll_tick by (rule load_sound)
    qed (simp add: poll_tick loop_sound_def)
  next
    case (receive_refresh n f)
    show ?thesis
    proof (cases "al_closed s")
      case False
      then have "auto_reachable env (al_reg (s\<lparr>al_callers := n\<rparr>))"
        using inv receive_refresh by (simp add: loop_sound_def)
      then show ?thesis unfolding receive_refresh by (rule load_sound)
    qed (simp add: receive_refresh loop_sound_def)
  next
    case (apply_profile cfg existing remote)
    have moves: "no_key_moves (al_reg s) cfg" using step apply_profile by (auto simp: stable_step_def)
    show ?thesis
    proof (cases "al_closed s")
      case False
      then obtain r f c c' where r: "auto_reachable env r" "getConfig (env\<lparr>pe_http := f\<rparr>) c r = ((Inr (Some cfg), al_reg s), c')"
        using inv apply_profile by (auto simp: loop_sound_def)
      from getConfig_cases [OF r(2)] obtain e where e: "al_reg s = r\<lparr>ar_etag := e\<rparr>" by auto
      have "refreshConfig (env\<lparr>pe_http := f\<rparr>) (\<lambda>_. existing) (\<lambda>_. remote) c r =
          (applyConfig (pe_reg env) cfg existing remote (al_reg s), c')"
        using r(2) by (simp add: refreshConfig_def)
      then have "auto_reachable env (applyConfig (pe_reg env) cfg existing remote (al_reg s))"
        by (rule auto_reachable.refreshed [OF r(1)]) (use r(2) moves apply_profile(4,5) in \<open>simp_all add: e\<close>)
      then show ?thesis by (simp add: apply_profile loop_sound_def)
    qed (simp add: apply_profile loop_sound_def)
  qed (use inv in \<open>auto simp: loop_sound_def split: run_phase.splits\<close>)
qed

subsection \<open>After the clients are closed\<close>

definition shut :: "'c auto_loop \<Rightarrow> bool" where
  "shut s \<longleftrightarrow> al_cancelled s \<and> al_closed s \<and> (\<forall>cfg. al_phase s \<noteq> Applying cfg)
     \<and> ar_sdkClients (al_reg s) = Map.empty \<and> ar_sdkClientsBySdkKey (al_reg s) = Map.empty \<and> reg_inv (al_reg s)"

interpretation shut_loop: lts_invariant "auto_step env" shut for env
proof
  fix s e s' assume "shut s" and "auto_step env s e s'"
  then show "shut s'"
    using load_after_cancel [of s env] load_after_cancel [of "s\<lparr>al_callers := n\<rparr>" env for n]
    by (elim auto_stepE) (auto simp: shut_def)
qed

lemma shut_closed: "shut s \<Longrightarrow> c \<in> set (ar_objs (al_reg s)) \<Longrightarrow> cl_closed c"
  by (auto simp: shut_def reg_inv_def heap_ok_def in_set_conv_nth)

lemma closing_shuts:
  assumes "loop_inv s" "\<forall>cfg. al_phase s \<noteq> Applying cfg" "auto_step env s (CloseClients ks) s'"
  shows "shut s'"
  using assms Close_inv Close_empty by (auto simp: auto_step_simps shut_def loop_inv_def auto_Close_def)

text \<open>Once \<open>run\<close> has returned and the clients are closed, the registrar does not change any more.\<close>

lemma returned_step:
  assumes "auto_step env s e s'" "al_phase s = RunReturned" "al_closed s"
  shows "al_phase s' = RunReturned \<and> al_closed s' \<and> al_reg s' = al_reg s"
  using assms by (elim auto_stepE) auto

lemma returned_run:
  "lts_run (auto_step env) s es s' \<Longrightarrow> al_phase s = RunReturned \<Longrightarrow> al_closed s \<Longrightarrow> al_reg s' = al_reg s"
  by (induction es arbitrary: s) (auto dest: returned_step)

lemma callers_wait:
  assumes "lts_run (auto_step env) s es s'" "al_phase s = RunReturned"
  shows "al_callers s \<le> al_callers s'"
proof -
  have "al_phase t' = RunReturned \<and> al_callers t \<le> al_callers t'"
    if "auto_step env t e t'" "al_phase t = RunReturned" for t e t'
    using that by (elim auto_stepE) auto
  with assms show ?thesis by (induction es arbitrary: s) (auto, meson le_trans)
qed

text \<open>
  A profile that was loaded before \<open>Close\<close> is applied after it: the SDKs are built again.
\<close>

lemma late_apply:
  assumes "reg_inv r" "enumerates ks (ar_sdkClients r)" "enumerates remote (pm_SDKs cfg)" "pm_SDKs cfg i = Some m"
  shows "\<exists>a. ar_sdkClients (applyConfig env cfg [] remote (auto_Close ks r)) i = Some a \<and>
    \<not> cl_closed (ar_objs (applyConfig env cfg [] remote (auto_Close ks r)) ! a)"
proof -
  have none: "enumerates [] (ar_sdkClients (auto_Close ks r))"
    using Close_empty [OF assms(2)] by (simp add: enumerates_def)
  note f = applyConfig_facts [where env = env and U = "{}" and K = any_keys,
      OF Close_inv [OF assms(1,2)] untracked(1,2) none assms(3)]
  from f(5) [OF assms(4)] obtain a where
    a: "ar_sdkClients (applyConfig env cfg [] remote (auto_Close ks r)) i = Some a" by (auto simp: served_def)
  with f(1) show ?thesis by (auto simp: reg_inv_def heap_ok_def)
qed

subsection \<open>All clients\<close>

lemma GetAll_all:
  assumes "enumerates ks (ar_sdkClients r)"
  shows "GetAll (ar_sdkClients r) ks Map.empty = ar_sdkClients r"
proof -
  have "GetAll (ar_sdkClients r) ks all = (\<lambda>i. if i \<in> set ks \<and> ar_sdkClients r i \<noteq> None then ar_sdkClients r i else all i)" for all
    by (induction ks arbitrary: all) (auto simp: fun_eq_iff split: option.splits)
  then show ?thesis using assms by (auto simp: enumerates_def fun_eq_iff)
qed

lemma auto_RefreshAll_set:
  assumes "enumerates ks (ar_sdkClients r)"
  shows "set (auto_RefreshAll ks r) = ran (ar_sdkClients r)"
  using assms by (force simp: auto_RefreshAll_def List.map_filter_def enumerates_def ran_def)

section \<open>Properties\<close>

lemma started_loop:
  assumes "auto_reachable env r"
  shows "loop_inv (loop_start r c)" "loop_sound env (loop_start r c)"
  using keys_exactD(1) [OF reachable_exact [OF assms]] assms
  by (simp_all add: loop_inv_def loop_sound_def loop_start_def)

text \<open>
  C3: between two iterations of the poll loop, and until \<open>Close\<close> has removed the clients, the
  registrar is one of the states the sequential refreshes reach, whatever calls of \<open>Refresh\<close> and
  \<open>Close\<close> ran beside the loop: both lookups agree and find open clients. This is for runs in which every
  profile that is applied respects the ownership of keys (\<open>no_key_moves\<close>, which \<open>stable_step\<close> asks for): no key
  moves from one SDK to another or is shared by two, and the two keys of an SDK differ. Without
  that a lookup by key can miss a client; what still holds then is in theory \<open>Lookups\<close>.
\<close>

theorem loop_serves:
  assumes "auto_reachable env r" and "lts_run (stable_step env) (loop_start r c) es s"
    and "\<not> al_closed s" and "\<forall>cfg. al_phase s \<noteq> Applying cfg" and "k \<noteq> []"
  shows "auto_reachable env (al_reg s)
    \<and> (auto_GetSdkByKeyOrNil (al_reg s) k = Some a \<longleftrightarrow>
        (\<exists>i. auto_GetSdkOrNil (al_reg s) i = Some a \<and> k \<in> keys_of_client (ar_objs (al_reg s) ! a)))
    \<and> (auto_GetSdkOrNil (al_reg s) i = Some a \<longrightarrow> \<not> cl_closed (ar_objs (al_reg s) ! a))"
proof -
  have "loop_sound env s" using sound_loop.run_inv [OF started_loop(2) [OF assms(1)] assms(2)] .
  then have reach: "auto_reachable env (al_reg s)"
    using assms(3,4) by (auto simp: loop_sound_def split: run_phase.splits)
  then show ?thesis
    using auto.by_key_iff [OF reach assms(5)] auto.open_client [OF reach] by blast
qed

text \<open>The profile \<open>k2\<close> arrives at a registrar that serves \<open>k1\<close>.\<close>

definition loop_k1 :: "unit auto_loop" where
  "loop_k1 = loop_start (started ''k1'') ()"

definition loop_k2 :: "unit auto_loop" where
  "loop_k2 = loop_k1\<lparr>al_reg := (started ''k1'')\<lparr>ar_etag := ''k2''\<rparr>, al_phase := Applying (main_profile ''k2'')\<rparr>"

lemma k1_reachable: "auto_reachable (serves ''k2'') (started ''k1'')"
  by (rule started_reachable) (simp_all add: has_prefix_def)

lemma poll_k2: "load_profile (serves ''k2'') (pe_http (serves ''k2'')) loop_k1 = loop_k2"
proof -
  have "getConfig (serves ''k2'') () (started ''k1'')
      = ((Inr (Some (main_profile ''k2'')), (started ''k1'')\<lparr>ar_etag := ''k2''\<rparr>), ())"
    by (rule getConfig_serves) (simp_all add: started_clients has_prefix_def)
  then show ?thesis
    by (simp add: load_profile_def loop_k1_def loop_k2_def loop_start_def serves_http)
qed

lemma run_k2: "lts_run (auto_step (serves ''k2'')) loop_k1 [PollTick (pe_http (serves ''k2''))] loop_k2"
  using auto_step.poll_tick [of loop_k1 "serves ''k2''" "pe_http (serves ''k2'')"]
  by (simp add: poll_k2) (simp add: loop_k1_def loop_start_def)

lemma enumerates_k1: "enumerates [''main''] (ar_sdkClients (started ''k1''))"
  by (simp add: enumerates_def started_clients)

definition loop_k2_applied :: "unit auto_loop" where
  "loop_k2_applied = loop_k2\<lparr>al_reg := applyConfig plain_reg (main_profile ''k2'') [''main''] [''main'']
     ((started ''k1'')\<lparr>ar_etag := ''k2''\<rparr>), al_phase := Selecting\<rparr>"

theorem loop_serves_witness:
  "\<exists>es s. lts_run (stable_step (serves ''k2'')) loop_k1 es s \<and> auto_reachable (serves ''k2'') (al_reg s) \<and> es \<noteq> []"
proof -
  let ?es = "[PollTick (pe_http (serves ''k2'')), ApplyProfile [''main''] [''main'']]"
  have moves: "no_key_moves (started ''k1'') (main_profile ''k2'')" by (rule started_moves)
  have one: "stable_step (serves ''k2'') loop_k1 (PollTick (pe_http (serves ''k2''))) loop_k2"
    using run_k2 by (simp add: stable_step_def)
  have two: "stable_step (serves ''k2'') loop_k2 (ApplyProfile [''main''] [''main'']) loop_k2_applied"
    using enumerates_k1 enumerates_main moves
    by (simp add: stable_step_def auto_step_simps loop_k2_def loop_k2_applied_def serves_def)
  have run: "lts_run (stable_step (serves ''k2'')) (loop_start (started ''k1'') ()) ?es loop_k2_applied"
    using one two by (auto simp: loop_k1_def)
  have "\<not> al_closed loop_k2_applied" "\<forall>cfg. al_phase loop_k2_applied \<noteq> Applying cfg"
    by (simp_all add: loop_k2_applied_def loop_k2_def loop_k1_def loop_start_def)
  from loop_serves [OF k1_reachable run this, of "''k2''"] run show ?thesis
    unfolding loop_k1_def by blast
qed

text \<open>
  C22: \<open>Close\<close> that finds no profile being applied leaves no client behind: both maps are empty,
  every client ever built is closed, and no later step of the loop changes this.
\<close>

theorem close_closes_all:
  assumes "auto_reachable env r" and "lts_run (auto_step env) (loop_start r c) es s"
    and "\<forall>cfg. al_phase s \<noteq> Applying cfg" and "lts_run (auto_step env) s (CloseClients ks # fs) s'"
  shows "auto_GetSdkOrNil (al_reg s') i = None \<and> auto_GetSdkByKeyOrNil (al_reg s') k = None
    \<and> (\<forall>c \<in> set (ar_objs (al_reg s')). cl_closed c)"
proof -
  have inv: "loop_inv s" using refresh_loop.run_inv [OF started_loop(1) [OF assms(1)] assms(2)] .
  from assms(4) obtain t where t: "auto_step env s (CloseClients ks) t" "lts_run (auto_step env) t fs s'" by auto
  have "shut s'" using shut_loop.run_inv [OF closing_shuts [OF inv assms(3) t(1)] t(2)] .
  then show ?thesis
    using shut_closed by (auto simp: shut_def auto_GetSdkOrNil_def auto_GetSdkByKeyOrNil_def)
qed

theorem close_closes_all_witness:
  "\<exists>s'. lts_run (auto_step (serves ''k2'')) loop_k1 [CancelContext, CloseClients [''main''], RunReturn] s' \<and>
     auto_GetSdkOrNil (al_reg s') ''main'' = None \<and> list_all cl_closed (ar_objs (al_reg s'))"
proof -
  let ?s = "loop_k1\<lparr>al_cancelled := True\<rparr>"
  let ?s' = "?s\<lparr>al_reg := auto_Close [''main''] (al_reg ?s), al_closed := True, al_phase := RunReturned\<rparr>"
  have run: "lts_run (auto_step (serves ''k2'')) (loop_start (started ''k1'') ()) [CancelContext] ?s"
    by (simp add: auto_step_simps loop_k1_def)
  have rest: "lts_run (auto_step (serves ''k2'')) ?s [CloseClients [''main''], RunReturn] ?s'"
    using enumerates_k1 by (simp add: auto_step_simps loop_k1_def loop_start_def)
  have "\<forall>cfg. al_phase ?s \<noteq> Applying cfg" by (simp add: loop_k1_def loop_start_def)
  from close_closes_all [OF k1_reachable run this rest, of "''main''" "''k1''"]
  have "auto_GetSdkOrNil (al_reg ?s') ''main'' = None \<and> list_all cl_closed (ar_objs (al_reg ?s'))"
    by (simp add: list_all_iff)
  moreover have "lts_run (auto_step (serves ''k2'')) loop_k1 [CancelContext, CloseClients [''main''], RunReturn] ?s'"
    using run rest unfolding loop_k1_def by auto
  ultimately show ?thesis by blast
qed

text \<open>
  C36: \<open>Close\<close> does not wait for \<open>run\<close>. When it falls between the loading of a profile and its
  application, the SDKs of the profile are built again after \<open>Close\<close> has returned, and no later
  step closes them.
\<close>

theorem close_leaks:
  assumes "auto_reachable env r" and "lts_run (auto_step env) (loop_start r c) es s"
    and "al_phase s = Applying cfg" and "\<not> al_closed s" and "pm_SDKs cfg i = Some m"
    and "enumerates ks (ar_sdkClients (al_reg s))" and "enumerates remote (pm_SDKs cfg)"
  shows "\<exists>s' a. lts_run (auto_step env) s [CancelContext, CloseClients ks, ApplyProfile [] remote, RunReturn] s'
    \<and> (\<forall>fs t. lts_run (auto_step env) s' fs t \<longrightarrow>
         auto_GetSdkOrNil (al_reg t) i = Some a \<and> \<not> cl_closed (ar_objs (al_reg t) ! a))"
proof -
  have inv: "loop_inv s" using refresh_loop.run_inv [OF started_loop(1) [OF assms(1)] assms(2)] .
  define rc where "rc = auto_Close ks (al_reg s)"
  define s' where "s' = s\<lparr>al_reg := applyConfig (pe_reg env) cfg [] remote rc, al_phase := RunReturned,
      al_cancelled := True, al_closed := True\<rparr>"
  have "enumerates [] (ar_sdkClients rc)"
    using Close_empty [OF assms(6)] by (simp add: rc_def enumerates_def)
  then have run: "lts_run (auto_step env) s [CancelContext, CloseClients ks, ApplyProfile [] remote, RunReturn] s'"
    using assms by (simp add: auto_step_simps s'_def rc_def)
  have "reg_inv (al_reg s)" using inv by (simp add: loop_inv_def)
  from late_apply [where env = "pe_reg env", OF this assms(6,7,5), folded rc_def] obtain a where
    "ar_sdkClients (al_reg s') i = Some a" "\<not> cl_closed (ar_objs (al_reg s') ! a)"
    by (auto simp: s'_def)
  moreover have "al_reg t = al_reg s'" if "lts_run (auto_step env) s' fs t" for fs t
    using returned_run [OF that] by (simp add: s'_def)
  ultimately show ?thesis using run by (intro exI [of _ s'] exI [of _ a]) (simp add: auto_GetSdkOrNil_def)
qed

theorem close_leaks_witness:
  "\<exists>s' a. lts_run (auto_step (serves ''k2'')) loop_k2
       [CancelContext, CloseClients [''main''], ApplyProfile [] [''main''], RunReturn] s' \<and>
     auto_GetSdkOrNil (al_reg s') ''main'' = Some a \<and> \<not> cl_closed (ar_objs (al_reg s') ! a)"
proof -
  let ?m = "\<lparr>Key1 = ''k2'', Key2 = []\<rparr>"
  have phase: "al_phase loop_k2 = Applying (main_profile ''k2'')" "\<not> al_closed loop_k2"
    "enumerates [''main''] (ar_sdkClients (al_reg loop_k2))" "pm_SDKs (main_profile ''k2'') ''main'' = Some ?m"
    using enumerates_k1 by (simp_all add: loop_k2_def loop_k1_def loop_start_def main_profile_def)
  have "\<exists>s' a. lts_run (auto_step (serves ''k2'')) loop_k2
       [CancelContext, CloseClients [''main''], ApplyProfile [] [''main''], RunReturn] s'
    \<and> (\<forall>fs t. lts_run (auto_step (serves ''k2'')) s' fs t \<longrightarrow>
         auto_GetSdkOrNil (al_reg t) ''main'' = Some a \<and> \<not> cl_closed (ar_objs (al_reg t) ! a))"
    by (rule close_leaks [OF k1_reachable run_k2 [unfolded loop_k1_def] phase(1,2,4,3) enumerates_main])
  then obtain s' a where "lts_run (auto_step (serves ''k2'')) loop_k2
       [CancelContext, CloseClients [''main''], ApplyProfile [] [''main''], RunReturn] s'"
    "\<forall>fs t. lts_run (auto_step (serves ''k2'')) s' fs t \<longrightarrow>
         auto_GetSdkOrNil (al_reg t) ''main'' = Some a \<and> \<not> cl_closed (ar_objs (al_reg t) ! a)" by blast
  moreover have "lts_run (auto_step (serves ''k2'')) s' [] s'" by simp
  ultimately show ?thesis by blast
qed

end
