(* ===== verification/StreamLoop.thy ===== *)
theory StreamLoop
  imports Stream
begin

text \<open>
  The goroutine \<open>run\<close> of a stream with its callers (\<open>stream/stream.go\<close>, \<open>stream/connection.go\<close>), as a step
  relation. \<open>CreateConnection\<close> and \<open>CloseConnection\<close> look at \<open>stop\<close> and then block in a send on an
  unbuffered channel, so each is a call and its acceptance; \<open>sdkConfigChanged\<close> holds one signal; a
  message goes into the buffer of its connection, which has room for 64, and the goroutine waits
  while the buffer is full. A handler that serves a connection (\<open>listenAndRespond\<close>, the gRPC streams) reads
  until its request ends and then calls \<open>CloseConnection\<close>, or until the stream is closed.

  The value of a client holds the configuration it evaluates with. \<open>ResetSdk\<close> puts another client in
  its place, and a client that loads a new configuration changes its value in place: both at any
  moment, also between two channels of a notification.
\<close>

section \<open>Definitions\<close>

text \<open>
  Where the goroutine is: in its \<open>select\<close>, sending the messages of one channel with the client
  that it notifies with and the channels still to be visited, or returned.
\<close>

datatype stream_phase =
    StreamIdle
  | Feeding "(nat \<times> message) list" client "(string \<times> 64 word) list"
  | StreamReturned

record stream_loop =
  sl_stream :: stream
  sl_phase :: stream_phase
  sl_changed :: bool
  sl_stopped :: bool
  sl_conns :: "nat \<rightharpoonup> 64 word \<times> string"
  sl_establishing :: "conn_established list"
  sl_closing :: "(nat \<times> 64 word \<times> string) list"
  sl_gone :: "nat set"
  sl_box :: "nat \<Rightarrow> message list"
  sl_read :: "nat \<Rightarrow> message list"

definition NewStreamLoop :: "client \<Rightarrow> stream_loop" where
  "NewStreamLoop c = \<lparr>sl_stream = NewStream c, sl_phase = StreamIdle, sl_changed = False, sl_stopped = False,
     sl_conns = Map.empty, sl_establishing = [], sl_closing = [], sl_gone = {}, sl_box = (\<lambda>_. []), sl_read = (\<lambda>_. [])\<rparr>"

text \<open>One iteration of the loop of \<open>notifyConnections\<close>, with the client loaded at its start.\<close>

definition notify_with :: "client \<Rightarrow> string \<times> 64 word \<Rightarrow> stream \<Rightarrow> stream" where
  "notify_with c kd st =
     (fst (notify_one (fst kd) (snd kd) (st\<lparr>st_client := c\<rparr>)))\<lparr>st_client := st_client st\<rparr>"

definition notify_msgs :: "client \<Rightarrow> string \<times> 64 word \<Rightarrow> stream \<Rightarrow> (nat \<times> message) list" where
  "notify_msgs c kd st =
     (case chan_at st (fst kd) (snd kd) of None \<Rightarrow> [] | Some ch \<Rightarrow> fst (snd (Notify c (fst kd) ch)))"

definition visits :: "(string \<times> 64 word) list \<Rightarrow> stream \<Rightarrow> bool" where
  "visits order st \<longleftrightarrow> distinct order \<and> set order = {(k, d). chan_at st k d \<noteq> None}"

datatype sl_event =
    CallCreate conn_established | AcceptCreate conn_established
  | CallClose nat | AcceptClose nat "64 word" string
  | LeaveStopped nat | ReadMessage nat message
  | ConfigSignal | TakeChange "(string \<times> 64 word) list" | NextChannel | Feed nat message | Fed
  | SwapClient client | SwapIgnored client | ReloadClient client | ReloadNotifying client | StopStream | LoopReturn

inductive sl_step :: "stream_loop \<Rightarrow> sl_event \<Rightarrow> stream_loop \<Rightarrow> bool" where
  call_create: "sl_conns s (ce_conn e) = None \<Longrightarrow>
     sl_step s (CallCreate e)
       (if sl_stopped s then s\<lparr>sl_conns := (sl_conns s)(ce_conn e \<mapsto> (ce_discriminator e, ce_key e)),
                               sl_gone := insert (ce_conn e) (sl_gone s)\<rparr>
        else s\<lparr>sl_conns := (sl_conns s)(ce_conn e \<mapsto> (ce_discriminator e, ce_key e)),
               sl_establishing := sl_establishing s @ [e]\<rparr>)"
| accept_create: "sl_phase s = StreamIdle \<Longrightarrow> e \<in> set (sl_establishing s) \<Longrightarrow>
     st = stream_step (sl_stream s) (Established e) \<Longrightarrow>
     sl_step s (AcceptCreate e)
       (s\<lparr>sl_stream := st, sl_establishing := remove1 e (sl_establishing s),
          sl_phase := Feeding [(ce_conn e, last (st_sent st (ce_conn e)))] (st_client st) []\<rparr>)"
| call_close: "sl_conns s c = Some (d, k) \<Longrightarrow> c \<notin> sl_gone s \<Longrightarrow> c \<notin> ce_conn ` set (sl_establishing s) \<Longrightarrow>
     sl_step s (CallClose c)
       (if sl_stopped s then s\<lparr>sl_gone := insert c (sl_gone s)\<rparr>
        else s\<lparr>sl_gone := insert c (sl_gone s), sl_closing := sl_closing s @ [(c, d, k)]\<rparr>)"
| accept_close: "sl_phase s = StreamIdle \<Longrightarrow> (c, d, k) \<in> set (sl_closing s) \<Longrightarrow>
     sl_step s (AcceptClose c d k)
       (s\<lparr>sl_stream := stream_step (sl_stream s) (Closed c d k), sl_closing := remove1 (c, d, k) (sl_closing s)\<rparr>)"
| leave_stopped: "sl_stopped s \<Longrightarrow> sl_conns s c = Some dk \<Longrightarrow> c \<notin> sl_gone s \<Longrightarrow>
     c \<notin> ce_conn ` set (sl_establishing s) \<Longrightarrow>
     sl_step s (LeaveStopped c) (s\<lparr>sl_gone := insert c (sl_gone s)\<rparr>)"
| read_message: "c \<notin> sl_gone s \<Longrightarrow> c \<notin> ce_conn ` set (sl_establishing s) \<Longrightarrow> sl_box s c = m # ms \<Longrightarrow>
     sl_step s (ReadMessage c m)
       (s\<lparr>sl_box := (sl_box s)(c := ms), sl_read := (sl_read s)(c := sl_read s c @ [m])\<rparr>)"
| config_signal: "\<not> sl_changed s \<Longrightarrow> sl_step s ConfigSignal (s\<lparr>sl_changed := True\<rparr>)"
| take_change: "sl_phase s = StreamIdle \<Longrightarrow> sl_changed s \<Longrightarrow> visits order (sl_stream s) \<Longrightarrow>
     sl_step s (TakeChange order)
       (s\<lparr>sl_changed := False, sl_phase := Feeding [] (st_client (sl_stream s)) order\<rparr>)"
| next_channel: "sl_phase s = Feeding [] c (kd # order) \<Longrightarrow>
     sl_step s NextChannel
       (s\<lparr>sl_stream := notify_with c kd (sl_stream s), sl_phase := Feeding (notify_msgs c kd (sl_stream s)) c order\<rparr>)"
| feed: "sl_phase s = Feeding ((c, m) # ms) sc order \<Longrightarrow> length (sl_box s c) < connection_capacity \<Longrightarrow>
     sl_step s (Feed c m)
       (s\<lparr>sl_box := (sl_box s)(c := sl_box s c @ [m]), sl_phase := Feeding ms sc order\<rparr>)"
| fed: "sl_phase s = Feeding [] sc [] \<Longrightarrow> sl_step s Fed (s\<lparr>sl_phase := StreamIdle\<rparr>)"
| swap_client: "\<not> sl_stopped s \<Longrightarrow>
     sl_step s (SwapClient c) (s\<lparr>sl_stream := stream_step (sl_stream s) (Stream.ResetSdk c)\<rparr>)"
| swap_ignored: "sl_stopped s \<Longrightarrow> sl_step s (SwapIgnored c) s"
| reload_client: "cx_SdkId (cl_ctx c) = cx_SdkId (cl_ctx (st_client (sl_stream s))) \<Longrightarrow>
     sl_step s (ReloadClient c) (s\<lparr>sl_stream := (sl_stream s)\<lparr>st_client := c\<rparr>\<rparr>)"
| reload_notifying: "sl_phase s = Feeding ms sc order \<Longrightarrow> cx_SdkId (cl_ctx c) = cx_SdkId (cl_ctx sc) \<Longrightarrow>
     sl_step s (ReloadNotifying c) (s\<lparr>sl_phase := Feeding ms c order\<rparr>)"
| stop_stream: "\<not> sl_stopped s \<Longrightarrow> sl_step s StopStream (s\<lparr>sl_stopped := True\<rparr>)"
| loop_return: "sl_phase s = StreamIdle \<Longrightarrow> sl_stopped s \<Longrightarrow>
     sl_step s LoopReturn (s\<lparr>sl_phase := StreamReturned\<rparr>)"

section \<open>Lemmas\<close>

inductive_cases sl_stepE: "sl_step s e s'"

inductive_simps sl_step_simps:
  "sl_step s (CallCreate e) s'" "sl_step s (AcceptCreate e) s'" "sl_step s (CallClose c) s'"
  "sl_step s (AcceptClose c d k) s'" "sl_step s (LeaveStopped c) s'" "sl_step s (ReadMessage c m) s'"
  "sl_step s ConfigSignal s'" "sl_step s (TakeChange order) s'" "sl_step s NextChannel s'"
  "sl_step s (Feed c m) s'" "sl_step s Fed s'" "sl_step s (SwapClient sc) s'" "sl_step s (SwapIgnored sc) s'"
  "sl_step s (ReloadClient sc) s'" "sl_step s (ReloadNotifying sc) s'"
  "sl_step s StopStream s'" "sl_step s LoopReturn s'"

subsection \<open>The loop follows the events of the stream\<close>

text \<open>The stream once the notification under way is finished, and the events a step stands for.\<close>

fun complete :: "stream_phase \<Rightarrow> stream \<Rightarrow> stream" where
  "complete (Feeding ms c order) st = foldl (\<lambda>st kd. notify_with c kd st) st order"
| "complete StreamIdle st = st"
| "complete StreamReturned st = st"

abbreviation completed :: "stream_loop \<Rightarrow> stream" where
  "completed s \<equiv> complete (sl_phase s) (sl_stream s)"

fun stream_ops :: "sl_event \<Rightarrow> stream_op list" where
  "stream_ops (AcceptCreate e) = [Established e]"
| "stream_ops (AcceptClose c d k) = [Closed c d k]"
| "stream_ops (TakeChange order) = [ConfigChanged order]"
| "stream_ops (SwapClient c) = [Stream.ResetSdk c]"
| "stream_ops (ReloadClient c) = [Stream.ResetSdk c]"
| "stream_ops _ = []"

lemma notify_with_client [simp]: "st_client (notify_with c kd st) = st_client st"
  by (simp add: notify_with_def)

lemma notify_with_same: "notify_with (st_client st) kd st = fst (notify_one (fst kd) (snd kd) st)"
  by (simp add: notify_with_def)

lemma notify_with_swap: "notify_with c kd (st\<lparr>st_client := c'\<rparr>) = (notify_with c kd st)\<lparr>st_client := c'\<rparr>"
  by (simp add: notify_with_def)

lemma foldl_notify_swap:
  "foldl (\<lambda>st kd. notify_with c kd st) (st\<lparr>st_client := c'\<rparr>) order =
   (foldl (\<lambda>st kd. notify_with c kd st) st order)\<lparr>st_client := c'\<rparr>"
  by (induction order arbitrary: st) (simp_all add: notify_with_swap)

lemma notify_loop_foldl:
  "fst (notify_loop order st n) = foldl (\<lambda>st' kd. notify_with (st_client st) kd st') st order"
proof (induction order arbitrary: st n)
  case (Cons kd order)
  obtain k d where kd: "kd = (k, d)" by fastforce
  obtain st1 m where one: "notify_one k d st = (st1, m)" by fastforce
  then have "st_client st1 = st_client st" using notify_one_frame(1) [of k d st] by simp
  with Cons [of st1] show ?case
    using notify_with_same [of st kd] by (simp add: kd one)
qed simp

text \<open>A notification that no change of its client falls into is one event of the stream.\<close>

fun calm :: "sl_event \<Rightarrow> bool" where
  "calm (ReloadNotifying c) = False"
| "calm _ = True"

lemma completed_step:
  assumes "sl_step s e s'" "calm e"
  shows "completed s' = run_ops stream_step (completed s) (stream_ops e)"
  using assms(1)
proof cases
  case (take_change order)
  then show ?thesis by (simp add: notifyConnections_def notify_loop_foldl)
next
  case (swap_client c)
  then show ?thesis by (cases "sl_phase s") (simp_all add: foldl_notify_swap)
next
  case (reload_client c)
  then show ?thesis by (cases "sl_phase s") (simp_all add: foldl_notify_swap)
qed (use assms(2) in auto)

text \<open>What a notification sends reaches registered connections only.\<close>

lemma notify_one_unregistered:
  assumes "\<And>k d. (c, k, d) \<notin> registered st"
  shows "st_sent (fst (notify_one k d st)) c = st_sent st c \<and>
    (\<forall>k' d'. (c, k', d') \<notin> registered (fst (notify_one k d st)))"
proof (cases "chan_at st k d")
  case (Some ch)
  obtain ch' ms n where n: "Notify (st_client st) k ch = (ch', ms, n)" by (metis surj_pair)
  have c: "c \<notin> set (connections ch)" using assms Some by (auto simp: registered_def)
  then have "st_sent (fst (notify_one k d st)) c = st_sent st c"
    using notify_one_Some [OF Some n] Notify_targets [OF n] deliver_other [of c ms]
    by (auto simp: send_msgs_eq)
  moreover have "(c, k', d') \<notin> registered (fst (notify_one k d st))" for k' d'
    using assms c Notify_targets [OF n] Some n by (auto simp: registered_def chan_at_notify_one)
  ultimately show ?thesis by blast
qed (use assms in \<open>simp add: notify_one_None\<close>)

lemma channels_ok_client [simp]:
  "channels_ok (st\<lparr>st_client := c\<rparr>) = channels_ok st" "registered (st\<lparr>st_client := c\<rparr>) = registered st"
  "channels_ok (st\<lparr>st_connCount := n\<rparr>) = channels_ok st" "registered (st\<lparr>st_connCount := n\<rparr>) = registered st"
  by (simp_all add: channels_ok_def registered_def chan_at_def)

lemma notify_with_ok:
  assumes "channels_ok st"
  shows "channels_ok (notify_with sc kd st)" "registered (notify_with sc kd st) = registered st"
    "st_connCount (notify_with sc kd st) = st_connCount st"
  using notify_one_ok [of "st\<lparr>st_client := sc\<rparr>"] assms by (simp_all add: notify_with_def)

lemma notify_with_unregistered:
  assumes "\<And>k d. (c, k, d) \<notin> registered st"
  shows "st_sent (notify_with sc kd st) c = st_sent st c"
  using notify_one_unregistered [of c "st\<lparr>st_client := sc\<rparr>"] assms by (simp add: notify_with_def)

subsection \<open>The invariant of the loop\<close>

text \<open>
  A connection is waiting to be established, or it is registered until its handler has gone; a
  handler that has called \<open>CloseConnection\<close> waits with a registered connection.
\<close>

definition callers_ok :: "stream_loop \<Rightarrow> bool" where
  "callers_ok s \<longleftrightarrow>
     distinct (map ce_conn (sl_establishing s)) \<and> distinct (map fst (sl_closing s))
     \<and> (\<forall>e \<in> set (sl_establishing s). sl_conns s (ce_conn e) = Some (ce_discriminator e, ce_key e) \<and>
          ce_conn e \<notin> sl_gone s \<and> st_sent (sl_stream s) (ce_conn e) = [])
     \<and> (\<forall>c. sl_conns s c = None \<longrightarrow> st_sent (sl_stream s) c = [] \<and> c \<notin> sl_gone s)
     \<and> (\<forall>c d k. sl_conns s c = Some (d, k) \<and> c \<notin> ce_conn ` set (sl_establishing s) \<and> c \<notin> sl_gone s \<longrightarrow>
          (c, k, d) \<in> registered (sl_stream s))
     \<and> (\<forall>(c, d, k) \<in> set (sl_closing s). (c, k, d) \<in> registered (sl_stream s) \<and> c \<in> sl_gone s)"

definition messages_for :: "nat \<Rightarrow> (nat \<times> message) list \<Rightarrow> message list" where
  "messages_for c ms = map snd (filter (\<lambda>(c', m). c' = c) ms)"

fun queued :: "stream_phase \<Rightarrow> nat \<Rightarrow> message list" where
  "queued (Feeding ms sc order) c = messages_for c ms"
| "queued _ c = []"

text \<open>Nothing is lost between the stream and the handler, and no buffer overflows.\<close>

definition buffers_ok :: "stream_loop \<Rightarrow> bool" where
  "buffers_ok s \<longleftrightarrow> (\<forall>c. length (sl_box s c) \<le> connection_capacity \<and>
     sl_read s c @ sl_box s c @ queued (sl_phase s) c = st_sent (sl_stream s) c)"

definition sl_inv :: "stream_loop \<Rightarrow> bool" where
  "sl_inv s \<longleftrightarrow> stream_inv (sl_stream s) \<and> callers_ok s \<and> buffers_ok s"

lemma sl_inv_New: "sl_inv (NewStreamLoop c)"
  using stream_inv_New [of c]
  by (simp add: sl_inv_def callers_ok_def buffers_ok_def NewStreamLoop_def NewStream_def)

lemma messages_for_simps [simp]:
  "messages_for c [] = []" "messages_for c ((c', m) # ms) = (if c' = c then m # messages_for c ms else messages_for c ms)"
  by (simp_all add: messages_for_def)

lemma send_msgs_for: "send_msgs ms sent c = sent c @ messages_for c ms"
  by (simp add: send_msgs_eq channel.deliver_def messages_for_def)

lemma sent_established:
  "st_sent (stream_step st (Established e)) c =
     (if c = ce_conn e then st_sent st c @ [last (st_sent (stream_step st (Established e)) c)] else st_sent st c)"
  by (auto simp: Let_def addConnection_def send_msgs_for)

lemma sent_closed [simp]: "st_sent (stream_step st (Closed c d k)) = st_sent st"
  by (auto simp: Let_def removeConnection_def split: option.splits)

lemma sent_notify_with:
  "st_sent (notify_with sc kd st) c = st_sent st c @ messages_for c (notify_msgs sc kd st)"
proof (cases "chan_at st (fst kd) (snd kd)")
  case None
  moreover from this have "chan_at (st\<lparr>st_client := sc\<rparr>) (fst kd) (snd kd) = None" by (simp add: chan_at_def)
  ultimately show ?thesis by (simp add: notify_with_def notify_msgs_def notify_one_None)
next
  case (Some ch)
  obtain ch' ms n where n: "Notify sc (fst kd) ch = (ch', ms, n)" by (metis surj_pair)
  have "chan_at (st\<lparr>st_client := sc\<rparr>) (fst kd) (snd kd) = Some ch" using Some by (simp add: chan_at_def)
  from notify_one_Some [OF this, of ch' ms n] show ?thesis
    using Some n by (simp add: notify_with_def notify_msgs_def send_msgs_for)
qed

lemma buffers_step:
  assumes "buffers_ok s" "sl_step s e s'"
  shows "buffers_ok s'"
  using assms(2)
proof cases
  case (accept_create e st)
  have box: "sl_read s c @ sl_box s c = st_sent (sl_stream s) c" for c
    using assms(1) accept_create(3) by (auto simp: buffers_ok_def)
  have "sl_read s c @ sl_box s c @ messages_for c [(ce_conn e, last (st_sent st (ce_conn e)))] = st_sent st c" for c
    using sent_established [of "sl_stream s" e c] by (simp add: accept_create(5) flip: box)
  then show ?thesis using assms(1) by (simp add: accept_create(2) buffers_ok_def)
next
  case (next_channel sc kd order)
  then show ?thesis using assms(1) by (auto simp: buffers_ok_def sent_notify_with)
next
  case (feed c m ms sc order)
  then show ?thesis using assms(1) by (fastforce simp: buffers_ok_def split: if_splits)
next
  case (read_message c m ms)
  have "length (sl_box s c) \<le> connection_capacity" "sl_read s c @ sl_box s c @ queued (sl_phase s) c = st_sent (sl_stream s) c"
    using assms(1) by (simp_all add: buffers_ok_def)
  then show ?thesis using assms(1) read_message by (simp add: buffers_ok_def)
qed (use assms(1) in \<open>auto simp: buffers_ok_def simp del: stream_step.simps(1,2)\<close>)

interpretation stream_buffers: lts_invariant sl_step buffers_ok
  by unfold_locales (rule buffers_step)

lemma callers_okD:
  assumes "callers_ok s"
  shows "distinct (map ce_conn (sl_establishing s))" "distinct (map fst (sl_closing s))"
    and "e \<in> set (sl_establishing s) \<Longrightarrow> sl_conns s (ce_conn e) = Some (ce_discriminator e, ce_key e)"
    and "e \<in> set (sl_establishing s) \<Longrightarrow> ce_conn e \<notin> sl_gone s"
    and "e \<in> set (sl_establishing s) \<Longrightarrow> st_sent (sl_stream s) (ce_conn e) = []"
    and "sl_conns s c = None \<Longrightarrow> st_sent (sl_stream s) c = []" "sl_conns s c = None \<Longrightarrow> c \<notin> sl_gone s"
    and "sl_conns s c = Some (d, k) \<Longrightarrow> c \<notin> ce_conn ` set (sl_establishing s) \<Longrightarrow> c \<notin> sl_gone s \<Longrightarrow>
      (c, k, d) \<in> registered (sl_stream s)"
    and "(c, d, k) \<in> set (sl_closing s) \<Longrightarrow> (c, k, d) \<in> registered (sl_stream s)"
    and "(c, d, k) \<in> set (sl_closing s) \<Longrightarrow> c \<in> sl_gone s"
  using assms unfolding callers_ok_def by blast+

lemma callers_okI:
  assumes "distinct (map ce_conn (sl_establishing s))" "distinct (map fst (sl_closing s))"
    and "\<And>e. e \<in> set (sl_establishing s) \<Longrightarrow> sl_conns s (ce_conn e) = Some (ce_discriminator e, ce_key e)"
    and "\<And>e. e \<in> set (sl_establishing s) \<Longrightarrow> ce_conn e \<notin> sl_gone s"
    and "\<And>e. e \<in> set (sl_establishing s) \<Longrightarrow> st_sent (sl_stream s) (ce_conn e) = []"
    and "\<And>c. sl_conns s c = None \<Longrightarrow> st_sent (sl_stream s) c = []" "\<And>c. sl_conns s c = None \<Longrightarrow> c \<notin> sl_gone s"
    and "\<And>c d k. sl_conns s c = Some (d, k) \<Longrightarrow> c \<notin> ce_conn ` set (sl_establishing s) \<Longrightarrow> c \<notin> sl_gone s \<Longrightarrow>
      (c, k, d) \<in> registered (sl_stream s)"
    and "\<And>c d k. (c, d, k) \<in> set (sl_closing s) \<Longrightarrow> (c, k, d) \<in> registered (sl_stream s)"
    and "\<And>c d k. (c, d, k) \<in> set (sl_closing s) \<Longrightarrow> c \<in> sl_gone s"
  shows "callers_ok s"
  using assms unfolding callers_ok_def by blast

text \<open>Steps that keep what is registered and what was sent to connections that are not.\<close>

lemma callers_frame:
  assumes "callers_ok s" "registered (sl_stream s') = registered (sl_stream s)"
    and "\<And>c. st_sent (sl_stream s) c = [] \<Longrightarrow> st_sent (sl_stream s') c = []"
    and "sl_establishing s' = sl_establishing s" "sl_closing s' = sl_closing s" "sl_conns s' = sl_conns s" "sl_gone s' = sl_gone s"
  shows "callers_ok s'"
  using assms unfolding callers_ok_def by simp

lemma distinct_map_remove1:
  assumes "distinct (map f xs)" "x \<in> set xs"
  shows "distinct (map f (remove1 x xs))" "y \<in> set (remove1 x xs) \<longleftrightarrow> y \<in> set xs \<and> f y \<noteq> f x"
proof -
  show "distinct (map f (remove1 x xs))"
    using assms(1) by (induction xs) (auto dest: set_remove1_subset [THEN subsetD])
  show "y \<in> set (remove1 x xs) \<longleftrightarrow> y \<in> set xs \<and> f y \<noteq> f x"
    using assms by (auto simp: distinct_map inj_on_def)
qed

lemma unregistered:
  assumes "stream_inv st" "st_sent st c = []"
  shows "(c, k, d) \<notin> registered st"
  using assms current_nonempty channels_okD(4) unfolding stream_inv_def registered_def by blast

lemma callers_call_create:
  assumes ok: "callers_ok s" and new: "sl_conns s (ce_conn e) = None"
  defines "t \<equiv> s\<lparr>sl_conns := (sl_conns s)(ce_conn e \<mapsto> (ce_discriminator e, ce_key e))\<rparr>"
  shows "callers_ok (t\<lparr>sl_gone := insert (ce_conn e) (sl_gone s)\<rparr>)"
    "callers_ok (t\<lparr>sl_establishing := sl_establishing s @ [e]\<rparr>)"
proof -
  note D = callers_okD [OF ok]
  have e: "ce_conn e \<notin> ce_conn ` set (sl_establishing s)" "ce_conn e \<notin> sl_gone s" "st_sent (sl_stream s) (ce_conn e) = []"
    using D(3) D(6,7) [OF new] new by force+
  then have other: "x \<in> set (sl_establishing s) \<Longrightarrow> ce_conn x \<noteq> ce_conn e" for x by (metis imageI)
  show "callers_ok (t\<lparr>sl_gone := insert (ce_conn e) (sl_gone s)\<rparr>)"
    unfolding t_def using e D other by (intro callers_okI) (simp_all split: if_splits)
  show "callers_ok (t\<lparr>sl_establishing := sl_establishing s @ [e]\<rparr>)"
    unfolding t_def using e D other by (intro callers_okI) (auto split: if_splits)
qed

lemma callers_accept_create:
  assumes inv: "stream_inv (sl_stream s)" "callers_ok s" and e: "e \<in> set (sl_establishing s)"
    and s': "sl_stream s' = stream_step (sl_stream s) (Established e)" "sl_establishing s' = remove1 e (sl_establishing s)"
      "sl_closing s' = sl_closing s" "sl_conns s' = sl_conns s" "sl_gone s' = sl_gone s"
  shows "callers_ok s'"
proof -
  note D = callers_okD [OF inv(2)]
  have reg: "registered (sl_stream s') = insert (ce_conn e, ce_key e, ce_discriminator e) (registered (sl_stream s))"
    using stream_step_inv [of "sl_stream s" "Established e"] inv(1) D(5) [OF e] s'(1) by simp
  have sent: "c' \<noteq> ce_conn e \<Longrightarrow> st_sent (sl_stream s') c' = st_sent (sl_stream s) c'" for c'
    using sent_established [of "sl_stream s" e c'] by (simp add: s'(1))
  note rest = distinct_map_remove1 [OF D(1) e]
  have images: "ce_conn ` set (sl_establishing s') = ce_conn ` set (sl_establishing s) - {ce_conn e}"
    using rest(2) by (auto simp: s'(2))
  have other: "c' \<noteq> ce_conn e" if "sl_conns s' c' = None" for c' using that D(3) [OF e] s'(4) by auto
  show ?thesis
  proof (rule callers_okI)
    fix c' d k
    assume "sl_conns s' c' = Some (d, k)" "c' \<notin> ce_conn ` set (sl_establishing s')" "c' \<notin> sl_gone s'"
    then show "(c', k, d) \<in> registered (sl_stream s')"
      using D(3) [OF e] D(8) [of c' d k] reg images s' by (cases "c' = ce_conn e") auto
  qed (use D rest reg sent other in \<open>auto simp: s'(2-5)\<close>)
qed

lemma callers_call_close:
  assumes ok: "callers_ok s" and c: "sl_conns s c = Some (d, k)" "c \<notin> sl_gone s" "c \<notin> ce_conn ` set (sl_establishing s)"
  defines "t \<equiv> s\<lparr>sl_gone := insert c (sl_gone s)\<rparr>"
  shows "callers_ok t" "callers_ok (t\<lparr>sl_closing := sl_closing s @ [(c, d, k)]\<rparr>)"
proof -
  note D = callers_okD [OF ok]
  have new: "c \<notin> fst ` set (sl_closing s)" "(c, k, d) \<in> registered (sl_stream s)"
    using D(10) c(2) D(8) [OF c(1,3,2)] by force+
  show "callers_ok t" unfolding t_def using D c by (intro callers_okI) (auto split: if_splits)
  show "callers_ok (t\<lparr>sl_closing := sl_closing s @ [(c, d, k)]\<rparr>)"
    unfolding t_def using D c new by (intro callers_okI) (auto split: if_splits)
qed

lemma callers_accept_close:
  assumes inv: "stream_inv (sl_stream s)" "callers_ok s" and c: "(c, d, k) \<in> set (sl_closing s)"
    and s': "sl_stream s' = stream_step (sl_stream s) (Closed c d k)" "sl_closing s' = remove1 (c, d, k) (sl_closing s)"
      "sl_establishing s' = sl_establishing s" "sl_conns s' = sl_conns s" "sl_gone s' = sl_gone s"
  shows "callers_ok s'"
proof -
  note D = callers_okD [OF inv(2)]
  have reg: "registered (sl_stream s') = registered (sl_stream s) - {(c, k, d)}"
    using stream_step_inv [of "sl_stream s" "Closed c d k"] inv(1) D(9) [OF c] s'(1) by simp
  have sent: "st_sent (sl_stream s') = st_sent (sl_stream s)" by (simp add: s'(1) del: stream_step.simps)
  note rest = distinct_map_remove1 [OF D(2) c]
  show ?thesis
  proof (rule callers_okI)
    fix c' d' k'
    assume "sl_conns s' c' = Some (d', k')" "c' \<notin> ce_conn ` set (sl_establishing s')" "c' \<notin> sl_gone s'"
    then show "(c', k', d') \<in> registered (sl_stream s')"
      using D(8) D(10) [OF c] reg by (auto simp: s'(3-5))
  next
    fix c' d' k' assume "(c', d', k') \<in> set (sl_closing s')"
    then have "(c', d', k') \<in> set (sl_closing s)" "c' \<noteq> c" using rest(2) by (simp_all add: s'(2))
    then show "(c', k', d') \<in> registered (sl_stream s')" "c' \<in> sl_gone s'"
      using D(9,10) reg by (auto simp: s'(5))
  qed (use D rest(1) sent in \<open>simp_all add: s'(2-5)\<close>)
qed

lemma callers_step:
  assumes inv: "stream_inv (sl_stream s)" "callers_ok s" and step: "sl_step s e s'"
  shows "callers_ok s'"
  using step
proof cases
  case (call_create e)
  then show ?thesis using callers_call_create [OF inv(2) call_create(3)] by simp
next
  case (accept_create e st)
  then show ?thesis by (intro callers_accept_create [OF inv accept_create(4)]) (simp_all del: stream_step.simps)
next
  case (call_close c d k)
  then show ?thesis using callers_call_close [OF inv(2) call_close(3-5)] by simp
next
  case (accept_close c d k)
  then show ?thesis by (intro callers_accept_close [OF inv accept_close(4)]) (simp_all del: stream_step.simps)
next
  case (leave_stopped c dk)
  then show ?thesis using callers_okD [OF inv(2)] by (intro callers_okI) auto
next
  case (next_channel sc kd order)
  have "channels_ok (sl_stream s)" using inv(1) by (simp add: stream_inv_def)
  then show ?thesis
    using notify_with_ok(2) notify_with_unregistered unregistered [OF inv(1)]
    by (intro callers_frame [OF inv(2)]) (simp_all add: next_channel)
qed (use inv(2) in \<open>auto intro!: callers_frame [OF inv(2)] simp: registered_def chan_at_def\<close>)

lemma stream_inv_client [simp]: "stream_inv (st\<lparr>st_client := c\<rparr>) = stream_inv st"
  by (simp add: stream_inv_def)

lemma stream_inv_step:
  assumes "stream_inv (sl_stream s)" "callers_ok s" "sl_step s e s'"
  shows "stream_inv (sl_stream s')"
  using assms(3)
proof cases
  case (accept_create e st)
  then show ?thesis
    using stream_step_inv [OF assms(1), of "Established e"] callers_okD(5) [OF assms(2) accept_create(4)] by simp
next
  case (accept_close c d k)
  then show ?thesis
    using stream_step_inv [OF assms(1), of "Closed c d k"] callers_okD(9) [OF assms(2) accept_close(4)] by simp
next
  case (next_channel sc kd order)
  then show ?thesis using assms(1) notify_with_ok [of "sl_stream s"] by (simp add: stream_inv_def)
qed (use assms(1) in auto)

interpretation stream_goroutine: lts_invariant sl_step sl_inv
proof
  fix s e s' assume "sl_inv s" and step: "sl_step s e s'"
  then have s: "stream_inv (sl_stream s)" "callers_ok s" "buffers_ok s" by (simp_all add: sl_inv_def)
  show "sl_inv s'"
    using stream_inv_step [OF s(1,2) step] callers_step [OF s(1,2) step] buffers_step [OF s(3) step]
    by (simp add: sl_inv_def)
qed

lemma stream_ops_ok:
  assumes "callers_ok s" "sl_step s e s'"
  shows "admissible stream_step stream_ok (completed s) (stream_ops e)"
  using assms(2)
proof cases
  case (accept_create e st)
  then show ?thesis using callers_okD(5) [OF assms(1) accept_create(4)] by simp
next
  case (accept_close c d k)
  then show ?thesis using callers_okD(9) [OF assms(1) accept_close(4)] by simp
qed simp_all

interpretation calm_stream: lts_simulation "\<lambda>s e s'. sl_step s e s' \<and> calm e" sl_inv completed stream_step stream_ok stream_ops
proof
  fix s e s' assume inv: "sl_inv s" and "sl_step s e s' \<and> calm e"
  then have step: "sl_step s e s'" "calm e" by simp_all
  show "sl_inv s'" by (rule stream_goroutine.step_inv [OF inv step(1)])
  have "callers_ok s" using inv by (simp add: sl_inv_def)
  then show "admissible stream_step stream_ok (completed s) (stream_ops e) \<and>
      completed s' = run_ops stream_step (completed s) (stream_ops e)"
    using stream_ops_ok [OF _ step(1)] completed_step [OF step] by blast
qed

lemma loop_runs:
  assumes "lts_run sl_step (NewStreamLoop c) es s"
  shows "sl_inv s"
  using stream_goroutine.run_inv [OF sl_inv_New assms] .

lemma calm_runs:
  assumes "lts_run sl_step (NewStreamLoop c) es s" "list_all calm es"
  shows "admissible stream_step stream_ok (NewStream c) (concat (map stream_ops es))"
    "completed s = run_ops stream_step (NewStream c) (concat (map stream_ops es))"
proof -
  have "lts_run (\<lambda>s e s'. sl_step s e s' \<and> calm e) t es s" if "lts_run sl_step t es s" for t
    using that assms(2) by (induction es arbitrary: t) auto
  from calm_stream.run_sim [OF sl_inv_New this [OF assms(1)]]
  show "admissible stream_step stream_ok (NewStream c) (concat (map stream_ops es))"
    "completed s = run_ops stream_step (NewStream c) (concat (map stream_ops es))"
    by (simp_all add: NewStreamLoop_def)
qed

subsection \<open>A loop that is not blocked comes back to its select\<close>

text \<open>Every message of the channel being served has room.\<close>

definition room_for :: "(nat \<times> message) list \<Rightarrow> stream_loop \<Rightarrow> bool" where
  "room_for ms s \<longleftrightarrow> (\<forall>c. length (sl_box s c) + length (messages_for c ms) \<le> connection_capacity)"

definition same_queues :: "stream_loop \<Rightarrow> stream_loop \<Rightarrow> bool" where
  "same_queues s s' \<longleftrightarrow> sl_changed s' = sl_changed s \<and> sl_stopped s' = sl_stopped s \<and> sl_conns s' = sl_conns s \<and>
     sl_establishing s' = sl_establishing s \<and> sl_closing s' = sl_closing s \<and> sl_gone s' = sl_gone s \<and> sl_read s' = sl_read s"

lemma feed_all:
  assumes "sl_phase s = Feeding ms sc order" "room_for ms s"
  shows "\<exists>s'. lts_run sl_step s (map (\<lambda>(c, m). Feed c m) ms) s' \<and> sl_phase s' = Feeding [] sc order \<and>
    sl_stream s' = sl_stream s \<and> same_queues s s' \<and> (\<forall>c. sl_box s' c = sl_box s c @ messages_for c ms)"
  using assms
proof (induction ms arbitrary: s)
  case Nil
  then show ?case by (auto simp: same_queues_def)
next
  case (Cons x ms)
  obtain c m where x: "x = (c, m)" by fastforce
  let ?t = "s\<lparr>sl_box := (sl_box s)(c := sl_box s c @ [m]), sl_phase := Feeding ms sc order\<rparr>"
  have full: "length (sl_box s c') + length (messages_for c' ((c, m) # ms)) \<le> connection_capacity" for c'
    using Cons.prems(2) by (simp add: room_for_def x)
  have "length (sl_box s c) < connection_capacity" using full [of c] by simp
  then have one: "sl_step s (Feed c m) ?t" using Cons.prems(1) by (auto simp: sl_step_simps x)
  have "room_for ms ?t" unfolding room_for_def
  proof
    fix c' show "length (sl_box ?t c') + length (messages_for c' ms) \<le> connection_capacity"
      using full [of c'] by (cases "c' = c") simp_all
  qed
  with Cons.IH [of ?t] obtain s' where "lts_run sl_step ?t (map (\<lambda>(c, m). Feed c m) ms) s'"
    "sl_phase s' = Feeding [] sc order" "sl_stream s' = sl_stream s" "same_queues ?t s'"
    "\<forall>c'. sl_box s' c' = sl_box ?t c' @ messages_for c' ms" by auto
  with one show ?case by (intro exI [of _ s']) (auto simp: x same_queues_def)
qed

lemma messages_for_all:
  "distinct cs \<Longrightarrow> messages_for c (map (\<lambda>c. (c, m)) cs) = (if c \<in> set cs then [m] else [])"
  by (induction cs) auto

lemma notify_msgs_once:
  assumes "channels_ok st"
  shows "length (messages_for c (notify_msgs sc (k, d) st)) \<le> 1"
    and "messages_for c (notify_msgs sc (k, d) st) \<noteq> [] \<Longrightarrow> (c, k, d) \<in> registered st"
proof -
  have "messages_for c (notify_msgs sc (k, d) st) = [] \<or>
      (c, k, d) \<in> registered st \<and> length (messages_for c (notify_msgs sc (k, d) st)) = 1"
  proof (cases "chan_at st k d")
    case None
    then show ?thesis by (simp add: notify_msgs_def)
  next
    case (Some ch)
    obtain ch' ms n where n: "Notify sc k ch = (ch', ms, n)" by (metis surj_pair)
    have d: "distinct (connections ch)" using channels_okD(3) [OF assms Some] .
    have "notify_msgs sc (k, d) st = ms" using Some n by (simp add: notify_msgs_def)
    with channel.notify [OF n] Some show ?thesis
      by (auto simp: messages_for_all [OF d] registered_def split: if_splits)
  qed
  then show "length (messages_for c (notify_msgs sc (k, d) st)) \<le> 1"
    "messages_for c (notify_msgs sc (k, d) st) \<noteq> [] \<Longrightarrow> (c, k, d) \<in> registered st" by auto
qed

fun own_event :: "sl_event \<Rightarrow> bool" where
  "own_event NextChannel = True"
| "own_event (Feed c m) = True"
| "own_event Fed = True"
| "own_event _ = False"

lemma visit_all:
  assumes "sl_phase s = Feeding [] sc order" "channels_ok (sl_stream s)" "distinct order" "buffers_ok s"
    and "\<And>c k d. (c, k, d) \<in> registered (sl_stream s) \<Longrightarrow> (k, d) \<in> set order \<Longrightarrow> length (sl_box s c) < connection_capacity"
  shows "\<exists>es s'. lts_run sl_step s es s' \<and> list_all own_event es \<and> sl_phase s' = StreamIdle \<and>
    sl_stream s' = completed s \<and> same_queues s s'"
  using assms
proof (induction order arbitrary: s)
  case Nil
  then have "lts_run sl_step s [Fed] (s\<lparr>sl_phase := StreamIdle\<rparr>)" by (auto simp: sl_step_simps)
  then show ?case using Nil(1)
    by (intro exI [of _ "[Fed]"] exI [of _ "s\<lparr>sl_phase := StreamIdle\<rparr>"]) (simp add: same_queues_def)
next
  case (Cons kd order)
  obtain k d where kd: "kd = (k, d)" by fastforce
  let ?ms = "notify_msgs sc kd (sl_stream s)"
  let ?t = "s\<lparr>sl_stream := notify_with sc kd (sl_stream s), sl_phase := Feeding ?ms sc order\<rparr>"
  have one: "sl_step s NextChannel ?t" using sl_step.next_channel [OF Cons.prems(1)] .
  note once = notify_msgs_once [OF Cons.prems(2), where sc = sc and k = k and d = d, folded kd]
  have "room_for ?ms ?t" unfolding room_for_def
  proof
    fix c
    show "length (sl_box ?t c) + length (messages_for c ?ms) \<le> connection_capacity"
    proof (cases "messages_for c ?ms = []")
      case False
      then have "length (sl_box s c) < connection_capacity" using once(2) Cons.prems(5) kd by fastforce
      then show ?thesis using once(1) [of c] by simp
    qed (use Cons.prems(4) in \<open>simp add: buffers_ok_def\<close>)
  qed
  with feed_all [of ?t ?ms sc order] obtain u where
    u: "lts_run sl_step ?t (map (\<lambda>(c, m). Feed c m) ?ms) u" "sl_phase u = Feeding [] sc order"
      "sl_stream u = notify_with sc kd (sl_stream s)" "same_queues ?t u"
      "\<forall>c. sl_box u c = sl_box s c @ messages_for c ?ms" by auto
  have ok: "channels_ok (sl_stream u)" "registered (sl_stream u) = registered (sl_stream s)"
    using notify_with_ok [OF Cons.prems(2)] u(3) by simp_all
  have "buffers_ok u"
    using stream_buffers.run_inv [OF buffers_step [OF Cons.prems(4) one] u(1)] .
  moreover have "length (sl_box u c) < connection_capacity"
    if "(c, k', d') \<in> registered (sl_stream u)" "(k', d') \<in> set order" for c k' d'
  proof -
    have "messages_for c ?ms = []"
    proof (rule ccontr)
      assume "messages_for c ?ms \<noteq> []"
      then have "(c, k, d) \<in> registered (sl_stream s)" using once(2) by (simp add: kd)
      then have "k' = k \<and> d' = d"
        using that(1) ok(2) Cons.prems(2) unfolding channels_ok_def by metis
      then show False using that(2) Cons.prems(3) kd by auto
    qed
    then show ?thesis using that Cons.prems(5) u(5) ok(2) by simp
  qed
  ultimately obtain es s' where
    s': "lts_run sl_step u es s'" "list_all own_event es" "sl_phase s' = StreamIdle" "sl_stream s' = completed u" "same_queues u s'"
    using Cons.IH [OF u(2) ok(1)] Cons.prems(3) by auto
  let ?es = "NextChannel # map (\<lambda>(c, m). Feed c m) ?ms @ es"
  have "lts_run sl_step s ?es s'" using one u(1) s'(1) by (auto simp: lts_run_append)
  moreover have "list_all own_event ?es" using s'(2) by (auto simp: list_all_iff)
  moreover have "sl_stream s' = completed s" using s'(4) u(2,3) Cons.prems(1) by simp
  moreover have "same_queues s s'" using u(4) s'(5) by (simp add: same_queues_def)
  ultimately show ?case using s'(3) by blast
qed

subsection \<open>A loop that is blocked stays blocked\<close>

definition blocked :: "nat \<Rightarrow> stream_loop \<Rightarrow> bool" where
  "blocked c s \<longleftrightarrow> c \<in> sl_gone s \<and> length (sl_box s c) = connection_capacity \<and>
     (\<exists>m ms sc order. sl_phase s = Feeding ((c, m) # ms) sc order)"

lemma blocked_step:
  assumes "sl_step s e s'" "blocked c s"
  shows "blocked c s' \<and> set (sl_closing s) \<subseteq> set (sl_closing s') \<and> set (sl_establishing s) \<subseteq> set (sl_establishing s')
    \<and> (\<forall>c'. sl_read s' c' @ sl_box s' c' = sl_read s c' @ sl_box s c')"
  using assms by (elim sl_stepE) (auto simp: blocked_def split: if_splits)

lemma blocked_run:
  assumes "lts_run sl_step s es s'" "blocked c s"
  shows "blocked c s' \<and> set (sl_closing s) \<subseteq> set (sl_closing s') \<and> set (sl_establishing s) \<subseteq> set (sl_establishing s')
    \<and> (\<forall>c'. sl_read s' c' @ sl_box s' c' = sl_read s c' @ sl_box s c')"
  using assms
proof (induction es arbitrary: s)
  case (Cons e es)
  then obtain t where t: "sl_step s e t" "lts_run sl_step t es s'" by auto
  with blocked_step [OF t(1) Cons.prems(2)] Cons.IH [OF t(2)] show ?case by auto
qed simp

text \<open>After \<open>run\<close> has returned, a caller that had passed the look at \<open>stop\<close> waits for ever.\<close>

lemma ended_step:
  assumes "sl_step s e s'" "sl_phase s = StreamReturned"
  shows "sl_phase s' = StreamReturned \<and> set (sl_closing s) \<subseteq> set (sl_closing s') \<and>
    set (sl_establishing s) \<subseteq> set (sl_establishing s')"
  using assms by (elim sl_stepE) (auto split: if_splits)

lemma ended_run:
  assumes "lts_run sl_step s es s'" "sl_phase s = StreamReturned"
  shows "sl_phase s' = StreamReturned \<and> set (sl_closing s) \<subseteq> set (sl_closing s') \<and>
    set (sl_establishing s) \<subseteq> set (sl_establishing s')"
  using assms
proof (induction es arbitrary: s)
  case (Cons e es)
  then obtain t where t: "sl_step s e t" "lts_run sl_step t es s'" by auto
  with ended_step [OF t(1) Cons.prems(2)] Cons.IH [OF t(2)] show ?case by auto
qed simp

lemma late_caller_hangs:
  assumes "sl_step s (CallCreate e) s1" "\<not> sl_stopped s" "sl_phase s = StreamIdle"
  shows "\<exists>s2. lts_run sl_step s1 [StopStream, LoopReturn] s2 \<and>
    (\<forall>es t. lts_run sl_step s2 es t \<longrightarrow> e \<in> set (sl_establishing t))"
proof -
  let ?s2 = "s1\<lparr>sl_stopped := True, sl_phase := StreamReturned\<rparr>"
  have "lts_run sl_step s1 [StopStream, LoopReturn] ?s2" "e \<in> set (sl_establishing ?s2)"
    using assms by (auto simp: sl_step_simps)
  moreover have "set (sl_establishing ?s2) \<subseteq> set (sl_establishing t)" if "lts_run sl_step ?s2 es t" for es t
    using ended_run [OF that] by simp
  ultimately show ?thesis by blast
qed

text \<open>
  One connection whose handler does not read: each change of the flag's value adds a message to
  its buffer, until the next one blocks the goroutine.
\<close>

definition one_conn :: "string \<Rightarrow> user_attrs \<Rightarrow> client \<Rightarrow> nat \<Rightarrow> stream_loop \<Rightarrow> bool" where
  "one_conn k u x n s \<longleftrightarrow> sl_phase s = StreamIdle \<and> \<not> sl_stopped s \<and> \<not> sl_changed s \<and> st_client (sl_stream s) = x
     \<and> chan_at (sl_stream s) k 0 =
         Some (SingleFlagChannel (Some (PayloadFromEvalData (Eval x k u))) \<lparr>ch_connections = [0], ch_user = u\<rparr>)
     \<and> (\<forall>k' d'. chan_at (sl_stream s) k' d' \<noteq> None \<longrightarrow> k' = k \<and> d' = 0)
     \<and> sl_conns s 0 = Some (0, k) \<and> 0 \<notin> sl_gone s \<and> sl_establishing s = [] \<and> length (sl_box s 0) = n"

lemma one_conn_start:
  assumes "k \<noteq> AllFlagsDiscriminator"
  shows "\<exists>e m s. lts_run sl_step (NewStreamLoop x) [CallCreate e, AcceptCreate e, Feed 0 m, Fed] s \<and> one_conn k u x 1 s"
proof -
  let ?e = "\<lparr>ce_conn = 0, ce_discriminator = 0, ce_user = u, ce_key = k\<rparr>"
  let ?st = "stream_step (NewStream x) (Established ?e)"
  define m where "m = last (st_sent ?st 0)"
  let ?s1 = "(NewStreamLoop x)\<lparr>sl_conns := [0 \<mapsto> (0, k)], sl_establishing := [?e]\<rparr>"
  let ?s2 = "?s1\<lparr>sl_stream := ?st, sl_establishing := [], sl_phase := Feeding [(0, m)] x []\<rparr>"
  let ?s3 = "?s2\<lparr>sl_box := (\<lambda>_. [])(0 := [m]), sl_phase := Feeding [] x []\<rparr>"
  let ?s4 = "?s3\<lparr>sl_phase := StreamIdle\<rparr>"
  have client: "st_client ?st = x" by (simp add: Let_def addConnection_def NewStream_def)
  have "sl_step (NewStreamLoop x) (CallCreate ?e) ?s1"
    by (simp add: sl_step_simps NewStreamLoop_def)
  moreover have "sl_step ?s1 (AcceptCreate ?e) ?s2"
    using client by (simp add: sl_step_simps NewStreamLoop_def m_def)
  moreover have "sl_step ?s2 (Feed 0 m) ?s3"
    by (simp add: sl_step_simps NewStreamLoop_def connection_capacity_def)
  moreover have "sl_step ?s3 Fed ?s4" by (auto simp: sl_step_simps)
  ultimately have "lts_run sl_step (NewStreamLoop x) [CallCreate ?e, AcceptCreate ?e, Feed 0 m, Fed] ?s4" by auto
  moreover have "one_conn k u x 1 ?s4"
    using assms client chan_at_add [of ?e "NewStream x"]
    by (auto simp: one_conn_def NewStreamLoop_def Let_def chan_at_def NewStream_def createChannel_def AddConnection_def
        split: if_splits)
  ultimately show ?thesis by blast
qed

text \<open>A change of the value: the goroutine has one message for the connection.\<close>

lemma one_conn_change:
  assumes one: "one_conn k u x n s" and ok: "ed_Error (Eval y k u) = None" "ed_Value (Eval y k u) \<noteq> ed_Value (Eval x k u)"
    and same: "cx_SdkId (cl_ctx y) = cx_SdkId (cl_ctx x)"
  shows "\<exists>m s'. lts_run sl_step s [ReloadClient y, ConfigSignal, TakeChange [(k, 0)], NextChannel] s' \<and>
    sl_phase s' = Feeding [(0, m)] y [] \<and> one_conn k u y n (s'\<lparr>sl_phase := StreamIdle\<rparr>)"
proof -
  let ?h = "\<lparr>ch_connections = [0], ch_user = u\<rparr>"
  let ?p = "\<lambda>z. Some (PayloadFromEvalData (Eval z k u))"
  let ?st = "(sl_stream s)\<lparr>st_client := y\<rparr>"
  let ?s1 = "s\<lparr>sl_stream := ?st\<rparr>"
  let ?s2 = "?s1\<lparr>sl_changed := True\<rparr>"
  let ?s3 = "?s2\<lparr>sl_changed := False, sl_phase := Feeding [] y [(k, 0)]\<rparr>"
  let ?s4 = "?s3\<lparr>sl_stream := notify_with y (k, 0) ?st, sl_phase := Feeding (notify_msgs y (k, 0) ?st) y []\<rparr>"
  have at: "chan_at ?st k 0 = Some (SingleFlagChannel (?p x) ?h)"
    and only: "chan_at ?st k' d' \<noteq> None \<Longrightarrow> k' = k \<and> d' = 0" for k' d'
    using one by (auto simp: one_conn_def chan_at_def)
  have notify: "Notify y k (SingleFlagChannel (?p x) ?h) = (SingleFlagChannel (?p y) ?h, [(0, SinglePayload (?p y))], 1)"
    using ok by (simp add: Notify_single_def PayloadFromEvalData_def Let_def)
  have "visits [(k, 0)] ?st" using at only by (auto simp: visits_def)
  then have "lts_run sl_step s [ReloadClient y, ConfigSignal, TakeChange [(k, 0)], NextChannel] ?s4"
    using one same by (auto simp: sl_step_simps one_conn_def)
  moreover have "notify_msgs y (k, 0) ?st = [(0, SinglePayload (?p y))]"
    using at notify by (simp add: notify_msgs_def)
  moreover have "chan_at (notify_with y (k, 0) ?st) k' d' =
      (if k' = k \<and> d' = 0 then Some (SingleFlagChannel (?p y) ?h) else chan_at ?st k' d')" for k' d'
  proof -
    have "chan_at (notify_with y (k, 0) ?st) k' d' = chan_at (fst (notify_one k 0 ?st)) k' d'"
      by (simp add: notify_with_def chan_at_def)
    then show ?thesis using at notify by (simp add: chan_at_notify_one)
  qed
  then have "one_conn k u y n (?s4\<lparr>sl_phase := StreamIdle\<rparr>)"
    using one only unfolding one_conn_def by auto
  ultimately show ?thesis by fastforce
qed

lemma one_conn_grow:
  assumes "one_conn k u x n s" "n < connection_capacity"
    and "ed_Error (Eval y k u) = None" "ed_Value (Eval y k u) \<noteq> ed_Value (Eval x k u)"
    and same: "cx_SdkId (cl_ctx y) = cx_SdkId (cl_ctx x)"
  shows "\<exists>es s'. lts_run sl_step s es s' \<and> one_conn k u y (Suc n) s'"
proof -
  obtain m t where t: "lts_run sl_step s [ReloadClient y, ConfigSignal, TakeChange [(k, 0)], NextChannel] t"
    "sl_phase t = Feeding [(0, m)] y []" "one_conn k u y n (t\<lparr>sl_phase := StreamIdle\<rparr>)"
    using one_conn_change [OF assms(1,3,4) same] by blast
  let ?s' = "t\<lparr>sl_box := (sl_box t)(0 := sl_box t 0 @ [m]), sl_phase := StreamIdle\<rparr>"
  have "length (sl_box t 0) = n" using t(3) by (simp add: one_conn_def)
  then have "lts_run sl_step t [Feed 0 m, Fed] ?s'" using t(2) assms(2) by (auto simp: sl_step_simps)
  moreover have "one_conn k u y (Suc n) ?s'" using t(3) by (auto simp: one_conn_def)
  ultimately show ?thesis
    using t(1) lts_run_append [of sl_step s "[ReloadClient y, ConfigSignal, TakeChange [(k, 0)], NextChannel]" "[Feed 0 m, Fed]"]
    by blast
qed

lemma one_conn_full:
  assumes "k \<noteq> AllFlagsDiscriminator" "n < connection_capacity"
    and "ed_Error (Eval a k u) = None" "ed_Error (Eval b k u) = None" "ed_Value (Eval a k u) \<noteq> ed_Value (Eval b k u)"
    and same: "cx_SdkId (cl_ctx a) = cx_SdkId (cl_ctx b)"
  shows "\<exists>es s x. lts_run sl_step (NewStreamLoop a) es s \<and> x \<in> {a, b} \<and> one_conn k u x (Suc n) s"
  using assms(2)
proof (induction n)
  case 0
  then show ?case using one_conn_start [OF assms(1), of a u] by (metis One_nat_def insertI1)
next
  case (Suc n)
  then obtain es s x where s: "lts_run sl_step (NewStreamLoop a) es s" "x \<in> {a, b}" "one_conn k u x (Suc n) s" by auto
  define y where "y = (if x = a then b else a)"
  have "ed_Error (Eval y k u) = None" "ed_Value (Eval y k u) \<noteq> ed_Value (Eval x k u)" "y \<in> {a, b}"
    "cx_SdkId (cl_ctx y) = cx_SdkId (cl_ctx x)"
    using s(2) assms(3-5) same by (auto simp: y_def)
  with one_conn_grow [OF s(3) Suc.prems] obtain fs s' where "lts_run sl_step s fs s'" "one_conn k u y (Suc (Suc n)) s'"
    by blast
  then show ?case using s(1) \<open>y \<in> {a, b}\<close> lts_run_append [of sl_step "NewStreamLoop a" es fs s'] by blast
qed

lemma one_conn_blocks:
  assumes "one_conn k u x connection_capacity s" "ed_Error (Eval y k u) = None" "ed_Value (Eval y k u) \<noteq> ed_Value (Eval x k u)"
    and same: "cx_SdkId (cl_ctx y) = cx_SdkId (cl_ctx x)"
  shows "\<exists>es s'. lts_run sl_step s (es @ [CallClose 0]) s' \<and> blocked 0 s' \<and> (0, 0, k) \<in> set (sl_closing s')"
proof -
  obtain m t where t: "lts_run sl_step s [ReloadClient y, ConfigSignal, TakeChange [(k, 0)], NextChannel] t"
    "sl_phase t = Feeding [(0, m)] y []" "one_conn k u y connection_capacity (t\<lparr>sl_phase := StreamIdle\<rparr>)"
    using one_conn_change [OF assms] by blast
  let ?s' = "t\<lparr>sl_gone := insert 0 (sl_gone t), sl_closing := sl_closing t @ [(0, 0, k)]\<rparr>"
  have "sl_step t (CallClose 0) ?s'" using t(3) by (simp add: sl_step_simps one_conn_def)
  then have "lts_run sl_step s ([ReloadClient y, ConfigSignal, TakeChange [(k, 0)], NextChannel] @ [CallClose 0]) ?s'"
    using t(1) unfolding lts_run_append by (intro exI [of _ t]) simp
  moreover have "blocked 0 ?s'" using t(2,3) by (auto simp: blocked_def one_conn_def)
  moreover have "(0, 0, k) \<in> set (sl_closing ?s')" by simp
  ultimately show ?thesis by blast
qed

section \<open>Properties\<close>

text \<open>
  C8: whatever the callers do, at its \<open>select\<close> the goroutine has put every message of the stream
  into the buffer of its connection, in order, and no buffer holds more than 64: a handler that has
  emptied its buffer has last read the last payload of its channel. If no change of the client
  fell into a notification, the stream is the one that the accepted events give one after the other. That
  the goroutine comes back to its \<open>select\<close> is not claimed: a full buffer can keep it from there for ever.
\<close>

theorem goroutine_delivers:
  assumes "lts_run sl_step (NewStreamLoop sc) es s" and "sl_phase s = StreamIdle"
  shows "sl_read s c @ sl_box s c = st_sent (sl_stream s) c \<and> length (sl_box s c) \<le> connection_capacity
    \<and> (chan_at (sl_stream s) k d = Some ch \<and> c \<in> set (connections ch) \<and> sl_box s c = [] \<longrightarrow>
        sl_read s c \<noteq> [] \<and> last (sl_read s c) = LastPayload ch)
    \<and> (list_all calm es \<longrightarrow> (let ops = concat (map stream_ops es)
        in admissible stream_step stream_ok (NewStream sc) ops \<and> sl_stream s = run_ops stream_step (NewStream sc) ops))"
proof -
  have inv: "buffers_ok s" "channels_ok (sl_stream s)"
    using loop_runs [OF assms(1)] by (simp_all add: sl_inv_def stream_inv_def)
  then have sent: "sl_read s c @ sl_box s c = st_sent (sl_stream s) c" "length (sl_box s c) \<le> connection_capacity" for c
    using assms(2) by (auto simp: buffers_ok_def)
  moreover have "sl_read s c \<noteq> [] \<and> last (sl_read s c) = LastPayload ch"
    if "chan_at (sl_stream s) k d = Some ch" "c \<in> set (connections ch)" "sl_box s c = []"
    using channels_okD(4) [OF inv(2) that(1)] that(2,3) sent(1) [of c] by (simp add: channel.current_def)
  moreover have "let ops = concat (map stream_ops es)
        in admissible stream_step stream_ok (NewStream sc) ops \<and> sl_stream s = run_ops stream_step (NewStream sc) ops"
    if "list_all calm es"
    using calm_runs [OF assms(1) that] by (simp add: Let_def assms(2))
  ultimately show ?thesis by blast
qed

text \<open>One connection is established and reads its first message.\<close>

lemma first_read:
  "\<exists>es s. lts_run sl_step (NewStreamLoop echo_client) es s \<and> list_all calm es \<and> sl_phase s = StreamIdle \<and>
     sl_box s 0 = [] \<and> length (sl_read s 0) = 1"
proof -
  let ?e = "conn_of 0 1" and ?l = "NewStreamLoop echo_client"
  let ?st = "stream_step (NewStream echo_client) (Established ?e)"
  define m where "m = last (st_sent ?st 0)"
  let ?s1 = "?l\<lparr>sl_conns := [0 \<mapsto> (1, ''flag'')], sl_establishing := [?e]\<rparr>"
  let ?s2 = "?s1\<lparr>sl_stream := ?st, sl_establishing := [], sl_phase := Feeding [(0, m)] (st_client ?st) []\<rparr>"
  let ?s3 = "?s2\<lparr>sl_box := (\<lambda>_. [])(0 := [m]), sl_phase := Feeding [] (st_client ?st) []\<rparr>"
  let ?s4 = "?s3\<lparr>sl_phase := StreamIdle\<rparr>"
  let ?s5 = "?s4\<lparr>sl_box := ((\<lambda>_. [])(0 := [m]))(0 := []), sl_read := (\<lambda>_. [])(0 := [m])\<rparr>"
  have "sl_step ?l (CallCreate ?e) ?s1" "sl_step ?s1 (AcceptCreate ?e) ?s2"
    by (simp_all add: sl_step_simps NewStreamLoop_def conn_of_def m_def)
  moreover have "sl_step ?s2 (Feed 0 m) ?s3"
    by (simp add: sl_step_simps NewStreamLoop_def connection_capacity_def)
  moreover have "sl_step ?s3 Fed ?s4" "sl_step ?s4 (ReadMessage 0 m) ?s5"
    by (auto simp: sl_step_simps NewStreamLoop_def)
  ultimately have "lts_run sl_step ?l [CallCreate ?e, AcceptCreate ?e, Feed 0 m, Fed, ReadMessage 0 m] ?s5"
    unfolding lts_run.simps by blast
  then show ?thesis by (intro exI [of _ "[CallCreate ?e, AcceptCreate ?e, Feed 0 m, Fed, ReadMessage 0 m]"] exI [of _ ?s5]) simp
qed

theorem goroutine_delivers_witness:
  "\<exists>es s. lts_run sl_step (NewStreamLoop echo_client) es s \<and> length (sl_read s 0) = 1 \<and>
     st_sent (sl_stream s) 0 = sl_read s 0"
proof -
  obtain es s where "lts_run sl_step (NewStreamLoop echo_client) es s" "sl_phase s = StreamIdle" "sl_box s 0 = []"
    "length (sl_read s 0) = 1"
    using first_read by blast
  with goroutine_delivers [of echo_client es s 0 "[]" 0 undefined] show ?thesis by fastforce
qed

text \<open>
  When a configuration change waits and every registered connection has room for one message,
  the goroutine handles it on its own: it takes the signal, feeds every channel and is back at its
  \<open>select\<close> with the stream that the notification gives.
\<close>

lemma change_is_handled:
  assumes "lts_run sl_step (NewStreamLoop sc) es s" and "sl_phase s = StreamIdle" and "sl_changed s"
    and "visits order (sl_stream s)"
    and "\<forall>c k d. (c, k, d) \<in> registered (sl_stream s) \<longrightarrow> length (sl_box s c) < connection_capacity"
  shows "\<exists>fs s'. lts_run sl_step s (TakeChange order # fs) s' \<and> list_all own_event fs \<and> sl_phase s' = StreamIdle
    \<and> sl_stream s' = notifyConnections order (sl_stream s) \<and> \<not> sl_changed s'
    \<and> (\<forall>c. sl_read s' c @ sl_box s' c = st_sent (notifyConnections order (sl_stream s)) c)"
proof -
  let ?t = "s\<lparr>sl_changed := False, sl_phase := Feeding [] (st_client (sl_stream s)) order\<rparr>"
  have one: "sl_step s (TakeChange order) ?t" using assms(2-4) by (simp add: sl_step_simps)
  have inv: "sl_inv ?t" using stream_goroutine.step_inv [OF loop_runs [OF assms(1)] one] .
  obtain fs s' where fs: "lts_run sl_step ?t fs s'" "list_all own_event fs" "sl_phase s' = StreamIdle"
      "sl_stream s' = completed ?t" "same_queues ?t s'"
    using visit_all [of ?t "st_client (sl_stream s)" order] inv assms(4,5)
    by (auto simp: sl_inv_def stream_inv_def visits_def)
  have fin: "completed ?t = notifyConnections order (sl_stream s)"
    by (simp add: notifyConnections_def notify_loop_foldl)
  have "buffers_ok s'" using stream_goroutine.run_inv [OF inv fs(1)] by (simp add: sl_inv_def)
  then have "sl_read s' c @ sl_box s' c = st_sent (notifyConnections order (sl_stream s)) c" for c
    using fs(3,4) fin by (simp add: buffers_ok_def)
  moreover have "lts_run sl_step s (TakeChange order # fs) s'" using one fs(1) by auto
  moreover have "\<not> sl_changed s'" using fs(5) by (simp add: same_queues_def)
  ultimately show ?thesis using fs(2-4) fin by metis
qed

text \<open>
  C38: a handler that stops reading and calls \<open>CloseConnection\<close> while its buffer is full can stop the
  stream for good: the goroutine waits for room in that buffer, the handler waits for the goroutine,
  and no message reaches any connection of the SDK any more. A flag that changes its value
  between two configurations brings it about.
\<close>

theorem full_buffer_deadlocks:
  assumes "cx_SdkId (cl_ctx a) = cx_SdkId (cl_ctx b)" and "key \<noteq> AllFlagsDiscriminator"
    and "ed_Error (Eval a key None) = None" and "ed_Error (Eval b key None) = None"
    and "ed_Value (Eval a key None) \<noteq> ed_Value (Eval b key None)"
  shows "\<exists>es s. lts_run sl_step (NewStreamLoop a) (es @ [CallClose 0]) s
    \<and> (\<forall>fs t. lts_run sl_step s fs t \<longrightarrow> sl_phase t \<noteq> StreamIdle \<and> (0, 0, key) \<in> set (sl_closing t)
        \<and> (\<forall>c. sl_read t c @ sl_box t c = sl_read s c @ sl_box s c))"
proof -
  have "(63 :: nat) < connection_capacity" by (simp add: connection_capacity_def)
  then obtain es s x where s: "lts_run sl_step (NewStreamLoop a) es s" "x \<in> {a, b}" "one_conn key None x 64 s"
    using one_conn_full [OF assms(2) _ assms(3-5,1), of 63] by auto
  define y where "y = (if x = a then b else a)"
  have y: "ed_Error (Eval y key None) = None" "ed_Value (Eval y key None) \<noteq> ed_Value (Eval x key None)"
    "cx_SdkId (cl_ctx y) = cx_SdkId (cl_ctx x)"
    using s(2) assms by (auto simp: y_def)
  obtain fs s' where s': "lts_run sl_step s (fs @ [CallClose 0]) s'" "blocked 0 s'" "(0, 0, key) \<in> set (sl_closing s')"
    using one_conn_blocks [OF _ y, where s = s] s(3) by (auto simp: connection_capacity_def)
  have "lts_run sl_step (NewStreamLoop a) ((es @ fs) @ [CallClose 0]) s'"
    using s(1) s'(1) by (auto simp: lts_run_append)
  moreover have "sl_phase t \<noteq> StreamIdle \<and> (0, 0, key) \<in> set (sl_closing t)
        \<and> (\<forall>c. sl_read t c @ sl_box t c = sl_read s' c @ sl_box s' c)" if "lts_run sl_step s' gs t" for gs t
    using blocked_run [OF that s'(2)] s'(3) by (auto simp: blocked_def)
  ultimately show ?thesis by blast
qed

definition flag_client :: "bool \<Rightarrow> client" where
  "flag_client v = echo_client\<lparr>cl_snapshot := (cl_snapshot echo_client)
     \<lparr>sn_GetValueDetails := (\<lambda>u k. (echo_details u k)\<lparr>dt_Value := VBool v\<rparr>)\<rparr>\<rparr>"

theorem full_buffer_deadlocks_witness:
  "\<exists>es s. lts_run sl_step (NewStreamLoop (flag_client False)) (es @ [CallClose 0]) s \<and> sl_phase s \<noteq> StreamIdle"
proof -
  have "\<exists>es s. lts_run sl_step (NewStreamLoop (flag_client False)) (es @ [CallClose 0]) s
    \<and> (\<forall>fs t. lts_run sl_step s fs t \<longrightarrow> sl_phase t \<noteq> StreamIdle \<and> (0, 0, ''flag'') \<in> set (sl_closing t)
        \<and> (\<forall>c. sl_read t c @ sl_box t c = sl_read s c @ sl_box s c))"
    by (rule full_buffer_deadlocks [where b = "flag_client True"])
      (simp_all add: flag_client_def echo_details_def Eval_def eval_data_of_def AllFlagsDiscriminator_def)
  then obtain es s where s: "lts_run sl_step (NewStreamLoop (flag_client False)) (es @ [CallClose 0]) s"
    "\<And>fs t. lts_run sl_step s fs t \<Longrightarrow> sl_phase t \<noteq> StreamIdle" by metis
  have "lts_run sl_step s [] s" by simp
  with s show ?thesis by blast
qed

end
