(* ===== verification/ClientLoop.thy ===== *)
theory ClientLoop
  imports Client
begin

text \<open>
  The goroutines of an SDK client (\<open>sdk/sdk.go\<close>) as a step relation: the initial refresh that
  \<open>NewClient\<close> starts under the mutex, \<open>poll\<close> or \<open>listen\<close>, calls of \<open>Refresh\<close> from outside, the hook
  \<open>OnConfigChanged\<close> that the third-party SDK calls for every configuration it loads while it is
  online, the callers that wait in \<open>ensureReady\<close>, and \<open>Close\<close>. What a refresh brings is an input:
  nothing, or a configuration, which the SDK writes to its cache and evaluates with from then on.
  The hook may run at any time after its configuration was loaded. A store that the client listens
  to changes its entry on its own.
\<close>

section \<open>Definitions\<close>

datatype init_phase = InitWaiting | InitFetching | InitFetched | InitDone

text \<open>\<open>LoopFetching True\<close> is the refresh inside \<open>signal\<close>, which a publication follows.\<close>

datatype loop_phase = LoopWaiting | LoopFetching bool | LoopPublishing | LoopReturned

datatype mutex = MutexFree | HeldByInit

datatype once_phase = OnceFresh | OnceRunning | OnceDone

datatype closing = NotClosing | ClosingWaits | ClosingDone

record client_loop =
  lp_client :: client
  lp_init :: init_phase
  lp_loop :: loop_phase
  lp_refreshing :: nat
  lp_hooks :: nat
  lp_publishing :: nat
  lp_published :: nat
  lp_loaded :: nat
  lp_ready :: bool
  lp_mutex :: mutex
  lp_once :: once_phase
  lp_waiting :: "nat list"
  lp_closing :: closing
  lp_cancelled :: bool
  lp_stopped :: bool

definition NewClientLoop :: "client \<Rightarrow> client_loop" where
  "NewClientLoop c = \<lparr>lp_client = c, lp_init = InitWaiting, lp_loop = LoopWaiting, lp_refreshing = 0, lp_hooks = 0,
     lp_publishing = 0, lp_published = 0, lp_loaded = 0, lp_ready = False, lp_mutex = MutexFree, lp_once = OnceFresh,
     lp_waiting = [], lp_closing = NotClosing, lp_cancelled = False, lp_stopped = False\<rparr>"

definition client_offline :: "client \<Rightarrow> bool" where
  "client_offline c = off_Enabled (sdk_Offline (cx_SDKConf (cl_ctx c)))"

definition listens :: "client_loop \<Rightarrow> bool" where
  "listens s = is_notifying (cl_storage (lp_client s))"

text \<open>
  The end of a refresh: what the SDK wrote to its cache (JSON, fetch time and ETag), if anything, and the
  snapshot it evaluates with from now on, if it changed. The SDK caches only what it evaluates with.
\<close>

type_synonym fetched = "(bytes \<times> int \<times> string) option \<times> snapshot option"

definition fetches :: "fetched \<Rightarrow> client_loop \<Rightarrow> bool" where
  "fetches r s \<longleftrightarrow> (fst r \<noteq> None \<and> snd r = None \<longrightarrow> 0 < lp_loaded s)"

definition cache_written :: "(bytes \<times> int \<times> string) option \<Rightarrow> client \<Rightarrow> client" where
  "cache_written w c =
     (case w of
        None \<Rightarrow> c
      | Some (json, time, etag) \<Rightarrow>
          (if is_notifying (cl_storage c) then c else c\<lparr>cl_cache := StoreEntry json time etag (cl_cache c)\<rparr>))"

definition load_config :: "fetched \<Rightarrow> client_loop \<Rightarrow> client_loop" where
  "load_config r s =
     (let c = cache_written (fst r) (lp_client s)
      in case snd r of
           None \<Rightarrow> s\<lparr>lp_client := c\<rparr>
         | Some sn \<Rightarrow>
             s\<lparr>lp_client := c\<lparr>cl_snapshot := sn\<rparr>, lp_loaded := Suc (lp_loaded s),
               lp_hooks := (if client_offline c then lp_hooks s else Suc (lp_hooks s))\<rparr>)"

text \<open>\<open>Publish\<close> returns at once when the publisher is closed.\<close>

definition publish_change :: "client_loop \<Rightarrow> client_loop" where
  "publish_change s = (if lp_stopped s then s else s\<lparr>lp_published := Suc (lp_published s)\<rparr>)"

datatype lp_event =
    InitStart | InitLoads fetched | InitEnd
  | PollTick | ListenToken | LoopLoads fetched | LoopPublish | LoopReturn
  | CallRefresh | RefreshLoads fetched
  | HookRun | HookPublish
  | CallReady nat | OnceReturns | ReturnReady nat
  | CallClose | CloseLocked
  | StoreReload bytes int string

inductive lp_step :: "client_loop \<Rightarrow> lp_event \<Rightarrow> client_loop \<Rightarrow> bool" where
  init_start: "lp_init s = InitWaiting \<Longrightarrow> lp_mutex s = MutexFree \<Longrightarrow>
     lp_step s InitStart (s\<lparr>lp_init := InitFetching, lp_mutex := HeldByInit\<rparr>)"
| init_loads: "lp_init s = InitFetching \<Longrightarrow> fetches r s \<Longrightarrow>
     lp_step s (InitLoads r) ((load_config r s)\<lparr>lp_init := InitFetched\<rparr>)"
| init_end: "lp_init s = InitFetched \<Longrightarrow>
     lp_step s InitEnd (s\<lparr>lp_init := InitDone, lp_ready := True, lp_mutex := MutexFree\<rparr>)"
| poll_tick: "lp_loop s = LoopWaiting \<Longrightarrow> \<not> listens s \<Longrightarrow>
     lp_step s PollTick (s\<lparr>lp_loop := LoopFetching False\<rparr>)"
| listen_token: "lp_loop s = LoopWaiting \<Longrightarrow> listens s \<Longrightarrow> signal (lp_client s) = (c, acts) \<Longrightarrow>
     lp_step s ListenToken
       (s\<lparr>lp_client := c, lp_loop := (if RefreshSdk \<in> set acts then LoopFetching True
          else if PublishChange \<in> set acts then LoopPublishing else LoopWaiting)\<rparr>)"
| loop_loads: "lp_loop s = LoopFetching signalled \<Longrightarrow> fetches r s \<Longrightarrow>
     lp_step s (LoopLoads r) ((load_config r s)\<lparr>lp_loop := (if signalled then LoopPublishing else LoopWaiting)\<rparr>)"
| loop_publish: "lp_loop s = LoopPublishing \<Longrightarrow>
     lp_step s LoopPublish ((publish_change s)\<lparr>lp_loop := LoopWaiting\<rparr>)"
| loop_return: "lp_loop s = LoopWaiting \<Longrightarrow> lp_cancelled s \<Longrightarrow> lp_step s LoopReturn (s\<lparr>lp_loop := LoopReturned\<rparr>)"
| call_refresh: "lp_step s CallRefresh (s\<lparr>lp_refreshing := Suc (lp_refreshing s)\<rparr>)"
| refresh_loads: "lp_refreshing s = Suc n \<Longrightarrow> fetches r s \<Longrightarrow>
     lp_step s (RefreshLoads r) ((load_config r s)\<lparr>lp_refreshing := n\<rparr>)"
| hook_run: "lp_hooks s = Suc n \<Longrightarrow> signal (lp_client s) = (c, acts) \<Longrightarrow>
     lp_step s HookRun
       (s\<lparr>lp_client := c, lp_hooks := n,
          lp_publishing := (if PublishChange \<in> set acts then Suc (lp_publishing s) else lp_publishing s)\<rparr>)"
| hook_publish: "lp_publishing s = Suc n \<Longrightarrow>
     lp_step s HookPublish ((publish_change s)\<lparr>lp_publishing := n\<rparr>)"
| call_ready: "lp_step s (CallReady k)
     (s\<lparr>lp_waiting := k # lp_waiting s,
        lp_once := (if lp_once s = OnceFresh then OnceRunning else lp_once s)\<rparr>)"
| once_returns: "lp_once s = OnceRunning \<Longrightarrow> lp_ready s \<or> lp_cancelled s \<Longrightarrow>
     lp_step s OnceReturns (s\<lparr>lp_once := OnceDone\<rparr>)"
| return_ready: "lp_once s = OnceDone \<Longrightarrow> k \<in> set (lp_waiting s) \<Longrightarrow>
     lp_step s (ReturnReady k) (s\<lparr>lp_waiting := remove1 k (lp_waiting s)\<rparr>)"
| call_close: "lp_closing s = NotClosing \<Longrightarrow>
     lp_step s CallClose (s\<lparr>lp_stopped := True, lp_cancelled := True, lp_closing := ClosingWaits\<rparr>)"
| close_locked: "lp_closing s = ClosingWaits \<Longrightarrow> lp_mutex s = MutexFree \<Longrightarrow>
     lp_step s CloseLocked (s\<lparr>lp_client := fst (Close (lp_client s)), lp_closing := ClosingDone\<rparr>)"
| store_reload: "listens s \<Longrightarrow>
     lp_step s (StoreReload json time etag)
       (s\<lparr>lp_client := (lp_client s)\<lparr>cl_cache := StoreEntry json time etag (cl_cache (lp_client s))\<rparr>\<rparr>)"

section \<open>Lemmas\<close>

inductive_cases lp_stepE: "lp_step s e s'"

inductive_simps lp_step_simps:
  "lp_step s InitStart s'" "lp_step s (InitLoads r) s'" "lp_step s InitEnd s'" "lp_step s PollTick s'"
  "lp_step s ListenToken s'" "lp_step s (LoopLoads r) s'" "lp_step s LoopPublish s'" "lp_step s LoopReturn s'"
  "lp_step s CallRefresh s'" "lp_step s (RefreshLoads r) s'" "lp_step s HookRun s'" "lp_step s HookPublish s'"
  "lp_step s (CallReady k) s'" "lp_step s OnceReturns s'" "lp_step s (ReturnReady k) s'" "lp_step s CallClose s'"
  "lp_step s CloseLocked s'" "lp_step s (StoreReload json time etag) s'"

named_theorems loop_simps \<open>what the operations of the client keep\<close>

lemma load_config_frame [loop_simps]:
  "lp_init (load_config r s) = lp_init s" "lp_loop (load_config r s) = lp_loop s"
  "lp_refreshing (load_config r s) = lp_refreshing s" "lp_publishing (load_config r s) = lp_publishing s"
  "lp_published (load_config r s) = lp_published s" "lp_ready (load_config r s) = lp_ready s"
  "lp_mutex (load_config r s) = lp_mutex s" "lp_once (load_config r s) = lp_once s"
  "lp_waiting (load_config r s) = lp_waiting s" "lp_closing (load_config r s) = lp_closing s"
  "lp_cancelled (load_config r s) = lp_cancelled s" "lp_stopped (load_config r s) = lp_stopped s"
  "cl_ctx (lp_client (load_config r s)) = cl_ctx (lp_client s)"
  "cl_storage (lp_client (load_config r s)) = cl_storage (lp_client s)"
  "cl_initialized (lp_client (load_config r s)) = cl_initialized (lp_client s)"
  by (simp_all add: load_config_def cache_written_def Let_def split: option.splits prod.splits)

lemma publish_frame [loop_simps]:
  "lp_client (publish_change s) = lp_client s" "lp_init (publish_change s) = lp_init s"
  "lp_loop (publish_change s) = lp_loop s" "lp_refreshing (publish_change s) = lp_refreshing s"
  "lp_hooks (publish_change s) = lp_hooks s" "lp_publishing (publish_change s) = lp_publishing s"
  "lp_loaded (publish_change s) = lp_loaded s" "lp_ready (publish_change s) = lp_ready s"
  "lp_mutex (publish_change s) = lp_mutex s" "lp_once (publish_change s) = lp_once s"
  "lp_waiting (publish_change s) = lp_waiting s" "lp_closing (publish_change s) = lp_closing s"
  "lp_cancelled (publish_change s) = lp_cancelled s" "lp_stopped (publish_change s) = lp_stopped s"
  by (simp_all add: publish_change_def)

text \<open>The client keeps its identity and its configuration of the proxy.\<close>

definition same_client :: "client \<Rightarrow> client \<Rightarrow> bool" where
  "same_client c d \<longleftrightarrow> cl_ctx d = cl_ctx c \<and> cl_storage d = cl_storage c \<and> cl_defaultAttrs d = cl_defaultAttrs c"

lemma step_same_client:
  assumes "lp_step s e s'"
  shows "same_client (lp_client s) (lp_client s')"
  using assms
  by (elim lp_stepE)
    (auto simp: same_client_def loop_simps load_config_def cache_written_def signal_def Close_def Let_def split: option.splits if_splits)

lemma NewClientLoop_simps [simp]:
  "lp_client (NewClientLoop c) = c" "lp_init (NewClientLoop c) = InitWaiting" "lp_loop (NewClientLoop c) = LoopWaiting"
  "lp_refreshing (NewClientLoop c) = 0" "lp_hooks (NewClientLoop c) = 0" "lp_publishing (NewClientLoop c) = 0"
  "lp_published (NewClientLoop c) = 0" "lp_loaded (NewClientLoop c) = 0" "\<not> lp_ready (NewClientLoop c)"
  "lp_mutex (NewClientLoop c) = MutexFree" "lp_once (NewClientLoop c) = OnceFresh" "lp_waiting (NewClientLoop c) = []"
  "lp_closing (NewClientLoop c) = NotClosing" "\<not> lp_cancelled (NewClientLoop c)" "\<not> lp_stopped (NewClientLoop c)"
  by (simp_all add: NewClientLoop_def)

text \<open>An online client polls, and its store is not one it listens to.\<close>

definition online :: "client \<Rightarrow> bool" where
  "online c \<longleftrightarrow> \<not> client_offline c \<and> \<not> is_notifying (cl_storage c)"

lemma online_NewClient:
  "\<not> off_Enabled (sdk_Offline (cx_SDKConf cx)) \<Longrightarrow> online (NewClient produce stored sn cx)"
  by (simp add: online_def client_offline_def NewClient_def client_storage_def Let_def)

lemma same_client_online: "same_client c d \<Longrightarrow> online d = online c"
  by (simp add: same_client_def online_def client_offline_def)

subsection \<open>Readiness\<close>

definition ready_inv :: "client_loop \<Rightarrow> bool" where
  "ready_inv s \<longleftrightarrow> (lp_ready s \<longleftrightarrow> lp_init s = InitDone)
     \<and> (lp_mutex s = HeldByInit \<longleftrightarrow> lp_init s = InitFetching \<or> lp_init s = InitFetched)
     \<and> (lp_once s = OnceDone \<longrightarrow> lp_ready s \<or> lp_cancelled s)
     \<and> (lp_waiting s \<noteq> [] \<longrightarrow> lp_once s \<noteq> OnceFresh)
     \<and> (lp_closing s = NotClosing \<longleftrightarrow> \<not> lp_cancelled s) \<and> lp_stopped s = lp_cancelled s"

lemma ready_step: "ready_inv s \<Longrightarrow> lp_step s e s' \<Longrightarrow> ready_inv s'"
  by (erule lp_stepE) (auto simp: ready_inv_def loop_simps split: if_splits)

interpretation client_ready: lts_invariant lp_step ready_inv
  by unfold_locales (rule ready_step)

lemma ready_New: "ready_inv (NewClientLoop c)"
  by (simp add: ready_inv_def)

subsection \<open>Announcing configurations\<close>

text \<open>The one configuration that an online client does not announce is the first.\<close>

abbreviation first_seen :: "client \<Rightarrow> nat" where
  "first_seen c \<equiv> if cl_initialized c then 1 else 0"

definition account :: "client_loop \<Rightarrow> bool" where
  "account s \<longleftrightarrow> online (lp_client s) \<and> lp_loop s \<noteq> LoopPublishing \<and> lp_loop s \<noteq> LoopFetching True
     \<and> lp_hooks s + first_seen (lp_client s) + lp_publishing s + lp_published s \<le> lp_loaded s
     \<and> (\<not> lp_stopped s \<longrightarrow>
          lp_hooks s + first_seen (lp_client s) + lp_publishing s + lp_published s = lp_loaded s)
     \<and> (0 < lp_loaded s \<or> 0 < lp_publishing s \<or> 0 < lp_published s \<or> IsInValidState (lp_client s) \<longrightarrow>
          0 < lp_hooks s + first_seen (lp_client s))"

lemma signal_online:
  "online c \<Longrightarrow> signal c = (c\<lparr>cl_initialized := True\<rparr>, if cl_initialized c then [PublishChange] else [])"
  by (simp add: online_def client_offline_def signal_def Let_def)

lemma load_online:
  assumes "online (lp_client s)"
  shows "lp_loaded (load_config r s) + lp_hooks s = lp_loaded s + lp_hooks (load_config r s)"
    "lp_hooks s \<le> lp_hooks (load_config r s)"
    "snd r \<noteq> None \<Longrightarrow> 0 < lp_hooks (load_config r s)"
    "snd r = None \<Longrightarrow> lp_hooks (load_config r s) = lp_hooks s"
    "snd r = None \<Longrightarrow> fst r = None \<Longrightarrow> load_config r s = s"
  using assms
  by (auto simp: load_config_def cache_written_def client_offline_def Let_def online_def split: option.splits)

lemma account_load:
  assumes "account s" "fetches r s"
    and "0 < lp_loaded (load_config r s) \<or> 0 < lp_publishing s \<or> 0 < lp_published s \<or>
      IsInValidState (lp_client (load_config r s))"
  shows "0 < lp_hooks (load_config r s) + first_seen (lp_client s)"
proof (cases "snd r = None \<and> fst r = None")
  case True
  then show ?thesis using assms load_online(5) [of s r] by (auto simp: account_def)
next
  case False
  then show ?thesis
    using assms(1,2) load_online(3,4) [of s r] by (cases "snd r = None") (auto simp: account_def fetches_def)
qed

lemma account_step:
  assumes "account s" "lp_step s e s'"
  shows "account s'"
proof -
  have on: "online (lp_client s)" "online (lp_client s')"
    using assms same_client_online [OF step_same_client [OF assms(2)]] by (simp_all add: account_def)
  then have poll: "\<not> listens s" by (simp add: online_def listens_def)
  have load: "online (lp_client (load_config r s)) \<Longrightarrow> fetches r s \<Longrightarrow> account (load_config r s)" for r
    using assms(1) load_online(1) [OF on(1), of r] account_load [OF assms(1), of r]
    by (auto simp: account_def loop_simps)
  show ?thesis
    using assms(2)
  proof cases
    case (init_loads r)
    then show ?thesis using load [of r] on(2) by (simp add: account_def)
  next
    case (loop_loads signalled r)
    then show ?thesis using load [of r] assms(1) on(2) by (auto simp: account_def)
  next
    case (refresh_loads n r)
    then show ?thesis using load [of r] on(2) by (simp add: account_def)
  next
    case (hook_run n c acts)
    then show ?thesis using assms(1) on(2) by (auto simp: account_def signal_online IsInValidState_def GetCachedJson_def)
  next
    case hook_publish
    then show ?thesis using assms(1) on(2) by (auto simp: account_def loop_simps publish_change_def)
  next
    case close_locked
    then show ?thesis using assms(1) on(2) by (auto simp: account_def Close_def IsInValidState_def GetCachedJson_def)
  qed (use assms(1) poll on(2) in \<open>auto simp: account_def split: if_splits\<close>)
qed

interpretation client_account: lts_invariant lp_step account
  by unfold_locales (rule account_step)

lemma account_New: "online c \<Longrightarrow> \<not> cl_initialized c \<Longrightarrow> \<not> IsInValidState c \<Longrightarrow> account (NewClientLoop c)"
  by (simp add: account_def)

subsection \<open>Closing\<close>

text \<open>The steps that a client which is being closed takes on its own.\<close>

fun closing_event :: "lp_event \<Rightarrow> bool" where
  "closing_event InitStart = True"
| "closing_event (InitLoads r) = (r = (None, None))"
| "closing_event InitEnd = True"
| "closing_event OnceReturns = True"
| "closing_event (ReturnReady k) = True"
| "closing_event CloseLocked = True"
| "closing_event _ = False"

lemma callers_return:
  assumes "lp_once s = OnceDone"
  shows "lts_run lp_step s (map ReturnReady (lp_waiting s)) (s\<lparr>lp_waiting := []\<rparr>)"
  using assms
proof (induction "lp_waiting s" arbitrary: s)
  case (Cons k ks)
  let ?t = "s\<lparr>lp_waiting := ks\<rparr>"
  have "lp_step s (ReturnReady k) ?t"
    using Cons.prems Cons.hyps(2) by (auto simp: lp_step_simps simp flip: Cons.hyps(2))
  moreover have "lts_run lp_step ?t (map ReturnReady ks) (s\<lparr>lp_waiting := []\<rparr>)"
    using Cons.hyps(1) [of ?t] Cons.prems by simp
  ultimately show ?case by (auto simp flip: Cons.hyps(2))
qed simp

lemma init_finishes:
  assumes "ready_inv s"
  shows "\<exists>es s'. lts_run lp_step s es s' \<and> list_all closing_event es \<and> lp_mutex s' = MutexFree
    \<and> lp_closing s' = lp_closing s \<and> lp_cancelled s' = lp_cancelled s \<and> lp_once s' = lp_once s
    \<and> lp_waiting s' = lp_waiting s"
proof -
  let ?done = "\<lambda>s. s\<lparr>lp_init := InitDone, lp_ready := True, lp_mutex := MutexFree\<rparr>"
  consider "lp_mutex s = MutexFree" | "lp_init s = InitFetching" | "lp_init s = InitFetched"
    using assms by (cases "lp_mutex s") (auto simp: ready_inv_def)
  then show ?thesis
  proof cases
    case 1
    then show ?thesis by (intro exI [of _ "[]"] exI [of _ s]) simp
  next
    case 2
    then have "lts_run lp_step s [InitLoads (None, None), InitEnd] (?done (s\<lparr>lp_init := InitFetched\<rparr>))"
      by (auto simp: lp_step_simps load_config_def cache_written_def fetches_def)
    then show ?thesis by (intro exI [of _ "[InitLoads (None, None), InitEnd]"] exI [of _ "?done (s\<lparr>lp_init := InitFetched\<rparr>)"]) simp
  next
    case 3
    then have "lts_run lp_step s [InitEnd] (?done s)" by (auto simp: lp_step_simps)
    then show ?thesis by (intro exI [of _ "[InitEnd]"] exI [of _ "?done s"]) simp
  qed
qed

lemma closing_completes:
  assumes "ready_inv s" "lp_closing s = ClosingWaits"
  shows "\<exists>es s'. lts_run lp_step s es s' \<and> list_all closing_event es \<and> lp_closing s' = ClosingDone
    \<and> cl_closed (lp_client s') \<and> lp_waiting s' = []"
proof -
  obtain es t where t: "lts_run lp_step s es t" "list_all closing_event es" "lp_mutex t = MutexFree"
    "lp_closing t = ClosingWaits" "lp_cancelled t" "lp_once t = lp_once s" "lp_waiting t = lp_waiting s"
    using init_finishes [OF assms(1)] assms by (auto simp: ready_inv_def)
  let ?u = "t\<lparr>lp_client := fst (Close (lp_client t)), lp_closing := ClosingDone\<rparr>"
  have u: "lp_step t CloseLocked ?u" using t(3,4) by (simp add: lp_step_simps)
  have closed: "cl_closed (lp_client ?u)" by (simp add: Close_def)
  show ?thesis
  proof (cases "lp_waiting s = []")
    case True
    have "lts_run lp_step s (es @ [CloseLocked]) ?u" using t(1) u by (auto simp: lts_run_append)
    then show ?thesis using t(2,7) closed True
      by (intro exI [of _ "es @ [CloseLocked]"] exI [of _ ?u]) simp
  next
    case False
    then have once: "lp_once t = OnceRunning \<or> lp_once t = OnceDone"
      using assms(1) t(6) by (cases "lp_once s") (auto simp: ready_inv_def)
    let ?v = "?u\<lparr>lp_once := OnceDone\<rparr>"
    let ?fs = "if lp_once t = OnceRunning then [OnceReturns] else []"
    have v: "lts_run lp_step ?u ?fs ?v" using once t(5) by (auto simp: lp_step_simps)
    have w: "lts_run lp_step ?v (map ReturnReady (lp_waiting s)) (?v\<lparr>lp_waiting := []\<rparr>)"
      using callers_return [of ?v] t(7) by simp
    let ?gs = "es @ [CloseLocked] @ ?fs @ map ReturnReady (lp_waiting s)"
    have "lts_run lp_step s ?gs (?v\<lparr>lp_waiting := []\<rparr>)"
    proof -
      have "lts_run lp_step t [CloseLocked] ?u" using u by simp
      with t(1) v w show ?thesis unfolding lts_run_append by blast
    qed
    moreover have "list_all closing_event ?gs" using t(2) by (auto simp: list_all_iff)
    ultimately show ?thesis using closed by (intro exI [of _ ?gs] exI [of _ "?v\<lparr>lp_waiting := []\<rparr>"]) simp
  qed
qed

subsection \<open>The callers of \<open>ensureReady\<close>\<close>

text \<open>
  The callers that have entered \<open>ensureReady\<close> and those that have returned from it, read off the events of a
  run. The client is ready after the initial refresh and cancelled after \<open>Close\<close>; until then nobody returns.
\<close>

fun ready_calls :: "lp_event list \<Rightarrow> nat list" where
  "ready_calls [] = []"
| "ready_calls (CallReady k # es) = k # ready_calls es"
| "ready_calls (_ # es) = ready_calls es"

fun ready_returns :: "lp_event list \<Rightarrow> nat list" where
  "ready_returns [] = []"
| "ready_returns (ReturnReady k # es) = k # ready_returns es"
| "ready_returns (_ # es) = ready_returns es"

abbreviation released :: "lp_event list \<Rightarrow> bool" where
  "released es \<equiv> InitEnd \<in> set es \<or> CallClose \<in> set es"

definition waiters_inv :: "lp_event list \<Rightarrow> client_loop \<Rightarrow> bool" where
  "waiters_inv es s \<longleftrightarrow> mset (ready_calls es) = mset (lp_waiting s) + mset (ready_returns es)
     \<and> (lp_ready s \<longleftrightarrow> InitEnd \<in> set es) \<and> (lp_cancelled s \<longleftrightarrow> CallClose \<in> set es)
     \<and> (\<not> released es \<longrightarrow> ready_returns es = [])"

lemma ready_calls_append: "ready_calls (es @ fs) = ready_calls es @ ready_calls fs"
  by (induction es rule: ready_calls.induct) simp_all

lemma ready_returns_append: "ready_returns (es @ fs) = ready_returns es @ ready_returns fs"
  by (induction es rule: ready_returns.induct) simp_all

lemma waiters_step:
  assumes "waiters_inv es s" "ready_inv s" "lp_step s e s'"
  shows "waiters_inv (es @ [e]) s'"
  using assms(3)
proof cases
  case (return_ready k)
  then show ?thesis
    using assms(1,2) by (auto simp: waiters_inv_def ready_inv_def ready_calls_append ready_returns_append)
qed (use assms(1) in \<open>auto simp: waiters_inv_def loop_simps ready_calls_append ready_returns_append\<close>)

lemma waiters_run:
  "lts_run lp_step s fs s' \<Longrightarrow> waiters_inv es s \<Longrightarrow> ready_inv s \<Longrightarrow> waiters_inv (es @ fs) s'"
proof (induction fs arbitrary: s es)
  case (Cons f fs)
  then obtain t where t: "lp_step s f t" "lts_run lp_step t fs s'" by auto
  from Cons.IH [OF t(2) waiters_step [OF Cons.prems(2,3) t(1)] ready_step [OF Cons.prems(3) t(1)]]
  show ?case by simp
qed simp

lemma waiters_New: "waiters_inv [] (NewClientLoop c)"
  by (simp add: waiters_inv_def)

lemma waiters_released:
  assumes "ready_inv s" "lp_ready s \<or> lp_cancelled s"
  shows "\<exists>fs t. lts_run lp_step s fs t \<and> lp_waiting t = [] \<and> set fs \<subseteq> insert OnceReturns (range ReturnReady)"
proof (cases "lp_waiting s = []")
  case True
  then show ?thesis by (intro exI [of _ "[]"] exI [of _ s]) simp
next
  case False
  let ?t = "s\<lparr>lp_once := OnceDone\<rparr>"
  let ?fs = "if lp_once s = OnceRunning then [OnceReturns] else []"
  have once: "lp_once s = OnceRunning \<or> lp_once s = OnceDone"
    using assms(1) False by (cases "lp_once s") (auto simp: ready_inv_def)
  have "lts_run lp_step s ?fs ?t" using once assms(2) by (auto simp: lp_step_simps)
  moreover have "lts_run lp_step ?t (map ReturnReady (lp_waiting s)) (?t\<lparr>lp_waiting := []\<rparr>)"
    using callers_return [of ?t] by simp
  ultimately have "lts_run lp_step s (?fs @ map ReturnReady (lp_waiting s)) (?t\<lparr>lp_waiting := []\<rparr>)"
    unfolding lts_run_append by blast
  then show ?thesis
    by (intro exI [of _ "?fs @ map ReturnReady (lp_waiting s)"] exI [of _ "?t\<lparr>lp_waiting := []\<rparr>"]) auto
qed

text \<open>Nothing is published while at most one configuration was loaded.\<close>

lemma account_first:
  assumes "account s" "lp_loaded s \<le> 1"
  shows "lp_publishing s = 0" "lp_published s = 0" "lp_hooks s + first_seen (lp_client s) \<le> 1"
  using assms by (auto simp: account_def split: if_splits)

lemma loaded_mono: "lp_step s e s' \<Longrightarrow> lp_loaded s \<le> lp_loaded s'"
  by (erule lp_stepE) (auto simp: load_config_def publish_change_def Let_def split: option.splits)

text \<open>The first configuration: the initial refresh brings it and the hook runs.\<close>

definition first_config :: "client \<Rightarrow> bytes \<times> int \<times> string \<Rightarrow> snapshot \<Rightarrow> client" where
  "first_config c w sn = (cache_written (Some w) c)\<lparr>cl_snapshot := sn, cl_initialized := True\<rparr>"

definition first_load :: "bytes \<times> int \<times> string \<Rightarrow> snapshot \<Rightarrow> lp_event list" where
  "first_load w sn = [InitStart, InitLoads (Some w, Some sn), InitEnd, HookRun]"

definition first_loop :: "client \<Rightarrow> bytes \<times> int \<times> string \<Rightarrow> snapshot \<Rightarrow> client_loop" where
  "first_loop c w sn = (NewClientLoop c)\<lparr>lp_client := first_config c w sn, lp_init := InitDone,
     lp_loaded := 1, lp_ready := True\<rparr>"

lemma first_load_run:
  assumes "online c" "\<not> cl_initialized c"
  shows "lts_run lp_step (NewClientLoop c) (first_load w sn) (first_loop c w sn)"
proof -
  obtain json time etag where w: "w = (json, time, etag)" by (metis surj_pair)
  let ?c = "(cache_written (Some w) c)\<lparr>cl_snapshot := sn\<rparr>"
  let ?s1 = "(NewClientLoop c)\<lparr>lp_init := InitFetching, lp_mutex := HeldByInit\<rparr>"
  let ?s2 = "?s1\<lparr>lp_client := ?c, lp_loaded := 1, lp_hooks := 1, lp_init := InitFetched\<rparr>"
  let ?s3 = "?s2\<lparr>lp_init := InitDone, lp_ready := True, lp_mutex := MutexFree\<rparr>"
  have on: "online ?c" "\<not> cl_initialized ?c" "\<not> client_offline (cache_written (Some w) c)"
    using assms by (simp_all add: cache_written_def online_def client_offline_def w)
  have "lp_step (NewClientLoop c) InitStart ?s1" by (simp add: lp_step_simps)
  moreover have "lp_step ?s1 (InitLoads (Some w, Some sn)) ?s2"
    using on(3) by (simp add: lp_step_simps load_config_def fetches_def Let_def)
  moreover have "lp_step ?s2 InitEnd ?s3" by (simp add: lp_step_simps)
  moreover have "lp_step ?s3 HookRun (first_loop c w sn)"
    using on signal_online [OF on(1)] by (simp add: lp_step_simps first_loop_def first_config_def NewClientLoop_def)
  ultimately show ?thesis unfolding first_load_def lts_run.simps by blast
qed

section \<open>Properties\<close>

text \<open>A new client that is online, and a configuration for it in which every flag has the value \<open>v\<close>.\<close>

definition main_ctx :: client_ctx where
  "main_ctx = \<lparr>cx_SdkId = ''main'', cx_SecondarySdkKey = None, cx_SDKConf = zero_sdk, cx_GlobalDefaultAttrs = None,
     cx_ExternalCache = False, cx_EvalReporter = False\<rparr>"

definition no_entry :: entry where
  "no_entry = \<lparr>en_ConfigJson = [], en_ETag = [], en_FetchTime = 0, en_Empty = True\<rparr>"

definition no_flags :: snapshot where
  "no_flags = \<lparr>sn_GetValueDetails = undefined, sn_GetAllValueDetails = (\<lambda>u. []), sn_GetAllKeys = []\<rparr>"

definition online_client :: client where
  "online_client = NewClient (\<lambda>k. k) no_entry no_flags main_ctx"

definition flag_details :: "bool \<Rightarrow> user_attrs \<Rightarrow> string \<Rightarrow> details" where
  "flag_details v u k = \<lparr>dt_Key = k, dt_Value = VBool v, dt_VariationID = [], dt_User = u,
     dt_Error = None, dt_MatchedPercentageOption = False, dt_MatchedTargetingRule = False\<rparr>"

definition flag_config :: "bool \<Rightarrow> snapshot" where
  "flag_config v = \<lparr>sn_GetValueDetails = flag_details v, sn_GetAllValueDetails = (\<lambda>u. [flag_details v u ''flag'']),
     sn_GetAllKeys = [''flag'']\<rparr>"

lemma main_ctx_online: "\<not> off_Enabled (sdk_Offline (cx_SDKConf main_ctx))" "en_Empty no_entry"
  by (simp_all add: main_ctx_def zero_sdk_def zero_offline_def no_entry_def)

lemma online_client_online: "online online_client" "\<not> cl_initialized online_client" "\<not> lp_stopped (first_loop c w sn)"
  using online_NewClient [OF main_ctx_online(1)] by (simp_all add: online_client_def NewClient_def first_loop_def)

lemma flag_config_eval:
  "ed_Error (Eval (first_config c w (flag_config v)) k u) = None"
  "ed_Value (Eval (first_config c w (flag_config v)) k u) = VBool v"
  by (simp_all add: first_config_def Eval_def eval_data_of_def flag_config_def flag_details_def)

text \<open>
  C9: an online client announces every configuration it loads but the first one: once its hooks have
  run, it has published as often as it has loaded a configuration, less one, whoever refreshes it.
\<close>

theorem client_announces:
  assumes "\<not> off_Enabled (sdk_Offline (cx_SDKConf cx))" and "en_Empty stored"
    and "lts_run lp_step (NewClientLoop (NewClient produce stored sn cx)) es s"
    and "\<not> lp_stopped s" and "lp_hooks s = 0" and "lp_publishing s = 0"
  shows "lp_published s = lp_loaded s - 1 \<and> (cl_initialized (lp_client s) \<longleftrightarrow> 0 < lp_loaded s)"
proof -
  let ?c = "NewClient produce stored sn cx"
  have "account (NewClientLoop ?c)"
    by (rule account_New) (use assms(2) online_NewClient [OF assms(1)] in \<open>simp_all add: client_simps\<close>)
  then have "account s" using client_account.run_inv [OF _ assms(3)] by blast
  then show ?thesis using assms(4-6) by (auto simp: account_def split: if_splits)
qed

theorem client_announces_witness:
  "\<exists>s. lts_run lp_step (NewClientLoop online_client) (first_load ([], 0, []) (flag_config True)) s \<and> lp_published s = 0"
proof -
  let ?s = "first_loop online_client ([], 0, []) (flag_config True)"
  have run: "lts_run lp_step (NewClientLoop online_client) (first_load ([], 0, []) (flag_config True)) ?s"
    by (rule first_load_run) (rule online_client_online)+
  have "lp_published ?s = lp_loaded ?s - 1 \<and> (cl_initialized (lp_client ?s) \<longleftrightarrow> 0 < lp_loaded ?s)"
    by (rule client_announces [OF main_ctx_online run [unfolded online_client_def], folded online_client_def])
      (simp_all add: first_loop_def)
  then show ?thesis using run by (auto simp: first_loop_def)
qed

text \<open>
  C14: nobody evaluates a flag too early, and nobody is forgotten: in every interleaving of the client's
  goroutines and its callers, each call of \<open>ensureReady\<close> has either returned or still waits; while the
  initial refresh has not ended and the client is not closed, none has returned, the second and later
  callers included, which the \<open>sync.Once\<close> holds back as well; after that, the callers that wait
  can all return by steps of their own.
\<close>

theorem evaluations_wait:
  assumes "lts_run lp_step (NewClientLoop c) es s"
  shows "mset (ready_calls es) = mset (lp_waiting s) + mset (ready_returns es)
    \<and> (if InitEnd \<in> set es \<or> lp_event.CallClose \<in> set es
       then \<exists>fs t. lts_run lp_step s fs t \<and> lp_waiting t = [] \<and> set fs \<subseteq> insert OnceReturns (range ReturnReady)
       else ready_returns es = [] \<and> mset (lp_waiting s) = mset (ready_calls es))"
proof -
  have ready: "ready_inv s" by (rule client_ready.run_inv [OF ready_New assms])
  have "waiters_inv ([] @ es) s" by (rule waiters_run [OF assms waiters_New ready_New])
  then show ?thesis using waiters_released [OF ready] by (auto simp: waiters_inv_def)
qed

text \<open>Three callers: two while the initial refresh is under way, of which neither has returned, one after it.\<close>

theorem evaluations_wait_witness:
  "\<exists>s t. lts_run lp_step (NewClientLoop online_client) [InitStart, CallReady 7, CallReady 8] s
    \<and> mset (lp_waiting s) = {#7, 8#}
    \<and> lts_run lp_step s [InitLoads (None, None), InitEnd, OnceReturns, ReturnReady 8, CallReady 9, ReturnReady 9] t
    \<and> mset (lp_waiting t) = {#7#}"
proof -
  let ?es = "[InitStart, CallReady 7, CallReady 8]"
  let ?fs = "[InitLoads (None, None), InitEnd, OnceReturns, ReturnReady 8, CallReady 9, ReturnReady 9]"
  let ?s = "(NewClientLoop online_client)\<lparr>lp_init := InitFetching, lp_mutex := HeldByInit, lp_waiting := [8, 7],
    lp_once := OnceRunning\<rparr>"
  let ?t = "(NewClientLoop online_client)\<lparr>lp_init := InitDone, lp_ready := True, lp_waiting := [7],
    lp_once := OnceDone\<rparr>"
  have s: "lts_run lp_step (NewClientLoop online_client) ?es ?s"
    by (simp add: lp_step_simps NewClientLoop_def)
  have t: "lts_run lp_step ?s ?fs ?t"
    by (auto simp: lp_step_simps load_config_def cache_written_def fetches_def Let_def NewClientLoop_def)
  have "lts_run lp_step (NewClientLoop online_client) (?es @ ?fs) ?t" using s t unfolding lts_run_append by blast
  from evaluations_wait [OF this] have "mset (lp_waiting ?t) = {#7#}" by simp
  moreover from evaluations_wait [OF s] have "mset (lp_waiting ?s) = {#7, 8#}" by simp
  ultimately show ?thesis using s t by blast
qed

text \<open>
  C15: \<open>Close\<close> of a client ends: from every state it can be called in, the steps of the goroutines that
  are left, a refresh that returns without a result among them, close the SDK and release every
  caller that waits for the client to be ready.
\<close>

theorem client_close_completes:
  assumes "lts_run lp_step (NewClientLoop c) es s" and "lp_closing s = ClosingWaits"
  shows "\<exists>fs t. lts_run lp_step s fs t \<and> list_all closing_event fs \<and> lp_closing t = ClosingDone
    \<and> cl_closed (lp_client t) \<and> lp_waiting t = []"
  by (rule closing_completes [OF client_ready.run_inv [OF ready_New assms(1)] assms(2)])

theorem client_close_completes_witness:
  "\<exists>fs t. lts_run lp_step (NewClientLoop online_client) ([InitStart, CallReady 7, lp_event.CallClose] @ fs) t
    \<and> lp_closing t = ClosingDone \<and> lp_waiting t = []"
proof -
  let ?s = "(NewClientLoop online_client)\<lparr>lp_init := InitFetching, lp_mutex := HeldByInit, lp_waiting := [7],
     lp_once := OnceRunning, lp_stopped := True, lp_cancelled := True, lp_closing := ClosingWaits\<rparr>"
  have run: "lts_run lp_step (NewClientLoop online_client) [InitStart, CallReady 7, lp_event.CallClose] ?s"
    by (simp add: lp_step_simps NewClientLoop_def)
  have "\<exists>fs t. lts_run lp_step ?s fs t \<and> list_all closing_event fs \<and> lp_closing t = ClosingDone
    \<and> cl_closed (lp_client t) \<and> lp_waiting t = []"
    by (rule client_close_completes [OF run]) simp
  with run show ?thesis unfolding lts_run_append by blast
qed

end
