(* ===== verification/Delivery.thy ===== *)
theory Delivery
  imports ClientLoop PubSub StreamLoop
begin

text \<open>
  The path of a configuration change (\<open>sdk/sdk.go\<close>, \<open>pubsub/publisher.go\<close>, \<open>stream/stream.go\<close>): the
  product of the client of theory \<open>ClientLoop\<close>, its publisher of theory \<open>PubSub\<close> and a stream of theory
  \<open>StreamLoop\<close> that subscribed to it. They meet where the code does: a publication of the client is a
  call of \<open>Publish\<close>, a send of the publisher to subscriber 0 fills \<open>sdkConfigChanged\<close> of the stream,
  \<open>Close\<close> of the client stops the publisher, and the stream evaluates with the client. Other
  subscribers of the publisher come and go as they like.
\<close>

section \<open>Definitions\<close>

text \<open>\<open>dl_behind\<close>: the notification under way loaded a client that was replaced since.\<close>

record delivery =
  dl_client :: client_loop
  dl_pub :: "unit pubsub"
  dl_stream :: stream_loop
  dl_behind :: bool

text \<open>\<open>make(chan struct{}, 1)\<close>\<close>

definition signal_capacity :: "nat \<Rightarrow> nat" where
  "signal_capacity ch = 1"

text \<open>A client that has run for a while when the stream, subscriber 0, has subscribed to it.\<close>

definition subscribed :: "client \<Rightarrow> client_loop \<Rightarrow> unit pubsub \<Rightarrow> bool" where
  "subscribed c lp ps \<longleftrightarrow> (\<exists>es. lts_run lp_step (NewClientLoop c) es lp)
     \<and> (\<exists>es. lts_run (ps_step signal_capacity) NewPublisher es ps)
     \<and> 0 \<in> set (ps_subscriptions ps) \<and> 0 \<notin> set (ps_unsubscribing ps) \<and> ps_box ps 0 = []
     \<and> ps_stopped ps = lp_stopped lp"

definition NewDelivery :: "client_loop \<Rightarrow> unit pubsub \<Rightarrow> delivery" where
  "NewDelivery lp ps =
     \<lparr>dl_client = lp, dl_pub = ps, dl_stream = NewStreamLoop (lp_client lp), dl_behind = False\<rparr>"

text \<open>The stream holds a pointer to the client: what the client loads, the stream evaluates with.\<close>

definition follow :: "bool \<Rightarrow> client \<Rightarrow> stream_loop \<Rightarrow> stream_loop" where
  "follow behind c s =
     s\<lparr>sl_stream := (sl_stream s)\<lparr>st_client := c\<rparr>,
       sl_phase := (case sl_phase s of Feeding ms sc order \<Rightarrow> Feeding ms (if behind then sc else c) order | p \<Rightarrow> p)\<rparr>"

text \<open>\<open>ensureReady\<close> of an evaluation returns.\<close>

definition evaluating :: "client_loop \<Rightarrow> bool" where
  "evaluating lp \<longleftrightarrow> lp_ready lp \<or> lp_cancelled lp"

fun publishes :: "lp_event \<Rightarrow> bool" where
  "publishes LoopPublish = True"
| "publishes HookPublish = True"
| "publishes _ = False"

fun publisher_alone :: "unit ps_event \<Rightarrow> bool" where
  "publisher_alone (CallPublish d) = False"
| "publisher_alone CloseStop = False"
| "publisher_alone (Send ch d) = (ch \<noteq> 0)"
| "publisher_alone (Receive ch d) = (ch \<noteq> 0)"
| "publisher_alone (CallSubscribe ch) = (ch \<noteq> 0)"
| "publisher_alone (CallUnsubscribe ch) = (ch \<noteq> 0)"
| "publisher_alone _ = True"

text \<open>
  The handlers create a connection when the client has a configuration; a channel is created and
  notified by evaluations. The other steps of the stream that it takes with the others are below.
\<close>

fun stream_alone :: "client_loop \<Rightarrow> stream_loop \<Rightarrow> sl_event \<Rightarrow> bool" where
  "stream_alone lp s (CallCreate e) = IsInValidState (lp_client lp)"
| "stream_alone lp s (AcceptCreate e) =
     (chan_at (sl_stream s) (ce_key e) (ce_discriminator e) = None \<longrightarrow> evaluating lp)"
| "stream_alone lp s NextChannel = evaluating lp"
| "stream_alone lp s ConfigSignal = False"
| "stream_alone lp s (TakeChange order) = False"
| "stream_alone lp s (SwapClient c) = False"
| "stream_alone lp s (SwapIgnored c) = False"
| "stream_alone lp s (ReloadClient c) = False"
| "stream_alone lp s (ReloadNotifying c) = False"
| "stream_alone lp s _ = True"

fun loads_client :: "sl_event \<Rightarrow> bool" where
  "loads_client (AcceptCreate e) = True"
| "loads_client _ = False"

datatype dl_event =
    ClientDoes lp_event | PublisherDoes "unit ps_event" | StreamDoes sl_event
  | StreamUnsubscribes | ClientReplaced client_loop "unit pubsub"

inductive dl_step :: "delivery \<Rightarrow> dl_event \<Rightarrow> delivery \<Rightarrow> bool" where
  client_alone: "lp_step (dl_client s) e lp \<Longrightarrow> \<not> publishes e \<Longrightarrow> e \<noteq> lp_event.CallClose \<Longrightarrow>
     dl_step s (ClientDoes e)
       (s\<lparr>dl_client := lp, dl_stream := follow (dl_behind s) (lp_client lp) (dl_stream s)\<rparr>)"
| client_publishes: "lp_step (dl_client s) e lp \<Longrightarrow> publishes e \<Longrightarrow>
     ps_step signal_capacity (dl_pub s) (CallPublish ()) ps \<Longrightarrow>
     dl_step s (ClientDoes e) (s\<lparr>dl_client := lp, dl_pub := ps\<rparr>)"
| client_closes: "lp_step (dl_client s) lp_event.CallClose lp \<Longrightarrow> ps_step signal_capacity (dl_pub s) CloseStop ps \<Longrightarrow>
     dl_step s (ClientDoes lp_event.CallClose) (s\<lparr>dl_client := lp, dl_pub := ps\<rparr>)"
| publisher_steps: "ps_step signal_capacity (dl_pub s) e ps \<Longrightarrow> publisher_alone e \<Longrightarrow>
     dl_step s (PublisherDoes e) (s\<lparr>dl_pub := ps\<rparr>)"
| publisher_signals: "ps_step signal_capacity (dl_pub s) (Send 0 ()) ps \<Longrightarrow> sl_step (dl_stream s) ConfigSignal sl \<Longrightarrow>
     dl_step s (PublisherDoes (Send 0 ())) (s\<lparr>dl_pub := ps, dl_stream := sl\<rparr>)"
| stream_steps: "sl_step (dl_stream s) e sl \<Longrightarrow> stream_alone (dl_client s) (dl_stream s) e \<Longrightarrow>
     dl_step s (StreamDoes e) (s\<lparr>dl_stream := sl, dl_behind := (dl_behind s \<and> \<not> loads_client e)\<rparr>)"
| stream_takes: "sl_step (dl_stream s) (TakeChange order) sl \<Longrightarrow> ps_step signal_capacity (dl_pub s) (Receive 0 ()) ps \<Longrightarrow>
     dl_step s (StreamDoes (TakeChange order)) (s\<lparr>dl_pub := ps, dl_stream := sl, dl_behind := False\<rparr>)"
| unsubscribes: "sl_stopped (dl_stream s) \<Longrightarrow> ps_step signal_capacity (dl_pub s) (CallUnsubscribe 0) ps \<Longrightarrow>
     dl_step s StreamUnsubscribes (s\<lparr>dl_pub := ps\<rparr>)"
| client_replaced: "subscribed c lp ps \<Longrightarrow> sl_step (dl_stream s) (SwapClient (lp_client lp)) sl \<Longrightarrow>
     dl_step s (ClientReplaced lp ps)
       \<lparr>dl_client = lp, dl_pub = ps\<lparr>ps_box := (ps_box ps)(0 := ps_box (dl_pub s) 0)\<rparr>, dl_stream = sl,
        dl_behind = (\<exists>ms sc order. sl_phase (dl_stream s) = Feeding ms sc order)\<rparr>"

text \<open>Nothing is on its way from the client to the connections.\<close>

definition quiescent :: "delivery \<Rightarrow> bool" where
  "quiescent s \<longleftrightarrow> lp_hooks (dl_client s) = 0 \<and> lp_publishing (dl_client s) = 0
     \<and> ps_publishing (dl_pub s) = [] \<and> ps_pub (dl_pub s) = [] \<and> in_flight 0 (dl_pub s) = []
     \<and> \<not> sl_changed (dl_stream s) \<and> sl_phase (dl_stream s) = StreamIdle"

section \<open>Lemmas\<close>

inductive_cases dl_stepE: "dl_step s e s'"

inductive_simps dl_step_simps:
  "dl_step s (ClientDoes e) s'" "dl_step s (PublisherDoes e') s'" "dl_step s (StreamDoes e'') s'"
  "dl_step s StreamUnsubscribes s'" "dl_step s (ClientReplaced lp ps) s'"

subsection \<open>The parts are in step\<close>

lemma follow_simps [simp]:
  "st_client (sl_stream (follow b c s)) = c" "sl_changed (follow b c s) = sl_changed s"
  "sl_stopped (follow b c s) = sl_stopped s" "sl_establishing (follow b c s) = sl_establishing s"
  "sl_conns (follow b c s) = sl_conns s" "sl_gone (follow b c s) = sl_gone s" "sl_box (follow b c s) = sl_box s"
  "sl_read (follow b c s) = sl_read s" "sl_closing (follow b c s) = sl_closing s"
  "st_sent (sl_stream (follow b c s)) = st_sent (sl_stream s)"
  "chan_at (sl_stream (follow b c s)) = chan_at (sl_stream s)"
  "sl_phase (follow b c s) = StreamIdle \<longleftrightarrow> sl_phase s = StreamIdle"
  by (auto simp: follow_def chan_at_def fun_eq_iff split: stream_phase.splits)

lemma sl_phase_follow:
  "sl_phase (follow b c s) = Feeding ms sc order \<longleftrightarrow>
     (\<exists>sc'. sl_phase s = Feeding ms sc' order \<and> sc = (if b then sc' else c))"
  by (auto simp: follow_def split: stream_phase.splits)

lemma follow_same: "sl_phase s = StreamIdle \<Longrightarrow> st_client (sl_stream s) = c \<Longrightarrow> follow b c s = s"
  by (cases s; cases "sl_stream s") (simp add: follow_def)

lemma follow_run:
  assumes "cx_SdkId (cl_ctx c) = cx_SdkId (cl_ctx (st_client (sl_stream s)))"
    and "\<And>ms sc order. \<not> b \<Longrightarrow> sl_phase s = Feeding ms sc order \<Longrightarrow> cx_SdkId (cl_ctx c) = cx_SdkId (cl_ctx sc)"
  shows "\<exists>es. lts_run sl_step s es (follow b c s)"
proof -
  let ?t = "s\<lparr>sl_stream := (sl_stream s)\<lparr>st_client := c\<rparr>\<rparr>"
  have one: "sl_step s (ReloadClient c) ?t" using assms(1) by (simp add: sl_step_simps)
  show ?thesis
  proof (cases "\<exists>ms sc order. \<not> b \<and> sl_phase s = Feeding ms sc order")
    case True
    then obtain ms sc order where "\<not> b" "sl_phase s = Feeding ms sc order" by blast
    then have "lts_run sl_step s [ReloadClient c, ReloadNotifying c] (follow b c s)"
      using one assms(2) by (auto simp: sl_step_simps follow_def)
    then show ?thesis by blast
  next
    case False
    then have "follow b c s = ?t" by (auto simp: follow_def split: stream_phase.splits)
    with one have "lts_run sl_step s [ReloadClient c] (follow b c s)" by simp
    then show ?thesis by blast
  qed
qed

definition in_step :: "delivery \<Rightarrow> bool" where
  "in_step s \<longleftrightarrow> ps_inv signal_capacity (dl_pub s) \<and> sl_inv (dl_stream s)
     \<and> ps_box (dl_pub s) 0 = (if sl_changed (dl_stream s) then [()] else [])
     \<and> st_client (sl_stream (dl_stream s)) = lp_client (dl_client s)
     \<and> (\<forall>ms sc order. \<not> dl_behind s \<and> sl_phase (dl_stream s) = Feeding ms sc order \<longrightarrow> sc = lp_client (dl_client s))
     \<and> ps_stopped (dl_pub s) = lp_stopped (dl_client s)
     \<and> (\<not> sl_stopped (dl_stream s) \<longrightarrow> 0 \<in> set (ps_subscriptions (dl_pub s)) \<and> 0 \<notin> set (ps_unsubscribing (dl_pub s)))"

lemma in_stepD:
  assumes "in_step s"
  shows "ps_inv signal_capacity (dl_pub s)" "sl_inv (dl_stream s)"
    "ps_box (dl_pub s) 0 = (if sl_changed (dl_stream s) then [()] else [])"
    "st_client (sl_stream (dl_stream s)) = lp_client (dl_client s)"
    "\<not> dl_behind s \<Longrightarrow> sl_phase (dl_stream s) = Feeding ms sc order \<Longrightarrow> sc = lp_client (dl_client s)"
    "ps_stopped (dl_pub s) = lp_stopped (dl_client s)"
    "\<not> sl_stopped (dl_stream s) \<Longrightarrow> 0 \<in> set (ps_subscriptions (dl_pub s))"
    "\<not> sl_stopped (dl_stream s) \<Longrightarrow> 0 \<notin> set (ps_unsubscribing (dl_pub s))"
  using assms unfolding in_step_def by blast+

lemma in_stepI:
  assumes "ps_inv signal_capacity (dl_pub s)" "sl_inv (dl_stream s)"
    "ps_box (dl_pub s) 0 = (if sl_changed (dl_stream s) then [()] else [])"
    "st_client (sl_stream (dl_stream s)) = lp_client (dl_client s)"
    "\<And>ms sc order. \<not> dl_behind s \<Longrightarrow> sl_phase (dl_stream s) = Feeding ms sc order \<Longrightarrow> sc = lp_client (dl_client s)"
    "ps_stopped (dl_pub s) = lp_stopped (dl_client s)"
    "\<not> sl_stopped (dl_stream s) \<Longrightarrow> 0 \<in> set (ps_subscriptions (dl_pub s)) \<and> 0 \<notin> set (ps_unsubscribing (dl_pub s))"
  shows "in_step s"
  using assms unfolding in_step_def by blast

lemma publisher_alone_step:
  assumes "ps_step cap p e p'" "publisher_alone e"
  shows "ps_box p' 0 = ps_box p 0" "ps_stopped p' = ps_stopped p"
    "0 \<in> set (ps_subscriptions p) \<Longrightarrow> 0 \<notin> set (ps_unsubscribing p) \<Longrightarrow>
       0 \<in> set (ps_subscriptions p') \<and> 0 \<notin> set (ps_unsubscribing p')"
  using assms by (auto elim!: ps_stepE split: if_splits dest: notin_set_remove1 intro!: gr0I)

lemma stream_alone_step:
  assumes "sl_step s e s'" "stream_alone lp s e"
  shows "sl_changed s' = sl_changed s" "st_client (sl_stream s') = st_client (sl_stream s)"
    "sl_stopped s \<Longrightarrow> sl_stopped s'"
    "sl_phase s' = Feeding ms sc order \<Longrightarrow>
       (if loads_client e then sc = st_client (sl_stream s) \<and> order = []
        else \<exists>ms' order'. sl_phase s = Feeding ms' sc order' \<and> set order \<subseteq> set order')"
  using assms
  by (cases rule: sl_step.cases; auto simp: Let_def addConnection_def removeConnection_def split: option.splits if_splits)+

lemma client_publish_step:
  assumes "lp_step s e s'" "publishes e"
  shows "lp_client s' = lp_client s" "lp_stopped s' = lp_stopped s" "lp_ready s' = lp_ready s"
  using assms by (auto elim!: lp_stepE simp: loop_simps)

lemma client_stopped_step:
  assumes "lp_step s e s'"
  shows "lp_stopped s' \<longleftrightarrow> lp_stopped s \<or> e = lp_event.CallClose"
  using assms by (elim lp_stepE) (simp_all add: loop_simps split: if_splits)

lemma NewStreamLoop_simps [simp]:
  "sl_stream (NewStreamLoop c) = NewStream c" "sl_phase (NewStreamLoop c) = StreamIdle" "\<not> sl_changed (NewStreamLoop c)"
  "\<not> sl_stopped (NewStreamLoop c)" "sl_establishing (NewStreamLoop c) = []" "st_client (NewStream c) = c"
  "chan_at (NewStream c) k d = None"
  by (simp_all add: NewStreamLoop_def NewStream_def chan_at_def)

lemma subscribed_inv: "subscribed c lp ps \<Longrightarrow> ps_inv signal_capacity ps"
  using publisher.run_inv [OF ps_inv_New] by (auto simp: subscribed_def)

lemma in_step_New: "subscribed c lp ps \<Longrightarrow> in_step (NewDelivery lp ps)"
  using subscribed_inv [of c lp ps] sl_inv_New [of "lp_client lp"]
  by (simp add: in_step_def NewDelivery_def subscribed_def)

lemma in_step_step:
  assumes ok: "in_step s" and step: "dl_step s e s'"
  shows "in_step s'"
  using step
proof cases
  case (client_alone e lp)
  note D = in_stepD [OF ok]
  have id: "cl_ctx (lp_client lp) = cl_ctx (lp_client (dl_client s))"
    using step_same_client [OF client_alone(3)] by (simp add: same_client_def)
  obtain es where "lts_run sl_step (dl_stream s) es (follow (dl_behind s) (lp_client lp) (dl_stream s))"
    using follow_run [of "lp_client lp" "dl_stream s" "dl_behind s"] D(4,5) id by auto
  then have "sl_inv (follow (dl_behind s) (lp_client lp) (dl_stream s))"
    using stream_goroutine.run_inv D(2) by blast
  then show ?thesis
    using D client_stopped_step [OF client_alone(3)] client_alone
    by (auto simp: in_step_def sl_phase_follow)
next
  case (client_publishes e lp ps)
  note D = in_stepD [OF ok] and P = publisher.step_inv [OF in_stepD(1) [OF ok] client_publishes(5)]
  show ?thesis
    using D P client_publishes client_publish_step [OF client_publishes(3,4)]
    by (auto simp: in_step_def ps_step_simps split: if_splits)
next
  case (client_closes lp ps)
  note P = publisher.step_inv [OF in_stepD(1) [OF ok] client_closes(4)]
  show ?thesis
    using in_stepD [OF ok] P client_closes by (auto simp: in_step_def ps_step_simps lp_step_simps)
next
  case (publisher_steps e ps)
  note P = publisher.step_inv [OF in_stepD(1) [OF ok] publisher_steps(3)]
  show ?thesis
    using ok P publisher_alone_step [OF publisher_steps(3,4)] publisher_steps(2) by (auto simp: in_step_def)
next
  case (publisher_signals ps sl)
  note P = publisher.step_inv [OF in_stepD(1) [OF ok] publisher_signals(3)]
    and S = stream_goroutine.step_inv [OF in_stepD(2) [OF ok] publisher_signals(4)]
  show ?thesis
    using ok P S publisher_signals by (auto simp: in_step_def ps_step_simps sl_step_simps)
next
  case (stream_steps e sl)
  note S = stream_goroutine.step_inv [OF in_stepD(2) [OF ok] stream_steps(3)]
  show ?thesis
    using in_stepD [OF ok] S stream_alone_step(1,2) [OF stream_steps(3,4)] stream_steps(2)
    apply (intro in_stepI)
    apply (simp_all)
    subgoal using stream_alone_step(4) [OF stream_steps(3,4)] by (auto split: if_splits)
    subgoal using stream_alone_step(3) [OF stream_steps(3,4)] by auto
    done
next
  case (stream_takes order sl ps)
  note P = publisher.step_inv [OF in_stepD(1) [OF ok] stream_takes(4)]
    and S = stream_goroutine.step_inv [OF in_stepD(2) [OF ok] stream_takes(3)]
  show ?thesis
    using ok P S stream_takes by (auto simp: in_step_def ps_step_simps sl_step_simps split: if_splits)
next
  case (unsubscribes ps)
  note P = publisher.step_inv [OF in_stepD(1) [OF ok] unsubscribes(4)]
  show ?thesis
    using ok P unsubscribes by (auto simp: in_step_def ps_step_simps split: if_splits)
next
  case (client_replaced c lp ps sl)
  note P = subscribed_inv [OF client_replaced(3)]
    and S = stream_goroutine.step_inv [OF in_stepD(2) [OF ok] client_replaced(4)]
  have "ps_inv signal_capacity (ps\<lparr>ps_box := (ps_box ps)(0 := ps_box (dl_pub s) 0)\<rparr>)"
    using P in_stepD(1) [OF ok] by (auto simp: ps_inv_def)
  then show ?thesis
    using in_stepD(3) [OF ok] S client_replaced by (auto simp: in_step_def sl_step_simps subscribed_def)
qed

interpretation delivery: lts_invariant dl_step in_step
  by unfold_locales (rule in_step_step)

subsection \<open>What is not up to date is on its way\<close>

definition todo :: "stream_loop \<Rightarrow> (string \<times> 64 word) set" where
  "todo s = (case sl_phase s of Feeding ms sc order \<Rightarrow> set order | _ \<Rightarrow> {})"

definition current_except :: "client \<Rightarrow> stream \<Rightarrow> (string \<times> 64 word) set \<Rightarrow> bool" where
  "current_except c st T \<longleftrightarrow>
     (\<forall>k d ch. chan_at st k d = Some ch \<and> (k, d) \<notin> T \<and> evaluates c k ch \<longrightarrow> up_to_date c k ch)"

text \<open>A client with news will publish; it has seen a configuration or not.\<close>

definition seen_configs :: "client_loop \<Rightarrow> nat" where
  "seen_configs lp = lp_hooks lp + first_seen (lp_client lp)"

definition news :: "client_loop \<Rightarrow> bool" where
  "news lp \<longleftrightarrow> 1 < seen_configs lp \<or> 0 < lp_publishing lp"

definition pending :: "delivery \<Rightarrow> bool" where
  "pending s \<longleftrightarrow> news (dl_client s) \<or> ps_publishing (dl_pub s) \<noteq> [] \<or> ps_pub (dl_pub s) \<noteq> []
     \<or> in_flight 0 (dl_pub s) \<noteq> [] \<or> sl_changed (dl_stream s)"

definition told :: "delivery \<Rightarrow> bool" where
  "told s \<longleftrightarrow> account (dl_client s) \<and> \<not> dl_behind s
     \<and> (seen_configs (dl_client s) = 0 \<longrightarrow> sl_establishing (dl_stream s) = [] \<and>
          (\<forall>k d. chan_at (sl_stream (dl_stream s)) k d = None))
     \<and> (\<not> lp_stopped (dl_client s) \<and> \<not> sl_stopped (dl_stream s) \<longrightarrow>
          pending s \<or> current_except (lp_client (dl_client s)) (sl_stream (dl_stream s)) (todo (dl_stream s)))"

lemma Eval_snapshot:
  assumes "cl_snapshot d = cl_snapshot c" "cl_defaultAttrs d = cl_defaultAttrs c"
  shows "Eval d = Eval c" "EvalAll d = EvalAll c"
  using assms by (auto simp: Eval_def EvalAll_def fun_eq_iff)

lemma settled_snapshot:
  assumes "cl_snapshot d = cl_snapshot c" "cl_defaultAttrs d = cl_defaultAttrs c"
  shows "current_except d = current_except c"
proof -
  have "evaluates d k ch = evaluates c k ch" "up_to_date d k ch = up_to_date c k ch" for k ch
    using Eval_snapshot [OF assms] by (cases ch; simp)+
  then show ?thesis by (simp add: current_except_def fun_eq_iff)
qed

lemma load_snapshot: "snd r = None \<Longrightarrow> cl_snapshot (lp_client (load_config r s)) = cl_snapshot (lp_client s)"
  by (simp add: load_config_def cache_written_def Let_def split: option.splits prod.splits)

lemma news_step:
  assumes "account s" "lp_step s e s'" "\<not> publishes e"
  shows "news s \<Longrightarrow> news s'" "0 < seen_configs s \<Longrightarrow> 0 < seen_configs s'"
    "0 < seen_configs s \<Longrightarrow> cl_snapshot (lp_client s') \<noteq> cl_snapshot (lp_client s) \<Longrightarrow> news s'"
proof -
  have on: "online (lp_client s)" using assms(1) by (simp add: account_def)
  have load: "lp_hooks (load_config r s) = lp_hooks s + (if snd r = None then 0 else 1)" for r
    using on by (auto simp: load_config_def cache_written_def client_offline_def online_def Let_def split: option.splits)
  have all: "(news s \<longrightarrow> news s') \<and> (0 < seen_configs s \<longrightarrow> 0 < seen_configs s') \<and>
    (0 < seen_configs s \<and> cl_snapshot (lp_client s') \<noteq> cl_snapshot (lp_client s) \<longrightarrow> news s')"
    using assms(2)
  proof cases
    case (hook_run n c acts)
    then show ?thesis by (auto simp: news_def seen_configs_def signal_online [OF on])
  next
    case (listen_token c acts)
    then show ?thesis using on by (simp add: listens_def online_def)
  next
    case (init_loads r)
    then show ?thesis using load [of r] load_snapshot [of r s] by (auto simp: news_def seen_configs_def loop_simps)
  next
    case (loop_loads signalled r)
    then show ?thesis using load [of r] load_snapshot [of r s] by (auto simp: news_def seen_configs_def loop_simps)
  next
    case (refresh_loads n r)
    then show ?thesis using load [of r] load_snapshot [of r s] by (auto simp: news_def seen_configs_def loop_simps)
  next
    case store_reload
    then show ?thesis using on by (simp add: listens_def online_def)
  qed (use assms(3) in \<open>auto simp: news_def seen_configs_def Close_def\<close>)
  show "news s \<Longrightarrow> news s'" by (rule all [THEN conjunct1, THEN mp])
  show "0 < seen_configs s \<Longrightarrow> 0 < seen_configs s'" by (rule all [THEN conjunct2, THEN conjunct1, THEN mp])
  show "0 < seen_configs s \<Longrightarrow> cl_snapshot (lp_client s') \<noteq> cl_snapshot (lp_client s) \<Longrightarrow> news s'"
    by (rule all [THEN conjunct2, THEN conjunct2, THEN mp, OF conjI])
qed

text \<open>A step of the stream with the client of the delivery.\<close>

lemma up_to_date_holder:
  "holder ch = h \<Longrightarrow> ch_user h' = ch_user h \<Longrightarrow> up_to_date c k (with_holder h' ch) = up_to_date c k ch"
  "holder ch = h \<Longrightarrow> ch_user h' = ch_user h \<Longrightarrow> evaluates c k (with_holder h' ch) = evaluates c k ch"
  by (cases ch; simp)+

lemma up_to_date_add_remove [simp]:
  "up_to_date c k (AddConnection x ch) = up_to_date c k ch" "evaluates c k (AddConnection x ch) = evaluates c k ch"
  "up_to_date c k (RemoveConnection x ch) = up_to_date c k ch" "evaluates c k (RemoveConnection x ch) = evaluates c k ch"
  by (auto simp: AddConnection_def RemoveConnection_def Let_def up_to_date_holder split: option.splits)

lemma chan_at_count [simp]:
  "chan_at (st\<lparr>st_connCount := n\<rparr>) = chan_at st" "chan_at (st\<lparr>st_client := c\<rparr>) = chan_at st"
  by (auto simp: chan_at_def fun_eq_iff)

lemma chan_at_notify_with:
  "chan_at (notify_with c kd st) k d =
     (if (k, d) = kd then map_option (fst \<circ> Notify c k) (chan_at st k d) else chan_at st k d)"
  by (cases kd) (auto simp: notify_with_def chan_at_notify_one)

lemma settled_step:
  assumes "sl_step s e s'" "stream_alone lp s e" "current_except c (sl_stream s) (todo s)"
    and "st_client (sl_stream s) = c" "\<And>ms sc order. sl_phase s = Feeding ms sc order \<Longrightarrow> sc = c"
  shows "current_except c (sl_stream s') (todo s')"
  using assms(1)
proof cases
  case (accept_create e st)
  then show ?thesis
    using assms(3,4) create_up_to_date [of c e]
    by (auto simp: current_except_def todo_def chan_at_add Let_def split: option.splits if_splits)
next
  case (accept_close x d k)
  then show ?thesis
    using assms(3)
    by (auto simp: current_except_def todo_def chan_at_remove Let_def split: option.splits if_splits)
next
  case (next_channel sc kd order)
  have sc: "sc = c" using assms(5) next_channel(3) by blast
  show ?thesis
    unfolding current_except_def
  proof (intro allI impI, elim conjE)
    fix k d ch
    assume at: "chan_at (sl_stream s') k d = Some ch" and T: "(k, d) \<notin> todo s'" and ev: "evaluates c k ch"
    show "up_to_date c k ch"
    proof (cases "(k, d) = kd")
      case True
      then obtain ch0 where "chan_at (sl_stream s) k d = Some ch0" "ch = fst (Notify c k ch0)"
        using at next_channel(2) sc by (auto simp: chan_at_notify_with)
      moreover obtain r where "Notify c k ch0 = (ch, r)" using calculation(2) by (metis prod.collapse)
      ultimately show ?thesis using ev evaluates_cong Notify_up_to_date by blast
    next
      case False
      then have "chan_at (sl_stream s) k d = Some ch" "(k, d) \<notin> todo s"
        using at T next_channel(2,3) by (auto simp: chan_at_notify_with todo_def)
      then show ?thesis using assms(3) ev by (auto simp: current_except_def)
    qed
  qed
next
  case (fed sc)
  then show ?thesis using assms(3) by (simp add: todo_def)
next
  case (feed x m ms sc order)
  then show ?thesis using assms(3) by (simp add: todo_def)
next
  case loop_return
  then show ?thesis using assms(3) by (simp add: todo_def)
qed (use assms(2,3) in \<open>auto simp: todo_def split: if_splits\<close>)

lemma settled_takes: "sl_step s (TakeChange order) s' \<Longrightarrow> current_except c (sl_stream s') (todo s')"
  by (auto simp: sl_step_simps current_except_def todo_def visits_def)

text \<open>A stream without channels keeps none while no connection is created.\<close>

lemma no_channels_step:
  assumes "sl_step s e s'" "stream_alone lp s e" "\<not> IsInValidState (lp_client lp)"
    and "sl_establishing s = []" "\<And>k d. chan_at (sl_stream s) k d = None"
  shows "sl_establishing s' = [] \<and> (\<forall>k d. chan_at (sl_stream s') k d = None)"
  using assms(1)
  by cases (use assms(2-) in \<open>auto simp: chan_at_notify_with chan_at_remove Let_def\<close>)

definition carried :: "unit pubsub \<Rightarrow> bool" where
  "carried p \<longleftrightarrow> ps_publishing p \<noteq> [] \<or> ps_pub p \<noteq> [] \<or> in_flight 0 p \<noteq> []"

lemma carried_step:
  assumes "ps_step signal_capacity p e p'" "publisher_alone e" "0 \<in> set (ps_subscriptions p)" "carried p"
  shows "carried p'"
  using assms by (auto elim!: ps_stepE simp: carried_def in_flight_def split: ps_loop.splits if_splits)

lemma pending_iff: "pending s \<longleftrightarrow> news (dl_client s) \<or> carried (dl_pub s) \<or> sl_changed (dl_stream s)"
  by (auto simp: pending_def carried_def)

lemma toldI:
  assumes "account (dl_client s)" "\<not> dl_behind s"
    and "seen_configs (dl_client s) = 0 \<Longrightarrow>
      sl_establishing (dl_stream s) = [] \<and> (\<forall>k d. chan_at (sl_stream (dl_stream s)) k d = None)"
    and "\<not> lp_stopped (dl_client s) \<Longrightarrow> \<not> sl_stopped (dl_stream s) \<Longrightarrow> \<not> pending s \<Longrightarrow>
      current_except (lp_client (dl_client s)) (sl_stream (dl_stream s)) (todo (dl_stream s))"
  shows "told s"
  using assms unfolding told_def by blast

lemma toldD:
  assumes "told s"
  shows "account (dl_client s)" "\<not> dl_behind s"
    and "seen_configs (dl_client s) = 0 \<Longrightarrow>
      sl_establishing (dl_stream s) = [] \<and> (\<forall>k d. chan_at (sl_stream (dl_stream s)) k d = None)"
    and "\<not> lp_stopped (dl_client s) \<Longrightarrow> \<not> sl_stopped (dl_stream s) \<Longrightarrow> \<not> pending s \<Longrightarrow>
      current_except (lp_client (dl_client s)) (sl_stream (dl_stream s)) (todo (dl_stream s))"
  using assms by (simp_all add: told_def)

fun replaces :: "dl_event \<Rightarrow> bool" where
  "replaces (ClientReplaced lp ps) = True"
| "replaces _ = False"

lemma todo_follow [simp]: "todo (follow b c s) = todo s"
  by (simp add: todo_def follow_def split: stream_phase.splits)

lemma settled_follow [simp]: "current_except c (sl_stream (follow b c' s)) = current_except c (sl_stream s)"
  by (simp add: current_except_def fun_eq_iff)

lemma told_client_alone:
  assumes "told s" "lp_step (dl_client s) e lp" "\<not> publishes e" "e \<noteq> lp_event.CallClose"
  shows "told (s\<lparr>dl_client := lp, dl_stream := follow (dl_behind s) (lp_client lp) (dl_stream s)\<rparr>)" (is "told ?t")
proof (rule toldI)
  note D = toldD [OF assms(1)] and N = news_step [OF toldD(1) [OF assms(1)] assms(2,3)]
  show "account (dl_client ?t)" using account_step [OF D(1) assms(2)] by simp
  show "\<not> dl_behind ?t" using D(2) by simp
  show "sl_establishing (dl_stream ?t) = [] \<and> (\<forall>k d. chan_at (sl_stream (dl_stream ?t)) k d = None)"
    if "seen_configs (dl_client ?t) = 0"
  proof -
    have "seen_configs (dl_client s) = 0" using that N(2) by (cases "seen_configs (dl_client s) = 0") auto
    then show ?thesis using D(3) by simp
  qed
  assume t: "\<not> lp_stopped (dl_client ?t)" "\<not> sl_stopped (dl_stream ?t)" "\<not> pending ?t"
  then have s: "\<not> lp_stopped (dl_client s)" "\<not> sl_stopped (dl_stream s)" "\<not> pending s"
    using client_stopped_step [OF assms(2)] N(1) by (auto simp: pending_iff)
  have same: "cl_defaultAttrs (lp_client lp) = cl_defaultAttrs (lp_client (dl_client s))"
    using step_same_client [OF assms(2)] by (simp add: same_client_def)
  show "current_except (lp_client (dl_client ?t)) (sl_stream (dl_stream ?t)) (todo (dl_stream ?t))"
  proof (cases "seen_configs (dl_client s) = 0")
    case True
    then show ?thesis using D(3) by (simp add: current_except_def)
  next
    case False
    then have "cl_snapshot (lp_client lp) = cl_snapshot (lp_client (dl_client s))"
      using N(3) t(3) by (auto simp: pending_iff)
    then show ?thesis using settled_snapshot [OF _ same] D(4) [OF s] by simp
  qed
qed

lemma told_stream_alone:
  assumes "in_step s" "told s" "sl_step (dl_stream s) e sl" "stream_alone (dl_client s) (dl_stream s) e"
  shows "told (s\<lparr>dl_stream := sl, dl_behind := (dl_behind s \<and> \<not> loads_client e)\<rparr>)" (is "told ?t")
proof (rule toldI)
  note L = in_stepD [OF assms(1)] and D = toldD [OF assms(2)] and S = stream_alone_step [OF assms(3,4)]
  show "account (dl_client ?t)" "\<not> dl_behind ?t" using D(1,2) by simp_all
  show "sl_establishing (dl_stream ?t) = [] \<and> (\<forall>k d. chan_at (sl_stream (dl_stream ?t)) k d = None)"
    if "seen_configs (dl_client ?t) = 0"
  proof -
    have "\<not> IsInValidState (lp_client (dl_client s))" using that D(1) by (auto simp: account_def seen_configs_def)
    then show ?thesis using no_channels_step [OF assms(3,4)] D(3) that by simp
  qed
  assume "\<not> lp_stopped (dl_client ?t)" "\<not> sl_stopped (dl_stream ?t)" "\<not> pending ?t"
  then have "current_except (lp_client (dl_client s)) (sl_stream (dl_stream s)) (todo (dl_stream s))"
    using S(1,3) by (intro D(4)) (auto simp: pending_iff)
  then show "current_except (lp_client (dl_client ?t)) (sl_stream (dl_stream ?t)) (todo (dl_stream ?t))"
    using settled_step [OF assms(3,4)] L(4,5) D(2) by simp
qed

lemma told_step:
  assumes ok: "in_step s" and told: "told s" and step: "dl_step s e s'" and no: "\<not> replaces e"
  shows "told s'"
  using step
proof cases
  case (client_alone e lp)
  then show ?thesis using told_client_alone [OF told] by simp
next
  case (client_publishes e lp ps)
  note L = in_stepD [OF ok] and D = toldD [OF told] and C = client_publish_step [OF client_publishes(3,4)]
  have e: "e = HookPublish" using client_publishes(3,4) D(1) by (cases e) (auto simp: account_def lp_step_simps)
  have "carried ps" if "\<not> lp_stopped lp"
    using that client_publishes(5) L(6) C(2) by (auto simp: ps_step_simps carried_def)
  moreover have "account lp" using account_step [OF D(1) client_publishes(3)] .
  moreover have "lp_hooks lp = lp_hooks (dl_client s)"
    using client_publishes(3) by (auto simp: e lp_step_simps loop_simps)
  ultimately show ?thesis
    using D(2,3) C(1) client_publishes(2) by (intro toldI) (auto simp: pending_iff seen_configs_def)
next
  case (client_closes lp ps)
  note D = toldD [OF told]
  have "account lp" using account_step [OF D(1) client_closes(3)] .
  then show ?thesis using D(2,3) client_closes by (intro toldI) (auto simp: lp_step_simps seen_configs_def)
next
  case (publisher_steps e ps)
  note D = toldD [OF told]
  have "carried ps" if "\<not> sl_stopped (dl_stream s)" "carried (dl_pub s)"
    using carried_step [OF publisher_steps(3,4) _ that(2)] in_stepD(7) [OF ok] that(1) by blast
  then show ?thesis using D publisher_steps(2) by (intro toldI) (auto simp: pending_iff)
next
  case (publisher_signals ps sl)
  note D = toldD [OF told]
  show ?thesis using D(1-3) publisher_signals by (intro toldI) (auto simp: pending_iff sl_step_simps)
next
  case (stream_steps e sl)
  then show ?thesis using told_stream_alone [OF ok told] by simp
next
  case (stream_takes order sl ps)
  note D = toldD [OF told]
  show ?thesis
    using D(1-3) stream_takes(2) settled_takes [OF stream_takes(3)] stream_takes(3)
    by (intro toldI) (auto simp: sl_step_simps)
next
  case (unsubscribes ps)
  note D = toldD [OF told]
  show ?thesis using D(1-3) unsubscribes by (intro toldI) auto
next
  case (client_replaced c lp ps sl)
  then show ?thesis using no by simp
qed

interpretation delivery_told: lts_invariant "\<lambda>s e s'. dl_step s e s' \<and> \<not> replaces e" "\<lambda>s. in_step s \<and> told s"
  by unfold_locales (blast intro: in_step_step told_step)

lemma lts_run_restrict:
  "lts_run step s es s' \<Longrightarrow> list_all P es \<Longrightarrow> lts_run (\<lambda>s e s'. step s e s' \<and> P e) s es s'"
  by (induction es arbitrary: s) auto

lemma told_New:
  assumes "subscribed c lp ps" "online c" "\<not> cl_initialized c" "\<not> IsInValidState c"
  shows "told (NewDelivery lp ps)"
proof (rule toldI)
  show "account (dl_client (NewDelivery lp ps))"
    using assms client_account.run_inv [OF account_New [OF assms(2-4)]] by (auto simp: subscribed_def NewDelivery_def)
qed (simp_all add: NewDelivery_def current_except_def)

lemma delivery_runs:
  assumes "subscribed c lp ps" "online c" "\<not> cl_initialized c" "\<not> IsInValidState c"
    and "lts_run dl_step (NewDelivery lp ps) es s" "list_all (\<lambda>e. \<not> replaces e) es"
  shows "in_step s" "told s"
  using delivery_told.run_inv [OF _ lts_run_restrict [OF assms(5,6)]] in_step_New [OF assms(1)] told_New [OF assms(1-4)]
  by blast+

lemma quiescent_settled:
  assumes "told s" "quiescent s" "\<not> lp_stopped (dl_client s)" "\<not> sl_stopped (dl_stream s)"
  shows "current_except (lp_client (dl_client s)) (sl_stream (dl_stream s)) {}"
proof -
  have "\<not> pending s" using assms(2) by (simp add: quiescent_def pending_def news_def seen_configs_def)
  then show ?thesis using toldD(4) [OF assms(1,3,4)] assms(2) by (simp add: quiescent_def todo_def)
qed

lemma quiescent_delivered:
  assumes "in_step s" "told s" "quiescent s" "\<not> lp_stopped (dl_client s)" "\<not> sl_stopped (dl_stream s)"
    and "chan_at (sl_stream (dl_stream s)) k d = Some ch" "evaluates (lp_client (dl_client s)) k ch"
  shows "up_to_date (lp_client (dl_client s)) k ch"
    and "\<forall>conn \<in> set (connections ch). let ms = sl_read (dl_stream s) conn @ sl_box (dl_stream s) conn
       in ms \<noteq> [] \<and> last ms = LastPayload ch"
proof -
  show "up_to_date (lp_client (dl_client s)) k ch"
    using quiescent_settled [OF assms(2-5)] assms(6,7) by (simp add: current_except_def)
  have "sl_inv (dl_stream s)" by (rule in_stepD(2) [OF assms(1)])
  then have "channels_ok (sl_stream (dl_stream s))" "buffers_ok (dl_stream s)"
    by (simp_all add: sl_inv_def stream_inv_def)
  moreover have "sl_phase (dl_stream s) = StreamIdle" using assms(3) by (simp add: quiescent_def)
  ultimately show "\<forall>conn \<in> set (connections ch). let ms = sl_read (dl_stream s) conn @ sl_box (dl_stream s) conn
       in ms \<noteq> [] \<and> last ms = LastPayload ch"
    using channels_okD(4) [OF _ assms(6)] by (auto simp: channel.current_def buffers_ok_def Let_def)
qed

subsection \<open>A client that was put in the place of another\<close>

lemma carried_New: "\<not> carried (NewPublisher\<lparr>ps_subscriptions := [0]\<rparr>)"
  by (simp add: carried_def NewPublisher_def in_flight_def)

lemma not_carried_step:
  assumes "ps_step signal_capacity p e p'" "publisher_alone e" "\<not> carried p"
  shows "\<not> carried p'"
  using assms by (auto elim!: ps_stepE simp: carried_def in_flight_def split: ps_loop.splits if_splits)

text \<open>
  The connections \<open>K\<close> were established and nothing more has been sent to them, as long as the client has
  loaded no second configuration.
\<close>

definition unnoticed :: "nat set \<Rightarrow> (nat \<Rightarrow> message list) \<Rightarrow> delivery \<Rightarrow> bool" where
  "unnoticed K sent s \<longleftrightarrow> account (dl_client s)
     \<and> (\<forall>x \<in> K. sl_conns (dl_stream s) x \<noteq> None \<and> x \<notin> ce_conn ` set (sl_establishing (dl_stream s)))
     \<and> (lp_loaded (dl_client s) \<le> 1 \<longrightarrow> \<not> carried (dl_pub s) \<and> \<not> sl_changed (dl_stream s)
          \<and> todo (dl_stream s) = {} \<and> (\<forall>x \<in> K. st_sent (sl_stream (dl_stream s)) x = sent x))"

lemma unnoticed_stream:
  assumes "sl_step s e s'" "stream_alone lp s e"
    and "sl_conns s x \<noteq> None" "x \<notin> ce_conn ` set (sl_establishing s)"
  shows "sl_conns s' x \<noteq> None \<and> x \<notin> ce_conn ` set (sl_establishing s') \<and>
    (todo s = {} \<longrightarrow> todo s' = {} \<and> st_sent (sl_stream s') x = st_sent (sl_stream s) x)"
  using assms(1)
proof cases
  case (call_create e)
  then have "x \<noteq> ce_conn e" using assms(3) by auto
  then show ?thesis using assms(3,4) call_create by (auto simp: todo_def)
next
  case (accept_create e st)
  then have "x \<noteq> ce_conn e" using assms(4) by auto
  then have "st_sent (stream_step (sl_stream s) (Established e)) x = st_sent (sl_stream s) x"
    using sent_established [of "sl_stream s" e x] by simp
  then show ?thesis
    using assms(3,4) accept_create by (auto simp: todo_def dest: set_remove1_subset [THEN subsetD] simp del: stream_step.simps)
next
  case (accept_close c d k)
  then show ?thesis using assms(3,4) by (simp add: todo_def del: stream_step.simps)
next
  case (next_channel c kd order)
  then show ?thesis using assms(3,4) by (simp add: todo_def)
qed (use assms(2-4) in \<open>simp_all add: todo_def split: if_splits\<close>)

lemma unnoticed_frame:
  assumes "unnoticed K sent s" "account lp" "lp_loaded (dl_client s) \<le> lp_loaded lp"
    and "lp_loaded lp \<le> 1 \<Longrightarrow> carried ps \<Longrightarrow> carried (dl_pub s)"
    and "sl_conns sl = sl_conns (dl_stream s)" "sl_establishing sl = sl_establishing (dl_stream s)"
    "sl_changed sl = sl_changed (dl_stream s)" "todo sl = todo (dl_stream s)"
    "st_sent (sl_stream sl) = st_sent (sl_stream (dl_stream s))"
  shows "unnoticed K sent \<lparr>dl_client = lp, dl_pub = ps, dl_stream = sl, dl_behind = b\<rparr>"
  using assms unfolding unnoticed_def by auto

lemma unnoticed_client:
  assumes un: "unnoticed K sent s" and step: "lp_step (dl_client s) e lp"
  shows "unnoticed K sent (s\<lparr>dl_client := lp, dl_stream := follow b (lp_client lp) (dl_stream s)\<rparr>)"
    "publishes e \<Longrightarrow> unnoticed K sent (s\<lparr>dl_client := lp, dl_pub := ps\<rparr>)"
    "(carried ps \<Longrightarrow> carried (dl_pub s)) \<Longrightarrow> unnoticed K sent (s\<lparr>dl_client := lp, dl_pub := ps\<rparr>)"
proof -
  have acc: "account (dl_client s)" using un by (simp add: unnoticed_def)
  note lp = account_step [OF acc step] loaded_mono [OF step]
  obtain lp0 p0 l0 b0 where s: "s = \<lparr>dl_client = lp0, dl_pub = p0, dl_stream = l0, dl_behind = b0\<rparr>" by (cases s)
  show "unnoticed K sent (s\<lparr>dl_client := lp, dl_stream := follow b (lp_client lp) (dl_stream s)\<rparr>)"
    using unnoticed_frame [OF un lp, of p0 "follow b (lp_client lp) l0" b0] by (simp add: s)
  show "unnoticed K sent (s\<lparr>dl_client := lp, dl_pub := ps\<rparr>)" if "carried ps \<Longrightarrow> carried (dl_pub s)"
    using unnoticed_frame [OF un lp, of ps l0 b0] that by (simp add: s)
  show "unnoticed K sent (s\<lparr>dl_client := lp, dl_pub := ps\<rparr>)" if "publishes e"
  proof -
    have "lp_publishing (dl_client s) \<noteq> 0"
      using step acc that by (cases e) (auto simp: account_def lp_step_simps)
    then have "\<not> lp_loaded (dl_client s) \<le> 1" using account_first(1) [OF acc] by auto
    then have "\<not> lp_loaded lp \<le> 1" using lp(2) by simp
    then show ?thesis using unnoticed_frame [OF un lp, of ps l0 b0] by (simp add: s)
  qed
qed

lemma unnoticed_pub:
  assumes "unnoticed K sent s" "carried ps \<Longrightarrow> carried (dl_pub s)"
  shows "unnoticed K sent (s\<lparr>dl_pub := ps\<rparr>)"
  using assms by (auto simp: unnoticed_def)

lemma unnoticedD:
  assumes "unnoticed K sent s"
  shows "account (dl_client s)"
    and "x \<in> K \<Longrightarrow> sl_conns (dl_stream s) x \<noteq> None"
    and "x \<in> K \<Longrightarrow> x \<notin> ce_conn ` set (sl_establishing (dl_stream s))"
    and "lp_loaded (dl_client s) \<le> 1 \<Longrightarrow> \<not> carried (dl_pub s) \<and> \<not> sl_changed (dl_stream s) \<and> todo (dl_stream s) = {}"
    and "lp_loaded (dl_client s) \<le> 1 \<Longrightarrow> x \<in> K \<Longrightarrow> st_sent (sl_stream (dl_stream s)) x = sent x"
  using assms by (simp_all add: unnoticed_def)

lemma unnoticedI:
  assumes "account (dl_client s)"
    and "\<And>x. x \<in> K \<Longrightarrow> sl_conns (dl_stream s) x \<noteq> None \<and> x \<notin> ce_conn ` set (sl_establishing (dl_stream s))"
    and "lp_loaded (dl_client s) \<le> 1 \<Longrightarrow> \<not> carried (dl_pub s) \<and> \<not> sl_changed (dl_stream s) \<and> todo (dl_stream s) = {}"
    and "\<And>x. lp_loaded (dl_client s) \<le> 1 \<Longrightarrow> x \<in> K \<Longrightarrow> st_sent (sl_stream (dl_stream s)) x = sent x"
  shows "unnoticed K sent s"
  using assms unfolding unnoticed_def by metis

lemma todo_step:
  assumes "sl_step s e s'" "stream_alone lp s e" "todo s = {}"
  shows "todo s' = {}"
proof (cases "sl_phase s'")
  case (Feeding ms sc order)
  then show ?thesis
    using stream_alone_step(4) [OF assms(1,2) Feeding] assms(3) by (auto simp: todo_def split: if_splits)
qed (simp_all add: todo_def)

lemma unnoticed_stream_alone:
  assumes "unnoticed K sent s" "sl_step (dl_stream s) e sl" "stream_alone (dl_client s) (dl_stream s) e"
  shows "unnoticed K sent (s\<lparr>dl_stream := sl, dl_behind := b\<rparr>)"
proof (rule unnoticedI)
  note D = unnoticedD [OF assms(1)]
  note one = unnoticed_stream [OF assms(2,3) D(2,3)]
  let ?s = "s\<lparr>dl_stream := sl, dl_behind := b\<rparr>"
  show "account (dl_client ?s)" using D(1) by simp
  show "sl_conns (dl_stream ?s) x \<noteq> None \<and> x \<notin> ce_conn ` set (sl_establishing (dl_stream ?s))" if "x \<in> K" for x
    using one [OF that that] by simp
  assume "lp_loaded (dl_client ?s) \<le> 1"
  then have le: "lp_loaded (dl_client s) \<le> 1" by simp
  show "\<not> carried (dl_pub ?s) \<and> \<not> sl_changed (dl_stream ?s) \<and> todo (dl_stream ?s) = {}"
    using D(4) [OF le] stream_alone_step(1) [OF assms(2,3)] todo_step [OF assms(2,3)] by simp
  show "st_sent (sl_stream (dl_stream ?s)) x = sent x" if "x \<in> K" for x
    using one [OF that that] D(4) [OF le] D(5) [OF le that] by simp
qed

lemma unnoticed_step:
  assumes un: "unnoticed K sent s" and step: "dl_step s e s'" and no: "\<not> replaces e"
  shows "unnoticed K sent s'"
  using step
proof cases
  case (client_alone e lp)
  then show ?thesis using unnoticed_client(1) [OF un] by simp
next
  case (client_publishes e lp ps)
  then show ?thesis using unnoticed_client(2) [OF un] by simp
next
  case (client_closes lp ps)
  have "carried ps \<Longrightarrow> carried (dl_pub s)"
    using client_closes(4) by (auto simp: ps_step_simps carried_def in_flight_def)
  then show ?thesis using unnoticed_client(3) [OF un client_closes(3)] client_closes(2) by simp
next
  case (publisher_steps e ps)
  then show ?thesis using unnoticed_pub [OF un] not_carried_step by blast
next
  case (publisher_signals ps sl)
  then have "carried (dl_pub s)" by (auto simp: ps_step_simps carried_def in_flight_def)
  then show ?thesis using un publisher_signals(2,4) by (simp add: unnoticed_def sl_step_simps)
next
  case (stream_steps e sl)
  then show ?thesis using unnoticed_stream_alone [OF un] by simp
next
  case (stream_takes order sl ps)
  then have "sl_changed (dl_stream s)" by (simp add: sl_step_simps)
  then show ?thesis using un stream_takes(2,3) by (simp add: unnoticed_def sl_step_simps)
next
  case (unsubscribes ps)
  have "carried ps \<Longrightarrow> carried (dl_pub s)"
    using unsubscribes(4) by (auto simp: ps_step_simps carried_def in_flight_def split: if_splits)
  then show ?thesis using unnoticed_pub [OF un] unsubscribes(2) by simp
next
  case (client_replaced c lp ps sl)
  then show ?thesis using no by simp
qed

interpretation delivery_unnoticed: lts_invariant "\<lambda>s e s'. dl_step s e s' \<and> \<not> replaces e" "unnoticed K sent" for K sent
  by unfold_locales (blast intro: unnoticed_step)

lemma client_account_runs:
  assumes "subscribed c lp ps" "online c" "\<not> cl_initialized c" "\<not> IsInValidState c"
  shows "account lp"
  using assms client_account.run_inv [OF account_New [OF assms(2-4)]] by (auto simp: subscribed_def)

lemma unnoticed_start:
  assumes "dl_step s (ClientReplaced lp ps) s'" "account lp" "\<not> carried ps"
    and "sl_phase (dl_stream s) = StreamIdle" "\<not> sl_changed (dl_stream s)"
  shows "unnoticed {x. sl_conns (dl_stream s) x \<noteq> None \<and> x \<notin> ce_conn ` set (sl_establishing (dl_stream s))}
    (st_sent (sl_stream (dl_stream s))) s'"
  using assms by (auto simp: dl_step_simps unnoticed_def sl_step_simps todo_def carried_def in_flight_def)

subsection \<open>Runs of the parts are runs of the whole\<close>

lemma stream_lifts:
  assumes "lts_run sl_step (dl_stream s) es sl" "\<not> dl_behind s"
    and "\<And>e l. e \<in> set es \<Longrightarrow> stream_alone (dl_client s) l e"
  shows "lts_run dl_step s (map StreamDoes es) (s\<lparr>dl_stream := sl\<rparr>)"
  using assms
proof (induction es arbitrary: s)
  case (Cons e es)
  then obtain t where t: "sl_step (dl_stream s) e t" "lts_run sl_step t es sl" by auto
  have "stream_alone (dl_client s) (dl_stream s) e" using Cons.prems(3) by simp
  from stream_steps [OF t(1) this] have "dl_step s (StreamDoes e) (s\<lparr>dl_stream := t, dl_behind := False\<rparr>)"
    using Cons.prems(2) by simp
  moreover have "s\<lparr>dl_stream := t, dl_behind := False\<rparr> = s\<lparr>dl_stream := t\<rparr>" using Cons.prems(2) by (cases s) simp
  ultimately have "dl_step s (StreamDoes e) (s\<lparr>dl_stream := t\<rparr>)" by (simp only:)
  moreover have "lts_run dl_step (s\<lparr>dl_stream := t\<rparr>) (map StreamDoes es) (s\<lparr>dl_stream := t\<rparr>\<lparr>dl_stream := sl\<rparr>)"
    by (rule Cons.IH) (use Cons.prems(2,3) t(2) in simp_all)
  ultimately show ?case by auto
qed simp

lemma client_lifts:
  assumes "lts_run lp_step (dl_client s) es lp" "list_all (\<lambda>e. \<not> publishes e \<and> e \<noteq> lp_event.CallClose) es"
    and "sl_phase (dl_stream s) = StreamIdle" "st_client (sl_stream (dl_stream s)) = lp_client (dl_client s)"
  shows "lts_run dl_step s (map ClientDoes es)
    (s\<lparr>dl_client := lp, dl_stream := (dl_stream s)\<lparr>sl_stream := (sl_stream (dl_stream s))\<lparr>st_client := lp_client lp\<rparr>\<rparr>\<rparr>)"
  using assms
proof (induction es arbitrary: s)
  case (Cons e es)
  then obtain t where t: "lp_step (dl_client s) e t" "lts_run lp_step t es lp" by auto
  have follow: "follow b c (dl_stream s) = (dl_stream s)\<lparr>sl_stream := (sl_stream (dl_stream s))\<lparr>st_client := c\<rparr>\<rparr>" for b c
    using Cons.prems(3) by (simp add: follow_def)
  let ?u = "s\<lparr>dl_client := t, dl_stream := (dl_stream s)\<lparr>sl_stream := (sl_stream (dl_stream s))\<lparr>st_client := lp_client t\<rparr>\<rparr>\<rparr>"
  have "dl_step s (ClientDoes e) ?u" using client_alone [OF t(1)] Cons.prems(2) by (simp add: follow)
  moreover have "lts_run dl_step ?u (map ClientDoes es)
    (s\<lparr>dl_client := lp, dl_stream := (dl_stream s)\<lparr>sl_stream := (sl_stream (dl_stream s))\<lparr>st_client := lp_client lp\<rparr>\<rparr>\<rparr>)"
    using Cons.IH [of ?u] Cons.prems t(2) by simp
  ultimately show ?case by auto
qed (cases s; simp)

abbreviation one_subscriber :: "unit pubsub" where
  "one_subscriber \<equiv> NewPublisher\<lparr>ps_subscriptions := [0]\<rparr>"

lemma subscribed_run:
  assumes "lts_run lp_step (NewClientLoop c) es lp" "\<not> lp_stopped lp"
  shows "subscribed c lp one_subscriber"
proof -
  have "lts_run (ps_step signal_capacity) NewPublisher [CallSubscribe 0, Attach 0] one_subscriber"
    by (simp add: ps_step_simps NewPublisher_def)
  then have "\<exists>es. lts_run (ps_step signal_capacity) NewPublisher es one_subscriber" by blast
  moreover have "ps_box one_subscriber 0 = []" "0 \<notin> set (ps_unsubscribing one_subscriber)" "\<not> ps_stopped one_subscriber"
    by (simp_all add: NewPublisher_def)
  ultimately show ?thesis using assms unfolding subscribed_def by auto
qed

text \<open>A handler connects to the stream of a client that has its first configuration.\<close>

lemma one_conn_delivery:
  assumes "online c" "\<not> cl_initialized c" "k \<noteq> AllFlagsDiscriminator"
  shows "\<exists>es sl. lts_run dl_step (NewDelivery (first_loop c w sn) one_subscriber) es
        (NewDelivery (first_loop c w sn) one_subscriber\<lparr>dl_stream := sl\<rparr>)
      \<and> list_all (\<lambda>e. \<not> replaces e) es \<and> one_conn k u (first_config c w sn) 1 sl"
proof -
  let ?s = "NewDelivery (first_loop c w sn) one_subscriber"
  have lp: "lp_client (first_loop c w sn) = first_config c w sn" "lp_ready (first_loop c w sn)"
    by (simp_all add: first_loop_def)
  have valid: "IsInValidState (first_config c w sn)"
    using assms(1) by (cases w) (simp add: first_config_def cache_written_def online_def IsInValidState_def
        GetCachedJson_def StoreEntry_def entryWithEtag_def)
  obtain e m sl where sl: "lts_run sl_step (NewStreamLoop (first_config c w sn)) [CallCreate e, AcceptCreate e, Feed 0 m, Fed] sl"
    "one_conn k u (first_config c w sn) 1 sl"
    using one_conn_start [OF assms(3)] by blast
  have "lts_run dl_step ?s (map StreamDoes [CallCreate e, AcceptCreate e, Feed 0 m, Fed]) (?s\<lparr>dl_stream := sl\<rparr>)"
    by (rule stream_lifts) (use sl(1) lp valid in \<open>auto simp: NewDelivery_def evaluating_def\<close>)
  with sl(2) show ?thesis
    by (intro exI [of _ "map StreamDoes [CallCreate e, AcceptCreate e, Feed 0 m, Fed]"] exI [of _ sl]) simp
qed

lemma quiescent_one_conn:
  assumes "one_conn k u x n sl" "lp_hooks lp = 0" "lp_publishing lp = 0"
  shows "quiescent (NewDelivery lp one_subscriber\<lparr>dl_stream := sl\<rparr>)"
  using assms by (simp add: quiescent_def NewDelivery_def one_conn_def in_flight_def NewPublisher_def)

lemma one_conn_registered:
  assumes "one_conn k u x n sl"
  shows "registered (sl_stream sl) = {(0, k, 0)}"
proof -
  let ?ch = "SingleFlagChannel (Some (PayloadFromEvalData (Eval x k u))) \<lparr>ch_connections = [0], ch_user = u\<rparr>"
  have at: "chan_at (sl_stream sl) k 0 = Some ?ch"
    and only: "\<And>k' d'. chan_at (sl_stream sl) k' d' \<noteq> None \<Longrightarrow> k' = k \<and> d' = 0"
    using assms by (simp_all add: one_conn_def)
  show ?thesis
  proof (intro set_eqI iffI)
    fix y
    assume "y \<in> registered (sl_stream sl)"
    then obtain c k' d ch where y: "y = (c, k', d)" "chan_at (sl_stream sl) k' d = Some ch" "c \<in> set (connections ch)"
      by (auto simp: registered_def)
    then have "k' = k" "d = 0" using only [of k' d] by simp_all
    then show "y \<in> {(0, k, 0)}" using y at by auto
  qed (use at in \<open>auto simp: registered_def\<close>)
qed

subsection \<open>A change is delivered\<close>

text \<open>The steps that the proxy takes on its own to deliver a configuration.\<close>

fun delivers :: "dl_event \<Rightarrow> bool" where
  "delivers (ClientDoes e) = (e = HookRun \<or> e = HookPublish)"
| "delivers (PublisherDoes e) = True"
| "delivers (StreamDoes (TakeChange order)) = True"
| "delivers (StreamDoes e) = own_event e"
| "delivers _ = False"

lemma visits_exists:
  assumes "stream_inv st"
  shows "\<exists>order. visits order st"
proof -
  define A where "A = {(k, d). chan_at st k d \<noteq> None}"
  have ok: "channels_ok st" "finite (registered st)" using assms by (simp_all add: stream_inv_def)
  have "A \<subseteq> snd ` registered st"
  proof (rule subsetI)
    fix x assume x: "x \<in> A"
    obtain k d where kd: "x = (k, d)" by (cases x)
    then obtain ch where ch: "chan_at st k d = Some ch" using x by (cases "chan_at st k d") (simp_all add: A_def)
    have "hd (connections ch) \<in> set (connections ch)" using channels_okD(2) [OF ok(1) ch] by (rule hd_in_set)
    then have "(hd (connections ch), k, d) \<in> registered st" using ch by (simp add: registered_def)
    from imageI [OF this, of snd] show "x \<in> snd ` registered st" by (simp add: kd)
  qed
  then have "finite A" by (rule finite_subset) (rule finite_imageI [OF ok(2)])
  from finite_distinct_list [OF this] obtain order where "set order = A" "distinct order" by (elim exE conjE)
  then have "visits order st" by (simp add: visits_def A_def)
  then show ?thesis by (rule exI)
qed

abbreviation delivery_state :: "client_loop \<Rightarrow> unit pubsub \<Rightarrow> stream_loop \<Rightarrow> bool \<Rightarrow> delivery" where
  "delivery_state lp p l b \<equiv> \<lparr>dl_client = lp, dl_pub = p, dl_stream = l, dl_behind = b\<rparr>"

text \<open>From the hook to the publisher, and from there to the signal that waits for the stream.\<close>

definition announced :: "client_loop \<Rightarrow> client_loop" where
  "announced lp = lp\<lparr>lp_hooks := 0, lp_published := Suc (lp_published lp), lp_publishing := 0\<rparr>"

lemma hook_publishes:
  assumes "online (lp_client lp)" "cl_initialized (lp_client lp)" "lp_hooks lp = 1" "lp_publishing lp = 0" "\<not> lp_stopped lp"
    and "ps_publishing p = []" "\<not> ps_stopped p"
    and "sl_phase l = StreamIdle" "st_client (sl_stream l) = lp_client lp"
  shows "lts_run dl_step (delivery_state lp p l b) [ClientDoes HookRun, ClientDoes HookPublish]
    (delivery_state (announced lp) (p\<lparr>ps_publishing := [()]\<rparr>) l b)"
proof -
  let ?lp1 = "lp\<lparr>lp_hooks := 0, lp_publishing := 1\<rparr>" and ?p = "p\<lparr>ps_publishing := [()]\<rparr>"
  have same: "(lp_client lp)\<lparr>cl_initialized := True\<rparr> = lp_client lp" using assms(2) by simp
  have "signal (lp_client lp) = (lp_client lp, [PublishChange])" using signal_online [OF assms(1)] assms(2) same by simp
  from hook_run [OF _ this, of 0] have "lp_step lp HookRun ?lp1" using assms(3,4) by simp
  moreover have "follow b (lp_client ?lp1) l = l" using follow_same [OF assms(8,9)] by simp
  ultimately have 1: "dl_step (delivery_state lp p l b) (ClientDoes HookRun) (delivery_state ?lp1 p l b)"
    using client_alone [of "delivery_state lp p l b" HookRun ?lp1] by simp
  have "lp_step ?lp1 HookPublish (announced lp)"
    using hook_publish [of ?lp1 0] assms(5) by (simp add: publish_change_def announced_def)
  moreover have "ps_step signal_capacity p (CallPublish ()) ?p" using call_publish [of signal_capacity p "()"] assms(6,7) by simp
  ultimately have 2: "dl_step (delivery_state ?lp1 p l b) (ClientDoes HookPublish) (delivery_state (announced lp) ?p l b)"
    using client_publishes [of "delivery_state ?lp1 p l b" HookPublish "announced lp" ?p] by simp
  show ?thesis using 1 2 by auto
qed

lemma publisher_delivers:
  assumes "ps_loop p = Waiting" "ps_publishing p = [()]" "ps_pub p = []" "ps_subscriptions p = [0]" "ps_box p 0 = []"
    and "\<not> sl_changed l"
  shows "lts_run dl_step (delivery_state lp p l b)
      (map PublisherDoes [Enqueue (), Take () [0], Send 0 (), Rest])
      (delivery_state lp (p\<lparr>ps_publishing := [], ps_pub := [], ps_box := (ps_box p)(0 := [()]), ps_loop := Waiting\<rparr>) (l\<lparr>sl_changed := True\<rparr>) b)"
proof -
  let ?p1 = "p\<lparr>ps_publishing := [], ps_pub := [()]\<rparr>"
  let ?p2 = "p\<lparr>ps_publishing := [], ps_pub := [], ps_loop := Sending () [0]\<rparr>"
  let ?p3 = "p\<lparr>ps_publishing := [], ps_pub := [], ps_box := (ps_box p)(0 := [()]), ps_loop := Sending () []\<rparr>"
  let ?p4 = "p\<lparr>ps_publishing := [], ps_pub := [], ps_box := (ps_box p)(0 := [()]), ps_loop := Waiting\<rparr>"
  let ?l = "l\<lparr>sl_changed := True\<rparr>"
  have "ps_step signal_capacity p (Enqueue ()) ?p1"
    using enqueue [of "()" p signal_capacity] assms(2,3) by (simp add: pub_capacity_def)
  moreover have "ps_step signal_capacity ?p1 (Take () [0]) ?p2"
    using take_msg [of ?p1 "()" "[]" "[0]" signal_capacity] assms(1,4) by simp
  moreover have "ps_step signal_capacity ?p2 (Send 0 ()) ?p3"
    using send [of ?p2 "()" 0 "[]" signal_capacity] assms(5) by (simp add: signal_capacity_def)
  moreover have "ps_step signal_capacity ?p3 Rest ?p4" using rest [of ?p3 "()" signal_capacity] by simp
  moreover have "sl_step l ConfigSignal ?l" using config_signal assms(6) .
  ultimately have "dl_step (delivery_state lp p l b) (PublisherDoes (Enqueue ())) (delivery_state lp ?p1 l b)"
    "dl_step (delivery_state lp ?p1 l b) (PublisherDoes (Take () [0])) (delivery_state lp ?p2 l b)"
    "dl_step (delivery_state lp ?p2 l b) (PublisherDoes (Send 0 ())) (delivery_state lp ?p3 ?l b)"
    "dl_step (delivery_state lp ?p3 ?l b) (PublisherDoes Rest) (delivery_state lp ?p4 ?l b)"
    using publisher_steps [of "delivery_state lp p l b" "Enqueue ()" ?p1]
      publisher_steps [of "delivery_state lp ?p1 l b" "Take () [0]" ?p2]
      publisher_signals [of "delivery_state lp ?p2 l b" ?p3 ?l]
      publisher_steps [of "delivery_state lp ?p3 ?l b" Rest ?p4] by simp_all
  then show ?thesis by auto
qed

text \<open>The stream handles the signal, when every connection has room for a message.\<close>

lemma signal_handled:
  assumes inv: "sl_inv l" and idle: "sl_phase l = StreamIdle" "sl_changed l" and box: "ps_box p 0 = [()]"
    and ready: "evaluating lp"
    and room: "\<And>c k d. (c, k, d) \<in> registered (sl_stream l) \<Longrightarrow> length (sl_box l c) < connection_capacity"
  shows "\<exists>es l'. lts_run dl_step (delivery_state lp p l b) es
        (delivery_state lp (p\<lparr>ps_box := (ps_box p)(0 := [])\<rparr>) l' False)
      \<and> list_all delivers es \<and> sl_phase l' = StreamIdle \<and> \<not> sl_changed l' \<and> sl_stopped l' = sl_stopped l
      \<and> registered (sl_stream l') = registered (sl_stream l)"
proof -
  have parts: "stream_inv (sl_stream l)" "channels_ok (sl_stream l)" "buffers_ok l"
    using inv by (simp_all add: sl_inv_def stream_inv_def)
  obtain order where order: "visits order (sl_stream l)" using visits_exists [OF parts(1)] by (elim exE)
  let ?l = "l\<lparr>sl_changed := False, sl_phase := Feeding [] (st_client (sl_stream l)) order\<rparr>"
  let ?p = "p\<lparr>ps_box := (ps_box p)(0 := [])\<rparr>"
  have take_it: "sl_step l (TakeChange order) ?l" using take_change [OF idle order] .
  moreover have "ps_step signal_capacity p (Receive 0 ()) ?p" using receive [of p 0 "()" "[]"] box by simp
  ultimately have 1: "dl_step (delivery_state lp p l b) (StreamDoes (TakeChange order)) (delivery_state lp ?p ?l False)"
    using stream_takes [of "delivery_state lp p l b" order ?l ?p] by simp
  have "buffers_ok ?l" using buffers_step [OF parts(3) take_it] .
  then obtain es l' where l': "lts_run sl_step ?l es l'" "list_all own_event es" "sl_phase l' = StreamIdle"
      "sl_stream l' = completed ?l" "same_queues ?l l'"
    using visit_all [of ?l "st_client (sl_stream l)" order] parts(2) order room by (auto simp: visits_def)
  have "stream_alone lp l0 e" if "e \<in> set es" for e l0
    using l'(2) that ready by (cases e) (auto simp: list_all_iff)
  then have 2: "lts_run dl_step (delivery_state lp ?p ?l False) (map StreamDoes es) (delivery_state lp ?p l' False)"
    using stream_lifts [of "delivery_state lp ?p ?l False" es l'] l'(1) by simp
  have "registered (sl_stream l') = registered (sl_stream l)"
    using notify_loop_ok [OF parts(2), of order 0] l'(4) by (simp add: notify_loop_foldl)
  moreover have "delivers (StreamDoes e)" if "e \<in> set es" for e
    using l'(2) that by (cases e) (auto simp: list_all_iff)
  then have "list_all delivers (StreamDoes (TakeChange order) # map StreamDoes es)" by (simp add: list_all_iff)
  moreover have "lts_run dl_step (delivery_state lp p l b) (StreamDoes (TakeChange order) # map StreamDoes es)
      (delivery_state lp ?p l' False)" using 1 2 by auto
  moreover have "\<not> sl_changed l'" "sl_stopped l' = sl_stopped l" using l'(5) by (simp_all add: same_queues_def)
  ultimately show ?thesis using l'(3) by blast
qed

lemma delivery_completes:
  assumes inv: "sl_inv l" "online (lp_client lp)" "cl_initialized (lp_client lp)"
    and lp: "lp_hooks lp = 1" "lp_publishing lp = 0" "\<not> lp_stopped lp" "evaluating lp"
    and p: "ps_loop p = Waiting" "ps_publishing p = []" "ps_pub p = []" "ps_subscriptions p = [0]" "ps_box p 0 = []"
      "\<not> ps_stopped p"
    and l: "sl_phase l = StreamIdle" "\<not> sl_changed l" "st_client (sl_stream l) = lp_client lp"
    and room: "\<And>c k d. (c, k, d) \<in> registered (sl_stream l) \<Longrightarrow> length (sl_box l c) < connection_capacity"
  shows "\<exists>es t. lts_run dl_step (delivery_state lp p l b) es t \<and> list_all delivers es \<and> quiescent t
    \<and> lp_client (dl_client t) = lp_client lp \<and> lp_stopped (dl_client t) = lp_stopped lp
    \<and> sl_stopped (dl_stream t) = sl_stopped l \<and> registered (sl_stream (dl_stream t)) = registered (sl_stream l)"
proof -
  let ?lp = "announced lp" and ?l = "l\<lparr>sl_changed := True\<rparr>"
  let ?p = "p\<lparr>ps_publishing := [], ps_pub := [], ps_box := (ps_box p)(0 := [()]), ps_loop := Waiting\<rparr>"
  note 1 = hook_publishes [OF inv(2,3) lp(1-3) p(2,6) l(1,3), of b]
  let ?p1 = "p\<lparr>ps_publishing := [()]\<rparr>"
  have 2: "lts_run dl_step (delivery_state ?lp ?p1 l b) (map PublisherDoes [Enqueue (), Take () [0], Send 0 (), Rest])
      (delivery_state ?lp ?p ?l b)"
    using publisher_delivers [of ?p1 l ?lp b] p l(2) by simp
  have "sl_inv ?l" using stream_goroutine.step_inv [OF inv(1) config_signal [OF l(2)]] .
  moreover have "evaluating ?lp" using lp(4) by (simp add: evaluating_def announced_def)
  ultimately obtain es l' where 3: "lts_run dl_step (delivery_state ?lp ?p ?l b) es
        (delivery_state ?lp (?p\<lparr>ps_box := (ps_box ?p)(0 := [])\<rparr>) l' False)"
      "list_all delivers es" "sl_phase l' = StreamIdle" "\<not> sl_changed l'" "sl_stopped l' = sl_stopped l"
      "registered (sl_stream l') = registered (sl_stream l)"
    using signal_handled [of ?l ?p ?lp b] l(1) room by auto
  let ?t = "delivery_state ?lp (?p\<lparr>ps_box := (ps_box ?p)(0 := [])\<rparr>) l' False"
  let ?es = "[ClientDoes HookRun, ClientDoes HookPublish] @ map PublisherDoes [Enqueue (), Take () [0], Send 0 (), Rest] @ es"
  have "lts_run dl_step (delivery_state lp p l b) ?es ?t" using 1 2 3(1) unfolding lts_run_append by blast
  moreover have "list_all delivers ?es" using 3(2) by simp
  moreover have "quiescent ?t" using 3(3,4) by (simp add: quiescent_def announced_def in_flight_def)
  moreover have "lp_client ?lp = lp_client lp" "lp_stopped ?lp = lp_stopped lp" by (simp_all add: announced_def)
  ultimately show ?thesis using 3(5,6) by (intro exI [of _ ?es] exI [of _ ?t]) simp
qed

text \<open>What the client loads while nothing is on its way.\<close>

lemma refresh_from_quiet:
  assumes "dl_step s (ClientDoes (RefreshLoads r)) s1" "snd r \<noteq> None" "quiescent s" "in_step s" "account (dl_client s)"
  shows "\<exists>lp l. s1 = delivery_state lp (dl_pub s) l (dl_behind s) \<and> lp_hooks lp = 1 \<and> lp_publishing lp = 0
    \<and> lp_stopped lp = lp_stopped (dl_client s) \<and> evaluating lp = evaluating (dl_client s) \<and> online (lp_client lp)
    \<and> cl_initialized (lp_client lp) = cl_initialized (lp_client (dl_client s)) \<and> st_client (sl_stream l) = lp_client lp
    \<and> sl_phase l = StreamIdle \<and> \<not> sl_changed l \<and> sl_stopped l = sl_stopped (dl_stream s)
    \<and> registered (sl_stream l) = registered (sl_stream (dl_stream s)) \<and> sl_box l = sl_box (dl_stream s)"
proof -
  obtain lp where lp: "lp_step (dl_client s) (RefreshLoads r) lp"
    "s1 = s\<lparr>dl_client := lp, dl_stream := follow (dl_behind s) (lp_client lp) (dl_stream s)\<rparr>"
    using assms(1) by (auto simp: dl_step_simps)
  have on: "online (lp_client (dl_client s))" "online (lp_client lp)"
    using assms(5) same_client_online [OF step_same_client [OF lp(1)]] by (simp_all add: account_def)
  have "lp_hooks lp = 1"
    using lp(1) assms(2,3) on(1)
    by (auto simp: lp_step_simps load_config_def cache_written_def client_offline_def online_def Let_def quiescent_def
        split: option.splits)
  moreover have "lp_publishing lp = lp_publishing (dl_client s)" "lp_stopped lp = lp_stopped (dl_client s)"
    "evaluating lp = evaluating (dl_client s)" "cl_initialized (lp_client lp) = cl_initialized (lp_client (dl_client s))"
    using lp(1) by (auto simp: lp_step_simps loop_simps evaluating_def)
  moreover have "sl_phase (follow (dl_behind s) (lp_client lp) (dl_stream s)) = StreamIdle"
    using assms(3) by (simp add: quiescent_def)
  moreover have "registered (sl_stream (follow (dl_behind s) (lp_client lp) (dl_stream s))) = registered (sl_stream (dl_stream s))"
    by (simp add: follow_def)
  ultimately show ?thesis
    using lp(2) on(2) assms(3)
    by (intro exI [of _ lp] exI [of _ "follow (dl_behind s) (lp_client lp) (dl_stream s)"]) (cases s, simp add: quiescent_def)
qed

lemma refresh_delivered:
  assumes ok: "in_step s" "told s" and quiet: "quiescent s" "\<not> lp_stopped (dl_client s)" "\<not> sl_stopped (dl_stream s)"
    and load: "dl_step s (ClientDoes (RefreshLoads r)) s1" "snd r \<noteq> None"
    and client: "cl_initialized (lp_client (dl_client s))" "evaluating (dl_client s)"
    and pub: "ps_loop (dl_pub s) = Waiting" "ps_subscriptions (dl_pub s) = [0]"
    and room: "\<And>c k d. (c, k, d) \<in> registered (sl_stream (dl_stream s)) \<Longrightarrow>
      length (sl_box (dl_stream s) c) < connection_capacity"
  shows "\<exists>fs t. lts_run dl_step s1 fs t \<and> list_all delivers fs \<and> quiescent t \<and> in_step t \<and> told t
    \<and> lp_client (dl_client t) = lp_client (dl_client s1) \<and> \<not> lp_stopped (dl_client t) \<and> \<not> sl_stopped (dl_stream t)
    \<and> registered (sl_stream (dl_stream t)) = registered (sl_stream (dl_stream s))"
proof -
  obtain lp l where s1: "s1 = delivery_state lp (dl_pub s) l (dl_behind s)"
    and lp: "lp_hooks lp = 1" "lp_publishing lp = 0" "lp_stopped lp = lp_stopped (dl_client s)"
      "evaluating lp = evaluating (dl_client s)" "online (lp_client lp)"
      "cl_initialized (lp_client lp) = cl_initialized (lp_client (dl_client s))"
    and l: "st_client (sl_stream l) = lp_client lp" "sl_phase l = StreamIdle" "\<not> sl_changed l"
      "sl_stopped l = sl_stopped (dl_stream s)" "registered (sl_stream l) = registered (sl_stream (dl_stream s))"
      "sl_box l = sl_box (dl_stream s)"
    using refresh_from_quiet [OF load quiet(1) ok(1) toldD(1) [OF ok(2)]] by blast
  have ok1: "in_step s1" "told s1" using in_step_step [OF ok(1) load(1)] told_step [OF ok load(1)] by simp_all
  have p: "ps_publishing (dl_pub s) = []" "ps_pub (dl_pub s) = []" using quiet(1) by (simp_all add: quiescent_def)
  have "ps_box (dl_pub s) 0 = []" using in_stepD(3) [OF ok1(1)] l(3) by (simp add: s1)
  moreover have "\<not> ps_stopped (dl_pub s)" using in_stepD(6) [OF ok(1)] quiet(2) by simp
  moreover have "sl_inv l" using in_stepD(2) [OF ok1(1)] by (simp add: s1)
  ultimately obtain fs t where t: "lts_run dl_step s1 fs t" "list_all delivers fs" "quiescent t"
      "lp_client (dl_client t) = lp_client lp" "lp_stopped (dl_client t) = lp_stopped lp"
      "sl_stopped (dl_stream t) = sl_stopped l" "registered (sl_stream (dl_stream t)) = registered (sl_stream l)"
    using delivery_completes [of l lp "dl_pub s" "dl_behind s"] lp l p pub client quiet(2) room by (auto simp: s1)
  have "\<not> replaces e" if "delivers e" for e using that by (cases e) simp_all
  then have "list_all (\<lambda>e. \<not> replaces e) fs" using t(2) by (auto simp: list_all_iff)
  from delivery_told.run_inv [OF conjI [OF ok1] lts_run_restrict [OF t(1) this]]
  have "in_step t" "told t" by simp_all
  moreover have "lp_client (dl_client s1) = lp_client lp" by (simp add: s1)
  ultimately show ?thesis using t lp(3) l(4,5) quiet(2,3) by (intro exI [of _ fs] exI [of _ t]) simp
qed

section \<open>Properties\<close>

lemma flag_config_evaluates: "evaluates (c\<lparr>cl_snapshot := flag_config v\<rparr>) ''flag'' ch"
  by (cases ch) (simp_all add: Eval_def EvalAll_def eval_data_of_def flag_config_def flag_details_def)

text \<open>
  C5: from the client to the connection, nothing is lost: whenever nothing is on its way, every channel
  of the stream whose flag evaluates stands at the value of the configuration that the client has
  loaded last, and what its connections have read or still have in their buffers ends with it.
  The client is online, it is not replaced, and neither it nor the stream has been closed.
\<close>

theorem configurations_delivered:
  assumes "\<not> off_Enabled (sdk_Offline (cx_SDKConf cx))" and "en_Empty stored"
    and "subscribed (NewClient produce stored sn cx) lp ps"
    and "lts_run dl_step (NewDelivery lp ps) es s" and "list_all (\<lambda>e. \<not> replaces e) es"
    and "quiescent s" and "\<not> lp_stopped (dl_client s)" and "\<not> sl_stopped (dl_stream s)"
    and "chan_at (sl_stream (dl_stream s)) k d = Some ch" and "evaluates (lp_client (dl_client s)) k ch"
  shows "up_to_date (lp_client (dl_client s)) k ch \<and>
    (\<forall>conn \<in> set (connections ch). let ms = sl_read (dl_stream s) conn @ sl_box (dl_stream s) conn
       in ms \<noteq> [] \<and> last ms = LastPayload ch)"
proof -
  have c: "online (NewClient produce stored sn cx)" "\<not> cl_initialized (NewClient produce stored sn cx)"
    "\<not> IsInValidState (NewClient produce stored sn cx)"
    using assms(2) online_NewClient [OF assms(1)] by (simp_all add: client_simps)
  note run = delivery_runs [OF assms(3) c assms(4,5)]
  show ?thesis
    using quiescent_delivered [OF run(1,2) assms(6-10)] by simp
qed

theorem configurations_delivered_witness:
  "\<exists>es s ch. lts_run dl_step (NewDelivery (first_loop online_client ([], 0, []) (flag_config True)) one_subscriber) es s
     \<and> chan_at (sl_stream (dl_stream s)) ''flag'' 0 = Some ch \<and> up_to_date (lp_client (dl_client s)) ''flag'' ch"
proof -
  let ?w = "([], 0, []) :: bytes \<times> int \<times> string" and ?k = "''flag''"
  let ?lp = "first_loop online_client ?w (flag_config True)" and ?c = "first_config online_client ?w (flag_config True)"
  let ?s = "\<lambda>sl. NewDelivery ?lp one_subscriber\<lparr>dl_stream := sl\<rparr>"
  have k: "?k \<noteq> AllFlagsDiscriminator" by (simp add: AllFlagsDiscriminator_def)
  obtain es sl where run: "lts_run dl_step (NewDelivery ?lp one_subscriber) es (?s sl)" "list_all (\<lambda>e. \<not> replaces e) es"
    "one_conn ?k None ?c 1 sl"
    using one_conn_delivery [OF online_client_online(1,2) k] by blast
  let ?ch = "SingleFlagChannel (Some (PayloadFromEvalData (Eval ?c ?k None))) \<lparr>ch_connections = [0], ch_user = None\<rparr>"
  have sub: "subscribed online_client ?lp one_subscriber"
    by (rule subscribed_run [OF first_load_run [OF online_client_online(1,2)] online_client_online(3)])
  have at: "chan_at (sl_stream (dl_stream (?s sl))) ?k 0 = Some ?ch"
    using run(3) by (simp add: one_conn_def)
  have lp: "lp_client (dl_client (?s sl)) = ?c" by (simp add: NewDelivery_def first_loop_def)
  have "up_to_date (lp_client (dl_client (?s sl))) ?k ?ch \<and>
    (\<forall>conn \<in> set (connections ?ch). let ms = sl_read (dl_stream (?s sl)) conn @ sl_box (dl_stream (?s sl)) conn
       in ms \<noteq> [] \<and> last ms = LastPayload ?ch)"
  proof (rule configurations_delivered [OF main_ctx_online sub [unfolded online_client_def] run(1) [unfolded online_client_def] run(2),
        folded online_client_def])
    show "quiescent (?s sl)" by (rule quiescent_one_conn [OF run(3)]) (simp_all add: first_loop_def)
    show "chan_at (sl_stream (dl_stream (?s sl))) ?k 0 = Some ?ch" by (rule at)
    show "evaluates (lp_client (dl_client (?s sl))) ?k ?ch"
      unfolding lp by (simp add: flag_config_eval)
  qed (use run(3) in \<open>simp_all add: NewDelivery_def first_loop_def one_conn_def\<close>)
  then show ?thesis using run(1) at by blast
qed

text \<open>
  C6: a configuration that the client loads is delivered, by steps that the proxy takes on its own: the
  hook runs and publishes, the publisher signals the stream, and the stream notifies its channels.
  Then nothing is on its way, every channel whose flag evaluates stands at the value of the new
  configuration, and every connection has it, as read or in its buffer. The client is online, has
  been initialised and is neither replaced nor closed, the stream is the only subscriber, nothing
  was on its way before, and every connection has room for a message.
\<close>

theorem change_delivered:
  assumes "\<not> off_Enabled (sdk_Offline (cx_SDKConf cx))" and "en_Empty stored"
    and "subscribed (NewClient produce stored sn cx) lp ps"
    and "lts_run dl_step (NewDelivery lp ps) es s" and "list_all (\<lambda>e. \<not> replaces e) es"
    and "quiescent s" and "\<not> lp_stopped (dl_client s)" and "\<not> sl_stopped (dl_stream s)"
    and "dl_step s (ClientDoes (RefreshLoads r)) s1" and "snd r \<noteq> None"
    and "cl_initialized (lp_client (dl_client s))" and "evaluating (dl_client s)"
    and "ps_loop (dl_pub s) = Waiting" and "ps_subscriptions (dl_pub s) = [0]"
    and "\<forall>conn k d. (conn, k, d) \<in> registered (sl_stream (dl_stream s)) \<longrightarrow>
      length (sl_box (dl_stream s) conn) < connection_capacity"
  shows "\<exists>fs t. lts_run dl_step s1 fs t \<and> list_all delivers fs \<and> quiescent t
    \<and> lp_client (dl_client t) = lp_client (dl_client s1)
    \<and> registered (sl_stream (dl_stream t)) = registered (sl_stream (dl_stream s))
    \<and> (\<forall>k d ch. chan_at (sl_stream (dl_stream t)) k d = Some ch \<and> evaluates (lp_client (dl_client s1)) k ch \<longrightarrow>
         up_to_date (lp_client (dl_client s1)) k ch \<and>
         (\<forall>conn \<in> set (connections ch). let ms = sl_read (dl_stream t) conn @ sl_box (dl_stream t) conn
            in ms \<noteq> [] \<and> last ms = LastPayload ch))"
proof -
  have c: "online (NewClient produce stored sn cx)" "\<not> cl_initialized (NewClient produce stored sn cx)"
    "\<not> IsInValidState (NewClient produce stored sn cx)"
    using assms(2) online_NewClient [OF assms(1)] by (simp_all add: client_simps)
  note run = delivery_runs [OF assms(3) c assms(4,5)]
  obtain fs t where t: "lts_run dl_step s1 fs t" "list_all delivers fs" "quiescent t" "in_step t" "told t"
      "lp_client (dl_client t) = lp_client (dl_client s1)" "\<not> lp_stopped (dl_client t)" "\<not> sl_stopped (dl_stream t)"
      "registered (sl_stream (dl_stream t)) = registered (sl_stream (dl_stream s))"
    using refresh_delivered [OF run assms(6-14)] assms(15) by blast
  from quiescent_delivered [OF t(4,5,3,7,8), unfolded t(6)] show ?thesis
    using t(1,2,3,6,9) by (intro exI [of _ fs] exI [of _ t]) blast
qed

text \<open>A flag is on, a handler has connected, and a refresh finds it off.\<close>

theorem change_delivered_witness:
  "\<exists>es s fs t ch. lts_run dl_step (NewDelivery (first_loop online_client ([], 0, []) (flag_config True)) one_subscriber) es s
     \<and> lts_run dl_step s (ClientDoes (RefreshLoads (Some ([], 1, []), Some (flag_config False))) # fs) t
     \<and> list_all delivers fs \<and> chan_at (sl_stream (dl_stream t)) ''flag'' 0 = Some ch
     \<and> up_to_date (lp_client (dl_client t)) ''flag'' ch
     \<and> last (sl_read (dl_stream t) 0 @ sl_box (dl_stream t) 0) = LastPayload ch"
proof -
  let ?w = "([], 0, []) :: bytes \<times> int \<times> string" and ?k = "''flag''"
  let ?lp = "first_loop online_client ?w (flag_config True)" and ?c = "first_config online_client ?w (flag_config True)"
  let ?r = "(Some ([], 1, []), Some (flag_config False)) :: fetched"
  have k: "?k \<noteq> AllFlagsDiscriminator" by (simp add: AllFlagsDiscriminator_def)
  obtain es sl where run: "lts_run dl_step (NewDelivery ?lp one_subscriber) es (NewDelivery ?lp one_subscriber\<lparr>dl_stream := sl\<rparr>)"
    "list_all (\<lambda>e. \<not> replaces e) es" "one_conn ?k None ?c 1 sl"
    using one_conn_delivery [OF online_client_online(1,2) k] by blast
  note sl = run(3) [unfolded one_conn_def]
  have sub: "subscribed online_client ?lp one_subscriber"
    by (rule subscribed_run [OF first_load_run [OF online_client_online(1,2)] online_client_online(3)])
  let ?lpr = "?lp\<lparr>lp_refreshing := 1\<rparr>" and ?lpn = "(load_config ?r (?lp\<lparr>lp_refreshing := 1\<rparr>))\<lparr>lp_refreshing := 0\<rparr>"
  let ?s = "NewDelivery ?lpr one_subscriber\<lparr>dl_stream := sl\<rparr>"
  let ?s1 = "?s\<lparr>dl_client := ?lpn, dl_stream := follow False (lp_client ?lpn) sl\<rparr>"
  have lp: "lp_client ?lp = ?c" "lp_refreshing ?lp = 0" "lp_loaded ?lp = 1"
    by (simp_all add: first_loop_def)
  have "lp_step ?lp CallRefresh ?lpr" using call_refresh [of ?lp] lp by simp
  then have "lts_run dl_step (NewDelivery ?lp one_subscriber\<lparr>dl_stream := sl\<rparr>) [ClientDoes CallRefresh] ?s"
    using client_alone [of "NewDelivery ?lp one_subscriber\<lparr>dl_stream := sl\<rparr>" CallRefresh ?lpr] follow_same [of sl ?c] sl lp
    by (simp add: NewDelivery_def)
  with run(1) have run': "lts_run dl_step (NewDelivery ?lp one_subscriber) (es @ [ClientDoes CallRefresh]) ?s"
    unfolding lts_run_append by blast
  have "lp_step ?lpr (RefreshLoads ?r) ?lpn" by (rule refresh_loads) (simp_all add: fetches_def)
  then have step: "dl_step ?s (ClientDoes (RefreshLoads ?r)) ?s1"
    using client_alone [of ?s "RefreshLoads ?r" ?lpn] by (simp add: NewDelivery_def)
  have room: "\<forall>conn k d. (conn, k, d) \<in> registered (sl_stream (dl_stream ?s)) \<longrightarrow>
      length (sl_box (dl_stream ?s) conn) < connection_capacity"
    using one_conn_registered [OF run(3)] sl by (simp add: connection_capacity_def)
  have "\<exists>fs t. lts_run dl_step ?s1 fs t \<and> list_all delivers fs \<and> quiescent t
    \<and> lp_client (dl_client t) = lp_client (dl_client ?s1)
    \<and> registered (sl_stream (dl_stream t)) = registered (sl_stream (dl_stream ?s))
    \<and> (\<forall>k d ch. chan_at (sl_stream (dl_stream t)) k d = Some ch \<and> evaluates (lp_client (dl_client ?s1)) k ch \<longrightarrow>
         up_to_date (lp_client (dl_client ?s1)) k ch \<and>
         (\<forall>conn \<in> set (connections ch). let ms = sl_read (dl_stream t) conn @ sl_box (dl_stream t) conn
            in ms \<noteq> [] \<and> last ms = LastPayload ch))"
  proof (rule change_delivered [OF main_ctx_online sub [unfolded online_client_def] run' [unfolded online_client_def] _ _ _ _
        step [unfolded online_client_def] _ _ _ _ _ room [unfolded online_client_def], folded online_client_def])
    show "quiescent ?s" by (rule quiescent_one_conn [OF run(3)]) (simp_all add: first_loop_def)
    show "cl_initialized (lp_client (dl_client ?s))" by (simp add: NewDelivery_def lp first_config_def)
    show "evaluating (dl_client ?s)" by (simp add: NewDelivery_def evaluating_def first_loop_def)
  qed (use run(2) sl in \<open>simp_all add: NewDelivery_def first_loop_def NewPublisher_def\<close>)
  then obtain fs t where t: "lts_run dl_step ?s1 fs t" "list_all delivers fs"
    "lp_client (dl_client t) = lp_client (dl_client ?s1)" "registered (sl_stream (dl_stream t)) = registered (sl_stream sl)"
    "\<And>k d ch. chan_at (sl_stream (dl_stream t)) k d = Some ch \<Longrightarrow> evaluates (lp_client (dl_client ?s1)) k ch \<Longrightarrow>
       up_to_date (lp_client (dl_client ?s1)) k ch \<and> (\<forall>conn \<in> set (connections ch).
         last (sl_read (dl_stream t) conn @ sl_box (dl_stream t) conn) = LastPayload ch)"
    unfolding Let_def by auto
  have "(0, ?k, 0) \<in> registered (sl_stream sl)" using one_conn_registered [OF run(3)] by simp
  then obtain ch where ch: "chan_at (sl_stream (dl_stream t)) ?k 0 = Some ch" "0 \<in> set (connections ch)"
    unfolding t(4) [symmetric] by (auto simp: registered_def)
  have "evaluates (lp_client (dl_client ?s1)) ?k ch"
    by (simp add: load_config_def Let_def flag_config_evaluates)
  from t(5) [OF ch(1) this] ch(2)
  have "up_to_date (lp_client (dl_client t)) ?k ch" "last (sl_read (dl_stream t) 0 @ sl_box (dl_stream t) 0) = LastPayload ch"
    unfolding t(3) by auto
  moreover have "lts_run dl_step ?s (ClientDoes (RefreshLoads ?r) # fs) t" using step t(1) by auto
  ultimately show ?thesis using run' t(2) ch(1) by blast
qed

text \<open>
  C37: a client that is put in the place of another goes unnoticed: the stream is not signalled, and the
  first configuration of the new client is not announced, so no connection that was established
  before is sent anything until the new client has loaded a second configuration, whatever the
  values that its first one gives.
\<close>

theorem replacement_unnoticed:
  assumes "\<not> off_Enabled (sdk_Offline (cx_SDKConf cx))" and "en_Empty stored"
    and "subscribed (NewClient produce stored sn cx) lp ps" and "\<not> carried ps"
    and "sl_phase (dl_stream s) = StreamIdle" and "\<not> sl_changed (dl_stream s)"
    and "dl_step s (ClientReplaced lp ps) s1"
    and "lts_run dl_step s1 es t" and "list_all (\<lambda>e. \<not> replaces e) es" and "lp_loaded (dl_client t) \<le> 1"
    and "sl_conns (dl_stream s) conn \<noteq> None" and "conn \<notin> ce_conn ` set (sl_establishing (dl_stream s))"
  shows "st_sent (sl_stream (dl_stream t)) conn = st_sent (sl_stream (dl_stream s)) conn"
proof -
  have "account lp"
    by (rule client_account_runs [OF assms(3)]) (use assms(2) online_NewClient [OF assms(1)] in \<open>simp_all add: client_simps\<close>)
  note start = unnoticed_start [OF assms(7) this assms(4-6)]
  from delivery_unnoticed.run_inv [OF start lts_run_restrict [OF assms(8,9)]]
  show ?thesis using assms(10-12) by (simp add: unnoticed_def)
qed

text \<open>A flag is on, a handler has connected, and the client is replaced by one whose configuration has it off.\<close>

theorem replacement_unnoticed_witness:
  "\<exists>es fs s t ch. lts_run dl_step (NewDelivery (first_loop online_client ([], 0, []) (flag_config True)) one_subscriber) es s
     \<and> lts_run dl_step s (ClientReplaced (NewClientLoop online_client) one_subscriber # fs) t \<and> quiescent t
     \<and> chan_at (sl_stream (dl_stream t)) ''flag'' 0 = Some ch \<and> evaluates (lp_client (dl_client t)) ''flag'' ch
     \<and> \<not> up_to_date (lp_client (dl_client t)) ''flag'' ch
     \<and> st_sent (sl_stream (dl_stream t)) 0 = st_sent (sl_stream (dl_stream s)) 0"
proof -
  let ?w = "([], 0, []) :: bytes \<times> int \<times> string" and ?k = "''flag''"
  let ?lp = "first_loop online_client ?w (flag_config True)" and ?c = "first_config online_client ?w (flag_config True)"
  let ?lp' = "first_loop online_client ?w (flag_config False)" and ?c' = "first_config online_client ?w (flag_config False)"
  have k: "?k \<noteq> AllFlagsDiscriminator" by (simp add: AllFlagsDiscriminator_def)
  obtain es sl where run: "lts_run dl_step (NewDelivery ?lp one_subscriber) es (NewDelivery ?lp one_subscriber\<lparr>dl_stream := sl\<rparr>)"
    "one_conn ?k None ?c 1 sl"
    using one_conn_delivery [OF online_client_online(1,2) k] by blast
  let ?s = "NewDelivery ?lp one_subscriber\<lparr>dl_stream := sl\<rparr>"
  note sl = run(2) [unfolded one_conn_def]
  let ?sl1 = "sl\<lparr>sl_stream := (sl_stream sl)\<lparr>st_client := online_client\<rparr>\<rparr>"
  let ?s1 = "\<lparr>dl_client = NewClientLoop online_client, dl_pub = one_subscriber, dl_stream = ?sl1, dl_behind = False\<rparr>"
  have sub: "subscribed online_client (NewClientLoop online_client) one_subscriber"
    by (rule subscribed_run [where es = "[]"]) simp_all
  have one: "dl_step ?s (ClientReplaced (NewClientLoop online_client) one_subscriber) ?s1"
    using sub sl by (auto simp: dl_step_simps sl_step_simps NewDelivery_def NewPublisher_def)
  let ?fs = "map ClientDoes (first_load ?w (flag_config False))"
  let ?t = "?s1\<lparr>dl_client := ?lp', dl_stream := ?sl1\<lparr>sl_stream := (sl_stream ?sl1)\<lparr>st_client := lp_client ?lp'\<rparr>\<rparr>\<rparr>"
  have fs: "lts_run dl_step ?s1 ?fs ?t"
    using client_lifts [of ?s1 "first_load ?w (flag_config False)" ?lp'] first_load_run [OF online_client_online(1,2)] sl
    by (simp add: first_load_def)
  have "st_sent (sl_stream (dl_stream ?t)) 0 = st_sent (sl_stream (dl_stream ?s)) 0"
    by (rule replacement_unnoticed [OF main_ctx_online sub [unfolded online_client_def] _ _ _ one [unfolded online_client_def]
        fs [unfolded online_client_def], folded online_client_def])
      (use sl in \<open>simp_all add: first_load_def first_loop_def carried_New\<close>)
  moreover have "chan_at (sl_stream (dl_stream ?t)) ?k 0 =
      Some (SingleFlagChannel (Some (PayloadFromEvalData (Eval ?c ?k None))) \<lparr>ch_connections = [0], ch_user = None\<rparr>)"
    using sl by simp
  moreover have "quiescent ?t" using sl by (simp add: quiescent_def first_loop_def in_flight_def NewPublisher_def)
  moreover have "lp_client (dl_client ?t) = ?c'" by (simp add: first_loop_def)
  moreover have "lts_run dl_step ?s (ClientReplaced (NewClientLoop online_client) one_subscriber # ?fs) ?t"
    using one fs by auto
  ultimately show ?thesis using run(1)
    by (intro exI conjI) (assumption | simp add: flag_config_eval PayloadFromEvalData_def)+
qed

end
