(* ===== verification/FileLoop.thy ===== *)
theory FileLoop
  imports FileStore
begin

text \<open>
  The goroutines behind a local configuration file (\<open>sdk/store/file\<close>, \<open>sdk/store/notifier.go\<close>): \<open>run\<close> of the
  watcher, which polls the file or gets the events of its directory, the notifier between the
  watcher and the store, and \<open>run\<close> of the store, which reads the file again and wakes the client by
  the machine of theory \<open>Store\<close>. The file is the environment: it is written in place, or
  another file is renamed over it, at any time, also while it is being read.
\<close>

section \<open>Definitions\<close>

text \<open>Where \<open>run\<close> of the watcher is: in its \<open>select\<close>, in \<open>Notify\<close> before or in the send, or returned.\<close>

datatype watcher_phase = Watching | WatcherNotifies | WatcherSends | WatcherReturned

text \<open>\<open>fl_reading\<close>: the store has received from the watcher and is about to read the file.\<close>

record file_loop =
  fl_content :: bytes
  fl_modified :: int
  fl_watch :: file_watch
  fl_events :: "(string \<times> bool) list"
  fl_phase :: watcher_phase
  fl_token :: bool
  fl_closed :: bool
  fl_reading :: bool
  fl_served :: "file_store watched"

definition fl_stat :: "file_loop \<Rightarrow> int \<times> int" where
  "fl_stat s = (fl_modified s, int (length (fl_content s)))"

definition NewFileLoop :: "bytes \<Rightarrow> int \<Rightarrow> file_watch \<Rightarrow> file_store \<Rightarrow> entry \<Rightarrow> file_loop" where
  "NewFileLoop content modified w st seen =
     \<lparr>fl_content = content, fl_modified = modified, fl_watch = w, fl_events = [], fl_phase = Watching,
      fl_token = False, fl_closed = False, fl_reading = False, fl_served = watched_start st seen\<rparr>"

text \<open>The event that the directory of the file reports, when there is a watch on it.\<close>

definition report_event :: "bool \<Rightarrow> file_loop \<Rightarrow> (string \<times> bool) list" where
  "report_event write s = (case fl_watch s of EventWatch path \<Rightarrow> fl_events s @ [(path, write)] | _ \<Rightarrow> fl_events s)"

datatype fl_event =
    WriteFile bytes int | RenameOver bytes int | OtherEvent string bool
  | PollFile | StatFails | TakeEvent | WatcherCheck | WatcherSend | WatcherReturn
  | StoreTakes | StoreReads int | StoreFails string int | StoreDoes "(bytes res \<times> int) watch_event"
  | CloseFileStore | CloseWatcher | ReceiveClosed

text \<open>What the store does on its own; a reload follows a receive from the watcher.\<close>

fun store_alone :: "(bytes res \<times> int) watch_event \<Rightarrow> bool" where
  "store_alone (Tick i) = False"
| "store_alone CloseStore = False"
| "store_alone _ = True"

inductive fl_step ::
  "(bytes \<Rightarrow> bytes res) \<Rightarrow> (bytes \<Rightarrow> bytes) \<Rightarrow> string \<Rightarrow> file_loop \<Rightarrow> fl_event \<Rightarrow> file_loop \<Rightarrow> bool"
  for normalise :: "bytes \<Rightarrow> bytes res" and xxhash :: "bytes \<Rightarrow> bytes" and sdkId :: string where
  write_file: "fl_step normalise xxhash sdkId s (WriteFile data t)
     (s\<lparr>fl_content := data, fl_modified := t, fl_events := report_event True s\<rparr>)"
| rename_over: "fl_step normalise xxhash sdkId s (RenameOver data t)
     (s\<lparr>fl_content := data, fl_modified := t, fl_events := report_event False s\<rparr>)"
| other_event: "fl_watch s = EventWatch path \<Longrightarrow> name \<noteq> path \<Longrightarrow>
     fl_step normalise xxhash sdkId s (OtherEvent name write) (s\<lparr>fl_events := fl_events s @ [(name, write)]\<rparr>)"
| poll_file: "fl_phase s = Watching \<Longrightarrow> fl_watch s = PollWatch p \<Longrightarrow> pollWatcher_tick (Inr (fl_stat s)) p = (notify, p') \<Longrightarrow>
     fl_step normalise xxhash sdkId s PollFile
       (s\<lparr>fl_watch := PollWatch p', fl_phase := (if notify then WatcherNotifies else Watching)\<rparr>)"
| stat_fails: "fl_phase s = Watching \<Longrightarrow> fl_watch s = PollWatch p \<Longrightarrow> fl_step normalise xxhash sdkId s StatFails s"
| take_event: "fl_phase s = Watching \<Longrightarrow> fl_watch s = EventWatch path \<Longrightarrow> fl_events s = ev # evs \<Longrightarrow>
     fl_step normalise xxhash sdkId s TakeEvent
       (s\<lparr>fl_events := evs, fl_phase := (if fileWatcher_event path ev then WatcherNotifies else Watching)\<rparr>)"
| watcher_check: "fl_phase s = WatcherNotifies \<Longrightarrow>
     fl_step normalise xxhash sdkId s WatcherCheck
       (s\<lparr>fl_phase := (if fl_closed s then Watching else WatcherSends)\<rparr>)"
| watcher_send: "fl_phase s = WatcherSends \<Longrightarrow> \<not> fl_token s \<Longrightarrow>
     fl_step normalise xxhash sdkId s WatcherSend (s\<lparr>fl_token := True, fl_phase := Watching\<rparr>)"
| watcher_return: "fl_phase s = Watching \<Longrightarrow> fl_closed s \<Longrightarrow> fl_watch s \<noteq> NullWatch \<Longrightarrow>
     fl_step normalise xxhash sdkId s WatcherReturn (s\<lparr>fl_phase := WatcherReturned\<rparr>)"
| store_takes: "wd_phase (fl_served s) = PollLoop \<Longrightarrow> \<not> fl_reading s \<Longrightarrow> fl_token s \<Longrightarrow>
     fl_step normalise xxhash sdkId s StoreTakes (s\<lparr>fl_token := False, fl_reading := True\<rparr>)"
| receive_closed: "wd_phase (fl_served s) = PollLoop \<Longrightarrow> \<not> fl_reading s \<Longrightarrow> fl_watch s = NullWatch \<Longrightarrow> fl_closed s \<Longrightarrow>
     fl_step normalise xxhash sdkId s ReceiveClosed (s\<lparr>fl_reading := True\<rparr>)"
| store_reads: "fl_reading s \<Longrightarrow>
     watch_step (file_reload normalise xxhash sdkId) fs_entry (fl_served s) (Tick (Inr (fl_content s), now)) w \<Longrightarrow>
     fl_step normalise xxhash sdkId s (StoreReads now) (s\<lparr>fl_reading := False, fl_served := w\<rparr>)"
| store_fails: "fl_reading s \<Longrightarrow>
     watch_step (file_reload normalise xxhash sdkId) fs_entry (fl_served s) (Tick (Inl err, now)) w \<Longrightarrow>
     fl_step normalise xxhash sdkId s (StoreFails err now) (s\<lparr>fl_reading := False, fl_served := w\<rparr>)"
| store_does: "store_alone e \<Longrightarrow> \<not> (fl_reading s \<and> e = ReturnRun) \<Longrightarrow>
     watch_step (file_reload normalise xxhash sdkId) fs_entry (fl_served s) e w \<Longrightarrow>
     fl_step normalise xxhash sdkId s (StoreDoes e) (s\<lparr>fl_served := w\<rparr>)"
| close_file_store: "watch_step (file_reload normalise xxhash sdkId) fs_entry (fl_served s) CloseStore w \<Longrightarrow>
     fl_step normalise xxhash sdkId s CloseFileStore (s\<lparr>fl_served := w\<rparr>)"
| close_watcher: "wd_closed (fl_served s) \<Longrightarrow> fl_step normalise xxhash sdkId s CloseWatcher (s\<lparr>fl_closed := True\<rparr>)"

text \<open>Nothing is under way, and the watcher has looked at the file since it was changed last.\<close>

definition watch_quiet :: "file_loop \<Rightarrow> bool" where
  "watch_quiet s \<longleftrightarrow> fl_phase s = Watching \<and> \<not> fl_token s \<and> \<not> fl_reading s \<and> settled (fl_served s)
     \<and> (case fl_watch s of
          PollWatch p \<Rightarrow> (pw_lastModifiedDate p, pw_lastSize p) = fl_stat s
        | EventWatch path \<Rightarrow> fl_events s = []
        | NullWatch \<Rightarrow> True)"

section \<open>Lemmas\<close>

inductive_cases fl_stepE: "fl_step normalise xxhash sdkId s e s'"

inductive_simps fl_step_simps:
  "fl_step normalise xxhash sdkId s (WriteFile data t) s'" "fl_step normalise xxhash sdkId s (RenameOver data t) s'"
  "fl_step normalise xxhash sdkId s PollFile s'" "fl_step normalise xxhash sdkId s TakeEvent s'"
  "fl_step normalise xxhash sdkId s WatcherCheck s'" "fl_step normalise xxhash sdkId s WatcherSend s'"
  "fl_step normalise xxhash sdkId s StoreTakes s'" "fl_step normalise xxhash sdkId s (StoreReads now) s'"
  "fl_step normalise xxhash sdkId s (StoreDoes e) s'"

text \<open>The machine of the store takes part in every run.\<close>

lemma served_step:
  assumes "fl_step normalise xxhash sdkId s e s'"
  shows "fl_served s' = fl_served s \<or>
    (\<exists>f. watch_step (file_reload normalise xxhash sdkId) fs_entry (fl_served s) f (fl_served s'))"
  using assms by cases auto

definition file_shown :: "(bytes \<Rightarrow> bytes res) \<Rightarrow> file_loop \<Rightarrow> bool" where
  "file_shown normalise s \<longleftrightarrow> fs_stored (wd_store (fl_served s)) = fl_content s
     \<or> (\<exists>err. normalise (fl_content s) = Inl err)"

text \<open>A change of the file is on its way to the store, or the store has it.\<close>

fun unseen :: "file_watch \<Rightarrow> int \<times> int \<Rightarrow> (string \<times> bool) list \<Rightarrow> bool" where
  "unseen (PollWatch p) st evs = ((pw_lastModifiedDate p, pw_lastSize p) \<noteq> st)"
| "unseen (EventWatch path) st evs = ((path, True) \<in> set evs)"
| "unseen NullWatch st evs = False"

definition on_its_way :: "file_loop \<Rightarrow> bool" where
  "on_its_way s \<longleftrightarrow> fl_phase s = WatcherNotifies \<or> fl_phase s = WatcherSends \<or> fl_token s \<or> fl_reading s
     \<or> unseen (fl_watch s) (fl_stat s) (fl_events s)"

text \<open>
  The changes a watcher can see: it exists, the file is changed in place where events are used, each change has a later
  modification time, and the file can be read.
\<close>

fun visible :: "file_loop \<Rightarrow> fl_event \<Rightarrow> bool" where
  "visible s (WriteFile data t) = (fl_modified s < t)"
| "visible s (RenameOver data t) = (fl_modified s < t \<and> (\<forall>path. fl_watch s \<noteq> EventWatch path))"
| "visible s (StoreFails err now) = False"
| "visible s _ = True"

definition fl_inv :: "(bytes \<Rightarrow> bytes res) \<Rightarrow> (bytes \<Rightarrow> bytes) \<Rightarrow> file_loop \<Rightarrow> bool" where
  "fl_inv normalise xxhash s \<longleftrightarrow> fl_watch s \<noteq> NullWatch
     \<and> (\<forall>p. fl_watch s = PollWatch p \<longrightarrow> pw_lastModifiedDate p \<le> fl_modified s)
     \<and> no_lost_update fs_entry (fl_served s) \<and> file_inv normalise xxhash (wd_store (fl_served s))
     \<and> (fl_closed s \<longrightarrow> wd_closed (fl_served s)) \<and> (fl_phase s = WatcherReturned \<longrightarrow> fl_closed s)
     \<and> (wd_closed (fl_served s) \<or> file_shown normalise s \<or> on_its_way s)"

lemma fl_invD:
  assumes "fl_inv normalise xxhash s"
  shows "fl_watch s \<noteq> NullWatch" "fl_watch s = PollWatch p \<Longrightarrow> pw_lastModifiedDate p \<le> fl_modified s"
    "no_lost_update fs_entry (fl_served s)" "file_inv normalise xxhash (wd_store (fl_served s))"
    "fl_closed s \<Longrightarrow> wd_closed (fl_served s)" "fl_phase s = WatcherReturned \<Longrightarrow> fl_closed s"
    "\<not> wd_closed (fl_served s) \<Longrightarrow> \<not> on_its_way s \<Longrightarrow> file_shown normalise s"
  using assms unfolding fl_inv_def by blast+

lemma alone_step:
  assumes "watch_step reload entry_of w e w'"
  shows "store_alone e \<Longrightarrow> wd_store w' = wd_store w" "e \<noteq> CloseStore \<Longrightarrow> wd_closed w' = wd_closed w"
    "wd_closed w \<Longrightarrow> wd_closed w'"
  using assms by (elim watch_stepE; simp)+

lemma file_inv_step:
  assumes "watch_step (file_reload normalise xxhash sdkId) fs_entry w e w'" "file_inv normalise xxhash (wd_store w)"
  shows "file_inv normalise xxhash (wd_store w')"
  using assms(1) by cases (use assms(2) file_inv_reload in \<open>auto dest: file_inv_reload\<close>)

lemma reads_shown:
  assumes "watch_step (file_reload normalise xxhash sdkId) fs_entry w (Tick (Inr data, now)) w'"
  shows "fs_stored (wd_store w') = data \<or> (\<exists>err. normalise data = Inl err)"
  using assms by (auto simp: watch_step_simps file_reload_def split: sum.splits if_splits)

lemma served_inv:
  assumes "fl_step normalise xxhash sdkId s e s'" "fl_inv normalise xxhash s"
  shows "no_lost_update fs_entry (fl_served s')" "file_inv normalise xxhash (wd_store (fl_served s'))"
  using served_step [OF assms(1)] file_inv_step file_source.step_inv fl_invD(3,4) [OF assms(2)] by metis+

text \<open>The watcher loses no change.\<close>

lemma change_on_its_way:
  assumes "fl_inv normalise xxhash s" "fl_modified s < t" "write \<or> (\<forall>path. fl_watch s \<noteq> EventWatch path)"
  shows "on_its_way (s\<lparr>fl_content := data, fl_modified := t, fl_events := report_event write s\<rparr>)"
proof (cases "fl_watch s")
  case (PollWatch p)
  then show ?thesis using fl_invD(2) [OF assms(1) PollWatch] assms(2) by (simp add: on_its_way_def fl_stat_def)
next
  case (EventWatch path)
  then show ?thesis using assms(3) by (simp add: on_its_way_def report_event_def)
next
  case NullWatch
  then show ?thesis using fl_invD(1) [OF assms(1)] by simp
qed

lemma tick_unseen:
  "pollWatcher_tick (Inr st) p = (notify, p') \<Longrightarrow> \<not> notify \<Longrightarrow> \<not> unseen (PollWatch p) st evs"
  by (cases st) (auto split: if_splits)

lemma shown_step:
  assumes "fl_step normalise xxhash sdkId s e s'" "visible s e" "fl_inv normalise xxhash s"
    and "\<not> wd_closed (fl_served s')" "\<not> on_its_way s'"
  shows "file_shown normalise s'"
proof -
  have before: "file_shown normalise s'"
    if "\<not> wd_closed (fl_served s)" "\<not> on_its_way s" "fl_content s' = fl_content s"
      "wd_store (fl_served s') = wd_store (fl_served s)"
    using fl_invD(7) [OF assms(3) that(1,2)] that(3,4) by (simp add: file_shown_def)
  show ?thesis
    using assms(1)
  proof cases
    case (write_file data t)
    then show ?thesis using change_on_its_way [OF assms(3), of t True data] assms(2,5) by simp
  next
    case (rename_over data t)
    then show ?thesis using change_on_its_way [OF assms(3), of t False data] assms(2,5) by simp
  next
    case (poll_file p notify p')
    then have n: "\<not> notify" using assms(5) by (auto simp: on_its_way_def)
    then show ?thesis
      using tick_unseen [OF poll_file(5) n] poll_file(2-4) assms(4,5)
      by (intro before) (simp_all add: on_its_way_def fl_stat_def)
  next
    case (take_event path ev evs)
    then have "\<not> fileWatcher_event path ev" using assms(5) by (auto simp: on_its_way_def)
    then have "ev \<noteq> (path, True)" by (auto simp: fileWatcher_event_def)
    then show ?thesis
      using take_event(2-5) assms(4,5) by (intro before) (simp_all add: on_its_way_def)
  next
    case (other_event path name w)
    then show ?thesis using assms(4,5) by (intro before) (simp_all add: on_its_way_def)
  next
    case watcher_check
    have "\<not> fl_closed s" using fl_invD(5) [OF assms(3)] assms(4) watcher_check(2) by auto
    then show ?thesis using assms(5) watcher_check(2) by (simp add: on_its_way_def)
  next
    case watcher_send
    then show ?thesis using assms(5) by (simp add: on_its_way_def)
  next
    case watcher_return
    then show ?thesis using fl_invD(5) [OF assms(3)] assms(4) by simp
  next
    case store_takes
    then show ?thesis using assms(5) by (simp add: on_its_way_def)
  next
    case receive_closed
    then show ?thesis using assms(5) by (simp add: on_its_way_def)
  next
    case (store_reads now w)
    then show ?thesis using reads_shown [OF store_reads(4)] by (simp add: file_shown_def)
  next
    case (store_fails err now w)
    then show ?thesis using assms(2) by simp
  next
    case (store_does e w)
    then show ?thesis
      using assms(4,5) alone_step [OF store_does(5)] by (intro before) (auto simp: on_its_way_def fl_stat_def)
  next
    case (close_file_store w)
    then show ?thesis using assms(4) by (simp add: watch_step_simps)
  next
    case close_watcher
    then show ?thesis using assms(4) by simp
  next
    case stat_fails
    then show ?thesis using assms(4,5) by (intro before) simp_all
  qed
qed

lemma fl_inv_step:
  assumes "fl_inv normalise xxhash s" "fl_step normalise xxhash sdkId s e s' \<and> visible s e"
  shows "fl_inv normalise xxhash s'"
proof -
  have step: "fl_step normalise xxhash sdkId s e s'" "visible s e" using assms(2) by simp_all
  note D = fl_invD [OF assms(1)]
  have "fl_watch s' \<noteq> NullWatch \<and> (\<forall>p. fl_watch s' = PollWatch p \<longrightarrow> pw_lastModifiedDate p \<le> fl_modified s')"
    using step(1) by cases (use D(1,2) step(2) in \<open>force simp: fl_stat_def split: if_splits\<close>)+
  moreover have "(fl_closed s' \<longrightarrow> wd_closed (fl_served s')) \<and> (fl_phase s' = WatcherReturned \<longrightarrow> fl_closed s')"
    using step(1) by cases (use D(5,6) in \<open>auto dest: alone_step(3)\<close>)
  moreover have "wd_closed (fl_served s') \<or> file_shown normalise s' \<or> on_its_way s'"
    using shown_step [OF step assms(1)] by blast
  ultimately show ?thesis
    using served_inv [OF step(1) assms(1)] unfolding fl_inv_def by blast
qed

interpretation file_changes: lts_invariant "\<lambda>s e s'. fl_step normalise xxhash sdkId s e s' \<and> visible s e" "fl_inv normalise xxhash"
  for normalise xxhash sdkId
  by unfold_locales (rule fl_inv_step)

lemma fl_inv_New:
  assumes "NewFileStore os normalise xxhash initial zero sdkId conf (Inr content, now) = (w, st, rs)"
    and "w \<noteq> NullWatch" "\<And>p. w = PollWatch p \<Longrightarrow> pw_lastModifiedDate p \<le> modified"
  shows "fl_inv normalise xxhash (NewFileLoop content modified w st seen)"
proof -
  obtain b st0 rs0 where r: "file_reload normalise xxhash sdkId (Inr content, now)
      \<lparr>fs_entry = NewEntryStore xxhash initial zero, fs_stored = []\<rparr> = (b, st0, rs0)" by (metis prod_cases3)
  then have st: "st = st0" using assms(1) by (simp add: NewFileStore_def)
  have "file_inv normalise xxhash \<lparr>fs_entry = NewEntryStore xxhash initial zero, fs_stored = []\<rparr>"
    by (simp add: file_inv_def NewEntryStore_def entryWithEtag_def)
  then have "file_inv normalise xxhash st" using file_inv_reload r st by blast
  moreover have "fs_stored st = content \<or> (\<exists>err. normalise content = Inl err)"
    using r st by (auto simp: file_reload_def split: sum.splits if_splits)
  ultimately show ?thesis
    using assms(2,3) by (simp add: fl_inv_def NewFileLoop_def watched_start_def no_lost_update_def file_shown_def)
qed

lemma quiet_shows:
  assumes "fl_inv normalise xxhash s" "watch_quiet s" "\<not> wd_closed (fl_served s)"
    and "normalise (fl_content s) = Inr ser" "fl_content s \<noteq> []"
  shows "en_ConfigJson (wd_seen (fl_served s)) = ser \<and> \<not> en_Empty (wd_seen (fl_served s))"
proof -
  note D = fl_invD [OF assms(1)]
  have "\<not> on_its_way s" using assms(2) by (cases "fl_watch s") (simp_all add: watch_quiet_def on_its_way_def)
  then have "fs_stored (wd_store (fl_served s)) = fl_content s" using D(7) assms(3,4) by (auto simp: file_shown_def)
  moreover have "wd_seen (fl_served s) = fs_entry (wd_store (fl_served s))"
    using D(3) assms(2,3) by (auto simp: no_lost_update_def watch_quiet_def settled_def)
  ultimately show ?thesis using D(4) assms(4,5) by (auto simp: file_inv_def split: if_splits)
qed

subsection \<open>A file that is replaced\<close>

text \<open>
  The event watcher looks at writes only: a file that is renamed over the watched one, the way it is
  replaced atomically, is not read until something writes to it in place.
\<close>

definition not_told :: "string \<Rightarrow> file_loop \<Rightarrow> bool" where
  "not_told path s \<longleftrightarrow> fl_watch s = EventWatch path \<and> \<not> on_its_way s"

fun in_place :: "fl_event \<Rightarrow> bool" where
  "in_place (WriteFile data t) = True"
| "in_place _ = False"

lemma not_told_step:
  assumes "fl_step normalise xxhash sdkId s e s'" "not_told path s" "\<not> in_place e"
  shows "not_told path s' \<and> wd_store (fl_served s') = wd_store (fl_served s)"
  using assms(1)
proof cases
  case (take_event path' ev evs)
  then have "ev \<noteq> (path, True)" using assms(2) by (auto simp: not_told_def on_its_way_def)
  then show ?thesis using take_event assms(2) by (cases ev) (auto simp: not_told_def on_its_way_def fileWatcher_event_def)
next
  case (store_does e w)
  then show ?thesis using assms(2) alone_step(1) [OF store_does(5,3)] by (auto simp: not_told_def on_its_way_def)
next
  case (close_file_store w)
  then show ?thesis using assms(2) by (auto simp: not_told_def on_its_way_def watch_step_simps)
qed (use assms(2,3) in \<open>auto simp: not_told_def on_its_way_def report_event_def\<close>)

lemma rename_unnoticed:
  assumes "lts_run (fl_step normalise xxhash sdkId) s es t" "not_told path s" "\<not> list_ex in_place es"
  shows "wd_store (fl_served t) = wd_store (fl_served s)"
  using assms
proof (induction es arbitrary: s)
  case (Cons e es)
  then obtain u where u: "fl_step normalise xxhash sdkId s e u" "lts_run (fl_step normalise xxhash sdkId) u es t" by auto
  with not_told_step [OF u(1) Cons.prems(2)] Cons.IH [OF u(2)] Cons.prems(3) show ?case by simp
qed simp

subsection \<open>A watcher that waits for a store that has gone\<close>

text \<open>
  \<open>Notify\<close> looks at the context and then sends without a \<open>select\<close>: a watcher with a second change in hand
  when the store is closed waits for room that nobody makes.
\<close>

definition stranded :: "file_loop \<Rightarrow> bool" where
  "stranded s \<longleftrightarrow> fl_phase s = WatcherSends \<and> fl_token s \<and> wd_phase (fl_served s) = Returned \<and> \<not> fl_reading s"

interpretation stranded_watcher: lts_invariant "fl_step normalise xxhash sdkId" stranded for normalise xxhash sdkId
proof
  fix s e s' assume "stranded s" "fl_step normalise xxhash sdkId s e s'"
  then show "stranded s'"
    by (elim fl_stepE) (auto simp: stranded_def elim!: watch_stepE)
qed

lemma polled_write:
  assumes "fl_phase s = Watching" "fl_watch s = PollWatch p" "t \<noteq> pw_lastModifiedDate p" "\<not> fl_closed s"
  shows "lts_run (fl_step normalise xxhash sdkId) s [WriteFile d t, PollFile, WatcherCheck]
    (s\<lparr>fl_content := d, fl_modified := t, fl_phase := WatcherSends,
       fl_watch := PollWatch (p\<lparr>pw_lastModifiedDate := t, pw_lastSize := int (length d)\<rparr>)\<rparr>)"
proof -
  let ?s1 = "s\<lparr>fl_content := d, fl_modified := t\<rparr>"
  let ?s2 = "?s1\<lparr>fl_watch := PollWatch (p\<lparr>pw_lastModifiedDate := t, pw_lastSize := int (length d)\<rparr>), fl_phase := WatcherNotifies\<rparr>"
  have "fl_step normalise xxhash sdkId s (WriteFile d t) ?s1"
    using write_file [of normalise xxhash sdkId s d t] assms(2) by (cases s) (simp add: report_event_def)
  moreover have "fl_step normalise xxhash sdkId ?s1 PollFile ?s2"
    using poll_file [of ?s1 p True _ normalise xxhash sdkId] assms by (simp add: fl_stat_def)
  moreover have "fl_step normalise xxhash sdkId ?s2 WatcherCheck (?s2\<lparr>fl_phase := WatcherSends\<rparr>)"
    using watcher_check [of ?s2 normalise xxhash sdkId] assms(4) by simp
  moreover have "?s2\<lparr>fl_phase := WatcherSends\<rparr> = s\<lparr>fl_content := d, fl_modified := t, fl_phase := WatcherSends,
       fl_watch := PollWatch (p\<lparr>pw_lastModifiedDate := t, pw_lastSize := int (length d)\<rparr>)\<rparr>" by simp
  ultimately show ?thesis by auto
qed

lemma closing_strands:
  assumes "fl_phase s = WatcherSends" "fl_token s" "\<not> fl_reading s" "wd_phase (fl_served s) = PollLoop"
  shows "\<exists>s'. lts_run (fl_step normalise xxhash sdkId) s [CloseFileStore, CloseWatcher, StoreDoes ReturnRun] s' \<and> stranded s'"
proof -
  let ?w = "(fl_served s)\<lparr>wd_closed := True\<rparr>"
  let ?s1 = "s\<lparr>fl_served := ?w\<rparr>" and ?s2 = "s\<lparr>fl_served := ?w, fl_closed := True\<rparr>"
  let ?s3 = "s\<lparr>fl_served := ?w\<lparr>wd_phase := Returned\<rparr>, fl_closed := True\<rparr>"
  have "fl_step normalise xxhash sdkId s CloseFileStore ?s1" by (rule close_file_store) (rule close_store)
  moreover have "fl_step normalise xxhash sdkId ?s1 CloseWatcher ?s2"
    using close_watcher [of ?s1 normalise xxhash sdkId] by simp
  moreover have "fl_step normalise xxhash sdkId ?s2 (StoreDoes ReturnRun) ?s3"
    using assms(3,4) by (simp add: fl_step_simps watch_step_simps)
  moreover have "stranded ?s3" using assms by (simp add: stranded_def)
  ultimately show ?thesis unfolding lts_run.simps by blast
qed

lemma two_writes:
  assumes "fl_phase s = Watching" "fl_watch s = PollWatch p" "t \<noteq> pw_lastModifiedDate p" "t' \<noteq> t" "\<not> fl_closed s" "\<not> fl_token s"
  shows "\<exists>s'. lts_run (fl_step normalise xxhash sdkId) s
      ([WriteFile a t, PollFile, WatcherCheck] @ [WatcherSend] @ [WriteFile b t', PollFile, WatcherCheck]) s'
    \<and> fl_phase s' = WatcherSends \<and> fl_token s' \<and> fl_reading s' = fl_reading s \<and> fl_served s' = fl_served s"
proof -
  let ?p = "p\<lparr>pw_lastModifiedDate := t, pw_lastSize := int (length a)\<rparr>"
  let ?s1 = "s\<lparr>fl_content := a, fl_modified := t, fl_phase := WatcherSends, fl_watch := PollWatch ?p\<rparr>"
  let ?s2 = "?s1\<lparr>fl_token := True, fl_phase := Watching\<rparr>"
  note 1 = polled_write [OF assms(1-3,5), of normalise xxhash sdkId a]
  have 2: "lts_run (fl_step normalise xxhash sdkId) ?s1 [WatcherSend] ?s2"
    using watcher_send [of ?s1 normalise xxhash sdkId] assms(6) by simp
  note 3 = polled_write [of ?s2 ?p t' normalise xxhash sdkId b]
  show ?thesis unfolding lts_run_append using 1 2 3 assms(4,5) by (intro exI conjI) (assumption | simp)+
qed

section \<open>Properties\<close>

text \<open>
  C10: a local configuration file is followed: whatever is written to it while the proxy runs, once the
  watcher has looked at the last change and nothing is under way, the SDK evaluates with the content
  of the file. The file parses and is not empty, it can be read, each change has a later
  modification time, and with the event watcher it is written in place.
\<close>

theorem file_changes_served:
  assumes "NewFileStore os normalise xxhash initial zero sdkId conf (Inr content, now) = (w, st, rs)"
    and "w \<noteq> NullWatch" and "\<forall>p. w = PollWatch p \<longrightarrow> pw_lastModifiedDate p \<le> modified"
    and "lts_run (\<lambda>s e s'. fl_step normalise xxhash sdkId s e s' \<and> visible s e) (NewFileLoop content modified w st seen) es s"
    and "watch_quiet s" and "\<not> wd_closed (fl_served s)"
    and "normalise (fl_content s) = Inr ser" and "fl_content s \<noteq> []"
  shows "en_ConfigJson (wd_seen (fl_served s)) = ser \<and> \<not> en_Empty (wd_seen (fl_served s))"
proof -
  have "fl_inv normalise xxhash (NewFileLoop content modified w st seen)"
    by (rule fl_inv_New [OF assms(1,2)]) (use assms(3) in blast)
  then have "fl_inv normalise xxhash s" using file_changes.run_inv [OF _ assms(4)] by blast
  then show ?thesis by (rule quiet_shows) (rule assms(5-8))+
qed

text \<open>The file is written, the event wakes the watcher, the store reads it and the client refreshes.\<close>

definition watched_files :: os_files where
  "watched_files = \<lparr>os_Stat = (\<lambda>p. Inr (0, 3)), os_EvalSymlinks = (\<lambda>p. Inr p), os_NewWatcher = Inr (),
     os_Add = (\<lambda>p. Inr ()), os_Dir = (\<lambda>p. p), os_Base = (\<lambda>p. []), os_Join = (\<lambda>p q. p @ q)\<rparr>"

definition unread :: entry where
  "unread = entryWithEtag [] 0 [] True"

definition stored_as :: "bytes \<Rightarrow> int \<Rightarrow> file_store" where
  "stored_as b t = \<lparr>fs_entry = entryWithEtag b t (GenerateEtag (\<lambda>b. b) b) False, fs_stored = b\<rparr>"

theorem file_changes_served_witness:
  "\<exists>es s. lts_run (fl_step Inr (\<lambda>b. b) ''main'') (NewFileLoop ''old'' 0 (EventWatch ''file'') (stored_as ''old'' 0) unread)
       (WriteFile ''new'' 1 # es) s
     \<and> en_ConfigJson (wd_seen (fl_served s)) = ''new''"
proof -
  let ?conf = "zero_local\<lparr>FilePath := ''file''\<rparr>" and ?watch = "EventWatch ''file''"
  let ?step = "fl_step Inr (\<lambda>b. b) ''main''"
  have new: "fst (NewFileStore watched_files Inr (\<lambda>b. b) ''init'' 0 ''main'' ?conf (Inr ''old'', 0)) = ?watch"
    "fst (snd (NewFileStore watched_files Inr (\<lambda>b. b) ''init'' 0 ''main'' ?conf (Inr ''old'', 0))) = stored_as ''old'' 0"
    by (simp_all add: NewFileStore_def choose_watcher_def newFileWatcher_def watched_files_def bind_res_def Let_def
        zero_local_def file_reload_def StoreEntry_def stored_as_def)
  let ?s0 = "NewFileLoop ''old'' 0 ?watch (stored_as ''old'' 0) unread"
  let ?s1 = "?s0\<lparr>fl_content := ''new'', fl_modified := 1, fl_events := [(''file'', True)]\<rparr>"
  let ?s2 = "?s1\<lparr>fl_events := [], fl_phase := WatcherNotifies\<rparr>"
  let ?s3 = "?s2\<lparr>fl_phase := WatcherSends\<rparr>"
  let ?s4 = "?s3\<lparr>fl_token := True, fl_phase := Watching\<rparr>"
  let ?s5 = "?s4\<lparr>fl_token := False, fl_reading := True\<rparr>"
  let ?w0 = "watched_start (stored_as ''old'' 0) unread"
  let ?w1 = "?w0\<lparr>wd_store := stored_as ''new'' 1, wd_phase := NotifyCalled\<rparr>"
  let ?w2 = "?w1\<lparr>wd_phase := NotifyBlocked\<rparr>"
  let ?w3 = "?w2\<lparr>wd_modified := 1, wd_phase := PollLoop\<rparr>"
  let ?w4 = "?w3\<lparr>wd_modified := 0, wd_refreshes := 2\<rparr>"
  let ?w5 = "?w4\<lparr>wd_refreshes := 1, wd_seen := fs_entry (stored_as ''new'' 1)\<rparr>"
  let ?w6 = "?w5\<lparr>wd_refreshes := 0, wd_seen := fs_entry (stored_as ''new'' 1)\<rparr>"
  let ?t = "\<lambda>w. ?s5\<lparr>fl_reading := False, fl_served := w\<rparr>"
  let ?es = "[WriteFile ''new'' 1, TakeEvent, WatcherCheck, WatcherSend, StoreTakes, StoreReads 1, StoreDoes NotifyCheck,
    StoreDoes NotifySend, StoreDoes watch_event.ListenToken, StoreDoes FinishRefresh, StoreDoes FinishRefresh]"
  let ?see = "\<lambda>s e s'. ?step s e s' \<and> visible s e"
  have "?see ?s0 (WriteFile ''new'' 1) ?s1" "?see ?s1 TakeEvent ?s2" "?see ?s2 WatcherCheck ?s3"
    "?see ?s3 WatcherSend ?s4" "?see ?s4 StoreTakes ?s5"
    by (auto simp: fl_step_simps NewFileLoop_def report_event_def fileWatcher_event_def watched_start_def)
  moreover have "?see ?s5 (StoreReads 1) (?t ?w1)"
    by (auto simp: fl_step_simps NewFileLoop_def watch_step_simps watched_start_def file_reload_def stored_as_def StoreEntry_def)
  moreover have "?see (?t ?w1) (StoreDoes NotifyCheck) (?t ?w2)" "?see (?t ?w2) (StoreDoes NotifySend) (?t ?w3)"
    "?see (?t ?w3) (StoreDoes watch_event.ListenToken) (?t ?w4)" "?see (?t ?w4) (StoreDoes FinishRefresh) (?t ?w5)"
    "?see (?t ?w5) (StoreDoes FinishRefresh) (?t ?w6)"
    by (simp_all add: fl_step_simps watch_step_simps watched_start_def)
  ultimately have run: "lts_run ?see ?s0 ?es (?t ?w6)" unfolding lts_run.simps by blast
  obtain rs where eq: "NewFileStore watched_files Inr (\<lambda>b. b) ''init'' 0 ''main'' ?conf (Inr ''old'', 0) = (?watch, stored_as ''old'' 0, rs)"
    using new by (metis prod.collapse)
  have "en_ConfigJson (wd_seen (fl_served (?t ?w6))) = ''new'' \<and> \<not> en_Empty (wd_seen (fl_served (?t ?w6)))"
    by (rule file_changes_served [OF eq _ _ run])
      (simp_all add: watch_quiet_def settled_def NewFileLoop_def watched_start_def)
  moreover have "lts_run ?step s es t" if "lts_run (\<lambda>s e s'. ?step s e s' \<and> visible s e) s es t" for s es t
    using that by (induction es arbitrary: s) auto
  ultimately show ?thesis using run by blast
qed



end
