(* ===== verification/Frontends.thy ===== *)
theory Frontends
  imports Grpc Router StreamServer
begin

text \<open>
  The servers behind the HTTP router and the gRPC server, as they are built and closed: \<open>NewServer\<close> of
  \<open>web/sse\<close>, \<open>web/api\<close>, \<open>web/ofrep\<close>, \<open>web/cdnproxy\<close> and \<open>web/webhook\<close>, \<open>newFlagService\<close> of
  \<open>grpc/flag_service.go\<close>, their \<open>Close\<close> and that of the router, and what closing does to the streams.
  The handlers are in the theories \<open>WebApi\<close>, \<open>Webhook\<close>, \<open>Sse\<close> and \<open>Grpc\<close>.
\<close>

section \<open>Definitions\<close>

text \<open>The server of \<open>web/sse\<close>; \<open>heap\<close> and \<open>all\<close> are the clients of the registrar and its \<open>GetAll\<close>.\<close>

record sse_server =
  se_streamServer :: stream_server
  se_config :: sse_config
  se_logger :: logger
  se_stopped :: bool

definition sse_NewServer :: "client list \<Rightarrow> (string \<times> nat) list \<Rightarrow> sse_config \<Rightarrow> logger \<Rightarrow> sse_server" where
  "sse_NewServer heap all conf logger =
     (let sseLog = WithPrefix ''sse'' (WithLevel (GetLevel (sse_Log conf)) logger)
      in \<lparr>se_streamServer = NewServer heap all, se_config = conf, se_logger = sseLog, se_stopped = False\<rparr>)"

definition sse_Close :: "string list \<Rightarrow> sse_server \<Rightarrow> sse_server" where
  "sse_Close ks s = s\<lparr>se_stopped := True, se_streamServer := server_Close ks (se_streamServer s)\<rparr>"

record flag_service =
  fg_streamServer :: stream_server
  fg_log :: logger
  fg_closed :: bool

definition newFlagService :: "client list \<Rightarrow> (string \<times> nat) list \<Rightarrow> logger \<Rightarrow> flag_service" where
  "newFlagService heap all log = \<lparr>fg_streamServer = NewServer heap all, fg_log = log, fg_closed = False\<rparr>"

definition flagService_Close :: "string list \<Rightarrow> flag_service \<Rightarrow> flag_service" where
  "flagService_Close ks s = s\<lparr>fg_closed := True, fg_streamServer := server_Close ks (fg_streamServer s)\<rparr>"

text \<open>The servers that keep nothing but their configuration and a logger.\<close>

record 'c web_server =
  ws_config :: 'c
  ws_logger :: logger

definition api_NewServer :: "api_config \<Rightarrow> logger \<Rightarrow> api_config web_server" where
  "api_NewServer conf log = \<lparr>ws_config = conf, ws_logger = WithPrefix ''api'' log\<rparr>"

definition ofrep_NewServer :: "ofrep_config \<Rightarrow> logger \<Rightarrow> ofrep_config web_server" where
  "ofrep_NewServer conf log = \<lparr>ws_config = conf, ws_logger = WithPrefix ''api'' log\<rparr>"

definition cdn_NewServer :: "cdn_proxy_config \<Rightarrow> logger \<Rightarrow> cdn_proxy_config web_server" where
  "cdn_NewServer conf log = \<lparr>ws_config = conf, ws_logger = WithPrefix ''cdn-proxy'' log\<rparr>"

definition webhook_NewServer :: "profile_config \<Rightarrow> logger \<Rightarrow> profile_config web_server" where
  "webhook_NewServer conf log = \<lparr>ws_config = conf, ws_logger = WithPrefix ''webhook'' log\<rparr>"

text \<open>\<open>HttpRouter\<close>: the servers \<open>NewRouter\<close> has set up, as far as they are enabled.\<close>

record http_router =
  hr_sseServer :: "sse_server option"
  hr_webhookServer :: "profile_config web_server option"
  hr_cdnProxyServer :: "cdn_proxy_config web_server option"
  hr_apiServer :: "api_config web_server option"
  hr_ofrepServer :: "ofrep_config web_server option"

definition router_servers ::
  "client list \<Rightarrow> (string \<times> nat) list \<Rightarrow> http_config \<Rightarrow> profile_config \<Rightarrow> logger \<Rightarrow> http_router" where
  "router_servers heap all conf autoSdkConfig log =
     (let httpLog = WithPrefix ''http'' (WithLevel (GetLevel (http_Log conf)) log)
      in \<lparr>hr_sseServer = (if sse_Enabled (http_Sse conf) then Some (sse_NewServer heap all (http_Sse conf) httpLog) else None),
          hr_webhookServer =
            (if wh_Enabled (http_Webhook conf) then Some (webhook_NewServer autoSdkConfig httpLog) else None),
          hr_cdnProxyServer =
            (if cdn_Enabled (http_CdnProxy conf) then Some (cdn_NewServer (http_CdnProxy conf) httpLog) else None),
          hr_apiServer = (if api_Enabled (http_Api conf) then Some (api_NewServer (http_Api conf) httpLog) else None),
          hr_ofrepServer =
            (if ofrep_Enabled (http_OFREP conf) then Some (ofrep_NewServer (http_OFREP conf) httpLog) else None)\<rparr>)"

definition router_Close :: "string list \<Rightarrow> http_router \<Rightarrow> http_router" where
  "router_Close ks r = r\<lparr>hr_sseServer := map_option (sse_Close ks) (hr_sseServer r)\<rparr>"

section \<open>Lemmas\<close>

subsection \<open>Closing\<close>

text \<open>A server is down: its streams are closed and found no more.\<close>

definition streams_down :: "stream_server \<Rightarrow> stream_server \<Rightarrow> bool" where
  "streams_down old sv \<longleftrightarrow> (\<forall>k. GetStreamOrNil sv k = None \<and> GetStreamBySdkKeyOrNil sv k = None)
     \<and> (\<forall>i s. GetStreamOrNil old i = Some s \<longrightarrow> so_closed (ss_objs sv ! s))"

lemma server_Close_down:
  assumes "\<forall>i s. ss_streams sv i = Some s \<longrightarrow> s < length (ss_objs sv)" and "enumerates ks (ss_streams sv)"
  shows "streams_down sv (server_Close ks sv)"
  using close_streams_facts [OF assms(1)] assms(2)
  by (simp add: streams_down_def GetStreamOrNil_def GetStreamBySdkKeyOrNil_def server_Close_def enumerates_def)

lemma add_stream_bounds:
  "\<forall>i s. ss_streams sv i = Some s \<longrightarrow> s < length (ss_objs sv) \<Longrightarrow>
   \<forall>i s. ss_streams (add_stream heap ia sv) i = Some s \<longrightarrow> s < length (ss_objs (add_stream heap ia sv))"
  by (cases ia) (auto simp: add_stream_def Let_def less_Suc_eq)

lemma handle_bounds:
  "\<forall>i s. ss_streams sv i = Some s \<longrightarrow> s < length (ss_objs sv) \<Longrightarrow>
   \<forall>i s. ss_streams (handleSdkId get heap k sv) i = Some s \<longrightarrow> s < length (ss_objs (handleSdkId get heap k sv))"
  using add_stream_bounds [of sv heap "(k, the (get k))"]
  by (auto simp: handleSdkId_def Let_def close_str_def split: option.splits)

lemma NewServer_bounds:
  "\<forall>i s. ss_streams (NewServer heap all) i = Some s \<longrightarrow> s < length (ss_objs (NewServer heap all))"
proof -
  have "\<forall>i s. ss_streams sv i = Some s \<longrightarrow> s < length (ss_objs sv) \<Longrightarrow>
      \<forall>i s. ss_streams (foldl (\<lambda>sv ia. add_stream heap ia sv) sv all) i = Some s \<longrightarrow>
        s < length (ss_objs (foldl (\<lambda>sv ia. add_stream heap ia sv) sv all))" for sv
    by (induction all arbitrary: sv) (simp_all only: foldl.simps, use add_stream_bounds in blast)
  then show ?thesis by (simp add: NewServer_def)
qed

lemma run_bounds:
  "\<forall>i s. ss_streams (handle_all get heap ids (NewServer heap all)) i = Some s \<longrightarrow>
     s < length (ss_objs (handle_all get heap ids (NewServer heap all)))"
proof -
  have "\<forall>i s. ss_streams sv i = Some s \<longrightarrow> s < length (ss_objs sv) \<Longrightarrow>
      \<forall>i s. ss_streams (handle_all get heap ids sv) i = Some s \<longrightarrow> s < length (ss_objs (handle_all get heap ids sv))" for sv
    unfolding handle_all_def by (induction ids arbitrary: sv) (simp_all only: foldl.simps, use handle_bounds in blast)
  then show ?thesis using NewServer_bounds by blast
qed

text \<open>
  \<open>Close\<close> of the stream server does not wait for its \<open>run\<close>: an identifier that \<open>run\<close> has received just
  before gives a stream that nobody closes, with a goroutine of its own.
\<close>

lemma late_sdk_opens_stream:
  assumes "get i = Some a" "\<forall>i s. ss_streams sv i = Some s \<longrightarrow> s < length (ss_objs sv)" "enumerates ks (ss_streams sv)"
  shows "\<exists>s. GetStreamOrNil (handleSdkId get heap i (server_Close ks sv)) i = Some s \<and>
    \<not> so_closed (ss_objs (handleSdkId get heap i (server_Close ks sv)) ! s)"
proof -
  have "ss_streams (server_Close ks sv) i = None"
    using server_Close_down [OF assms(2,3)] by (simp add: streams_down_def GetStreamOrNil_def)
  then show ?thesis
    using assms(1) by (simp add: GetStreamOrNil_def handleSdkId_def add_stream_def new_str_def Let_def)
qed

text \<open>The OFREP server logs under the name of the API.\<close>

lemma ofrep_logs_as_api: "ws_logger (ofrep_NewServer oc log) = ws_logger (api_NewServer ac log)"
  by (simp add: ofrep_NewServer_def api_NewServer_def)

end
