(* ===== verification/Telemetry.thy ===== *)
theory Telemetry
  imports Validate Logger
begin

text \<open>
  \<open>diag/telemetry\<close>: which exporters the configuration starts (\<open>metrics.go\<close>, \<open>traces.go\<close>), what the
  reporter hands to the OpenTelemetry libraries and what it records (\<open>reporter.go\<close>). The libraries
  are seen through the outcomes of their constructors, the record \<open>otel\<close>; a provider is the
  list of its exporters. What is recorded is the sequence of the calls on the instruments.
\<close>

section \<open>Definitions\<close>

subsection \<open>Exporters\<close>

record otlp_options =
  oo_Endpoint :: "string option"
  oo_Insecure :: bool

datatype exporter = PrometheusExporter | OtlpGrpc otlp_options | OtlpHttp otlp_options

text \<open>The errors of the constructors, \<open>None\<close> for success.\<close>

record otel =
  ot_prometheus :: "string option"
  ot_grpc :: "otlp_options \<Rightarrow> string option"
  ot_http :: "otlp_options \<Rightarrow> string option"
  ot_runtime :: "string option"
  ot_host :: "string option"
  ot_gauge :: "string option"
  ot_counter :: "string option"

type_synonym lines = "string log_outcome list"

text \<open>
  The \<open>switch\<close> on the protocol that \<open>newMetricsHandler\<close> and \<open>newTraceHandler\<close> share: the lines it
  prints and the exporters it adds, \<open>None\<close> when the constructor fails.
\<close>

definition otlp_options_of :: "otlp_config \<Rightarrow> bool \<Rightarrow> otlp_options" where
  "otlp_options_of conf insecure =
     \<lparr>oo_Endpoint = (if otlp_Endpoint conf \<noteq> [] then Some (otlp_Endpoint conf) else None), oo_Insecure = insecure\<rparr>"

definition otlp_exporter :: "otel \<Rightarrow> logger \<Rightarrow> otlp_config \<Rightarrow> lines \<times> exporter list option" where
  "otlp_exporter ot l conf =
     (if otlp_Protocol conf = ''grpc''
      then (let opts = otlp_options_of conf True
            in case ot_grpc ot opts of
                 Some err \<Rightarrow> ([Errorf l ''failed to configure OTLP gRPC exporter: %s'' [err]], None)
               | None \<Rightarrow> ([], Some [OtlpGrpc opts]))
      else if otlp_Protocol conf = ''http'' \<or> otlp_Protocol conf = ''https''
      then (let opts = otlp_options_of conf (otlp_Protocol conf = ''http'')
            in case ot_http ot opts of
                 Some err \<Rightarrow> ([Errorf l ''failed to configure OTLP HTTP exporter: %s'' [err]], None)
               | None \<Rightarrow> ([], Some [OtlpHttp opts]))
      else ([], Some []))"

definition otlp_line :: "logger \<Rightarrow> otlp_config \<Rightarrow> string log_outcome" where
  "otlp_line l conf =
     Reportf l ''otlp exporter enabled over %s%s''
       [otlp_Protocol conf, if otlp_Endpoint conf \<noteq> [] then '' to '' @ otlp_Endpoint conf else []]"

subsection \<open>Metrics\<close>

text \<open>The attributes of a measurement: the SDK, the type of the stream and the flag.\<close>

type_synonym measured = "string \<times> string \<times> string"

datatype metric_call = RecordGauge int measured | AddCounter int measured

record metrics_handler =
  mh_provider :: "exporter list"
  mh_calls :: "metric_call list"
  mh_log :: logger
  mh_cancelled :: bool

definition newMetricsHandlerWithOpts :: "otel \<Rightarrow> exporter list \<Rightarrow> logger \<Rightarrow> lines \<times> metrics_handler option" where
  "newMetricsHandlerWithOpts ot opts l =
     (let out1 = (case ot_runtime ot of Some err \<Rightarrow> [Errorf l ''failed to start runtime metrics: %s'' [err]] | None \<Rightarrow> []);
          out2 = (case ot_host ot of Some err \<Rightarrow> [Errorf l ''failed to start host metrics: %s'' [err]] | None \<Rightarrow> [])
      in case ot_gauge ot of
           Some err \<Rightarrow> (out1 @ out2 @ [Errorf l ''failed to configure connections gauge: %s'' [err]], None)
         | None \<Rightarrow>
             (case ot_counter ot of
                Some err \<Rightarrow> (out1 @ out2 @ [Errorf l ''failed to configure stream message sent counter: %s'' [err]], None)
              | None \<Rightarrow> (out1 @ out2, Some \<lparr>mh_provider = opts, mh_calls = [], mh_log = l, mh_cancelled = False\<rparr>)))"

definition newMetricsHandler :: "otel \<Rightarrow> metrics_config \<Rightarrow> logger \<Rightarrow> lines \<times> metrics_handler option" where
  "newMetricsHandler ot conf log =
     (if \<not> prom_Enabled (met_Prometheus conf) \<and> \<not> otlp_Enabled (met_Otlp conf) then ([], None)
      else
        (let l = WithPrefix ''metrics'' log;
             (out1, opts1) =
               (if prom_Enabled (met_Prometheus conf)
                then (case ot_prometheus ot of
                    Some err \<Rightarrow> ([Errorf l ''failed to configure Prometheus exporter: %s'' [err]], None)
                  | None \<Rightarrow> ([Reportf l ''prometheus exporter enabled on /metrics'' []], Some [PrometheusExporter]))
                else ([], Some []))
         in case opts1 of
              None \<Rightarrow> (out1, None)
            | Some opts \<Rightarrow>
                (let (out2, opts2) =
                   (if otlp_Enabled (met_Otlp conf)
                    then (case otlp_exporter ot l (met_Otlp conf) of
                        (out, None) \<Rightarrow> (out, None)
                      | (out, Some es) \<Rightarrow> (out @ [otlp_line l (met_Otlp conf)], Some (opts @ es)))
                    else ([], Some opts))
                 in case opts2 of
                      None \<Rightarrow> (out1 @ out2, None)
                    | Some readers \<Rightarrow>
                        (case newMetricsHandlerWithOpts ot readers l of (out3, mh) \<Rightarrow> (out1 @ out2 @ out3, mh)))))"

definition recordConnections :: "int \<Rightarrow> string \<Rightarrow> string \<Rightarrow> string \<Rightarrow> metrics_handler \<Rightarrow> metrics_handler" where
  "recordConnections n sdkId streamType flag mh =
     mh\<lparr>mh_calls := mh_calls mh @ [RecordGauge n (sdkId, streamType, flag)]\<rparr>"

definition addSentMessageCount :: "int \<Rightarrow> string \<Rightarrow> string \<Rightarrow> string \<Rightarrow> metrics_handler \<Rightarrow> metrics_handler" where
  "addSentMessageCount n sdkId streamType flag mh =
     mh\<lparr>mh_calls := mh_calls mh @ [AddCounter n (sdkId, streamType, flag)]\<rparr>"

text \<open>\<open>shutdown\<close> of the metrics and of the traces; \<open>err\<close> is the outcome of the provider's shutdown.\<close>

definition shutdown_lines :: "logger \<Rightarrow> string option \<Rightarrow> lines" where
  "shutdown_lines l err =
     [Reportf l ''initiating server shutdown'' []]
     @ (case err of Some e \<Rightarrow> [Errorf l ''shutdown error: %s'' [e]] | None \<Rightarrow> [])
     @ [Reportf l ''server shutdown complete'' []]"

definition metrics_shutdown :: "string option \<Rightarrow> metrics_handler \<Rightarrow> lines \<times> metrics_handler" where
  "metrics_shutdown err mh = (shutdown_lines (mh_log mh) err, mh\<lparr>mh_cancelled := True\<rparr>)"

subsection \<open>Traces\<close>

record trace_handler =
  th_provider :: "exporter list"
  th_log :: logger

definition newTraceHandler :: "otel \<Rightarrow> trace_config \<Rightarrow> logger \<Rightarrow> lines \<times> trace_handler option" where
  "newTraceHandler ot conf log =
     (if \<not> otlp_Enabled (tr_Otlp conf) then ([], None)
      else
        (let l = WithPrefix ''traces'' log
         in case otlp_exporter ot l (tr_Otlp conf) of
              (out, None) \<Rightarrow> (out, None)
            | (out, Some es) \<Rightarrow> (out @ [otlp_line l (tr_Otlp conf)], Some \<lparr>th_provider = es, th_log = l\<rparr>)))"

definition traces_shutdown :: "string option \<Rightarrow> trace_handler \<Rightarrow> lines" where
  "traces_shutdown err th = shutdown_lines (th_log th) err"

subsection \<open>The reporter\<close>

record telemetry =
  tel_conf :: diag_config
  tel_metrics :: "metrics_handler option"
  tel_traces :: "trace_handler option"
  tel_tracer :: "exporter list option"
  tel_log :: logger

definition telemetry_NewReporter :: "otel \<Rightarrow> diag_config \<Rightarrow> logger \<Rightarrow> lines \<times> telemetry" where
  "telemetry_NewReporter ot conf log =
     (let l = WithPrefix ''telemetry'' log;
          (out1, mh) = (if IsMetricsEnabled conf then newMetricsHandler ot (diag_Metrics conf) l else ([], None));
          (out2, th) = (if IsTracesEnabled conf then newTraceHandler ot (diag_Traces conf) l else ([], None));
          tracer = map_option th_provider th
      in (out1 @ out2, \<lparr>tel_conf = conf, tel_metrics = mh, tel_traces = th, tel_tracer = tracer, tel_log = l\<rparr>))"

text \<open>The empty reporter has no logger; none of its operations prints.\<close>

definition NewEmptyReporter :: telemetry where
  "NewEmptyReporter = \<lparr>tel_conf = zero_diag, tel_metrics = None, tel_traces = None, tel_tracer = None,
     tel_log = NewNullLogger\<rparr>"

definition RecordConnections :: "int \<Rightarrow> string \<Rightarrow> string \<Rightarrow> string \<Rightarrow> telemetry \<Rightarrow> telemetry" where
  "RecordConnections n sdkId streamType flag t =
     (case tel_metrics t of
        None \<Rightarrow> t
      | Some mh \<Rightarrow> t\<lparr>tel_metrics := Some (recordConnections n sdkId streamType flag mh)\<rparr>)"

definition AddSentMessageCount :: "int \<Rightarrow> string \<Rightarrow> string \<Rightarrow> string \<Rightarrow> telemetry \<Rightarrow> telemetry" where
  "AddSentMessageCount n sdkId streamType flag t =
     (case tel_metrics t of
        None \<Rightarrow> t
      | Some mh \<Rightarrow> t\<lparr>tel_metrics := Some (addSentMessageCount n sdkId streamType flag mh)\<rparr>)"

datatype span = NoopSpan "(string \<times> string) list" | Span "exporter list" string "(string \<times> string) list"

fun toAttributeArray :: "(string \<times> string) list \<Rightarrow> (string \<times> string) list" where
  "toAttributeArray [] = []"
| "toAttributeArray ((k, v) # attributes) = (k, v) # toAttributeArray attributes"

definition StartSpan :: "telemetry \<Rightarrow> string \<Rightarrow> (string \<times> string) list \<Rightarrow> span" where
  "StartSpan t name attributes =
     (case tel_tracer t of
        None \<Rightarrow> NoopSpan (toAttributeArray attributes)
      | Some provider \<Rightarrow> Span provider name (toAttributeArray attributes))"

text \<open>\<open>ForceFlush\<close>: the outcomes of the two providers are inputs.\<close>

definition ForceFlush :: "string option \<Rightarrow> string option \<Rightarrow> telemetry \<Rightarrow> lines" where
  "ForceFlush merr terr t =
     (case (tel_metrics t, merr) of
        (Some mh, Some err) \<Rightarrow> [Errorf (tel_log t) ''failed to force flush metrics: %v'' [err]]
      | _ \<Rightarrow> [])
     @ (case (tel_traces t, terr) of
        (Some th, Some err) \<Rightarrow> [Errorf (tel_log t) ''failed to force flush traces: %v'' [err]]
      | _ \<Rightarrow> [])"

subsection \<open>Instrumentation\<close>

datatype otel_option =
    WithMeterProvider "exporter list"
  | WithTracerProvider "exporter list"
  | WithMetricAttributes "(string \<times> string) list"

text \<open>A handler or transport as it is, or wrapped by the library under a name with options.\<close>

datatype instrumented = Plain | Wrapped string "otel_option list"

definition meter_options :: "telemetry \<Rightarrow> otel_option list" where
  "meter_options t = (case tel_metrics t of None \<Rightarrow> [] | Some mh \<Rightarrow> [WithMeterProvider (mh_provider mh)])"

definition tracer_options :: "telemetry \<Rightarrow> otel_option list" where
  "tracer_options t = (case tel_traces t of None \<Rightarrow> [] | Some th \<Rightarrow> [WithTracerProvider (th_provider th)])"

text \<open>The metric attributes are those listed followed by the route of the request.\<close>

definition instrument_http_handler :: "telemetry \<Rightarrow> string \<Rightarrow> string \<Rightarrow> instrumented" where
  "instrument_http_handler t operation method =
     (let otelOpts = (case tel_metrics t of None \<Rightarrow> [] | Some mh \<Rightarrow> [WithMeterProvider (mh_provider mh), WithMetricAttributes []])
            @ tracer_options t
      in if length otelOpts > 0 then Wrapped (''HTTP '' @ method @ '' '' @ operation) otelOpts else Plain)"

definition InstrumentHttpClient :: "telemetry \<Rightarrow> (string \<times> string) list \<Rightarrow> instrumented" where
  "InstrumentHttpClient t attributes =
     (let otelOpts = (case tel_metrics t of
              None \<Rightarrow> []
            | Some mh \<Rightarrow> WithMeterProvider (mh_provider mh) #
                (if length attributes > 0 then [WithMetricAttributes (toAttributeArray attributes)] else []))
            @ tracer_options t
      in if length otelOpts > 0 then Wrapped [] otelOpts else Plain)"

datatype 'cert server_option =
    Creds "'cert tls_options"
  | ChainUnaryInterceptor
  | ChainStreamInterceptor
  | KeepaliveParams server_parameters
  | StatsHandler "otel_option list"

definition InstrumentGrpc :: "telemetry \<Rightarrow> 'cert server_option list \<Rightarrow> 'cert server_option list" where
  "InstrumentGrpc t opts =
     (let otelOpts = meter_options t @ tracer_options t
      in if length otelOpts > 0 then opts @ [StatsHandler otelOpts] else opts)"

text \<open>
  \<open>InstrumentRedis\<close> with the outcomes of the two calls of the library: the options that took
  effect, and the lines. \<open>InstrumentMongoDb\<close> and \<open>InstrumentAws\<close> add the tracer only.
\<close>

definition InstrumentRedis :: "string option \<Rightarrow> string option \<Rightarrow> telemetry \<Rightarrow> lines \<times> otel_option list" where
  "InstrumentRedis merr terr t =
     ((case (tel_metrics t, merr) of
         (Some mh, Some err) \<Rightarrow> [Errorf (tel_log t) ''failed to instrument redis: %v'' [err]]
       | _ \<Rightarrow> [])
      @ (case (tel_traces t, terr) of
         (Some th, Some err) \<Rightarrow> [Errorf (tel_log t) ''failed to instrument redis: %v'' [err]]
       | _ \<Rightarrow> []),
      (if merr = None then meter_options t else []) @ (if terr = None then tracer_options t else []))"

definition InstrumentMongoDb :: "telemetry \<Rightarrow> otel_option list" where
  "InstrumentMongoDb t = (case tel_traces t of None \<Rightarrow> [] | Some th \<Rightarrow> [WithTracerProvider (th_provider th)])"

definition InstrumentAws :: "telemetry \<Rightarrow> otel_option list" where
  "InstrumentAws t = (case tel_traces t of None \<Rightarrow> [] | Some th \<Rightarrow> [WithTracerProvider (th_provider th)])"

definition telemetry_Shutdown :: "string option \<Rightarrow> string option \<Rightarrow> telemetry \<Rightarrow> lines \<times> telemetry" where
  "telemetry_Shutdown merr terr t =
     (let (out1, t1) = (case tel_metrics t of
            None \<Rightarrow> ([], t)
          | Some mh \<Rightarrow> (case metrics_shutdown merr mh of (out, mh') \<Rightarrow> (out, t\<lparr>tel_metrics := Some mh'\<rparr>)));
          out2 = (case tel_traces t1 of None \<Rightarrow> [] | Some th \<Rightarrow> traces_shutdown terr th)
      in (out1 @ out2, t1))"


section \<open>Lemmas\<close>

named_theorems telemetry_defs \<open>set-up of the reporter\<close>

lemmas [telemetry_defs] = telemetry_NewReporter_def newMetricsHandler_def newMetricsHandlerWithOpts_def
  newTraceHandler_def otlp_exporter_def Let_def

subsection \<open>What is exported\<close>

definition constructors_ok :: "otel \<Rightarrow> bool" where
  "constructors_ok ot \<longleftrightarrow> ot_prometheus ot = None \<and> (\<forall>o1. ot_grpc ot o1 = None) \<and> (\<forall>o1. ot_http ot o1 = None)
     \<and> ot_gauge ot = None \<and> ot_counter ot = None"

definition exporter_for :: "otlp_config \<Rightarrow> exporter" where
  "exporter_for conf =
     (if otlp_Protocol conf = ''grpc'' then OtlpGrpc (otlp_options_of conf True)
      else OtlpHttp (otlp_options_of conf (otlp_Protocol conf = ''http'')))"

lemma validate_otlp_Valid:
  "validate_otlp o1 = Valid \<longleftrightarrow> otlp_Protocol o1 \<in> {''http'', ''https'', ''grpc''}"
  by (auto simp: validate_otlp_def check_def)

text \<open>The protocols that the validation accepts are those for which the \<open>switch\<close> adds an exporter.\<close>

lemma otlp_exporter_valid:
  assumes "validate_otlp conf = Valid" "\<forall>o1. ot_grpc ot o1 = None" "\<forall>o1. ot_http ot o1 = None"
  shows "otlp_exporter ot l conf = ([], Some [exporter_for conf])"
  using assms by (auto simp: otlp_exporter_def exporter_for_def validate_otlp_Valid Let_def)

lemma otlp_exporter_unknown:
  assumes "validate_otlp conf \<noteq> Valid"
  shows "otlp_exporter ot l conf = ([], Some [])"
  using assms by (auto simp: otlp_exporter_def validate_otlp_Valid)

definition wanted_readers :: "metrics_config \<Rightarrow> exporter list" where
  "wanted_readers conf =
     (if prom_Enabled (met_Prometheus conf) then [PrometheusExporter] else [])
     @ (if otlp_Enabled (met_Otlp conf) then [exporter_for (met_Otlp conf)] else [])"

lemma newMetricsHandler_provider:
  assumes "constructors_ok ot" "otlp_Enabled (met_Otlp conf) \<longrightarrow> validate_otlp (met_Otlp conf) = Valid"
  shows "map_option mh_provider (snd (newMetricsHandler ot conf l)) =
    (if wanted_readers conf = [] then None else Some (wanted_readers conf))"
  using assms otlp_exporter_valid [of "met_Otlp conf" ot]
  by (auto simp: newMetricsHandler_def newMetricsHandlerWithOpts_def wanted_readers_def constructors_ok_def Let_def)

lemma newTraceHandler_provider:
  assumes "constructors_ok ot" "otlp_Enabled (tr_Otlp conf) \<longrightarrow> validate_otlp (tr_Otlp conf) = Valid"
  shows "map_option th_provider (snd (newTraceHandler ot conf l)) =
    (if otlp_Enabled (tr_Otlp conf) then Some [exporter_for (tr_Otlp conf)] else None)"
  using assms otlp_exporter_valid [of "tr_Otlp conf" ot]
  by (auto simp: newTraceHandler_def constructors_ok_def Let_def)

lemma NewReporter_fields:
  "tel_metrics (snd (telemetry_NewReporter ot d l)) =
     (if IsMetricsEnabled d then snd (newMetricsHandler ot (diag_Metrics d) (WithPrefix ''telemetry'' l)) else None)"
  "tel_traces (snd (telemetry_NewReporter ot d l)) =
     (if IsTracesEnabled d then snd (newTraceHandler ot (diag_Traces d) (WithPrefix ''telemetry'' l)) else None)"
  "tel_tracer (snd (telemetry_NewReporter ot d l)) = map_option th_provider (tel_traces (snd (telemetry_NewReporter ot d l)))"
  by (auto simp: telemetry_NewReporter_def Let_def split: prod.splits)

subsection \<open>A reporter without handlers\<close>

definition silent :: "telemetry \<Rightarrow> bool" where
  "silent t \<longleftrightarrow> tel_metrics t = None \<and> tel_traces t = None"

lemma silent_reporter:
  assumes "silent t"
  shows "RecordConnections n i st f t = t" "AddSentMessageCount n i st f t = t"
    "instrument_http_handler t operation method = Plain" "InstrumentHttpClient t attributes = Plain"
    "InstrumentGrpc t opts = opts" "InstrumentMongoDb t = []" "InstrumentAws t = []"
    "InstrumentRedis e1 e2 t = ([], [])" "telemetry_Shutdown e1 e2 t = ([], t)" "ForceFlush e1 e2 t = []"
  using assms
  by (simp_all add: silent_def RecordConnections_def AddSentMessageCount_def instrument_http_handler_def
      InstrumentHttpClient_def InstrumentGrpc_def InstrumentMongoDb_def InstrumentAws_def InstrumentRedis_def
      telemetry_Shutdown_def ForceFlush_def meter_options_def tracer_options_def)

lemma plain_iff_silent:
  "instrument_http_handler t operation method = Plain \<longleftrightarrow> silent t"
  "InstrumentHttpClient t attributes = Plain \<longleftrightarrow> silent t"
  "InstrumentGrpc t opts = opts \<longleftrightarrow> silent t"
  by (auto simp: silent_def instrument_http_handler_def InstrumentHttpClient_def InstrumentGrpc_def meter_options_def
      tracer_options_def split: option.splits)

lemma NewReporter_disabled: "\<not> diag_Enabled d \<Longrightarrow> silent (snd (telemetry_NewReporter ot d l))"
  by (simp add: silent_def NewReporter_fields IsMetricsEnabled_def IsTracesEnabled_def)

lemma silent_Empty: "silent NewEmptyReporter"
  by (simp add: silent_def NewEmptyReporter_def)

lemma toAttributeArray_eq [simp]: "toAttributeArray kvs = kvs"
  by (induction kvs rule: toAttributeArray.induct) auto

subsection \<open>The calls on the instruments\<close>

fun measure :: "telemetry \<Rightarrow> metric_call \<Rightarrow> telemetry" where
  "measure t (RecordGauge n (i, st, f)) = RecordConnections n i st f t"
| "measure t (AddCounter n (i, st, f)) = AddSentMessageCount n i st f t"

lemma measure_calls:
  assumes "tel_metrics t = Some mh"
  shows "tel_metrics (run_ops measure t cs) = Some (mh\<lparr>mh_calls := mh_calls mh @ cs\<rparr>)"
  using assms
proof (induction cs arbitrary: t mh)
  case (Cons c cs)
  have "tel_metrics (measure t c) = Some (mh\<lparr>mh_calls := mh_calls mh @ [c]\<rparr>)"
    using Cons.prems
    by (cases "(t, c)" rule: measure.cases)
      (simp_all add: RecordConnections_def AddSentMessageCount_def recordConnections_def addSentMessageCount_def)
  from Cons.IH [OF this] show ?case by simp
qed simp

section \<open>Properties\<close>

text \<open>
  C28: under a validated configuration, when the libraries' constructors succeed, the reporter
  has exactly the exporters the configuration enables: metrics go to Prometheus and to one OTLP
  exporter of the configured protocol, traces to one OTLP exporter; and a reporter without any
  of them leaves handlers, transports and server options as they are.
\<close>

theorem telemetry_exports:
  assumes "validate_diag d = Valid" and "constructors_ok ot" and "t = snd (telemetry_NewReporter ot d l)"
  shows "map_option mh_provider (tel_metrics t) =
      (if IsMetricsEnabled d \<and> wanted_readers (diag_Metrics d) \<noteq> [] then Some (wanted_readers (diag_Metrics d)) else None)
    \<and> map_option th_provider (tel_traces t) =
      (if IsTracesEnabled d \<and> otlp_Enabled (tr_Otlp (diag_Traces d)) then Some [exporter_for (tr_Otlp (diag_Traces d))] else None)
    \<and> (instrument_http_handler t operation method = Plain \<longleftrightarrow> tel_metrics t = None \<and> tel_traces t = None)"
proof -
  have v: "IsMetricsEnabled d \<Longrightarrow> otlp_Enabled (met_Otlp (diag_Metrics d)) \<longrightarrow> validate_otlp (met_Otlp (diag_Metrics d)) = Valid"
    "IsTracesEnabled d \<Longrightarrow> otlp_Enabled (tr_Otlp (diag_Traces d)) \<longrightarrow> validate_otlp (tr_Otlp (diag_Traces d)) = Valid"
    using assms(1) unfolding validate_diag_def first_of_Valid by auto
  note f = NewReporter_fields [of ot d l, folded assms(3)]
  have "map_option mh_provider (tel_metrics t) =
      (if IsMetricsEnabled d \<and> wanted_readers (diag_Metrics d) \<noteq> [] then Some (wanted_readers (diag_Metrics d)) else None)"
    using newMetricsHandler_provider [OF assms(2) v(1)] by (cases "IsMetricsEnabled d") (simp_all add: f)
  moreover have "map_option th_provider (tel_traces t) =
      (if IsTracesEnabled d \<and> otlp_Enabled (tr_Otlp (diag_Traces d)) then Some [exporter_for (tr_Otlp (diag_Traces d))] else None)"
    using newTraceHandler_provider [OF assms(2) v(2)] by (cases "IsTracesEnabled d") (simp_all add: f)
  ultimately show ?thesis by (simp add: plain_iff_silent silent_def)
qed

definition otel_works :: otel where
  "otel_works = \<lparr>ot_prometheus = None, ot_grpc = (\<lambda>o1. None), ot_http = (\<lambda>o1. None), ot_runtime = None,
     ot_host = None, ot_gauge = None, ot_counter = None\<rparr>"

definition otlp_diag :: diag_config where
  "otlp_diag = \<lparr>diag_Port = 8051, diag_Enabled = True,
     diag_Metrics = \<lparr>met_Enabled = True, met_Prometheus = \<lparr>prom_Enabled = True\<rparr>,
       met_Otlp = \<lparr>otlp_Enabled = True, otlp_Protocol = ''grpc'', otlp_Endpoint = ''h:4317''\<rparr>\<rparr>,
     diag_Traces = \<lparr>tr_Enabled = False, tr_Otlp = \<lparr>otlp_Enabled = True, otlp_Protocol = ''http'', otlp_Endpoint = []\<rparr>\<rparr>,
     diag_Status = \<lparr>st_Enabled = False\<rparr>\<rparr>"

theorem telemetry_exports_witness:
  "map_option mh_provider (tel_metrics (snd (telemetry_NewReporter otel_works otlp_diag NewNullLogger))) =
     Some [PrometheusExporter, OtlpGrpc \<lparr>oo_Endpoint = Some ''h:4317'', oo_Insecure = True\<rparr>]"
proof -
  have "validate_diag otlp_diag = Valid"
    by (simp add: validate_diag_def otlp_diag_def bad_port_def validate_otlp_def IsMetricsEnabled_def IsTracesEnabled_def check_def)
  moreover have "constructors_ok otel_works" by (simp add: constructors_ok_def otel_works_def)
  ultimately show ?thesis
    using telemetry_exports [OF _ _ refl, of otlp_diag otel_works NewNullLogger]
    by (simp add: IsMetricsEnabled_def otlp_diag_def wanted_readers_def exporter_for_def otlp_options_of_def)
qed

end
