(* ===== verification/Servers.thy ===== *)
theory Servers
  imports Telemetry Grpc
begin

text \<open>
  The servers of the process: \<open>web/server.go\<close>, \<open>diag/server.go\<close> and \<open>grpc/server.go\<close>. Building a
  server gives the lines it prints and the server or an error; \<open>Listen\<close> starts a goroutine whose
  end is an input, and which error it sends to the process is computed from it. The values of a
  line are given as they are printed, \<open>fmt1\<close> prints a number with one decimal.
\<close>

section \<open>Definitions\<close>

text \<open>How \<open>ListenAndServe\<close> returned: after a shutdown, or with an error.\<close>

datatype serve_result = ServerClosed | ServeError string

definition addr :: "int \<Rightarrow> string" where
  "addr port = '':'' @ show_int port"

text \<open>\<open>Shutdown\<close> of both HTTP servers; \<open>err\<close> is the outcome of \<open>http.Server.Shutdown\<close>.\<close>

definition http_shutdown :: "logger \<Rightarrow> string option \<Rightarrow> lines" where
  "http_shutdown l err = shutdown_lines l err"

subsection \<open>\<open>web/server.go\<close>\<close>

record 'cert web_server =
  ws_Addr :: string
  ws_TLSConfig :: "'cert tls_options option"
  ws_conf :: config
  ws_log :: logger

definition web_NewServer ::
  "(string \<Rightarrow> string \<Rightarrow> 'cert res) \<Rightarrow> (64 word \<Rightarrow> string) \<Rightarrow> logger \<Rightarrow> config \<Rightarrow> lines \<times> 'cert web_server res" where
  "web_NewServer load fmt1 log conf =
     (let httpLog = WithPrefix ''http'' log;
          srv = \<lparr>ws_Addr = addr (http_Port (c_Http conf)), ws_TLSConfig = None, ws_conf = conf, ws_log = httpLog\<rparr>
      in if tls_Enabled (c_Tls conf)
         then (case LoadTlsOptions load (c_Tls conf) of
             Inl err \<Rightarrow> ([Errorf httpLog ''failed to configure TLS for the HTTP server: %s'' [err]], Inl err)
           | Inr t \<Rightarrow> ([Reportf httpLog ''using TLS version: %.1f'' [fmt1 (tls_MinVersion (c_Tls conf))]],
                      Inr (srv\<lparr>ws_TLSConfig := Some t\<rparr>)))
         else ([], Inr srv))"

text \<open>\<open>Listen\<close>: the line, and whether the goroutine serves TLS.\<close>

definition web_Listen :: "'cert web_server \<Rightarrow> lines \<times> bool" where
  "web_Listen s =
     ([Reportf (ws_log s) ''HTTP server listening on port: %d'' [show_int (http_Port (c_Http (ws_conf s)))]],
      tls_Enabled (c_Tls (ws_conf s)))"

definition web_sent_error :: "config \<Rightarrow> serve_result \<Rightarrow> string option" where
  "web_sent_error conf res =
     (case res of
        ServerClosed \<Rightarrow> None
      | ServeError err \<Rightarrow>
          Some (''error starting HTTP server on port: '' @ show_int (http_Port (c_Http conf)) @ ''  '' @ err))"

definition web_Shutdown :: "'cert web_server \<Rightarrow> string option \<Rightarrow> lines" where
  "web_Shutdown s err = http_shutdown (ws_log s) err"

subsection \<open>\<open>diag/server.go\<close>\<close>

datatype diag_endpoint = PrometheusHandler | StatusHandler | PprofIndex | PprofSymbol

text \<open>\<open>setupDebugEndpoints\<close> of \<open>server_debug.go\<close> and \<open>server_nodebug.go\<close>, chosen by the build tag.\<close>

definition setupDebugEndpoints :: "bool \<Rightarrow> (string \<times> diag_endpoint) list" where
  "setupDebugEndpoints debug =
     (if debug then [(''/debug/pprof/'', PprofIndex), (''/debug/pprof/{action}'', PprofIndex), (''/debug/pprof/symbol'', PprofSymbol)]
      else [])"

record diag_server =
  ds_Addr :: string
  ds_Handler :: "(string \<times> diag_endpoint) list"
  ds_ReadTimeout :: int
  ds_WriteTimeout :: int
  ds_IdleTimeout :: int
  ds_conf :: diag_config
  ds_log :: logger

text \<open>The timeouts are in seconds.\<close>

definition diag_NewServer :: "bool \<Rightarrow> diag_config \<Rightarrow> logger \<Rightarrow> lines \<times> diag_server" where
  "diag_NewServer debug conf log =
     (let diagLog = WithPrefix ''diag'' log;
          mux1 = (if IsMetricsEnabled conf \<and> IsPrometheusExporterEnabled conf then [(''/metrics'', PrometheusHandler)] else []);
          mux2 = (if IsStatusEnabled conf then [(''/status'', StatusHandler)] else [])
      in (if IsStatusEnabled conf
          then [Reportf diagLog ''status enabled, accepting requests on path: /status'' []] else [],
          \<lparr>ds_Addr = addr (diag_Port conf), ds_Handler = mux1 @ mux2 @ setupDebugEndpoints debug,
           ds_ReadTimeout = 5, ds_WriteTimeout = 10, ds_IdleTimeout = 120, ds_conf = conf, ds_log = diagLog\<rparr>))"

definition diag_Listen :: "diag_server \<Rightarrow> lines" where
  "diag_Listen s = [Reportf (ds_log s) ''diag HTTP server listening on port: %d'' [show_int (diag_Port (ds_conf s))]]"

definition diag_sent_error :: "diag_config \<Rightarrow> serve_result \<Rightarrow> string option" where
  "diag_sent_error conf res =
     (case res of
        ServerClosed \<Rightarrow> None
      | ServeError err \<Rightarrow>
          Some (''error starting diag HTTP server on port: '' @ show_int (diag_Port conf) @ ''  '' @ err))"

definition diag_Shutdown :: "diag_server \<Rightarrow> string option \<Rightarrow> lines" where
  "diag_Shutdown s err = http_shutdown (ds_log s) err"

subsection \<open>\<open>grpc/server.go\<close>\<close>

record 'cert grpc_server =
  gs_Options :: "'cert server_option list"
  gs_health :: bool
  gs_reflection :: bool
  gs_ticker :: bool
  gs_stop_closed :: bool
  gs_service_closed :: bool
  gs_conf :: config
  gs_log :: logger

definition grpc_NewServer ::
  "(string \<Rightarrow> string \<Rightarrow> 'cert res) \<Rightarrow> (64 word \<Rightarrow> string) \<Rightarrow> telemetry \<Rightarrow> config \<Rightarrow> logger \<Rightarrow>
   lines \<times> 'cert grpc_server res" where
  "grpc_NewServer load fmt1 tel conf log =
     (let g = c_Grpc conf;
          grpcLog = WithPrefix ''grpc'' (WithLevel (GetLevel (grpc_Log g)) log);
          (out, creds) =
            (if tls_Enabled (c_Tls conf)
             then (case LoadTlsOptions load (c_Tls conf) of
                 Inl err \<Rightarrow> ([Errorf grpcLog ''failed to configure TLS for the gRPC server: %s'' [err]], Inl err)
               | Inr t \<Rightarrow> ([Reportf grpcLog ''using TLS version: %.1f'' [fmt1 (tls_MinVersion (c_Tls conf))]],
                          Inr [Creds t]))
             else ([], Inr []))
      in case creds of
           Inl err \<Rightarrow> (out, Inl err)
         | Inr opts1 \<Rightarrow>
             (let debug = (lg_level grpcLog = Debug);
                  opts2 = (if debug then opts1 @ [ChainUnaryInterceptor] else opts1);
                  opts3 = (if debug then opts2 @ [ChainStreamInterceptor] else opts2);
                  (params, ok) = ToParams (grpc_KeepAlive g);
                  opts4 = (if ok then opts3 @ [KeepaliveParams params] else opts3)
              in (out, Inr \<lparr>gs_Options = InstrumentGrpc tel opts4, gs_health = HealthCheckEnabled g,
                      gs_reflection = ServerReflectionEnabled g, gs_ticker = HealthCheckEnabled g,
                      gs_stop_closed = False, gs_service_closed = False, gs_conf = conf, gs_log = grpcLog\<rparr>)))"

definition grpc_Listen :: "'cert grpc_server \<Rightarrow> lines" where
  "grpc_Listen s =
     [Reportf (gs_log s) ''GRPC server listening on port: %d'' [show_int (grpc_Port (c_Grpc (gs_conf s)))]]"

text \<open>The error the goroutine sends, from the outcomes of \<open>net.Listen\<close> and of \<open>Serve\<close>.\<close>

definition grpc_sent_error :: "config \<Rightarrow> string option \<Rightarrow> string option \<Rightarrow> string option" where
  "grpc_sent_error conf listen serve =
     (let msg = (\<lambda>err. ''error starting GRPC server on port: '' @ show_int (grpc_Port (c_Grpc conf)) @ ''  '' @ err)
      in case listen of
           Some err \<Rightarrow> Some (msg err)
         | None \<Rightarrow> (case serve of Some err \<Rightarrow> Some (msg err) | None \<Rightarrow> None))"

text \<open>
  \<open>Shutdown\<close>. The second call panics, because a closed channel is closed again (\<open>None\<close>). The
  health check's goroutine sees \<open>gs_stop_closed\<close>, the streams \<open>gs_service_closed\<close>, before
  \<open>GracefulStop\<close> waits for them.
\<close>

definition grpc_Shutdown :: "'cert grpc_server \<Rightarrow> (lines \<times> 'cert grpc_server) option" where
  "grpc_Shutdown s =
     (if gs_stop_closed s then None
      else Some ([Reportf (gs_log s) ''initiating server shutdown'' [], Reportf (gs_log s) ''server shutdown complete'' []],
                 s\<lparr>gs_stop_closed := True, gs_ticker := False, gs_service_closed := True\<rparr>))"

section \<open>Lemmas\<close>

lemma sent_error_iff:
  "web_sent_error conf res = None \<longleftrightarrow> res = ServerClosed"
  "diag_sent_error d res = None \<longleftrightarrow> res = ServerClosed"
  "grpc_sent_error conf listen serve = None \<longleftrightarrow> listen = None \<and> serve = None"
  by (auto simp: web_sent_error_def diag_sent_error_def grpc_sent_error_def Let_def split: serve_result.splits option.splits)

text \<open>The HTTP server and the gRPC server fail on the same TLS configurations and use the same options.\<close>

lemma web_NewServer_iff:
  "(\<exists>s. snd (web_NewServer load fmt1 log conf) = Inr s) \<longleftrightarrow>
     (tls_Enabled (c_Tls conf) \<longrightarrow> (\<exists>t. LoadTlsOptions load (c_Tls conf) = Inr t))"
  by (auto simp: web_NewServer_def Let_def split: sum.splits)

lemma grpc_NewServer_iff:
  "(\<exists>s. snd (grpc_NewServer load fmt1 tel conf log) = Inr s) \<longleftrightarrow>
     (tls_Enabled (c_Tls conf) \<longrightarrow> (\<exists>t. LoadTlsOptions load (c_Tls conf) = Inr t))"
  by (cases "LoadTlsOptions load (c_Tls conf)") (auto simp: grpc_NewServer_def Let_def split: prod.splits)

lemma web_NewServer_tls:
  assumes "snd (web_NewServer load fmt1 log conf) = Inr s"
  shows "ws_TLSConfig s = None \<longleftrightarrow> \<not> tls_Enabled (c_Tls conf)" and "snd (web_Listen s) = tls_Enabled (c_Tls conf)"
    and "ws_TLSConfig s = Some t \<Longrightarrow> LoadTlsOptions load (c_Tls conf) = Inr t"
  using assms by (auto simp: web_NewServer_def web_Listen_def Let_def split: if_splits sum.splits)

lemma grpc_NewServer_creds:
  assumes "snd (grpc_NewServer load fmt1 tel conf log) = Inr s"
  shows "Creds t \<in> set (gs_Options s) \<longleftrightarrow> tls_Enabled (c_Tls conf) \<and> LoadTlsOptions load (c_Tls conf) = Inr t"
  using assms
  by (auto simp: grpc_NewServer_def InstrumentGrpc_def Let_def split: if_splits sum.splits prod.splits)

text \<open>The diagnostics server is started only when it has something to serve.\<close>

lemma diag_serves_iff:
  "ShouldRunDiagServer conf \<longleftrightarrow> ds_Handler (snd (diag_NewServer False conf log)) \<noteq> []"
  by (auto simp: ShouldRunDiagServer_def diag_NewServer_def setupDebugEndpoints_def IsStatusEnabled_def
      IsPrometheusExporterEnabled_def IsMetricsEnabled_def Let_def)

end
