(* ===== verification/Process.thy ===== *)
theory Process
  imports Servers Router ExternalCache
begin

text \<open>
  \<open>main.go\<close> and \<open>NewRegistrar\<close> of \<open>sdk/sdk_registrar.go\<close>: the start of the process, its main loop and
  its shutdown. A start-up gives the actions taken so far and either the running process, the
  exit with a failure, or a panic; the main loop consumes the close signal and the ends of the
  servers' goroutines. The outside world (files, environment variables, the constructors of third-party
  libraries, orders of iteration) is the record \<open>world\<close>.
\<close>

section \<open>Definitions\<close>

subsection \<open>The registrar of the process\<close>

datatype registrar = AutoReg auto_registrar | ManualReg manual_registrar

definition NewRegistrar ::
  "'c profile_env \<Rightarrow> (proxy_config_model \<Rightarrow> string list) \<Rightarrow> string list \<Rightarrow> 'c \<Rightarrow> registrar res option \<times> 'c" where
  "NewRegistrar env order ids c =
     (if profile_IsSet (c_Profile (re_conf (pe_reg env)))
      then (case newAutoRegistrar env order c of
          (None, c') \<Rightarrow> (None, c')
        | (Some (Inl err), c') \<Rightarrow> (Some (Inl err), c')
        | (Some (Inr r), c') \<Rightarrow> (Some (Inr (AutoReg r)), c'))
      else (map_option (\<lambda>r. Inr (ManualReg r)) (newManualRegistrar (pe_reg env) ids), c))"

fun view_of :: "registrar \<Rightarrow> registrar_view" where
  "view_of (AutoReg r) = auto_view r"
| "view_of (ManualReg r) = manual_view r"

fun clients_in :: "registrar \<Rightarrow> client list" where
  "clients_in (AutoReg r) = ar_objs r"
| "clients_in (ManualReg r) = mr_objs r"

fun registrar_ids :: "registrar \<Rightarrow> string \<rightharpoonup> nat" where
  "registrar_ids (AutoReg r) = ar_sdkClients r"
| "registrar_ids (ManualReg r) = mr_sdkClients r"

text \<open>\<open>Close\<close>; \<open>ks\<close> enumerates the identifiers as the loop meets them.\<close>

fun registrar_Close :: "string list \<Rightarrow> registrar \<Rightarrow> registrar" where
  "registrar_Close ks (AutoReg r) = AutoReg (auto_Close ks r)"
| "registrar_Close ks (ManualReg r) = ManualReg (manual_Close ks r)"

subsection \<open>Start-up\<close>

datatype component = Telemetry | DiagServer | Cache | HttpServer | GrpcServer

datatype action = Printed "string log_outcome" | Listening component | RegistrarClosed | RouterClosed | ShutDown component

datatype 'a start = Started 'a | Failed | Panicked

type_synonym 'a startup = "action list \<times> 'a start"

definition then_start :: "'a startup \<Rightarrow> ('a \<Rightarrow> 'b startup) \<Rightarrow> 'b startup" where
  "then_start m f =
     (case m of
        (out, Started x) \<Rightarrow> (case f x of (out', y) \<Rightarrow> (out @ out', y))
      | (out, Failed) \<Rightarrow> (out, Failed)
      | (out, Panicked) \<Rightarrow> (out, Panicked))"

record ('c, 'cert) world =
  w_version :: string
  w_compile :: "string \<Rightarrow> string res"
  w_files :: files
  w_decoders :: decoders
  w_vars :: env
  w_missing :: "string \<Rightarrow> bool"
  w_ids :: "config \<Rightarrow> string list"
  w_registered :: "config \<Rightarrow> string list"
  w_otel :: otel
  w_debug_build :: bool
  w_load_cert :: "string \<Rightarrow> string \<Rightarrow> 'cert res"
  w_connect :: "string \<Rightarrow> unit res"
  w_index :: "string \<Rightarrow> string \<Rightarrow> unit res"
  w_aws :: "unit res"
  w_profile :: "'c profile_env"
  w_porder :: "proxy_config_model \<Rightarrow> string list"
  w_cache :: 'c
  w_router :: router_env
  w_fmt1 :: "64 word \<Rightarrow> string"

record process =
  pr_conf :: config
  pr_log :: logger
  pr_telemetry :: telemetry
  pr_registrar :: registrar
  pr_router :: "route list option"
  pr_shutdown :: "component list"

definition first_logger :: logger where
  "first_logger = NewLogger Warn"

definition printed :: "lines \<Rightarrow> action list" where
  "printed ls = map Printed ls"

definition start_config :: "('c, 'cert) world \<Rightarrow> string \<Rightarrow> config startup" where
  "start_config w configFile =
     (let hello = [Printed (Reportf first_logger ''ConfigCat Proxy v%s starting...'' [w_version w])]
      in case LoadConfig (w_compile w) (w_files w) (w_decoders w) (w_vars w) configFile of
           Inl err \<Rightarrow> (hello @ [Printed (Errorf first_logger ''%s'' [err])], Failed)
         | Inr conf \<Rightarrow>
             (case validate_config (w_missing w) (w_ids w conf) conf of
                Invalid err \<Rightarrow> (hello @ [Printed (Errorf first_logger ''%s'' [err])], Failed)
              | Panics \<Rightarrow> (hello, Panicked)
              | Valid \<Rightarrow> (hello, Started conf)))"

definition start_diag :: "('c, 'cert) world \<Rightarrow> config \<Rightarrow> logger \<Rightarrow> component list startup" where
  "start_diag w conf l =
     (if ShouldRunDiagServer (c_Diag conf)
      then (case diag_NewServer (w_debug_build w) (c_Diag conf) l of
          (out, s) \<Rightarrow> (printed out @ printed (diag_Listen s) @ [Listening DiagServer], Started [DiagServer]))
      else ([], Started []))"

text \<open>The cache that was set up, if any; the lines of the set-up are left out.\<close>

definition start_cache :: "('c, 'cert) world \<Rightarrow> config \<Rightarrow> 'cert backend option startup" where
  "start_cache w conf =
     (if cache_IsSet (c_Cache conf)
      then (case SetupExternalCache (w_load_cert w) (w_connect w) (w_index w) (w_aws w) (c_Cache conf) of
          Inl err \<Rightarrow> ([], Failed)
        | Inr b \<Rightarrow> ([], Started b))
      else ([], Started None))"

definition registrar_world :: "('c, 'cert) world \<Rightarrow> config \<Rightarrow> bool \<Rightarrow> 'c profile_env" where
  "registrar_world w conf cached =
     (w_profile w)\<lparr>pe_reg := (pe_reg (w_profile w))\<lparr>re_conf := conf, re_cache_set := cached\<rparr>,
                    pe_cache := (if cached then pe_cache (w_profile w) else None)\<rparr>"

definition start_registrar :: "('c, 'cert) world \<Rightarrow> config \<Rightarrow> bool \<Rightarrow> registrar startup" where
  "start_registrar w conf cached =
     (case NewRegistrar (registrar_world w conf cached) (w_porder w) (w_registered w conf) (w_cache w) of
        (None, c) \<Rightarrow> ([], Panicked)
      | (Some (Inl err), c) \<Rightarrow> ([], Failed)
      | (Some (Inr r), c) \<Rightarrow> ([], Started r))"

definition router_world :: "('c, 'cert) world \<Rightarrow> registrar \<Rightarrow> telemetry \<Rightarrow> router_env" where
  "router_world w reg tel =
     (w_router w)\<lparr>re_registrar := view_of reg,
        re_instrumented := (instrument_http_handler tel [] [] \<noteq> Plain)\<rparr>"

definition start_http ::
  "('c, 'cert) world \<Rightarrow> config \<Rightarrow> logger \<Rightarrow> registrar \<Rightarrow> telemetry \<Rightarrow> (route list option \<times> component list) startup" where
  "start_http w conf l reg tel =
     (if http_Enabled (c_Http conf)
      then (let router = NewRouter (router_world w reg tel) (c_Http conf) (c_Profile conf) l
            in case web_NewServer (w_load_cert w) (w_fmt1 w) l conf of
                 (out, Inl err) \<Rightarrow> (printed out, Failed)
               | (out, Inr s) \<Rightarrow> (printed out @ printed (fst (web_Listen s)) @ [Listening HttpServer],
                                Started (Some router, [HttpServer])))
      else ([], Started (None, [])))"

definition start_grpc :: "('c, 'cert) world \<Rightarrow> config \<Rightarrow> logger \<Rightarrow> telemetry \<Rightarrow> component list startup" where
  "start_grpc w conf l tel =
     (if grpc_Enabled (c_Grpc conf)
      then (case grpc_NewServer (w_load_cert w) (w_fmt1 w) tel conf l of
          (out, Inl err) \<Rightarrow> (printed out, Failed)
        | (out, Inr s) \<Rightarrow> (printed out @ printed (grpc_Listen s) @ [Listening GrpcServer], Started [GrpcServer]))
      else ([], Started []))"

text \<open>The start-up of \<open>run\<close>, up to its main loop.\<close>

definition start_services :: "('c, 'cert) world \<Rightarrow> config \<Rightarrow> process startup" where
  "start_services w conf =
     (let l = WithLevel (GetLevel (c_Log conf)) first_logger;
          (out, tel) = telemetry_NewReporter (w_otel w) (c_Diag conf) l
      in then_start (printed out, Started ()) (\<lambda>_.
         then_start (start_diag w conf l) (\<lambda>diag.
         then_start (start_cache w conf) (\<lambda>cache.
         then_start (start_registrar w conf (cache \<noteq> None)) (\<lambda>reg.
         then_start (start_http w conf l reg tel) (\<lambda>(router, http).
         then_start (start_grpc w conf l tel) (\<lambda>grpc.
           ([], Started \<lparr>pr_conf = conf, pr_log = l, pr_telemetry = tel, pr_registrar = reg, pr_router = router,
                  pr_shutdown = [Telemetry] @ diag @ (if cache_IsSet (c_Cache conf) then [Cache] else []) @ http @ grpc\<rparr>))))))))"

definition start_process :: "('c, 'cert) world \<Rightarrow> string \<Rightarrow> process startup" where
  "start_process w configFile = then_start (start_config w configFile) (start_services w)"

subsection \<open>The main loop\<close>

text \<open>
  \<open>RegistrarChanged\<close> stands for a refresh by the registrar's own goroutine; it is no branch of the
  \<open>select\<close>, but the close signal finds the registrar it left.
\<close>

datatype run_event =
    CloseSignal
  | RegistrarChanged registrar
  | DiagServed serve_result
  | HttpServed serve_result
  | GrpcServed "string option" "string option"

fun sent_error :: "config \<Rightarrow> run_event \<Rightarrow> string option" where
  "sent_error conf CloseSignal = None"
| "sent_error conf (RegistrarChanged reg) = None"
| "sent_error conf (DiagServed res) = diag_sent_error (c_Diag conf) res"
| "sent_error conf (HttpServed res) = web_sent_error conf res"
| "sent_error conf (GrpcServed listen serve) = grpc_sent_error conf listen serve"

definition exitOk :: nat where "exitOk = 0"
definition exitFailure :: nat where "exitFailure = 1"

datatype outcome = Exit nat | Crash | Running

text \<open>
  The branch of the close signal. The shutdown functions run in goroutines of their own and all
  are waited for; \<open>sched\<close> is the order in which they end, \<open>ks\<close> the order of the registrar's loop.
\<close>

definition close_process ::
  "(registrar \<Rightarrow> string list) \<Rightarrow> (component list \<Rightarrow> component list) \<Rightarrow> process \<Rightarrow> action list \<times> process" where
  "close_process ks sched p =
     ([Printed (Reportf (pr_log p) ''shutdown requested...'' []), RegistrarClosed]
      @ (if pr_router p \<noteq> None then [RouterClosed] else [])
      @ map ShutDown (sched (pr_shutdown p)),
      p\<lparr>pr_registrar := registrar_Close (ks (pr_registrar p)) (pr_registrar p)\<rparr>)"

fun main_loop ::
  "(registrar \<Rightarrow> string list) \<Rightarrow> (component list \<Rightarrow> component list) \<Rightarrow> run_event list \<Rightarrow> process \<Rightarrow>
   action list \<times> process \<times> outcome" where
  "main_loop ks sched [] p = ([], p, Running)"
| "main_loop ks sched (CloseSignal # es) p = (case close_process ks sched p of (out, p') \<Rightarrow> (out, p', Exit exitOk))"
| "main_loop ks sched (RegistrarChanged reg # es) p = main_loop ks sched es (p\<lparr>pr_registrar := reg\<rparr>)"
| "main_loop ks sched (e # es) p =
     (case sent_error (pr_conf p) e of
        None \<Rightarrow> main_loop ks sched es p
      | Some err \<Rightarrow> ([Printed (Errorf (pr_log p) ''%s'' [err])], p, Exit exitFailure))"

text \<open>\<open>run\<close>: the actions, the process that was running, if any, and the outcome.\<close>

definition run ::
  "('c, 'cert) world \<Rightarrow> string \<Rightarrow> (registrar \<Rightarrow> string list) \<Rightarrow> (component list \<Rightarrow> component list) \<Rightarrow> run_event list \<Rightarrow>
   action list \<times> process option \<times> outcome" where
  "run w configFile ks sched es =
     (case start_process w configFile of
        (out, Failed) \<Rightarrow> (out, None, Exit exitFailure)
      | (out, Panicked) \<Rightarrow> (out, None, Crash)
      | (out, Started p) \<Rightarrow> (case main_loop ks sched es p of (out', p', res) \<Rightarrow> (out @ out', Some p', res)))"

section \<open>Lemmas\<close>

subsection \<open>Closing a registrar\<close>

definition registrar_heap_ok :: "registrar \<Rightarrow> bool" where
  "registrar_heap_ok reg \<longleftrightarrow> heap_ok (registrar_ids reg) (clients_in reg)"

lemma registrar_Close_closes:
  assumes "registrar_heap_ok reg" "enumerates ks (registrar_ids reg)" "c \<in> set (clients_in (registrar_Close ks reg))"
  shows "cl_closed c"
  using assms close_all_closes
  by (cases reg) (auto simp: registrar_heap_ok_def auto_Close_def manual_Close_def)

lemma NewRegistrar_heap:
  assumes "NewRegistrar env order ids c = (Some (Inr reg), c')" "distinct ids"
    and "\<And>b cfg. pe_parse env b = Inr cfg \<Longrightarrow> enumerates (order cfg) (pm_SDKs cfg)"
  shows "registrar_heap_ok reg"
proof (cases "profile_IsSet (c_Profile (re_conf (pe_reg env)))")
  case True
  then obtain r where r: "reg = AutoReg r" "newAutoRegistrar env order c = (Some (Inr r), c')"
    using assms(1) by (auto simp: NewRegistrar_def split: prod.splits option.splits sum.splits)
  obtain res r0 c0 where g: "getConfig env c empty_auto = ((res, r0), c0)" by (metis surj_pair)
  with r(2) obtain cfg where cfg: "r = init_clients (pe_reg env) cfg (order cfg) r0" "res = Inr (Some cfg)"
    by (auto simp: newAutoRegistrar_def split: sum.splits option.splits)
  have "enumerates (order cfg) (pm_SDKs cfg)" using getConfig_parsed [OF g [unfolded cfg(2)]] assms(3) by blast
  moreover have "ar_sdkClients r0 = Map.empty \<and> ar_objs r0 = [] \<and> ar_sdkClientsBySdkKey r0 = Map.empty"
    using getConfig_cases [OF g] by (auto simp: empty_auto_def)
  ultimately have "reg_inv r"
    using init_clients_facts(1) [of "order cfg" cfg r0 "pe_reg env"] cfg(1) by simp
  then show ?thesis by (simp add: registrar_heap_ok_def r(1) reg_inv_def)
next
  case False
  then obtain r where r: "reg = ManualReg r" "newManualRegistrar (pe_reg env) ids = Some r"
    using assms(1) by (auto simp: NewRegistrar_def)
  have "heap_ok (mr_sdkClients r) (mr_objs r)"
    by (rule manual_loop_heap [OF r(2) [unfolded newManualRegistrar_def] assms(2)]) (simp_all add: heap_ok_def)
  then show ?thesis by (simp add: registrar_heap_ok_def r(1))
qed

subsection \<open>What a start-up did\<close>

lemma then_start_Started:
  "then_start m f = (out, Started y) \<longleftrightarrow>
     (\<exists>o1 x o2. m = (o1, Started x) \<and> f x = (o2, Started y) \<and> out = o1 @ o2)"
  by (auto simp: then_start_def split: prod.splits start.splits)

lemma then_startE:
  assumes "then_start m f = (out, Started y)"
  obtains o1 x o2 where "m = (o1, Started x)" "out = o1 @ o2" "f x = (o2, Started y)"
  using assms that by (auto simp: then_start_Started)

text \<open>A start-up closes nothing.\<close>

definition opens_only :: "action list \<Rightarrow> bool" where
  "opens_only acts \<longleftrightarrow> (\<forall>a \<in> set acts. (\<exists>l. a = Printed l) \<or> (\<exists>c. a = Listening c))"

lemma opens_only_simps [simp]:
  "opens_only []" "opens_only (printed ls)" "opens_only (xs @ ys) \<longleftrightarrow> opens_only xs \<and> opens_only ys"
  "opens_only (Printed l # xs) \<longleftrightarrow> opens_only xs" "opens_only (Listening c # xs) \<longleftrightarrow> opens_only xs"
  by (auto simp: opens_only_def printed_def)

lemma then_start_opens:
  "opens_only (fst m) \<Longrightarrow> (\<And>x. opens_only (fst (f x))) \<Longrightarrow> opens_only (fst (then_start m f))"
  by (auto simp: then_start_def split: prod.splits start.splits) (metis fst_conv)

lemma start_opens:
  "opens_only (fst (start_config w configFile))" "opens_only (fst (start_diag w conf l))"
  "opens_only (fst (start_cache w conf))" "opens_only (fst (start_registrar w conf cached))"
  "opens_only (fst (start_http w conf l reg tel))" "opens_only (fst (start_grpc w conf l tel))"
  by (auto simp: start_config_def start_diag_def start_cache_def start_registrar_def start_http_def start_grpc_def Let_def
      split: sum.splits verdict.splits prod.splits option.splits)

lemma start_process_opens: "opens_only (fst (start_process w configFile))"
  unfolding start_process_def start_services_def Let_def
  by (intro then_start_opens start_opens)
    (auto split: prod.splits intro!: then_start_opens start_opens)

definition listening :: "action list \<Rightarrow> component set" where
  "listening acts = {c. Listening c \<in> set acts}"

lemma listening_simps [simp]:
  "listening [] = {}" "listening (printed ls) = {}" "listening (xs @ ys) = listening xs \<union> listening ys"
  "listening (Printed l # xs) = listening xs" "listening (Listening c # xs) = insert c (listening xs)"
  by (auto simp: listening_def printed_def)

text \<open>The components that a configuration asks for.\<close>

definition wanted :: "config \<Rightarrow> component list" where
  "wanted conf = [Telemetry] @ (if ShouldRunDiagServer (c_Diag conf) then [DiagServer] else [])
     @ (if cache_IsSet (c_Cache conf) then [Cache] else [])
     @ (if http_Enabled (c_Http conf) then [HttpServer] else [])
     @ (if grpc_Enabled (c_Grpc conf) then [GrpcServer] else [])"

lemma distinct_wanted: "distinct (wanted conf)"
  by (simp add: wanted_def)

lemma start_diag_Started:
  "start_diag w conf l = (out, Started d) \<Longrightarrow>
     d = (if ShouldRunDiagServer (c_Diag conf) then [DiagServer] else []) \<and> listening out = set d"
  by (auto simp: start_diag_def split: if_splits prod.splits)

lemma start_cache_Started:
  assumes "start_cache w conf = (out, Started b)"
  shows "listening out = {} \<and> (b = None \<longleftrightarrow> \<not> cache_IsSet (c_Cache conf))"
proof (cases "cache_IsSet (c_Cache conf)")
  case True
  then have "SetupExternalCache (w_load_cert w) (w_connect w) (w_index w) (w_aws w) (c_Cache conf) = Inr b" "out = []"
    using assms by (auto simp: start_cache_def split: sum.splits)
  from SetupExternalCache_selects [OF this(1)] this(2) True show ?thesis by simp
qed (use assms in \<open>simp add: start_cache_def\<close>)

lemma start_registrar_Started:
  "start_registrar w conf cached = (out, Started reg) \<Longrightarrow> listening out = {} \<and>
     (\<exists>c'. NewRegistrar (registrar_world w conf cached) (w_porder w) (w_registered w conf) (w_cache w) = (Some (Inr reg), c'))"
  by (auto simp: start_registrar_def split: prod.splits option.splits sum.splits)

lemma start_http_Started:
  "start_http w conf l reg tel = (out, Started (router, h)) \<Longrightarrow>
     h = (if http_Enabled (c_Http conf) then [HttpServer] else []) \<and> listening out = set h
     \<and> router = (if http_Enabled (c_Http conf)
          then Some (NewRouter (router_world w reg tel) (c_Http conf) (c_Profile conf) l) else None)"
  by (auto simp: start_http_def Let_def split: if_splits prod.splits sum.splits)

lemma start_grpc_Started:
  "start_grpc w conf l tel = (out, Started g) \<Longrightarrow>
     g = (if grpc_Enabled (c_Grpc conf) then [GrpcServer] else []) \<and> listening out = set g"
  by (auto simp: start_grpc_def split: if_splits prod.splits sum.splits)

lemma start_services_Started:
  assumes "start_services w conf = (out, Started p)"
  shows "pr_conf p = conf" "pr_shutdown p = wanted conf" "listening out = set (wanted conf) - {Telemetry, Cache}"
    "pr_router p \<noteq> None \<longleftrightarrow> http_Enabled (c_Http conf)"
    "\<exists>c'. NewRegistrar (registrar_world w conf (cache_IsSet (c_Cache conf))) (w_porder w) (w_registered w conf) (w_cache w) =
       (Some (Inr (pr_registrar p)), c')"
    "pr_router p = Some router \<Longrightarrow>
       router = NewRouter (router_world w (pr_registrar p) (pr_telemetry p)) (c_Http conf) (c_Profile conf) (pr_log p)"
    "pr_log p = WithLevel (GetLevel (c_Log conf)) first_logger"
proof -
  obtain o0 tel where t: "telemetry_NewReporter (w_otel w) (c_Diag conf) (WithLevel (GetLevel (c_Log conf)) first_logger) = (o0, tel)"
    by (rule prod.exhaust)
  let ?l = "WithLevel (GetLevel (c_Log conf)) first_logger"
  obtain o1 d o2 b o3 reg o4 x o5 g where parts:
    "start_diag w conf ?l = (o1, Started d)" "start_cache w conf = (o2, Started b)"
    "start_registrar w conf (b \<noteq> None) = (o3, Started reg)" "start_http w conf ?l reg tel = (o4, Started x)"
    "start_grpc w conf ?l tel = (o5, Started g)"
    and out: "out = printed o0 @ o1 @ o2 @ o3 @ o4 @ o5"
    and p: "p = \<lparr>pr_conf = conf, pr_log = ?l, pr_telemetry = tel, pr_registrar = reg, pr_router = fst x,
       pr_shutdown = [Telemetry] @ d @ (if cache_IsSet (c_Cache conf) then [Cache] else []) @ snd x @ g\<rparr>"
    using assms unfolding start_services_def Let_def t prod.case case_prod_unfold
    by (elim then_startE) simp
  obtain router h where x: "x = (router, h)" by (rule prod.exhaust)
  note f = start_diag_Started [OF parts(1)] start_cache_Started [OF parts(2)] start_registrar_Started [OF parts(3)]
    start_http_Started [OF parts(4) [unfolded x]] start_grpc_Started [OF parts(5)]
  show "pr_conf p = conf" "pr_shutdown p = wanted conf" "pr_router p \<noteq> None \<longleftrightarrow> http_Enabled (c_Http conf)"
    "pr_log p = ?l"
    using f by (simp_all add: p x wanted_def)
  show "listening out = set (wanted conf) - {Telemetry, Cache}"
    using f unfolding out wanted_def by auto
  show "\<exists>c'. NewRegistrar (registrar_world w conf (cache_IsSet (c_Cache conf))) (w_porder w) (w_registered w conf) (w_cache w) =
       (Some (Inr (pr_registrar p)), c')"
    using f(2,3) by (simp add: p x)
  show "pr_router p = Some router' \<Longrightarrow>
       router' = NewRouter (router_world w (pr_registrar p) (pr_telemetry p)) (c_Http conf) (c_Profile conf) (pr_log p)" for router'
    using f(4) by (simp add: p x split: if_splits)
qed

lemma start_config_Started:
  assumes "start_config w configFile = (out, Started conf)"
  shows "LoadConfig (w_compile w) (w_files w) (w_decoders w) (w_vars w) configFile = Inr conf"
    "validate_config (w_missing w) (w_ids w conf) conf = Valid" "listening out = {}"
  using assms by (auto simp: start_config_def Let_def split: sum.splits verdict.splits)

lemma start_process_Started:
  assumes "start_process w configFile = (out, Started p)"
  shows "\<exists>o1 o2. start_config w configFile = (o1, Started (pr_conf p)) \<and> start_services w (pr_conf p) = (o2, Started p)
    \<and> out = o1 @ o2"
  using assms start_services_Started(1) unfolding start_process_def then_start_Started by metis

subsection \<open>The main loop\<close>

definition decisive :: "process \<Rightarrow> run_event \<Rightarrow> bool" where
  "decisive p e \<longleftrightarrow> e = CloseSignal \<or> sent_error (pr_conf p) e \<noteq> None"

lemma main_loop_find:
  "snd (snd (main_loop ks sched es p)) =
     (case List.find (decisive p) es of None \<Rightarrow> Running | Some e \<Rightarrow> Exit (if e = CloseSignal then exitOk else exitFailure))"
proof (induction ks sched es p rule: main_loop.induct)
  case (3 ks sched reg es p)
  have "decisive (p\<lparr>pr_registrar := reg\<rparr>) = decisive p" by (simp add: decisive_def fun_eq_iff)
  with 3 show ?case by (simp add: decisive_def)
qed (auto simp: decisive_def split: prod.splits option.splits)

lemma main_loop_Exit:
  "main_loop ks sched es p = (out, p', Exit n) \<Longrightarrow>
     n = exitOk \<and> (\<exists>reg. (reg = pr_registrar p \<or> RegistrarChanged reg \<in> set es) \<and>
        (out, p') = close_process ks sched (p\<lparr>pr_registrar := reg\<rparr>))
     \<or> n = exitFailure \<and> (\<exists>err. out = [Printed (Errorf (pr_log p) ''%s'' [err])])"
proof (induction ks sched es p rule: main_loop.induct)
  case (2 ks sched es p)
  then show ?case by (auto split: prod.splits intro!: exI [of _ "pr_registrar p"])
next
  case (3 ks sched reg es p)
  from 3(2) have "main_loop ks sched es (p\<lparr>pr_registrar := reg\<rparr>) = (out, p', Exit n)" by simp
  from 3(1) [OF this] show ?case by auto
qed (auto split: option.splits)

subsection \<open>When a start-up succeeds\<close>

lemma then_start_succeeds:
  assumes "m = (o1, Started x)" and "\<exists>out y. f x = (out, Started y)"
  shows "\<exists>out y. then_start m f = (out, Started y)"
  using assms by (auto simp: then_start_def)

text \<open>Without TLS and without a cache, only the registrar can fail.\<close>

lemma start_services_succeeds:
  assumes "\<not> tls_Enabled (c_Tls conf)" and "\<not> cache_IsSet (c_Cache conf)"
    and "NewRegistrar (registrar_world w conf False) (w_porder w) (w_registered w conf) (w_cache w) = (Some (Inr reg), c')"
  shows "\<exists>out p. start_services w conf = (out, Started p)"
proof -
  obtain o0 tel where t: "telemetry_NewReporter (w_otel w) (c_Diag conf) (WithLevel (GetLevel (c_Log conf)) first_logger) = (o0, tel)"
    by (rule prod.exhaust)
  let ?l = "WithLevel (GetLevel (c_Log conf)) first_logger"
  have "\<exists>o1 d. start_diag w conf ?l = (o1, Started d)"
    by (simp add: start_diag_def split: prod.splits)
  then obtain o1 d where d: "start_diag w conf ?l = (o1, Started d)" by blast
  have c: "start_cache w conf = ([], Started None)" using assms(2) by (simp add: start_cache_def)
  have r: "start_registrar w conf False = ([], Started reg)" using assms(3) by (simp add: start_registrar_def)
  have "\<exists>o2 x. start_http w conf ?l reg tel = (o2, Started x)"
    using assms(1) by (simp add: start_http_def web_NewServer_def Let_def)
  then obtain o2 x where h: "start_http w conf ?l reg tel = (o2, Started x)" by blast
  have "\<exists>o3 g. start_grpc w conf ?l tel = (o3, Started g)"
    using assms(1) by (simp add: start_grpc_def grpc_NewServer_def Let_def split: prod.splits)
  then obtain o3 g where g: "start_grpc w conf ?l tel = (o3, Started g)" by blast
  show ?thesis
    unfolding start_services_def Let_def t prod.case case_prod_unfold
    by (intro then_start_succeeds [OF refl] then_start_succeeds [OF d] then_start_succeeds [OF c] then_start_succeeds [OF h]
        then_start_succeeds [OF g]) (simp add: then_start_def r h g split: prod.splits)
qed

section \<open>Properties\<close>

text \<open>A process that reads one SDK from the environment and has no other configuration.\<close>

definition demo_profile :: "unit profile_env" where
  "demo_profile = \<lparr>pe_reg = \<lparr>re_conf = zero_config, re_ProduceCacheKey = (\<lambda>k. k),
       re_load = (\<lambda>cx. (\<lparr>en_ConfigJson = [], en_ETag = [], en_FetchTime = 0, en_Empty = True\<rparr>,
         \<lparr>sn_GetValueDetails = (\<lambda>u k. \<lparr>dt_Key = k, dt_Value = VNil, dt_VariationID = [], dt_User = u,
            dt_Error = Some (ErrKeyNotFound k), dt_MatchedPercentageOption = False, dt_MatchedTargetingRule = False\<rparr>),
          sn_GetAllValueDetails = (\<lambda>u. []), sn_GetAllKeys = []\<rparr>)), re_cache_set = False\<rparr>,
     pe_cache = None, pe_new_request = (\<lambda>u. Inl ''offline''), pe_http = (\<lambda>q. TransportError ''offline''),
     pe_parse = (\<lambda>b. Inl ''offline'')\<rparr>"

definition demo_router :: router_env where
  "demo_router = \<lparr>re_json = \<lparr>js_EvalRequest = (\<lambda>b. Inr None), js_Context = (\<lambda>b. Inr None), js_Payload = (\<lambda>p. Inr []),
       js_Payloads = (\<lambda>p. Inr []), js_Keys = (\<lambda>k. Inr []), js_Ofrep = (\<lambda>b. Inr [])\<rparr>,
     re_xxhash = (\<lambda>b. b), re_disc = (\<lambda>u. 0), re_order = (\<lambda>m. []), re_hmac = (\<lambda>k m. []), re_sha = (\<lambda>b. b), re_now = 0,
     re_registrar = \<lparr>rv_GetSdkOrNil = (\<lambda>i. None), rv_GetSdkByKeyOrNil = (\<lambda>k. None)\<rparr>,
     re_streams = \<lparr>sv_GetStreamOrNil = (\<lambda>i. None), sv_GetStreamBySdkKeyOrNil = (\<lambda>k. None)\<rparr>,
     re_refresh = (\<lambda>a. None), re_status = Inr [], re_match = (\<lambda>p s. False), re_ord = (\<lambda>m. []),
     re_instrumented = False, re_otel = (\<lambda>operation h. h)\<rparr>"

definition demo_world :: "(unit, unit) world" where
  "demo_world = \<lparr>w_version = ''0.0.0'', w_compile = Inr,
     w_files = \<lparr>os_stat = (\<lambda>p. StatOk), eval_symlinks = (\<lambda>p. Inr p), read_file = (\<lambda>p. Inr []),
       yaml_unmarshal = (\<lambda>b c. Inr (c\<lparr>c_SDKs := [''main'' \<mapsto> Some (zero_sdk\<lparr>sdk_Key := ''key''\<rparr>)]\<rparr>)), default_path = None\<rparr>,
     w_decoders = \<lparr>dec_float = (\<lambda>s. Inl ''float''), dec_strlist = (\<lambda>s. Inr [s]), dec_certs = (\<lambda>s. Inr []),
       dec_strmap = (\<lambda>s. Inr [(''main'', s)]), dec_attrs = (\<lambda>s. Inr None), int_error = (\<lambda>s. ''int''), bool_error = (\<lambda>s. ''bool'')\<rparr>,
     w_vars = (\<lambda>k. []), w_missing = (\<lambda>f. False), w_ids = (\<lambda>c. [''main'']),
     w_registered = (\<lambda>c. [''main'']),
     w_otel = \<lparr>ot_prometheus = None, ot_grpc = (\<lambda>o1. None), ot_http = (\<lambda>o1. None), ot_runtime = None,
       ot_host = None, ot_gauge = None, ot_counter = None\<rparr>,
     w_debug_build = False, w_load_cert = (\<lambda>c k. Inl ''none''), w_connect = (\<lambda>u. Inr ()), w_index = (\<lambda>d c. Inr ()), w_aws = Inr (),
     w_profile = demo_profile, w_porder = (\<lambda>m. []), w_cache = (), w_router = demo_router, w_fmt1 = (\<lambda>v. ''1.2'')\<rparr>"

definition demo_conf :: config where
  "demo_conf = fixup_all ((setDefaults zero_config)\<lparr>c_SDKs := [''main'' \<mapsto> Some (zero_sdk\<lparr>sdk_Key := ''key''\<rparr>)]\<rparr>)"

lemma demo_facts:
  "\<not> cache_IsSet (c_Cache demo_conf)" "\<not> tls_Enabled (c_Tls demo_conf)"
  "\<not> profile_IsSet (c_Profile demo_conf)" "http_Enabled (c_Http demo_conf)"
  by code_simp+

lemma demo_sdks: "c_SDKs demo_conf = [''main'' \<mapsto> Some (fixupDefaults_sdk (fixupLogLevels_sdk ''warn'' (zero_sdk\<lparr>sdk_Key := ''key''\<rparr>)))]"
  by (simp add: demo_conf_def fixup_all_def fixupLogLevels_def fixupDefaults_def fixupTlsMinVersions_def fixupOffline_def on_sdks_def
     Let_def config_defs GetLevel_def log_level_of_def fun_eq_iff)

lemma demo_valid: "validate_config (\<lambda>f. False) [''main''] demo_conf = Valid"
proof -
  have "validate_sdks (\<lambda>f. False) demo_conf [''main''] = Valid" "validate_tls (c_Tls demo_conf) = Valid"
    "validate_redis (Redis (c_Cache demo_conf)) = Valid" "validate_mongo (MongoDb (c_Cache demo_conf)) = Valid"
    "validate_global_offline (c_Cache demo_conf) (c_GlobalOfflineConfig demo_conf) = Valid" by code_simp+
  moreover have "validate_http (c_Http demo_conf) = Valid" unfolding http_Valid by code_simp
  moreover have "validate_diag (c_Diag demo_conf) = Valid" unfolding diag_Valid by code_simp
  moreover have "validate_grpc (c_Grpc demo_conf) = Valid" unfolding grpc_Valid by code_simp
  ultimately show ?thesis by (simp add: validate_config_def first_of_Valid demo_facts)
qed

lemma demo_cors:
  "Patterns (AllowedOriginsRegex (api_CORS (http_Api (c_Http demo_conf)))) = []"
  "Patterns (AllowedOriginsRegex (cdn_CORS (http_CdnProxy (c_Http demo_conf)))) = []"
  "Patterns (AllowedOriginsRegex (sse_CORS (http_Sse (c_Http demo_conf)))) = []"
  by code_simp+

lemma demo_regex: "compileOriginRegexes Inr (c_Http demo_conf) = Inr (c_Http demo_conf)"
  using demo_cors by (simp add: compileOriginRegexes_def compileRegexes_def on_field_def)

lemma demo_config: "\<exists>out. start_config demo_world ''c.yml'' = (out, Started demo_conf)"
proof -
  have "load_file (w_files demo_world) ''c.yml'' (setDefaults zero_config) =
      Inr ((setDefaults zero_config)\<lparr>c_SDKs := [''main'' \<mapsto> Some (zero_sdk\<lparr>sdk_Key := ''key''\<rparr>)]\<rparr>)"
    by (simp add: load_file_def demo_world_def bind_res_def)
  moreover have "loadEnv (w_decoders demo_world) (w_vars demo_world) c = Inr c" for c
    by (rule config_env.idle) (simp add: demo_world_def unset_def)
  ultimately have "LoadConfig (w_compile demo_world) (w_files demo_world) (w_decoders demo_world) (w_vars demo_world) ''c.yml'' = Inr demo_conf"
    using demo_regex by (simp add: LoadConfig_def bind_res_def on_field_def demo_conf_def demo_world_def)
  then show ?thesis
    using demo_valid by (simp add: start_config_def demo_world_def)
qed

lemma demo_starts: "\<exists>out p. start_process demo_world ''c.yml'' = (out, Started p) \<and> pr_conf p = demo_conf"
proof -
  obtain out where c: "start_config demo_world ''c.yml'' = (out, Started demo_conf)" using demo_config by blast
  have "\<exists>r. newManualRegistrar (pe_reg (registrar_world demo_world demo_conf False)) [''main''] = Some r"
    by (simp add: newManualRegistrar_def registrar_world_def demo_sdks Let_def)
  then obtain reg c' where "NewRegistrar (registrar_world demo_world demo_conf False) (w_porder demo_world)
      (w_registered demo_world demo_conf) (w_cache demo_world) = (Some (Inr reg), c')"
    using demo_facts(3) by (auto simp: NewRegistrar_def registrar_world_def demo_world_def)
  from start_services_succeeds [OF demo_facts(2,1) this]
  obtain out' p where p: "start_services demo_world demo_conf = (out', Started p)" by blast
  then have "start_process demo_world ''c.yml'' = (out @ out', Started p)"
    by (simp add: start_process_def then_start_def c)
  then show ?thesis using start_services_Started(1) [OF p] by blast
qed

text \<open>
  C21: once started, the process returns with the first event that ends it and not before: the
  close signal with exit code 0, the failure of a server with exit code 1. The end of a server
  that was shut down does not count.
\<close>

theorem run_returns:
  assumes "start_process w configFile = (out, Started p)"
  shows "snd (snd (run w configFile ks sched es)) =
      (case List.find (decisive p) es of None \<Rightarrow> Running | Some e \<Rightarrow> Exit (if e = CloseSignal then 0 else 1))
    \<and> (decisive p e \<longleftrightarrow> e = CloseSignal \<or> (\<exists>err. e = DiagServed (ServeError err) \<or> e = HttpServed (ServeError err))
        \<or> (\<exists>listen serve. e = GrpcServed listen serve \<and> (listen \<noteq> None \<or> serve \<noteq> None)))"
proof -
  have "snd (snd (main_loop ks sched es p)) =
      (case List.find (decisive p) es of None \<Rightarrow> Running | Some e \<Rightarrow> Exit (if e = CloseSignal then 0 else 1))"
    by (simp add: main_loop_find exitOk_def exitFailure_def split: option.splits)
  moreover have "sent_error (pr_conf p) e \<noteq> None \<longleftrightarrow> (\<exists>err. e = DiagServed (ServeError err) \<or> e = HttpServed (ServeError err))
        \<or> (\<exists>listen serve. e = GrpcServed listen serve \<and> (listen \<noteq> None \<or> serve \<noteq> None))"
    using sent_error_iff by (cases e) (auto, (metis serve_result.exhaust)+)
  moreover have "snd (snd (run w configFile ks sched es)) = snd (snd (main_loop ks sched es p))"
    by (simp add: run_def assms split: prod.splits)
  ultimately show ?thesis by (simp add: decisive_def)
qed

theorem run_returns_witness:
  "snd (snd (run demo_world ''c.yml'' (\<lambda>reg. [''main'']) id [HttpServed ServerClosed, CloseSignal])) = Exit 0"
proof -
  obtain out p where p: "start_process demo_world ''c.yml'' = (out, Started p)" using demo_starts by blast
  note r = run_returns [OF p]
  have "\<not> decisive p (HttpServed ServerClosed)" "decisive p CloseSignal"
    using r [THEN conjunct2, of "HttpServed ServerClosed"] r [THEN conjunct2, of CloseSignal] by auto
  then show ?thesis using r [THEN conjunct1] by simp
qed

lemma shutdown_once:
  assumes "\<forall>cs. mset (sched cs) = mset cs"
  shows "count_list (map ShutDown (sched (wanted conf))) (ShutDown c) = (if c \<in> set (wanted conf) then 1 else 0)"
proof -
  have "count_list (map ShutDown cs) (ShutDown c) = count (mset cs) c" for cs
    by (induction cs) auto
  then show ?thesis using distinct_wanted distinct_count_atmost_1 assms by (metis set_mset_mset)
qed

text \<open>
  C20: the close signal shuts the process down cleanly: the registrar, as its refreshes left it, is closed first and all
  its SDK clients with it, then every component that was started, the telemetry, the listening
  servers and the cache, is shut down exactly once.
\<close>

theorem clean_shutdown:
  assumes "run w configFile ks sched es = (acts, Some p, Exit 0)"
    and "\<forall>cs. mset (sched cs) = mset cs"
    and "\<forall>out q. start_process w configFile = (out, Started q) \<longrightarrow>
      enumerates (ks (pr_registrar q)) (registrar_ids (pr_registrar q))"
    and "\<forall>reg. RegistrarChanged reg \<in> set es \<longrightarrow> registrar_heap_ok reg \<and> enumerates (ks reg) (registrar_ids reg)"
    and "\<forall>conf. distinct (w_registered w conf)"
    and "\<forall>b cfg. pe_parse (w_profile w) b = Inr cfg \<longrightarrow> enumerates (w_porder w cfg) (pm_SDKs cfg)"
  shows "\<exists>before after. acts = before @ [RegistrarClosed] @ after \<and> (\<forall>c. ShutDown c \<notin> set before)
    \<and> (\<forall>c. count_list after (ShutDown c) =
        (if c = Telemetry \<or> Listening c \<in> set before \<or> c = Cache \<and> cache_IsSet (c_Cache (pr_conf p)) then 1 else 0))
    \<and> (\<forall>c \<in> set (clients_in (pr_registrar p)). cl_closed c)"
proof -
  obtain out p0 where p0: "start_process w configFile = (out, Started p0)"
    using assms(1) by (auto simp: run_def exitFailure_def split: prod.splits start.splits)
  obtain out' where loop: "main_loop ks sched es p0 = (out', p, Exit 0)" and acts: "acts = out @ out'"
    using assms(1) by (auto simp: run_def p0 split: prod.splits)
  obtain reg where reg: "reg = pr_registrar p0 \<or> RegistrarChanged reg \<in> set es"
    and closed: "(out', p) = close_process ks sched (p0\<lparr>pr_registrar := reg\<rparr>)"
    using main_loop_Exit [OF loop] by (auto simp: exitFailure_def)
  obtain o1 o2 where o: "start_config w configFile = (o1, Started (pr_conf p0))" "start_services w (pr_conf p0) = (o2, Started p0)"
    "out = o1 @ o2" using start_process_Started [OF p0] by blast
  note s = start_services_Started [OF o(2)]
  define before where "before = out @ [Printed (Reportf (pr_log p0) ''shutdown requested...'' [])]"
  define after where "after = (if pr_router p0 \<noteq> None then [RouterClosed] else []) @ map ShutDown (sched (pr_shutdown p0))"
  have "acts = before @ [RegistrarClosed] @ after"
    using closed by (simp add: acts before_def after_def close_process_def)
  moreover have "ShutDown c \<notin> set before" for c
    using start_process_opens [of w configFile] p0 by (auto simp: before_def opens_only_def)
  moreover have "count_list after (ShutDown c) =
        (if c = Telemetry \<or> Listening c \<in> set before \<or> c = Cache \<and> cache_IsSet (c_Cache (pr_conf p)) then 1 else 0)" for c
  proof -
    have "Listening c \<in> set before \<longleftrightarrow> c \<in> set (wanted (pr_conf p0)) - {Telemetry, Cache}"
      using start_config_Started(3) [OF o(1)] s(3) by (auto simp: before_def o(3) listening_def)
    moreover have "pr_conf p = pr_conf p0" using closed by (simp add: close_process_def)
    ultimately show ?thesis
      using shutdown_once [OF assms(2), where conf = "pr_conf p0" and c = c] by (auto simp: after_def s(2) wanted_def)
  qed
  moreover have "cl_closed c" if "c \<in> set (clients_in (pr_registrar p))" for c
  proof -
    obtain c' where "NewRegistrar (registrar_world w (pr_conf p0) (cache_IsSet (c_Cache (pr_conf p0)))) (w_porder w)
        (w_registered w (pr_conf p0)) (w_cache w) = (Some (Inr (pr_registrar p0)), c')" using s(5) by blast
    then have "registrar_heap_ok (pr_registrar p0)"
      by (rule NewRegistrar_heap) (use assms(5,6) in \<open>auto simp: registrar_world_def\<close>)
    then have "registrar_heap_ok reg \<and> enumerates (ks reg) (registrar_ids reg)"
      using reg assms(3) [rule_format, OF p0] assms(4) by blast
    moreover have "pr_registrar p = registrar_Close (ks reg) reg"
      using closed by (simp add: close_process_def)
    ultimately show ?thesis using registrar_Close_closes that by metis
  qed
  ultimately show ?thesis by blast
qed

theorem clean_shutdown_witness:
  "\<exists>acts p. run demo_world ''c.yml'' (\<lambda>reg. [''main'']) rev [CloseSignal] = (acts, Some p, Exit 0) \<and>
     count_list acts (ShutDown Telemetry) = 1 \<and> (\<forall>c \<in> set (clients_in (pr_registrar p)). cl_closed c)"
proof -
  obtain out p0 where p0: "start_process demo_world ''c.yml'' = (out, Started p0)" "pr_conf p0 = demo_conf"
    using demo_starts by blast
  obtain out' p' where c: "close_process (\<lambda>reg. [''main'']) rev p0 = (out', p')" by (rule prod.exhaust)
  obtain acts p where r: "run demo_world ''c.yml'' (\<lambda>reg. [''main'']) rev [CloseSignal] = (acts, Some p, Exit 0)"
    by (simp add: run_def p0(1) c exitOk_def)
  obtain o1 o2 where "start_services demo_world demo_conf = (o2, Started p0)"
    using start_process_Started [OF p0(1)] p0(2) by metis
  from start_services_Started(5) [OF this]
  obtain c' where "NewRegistrar (registrar_world demo_world demo_conf (cache_IsSet (c_Cache demo_conf))) (w_porder demo_world)
      (w_registered demo_world demo_conf) (w_cache demo_world) = (Some (Inr (pr_registrar p0)), c')" by blast
  then obtain r where reg: "ManualReg r = pr_registrar p0"
    "newManualRegistrar (pe_reg (registrar_world demo_world demo_conf (cache_IsSet (c_Cache demo_conf)))) [''main''] = Some r"
    using demo_facts(3) by (auto simp: NewRegistrar_def registrar_world_def demo_world_def)
  from reg(2) have "registrar_ids (ManualReg r) = [''main'' \<mapsto> 0]"
    by (auto simp: newManualRegistrar_def registrar_world_def demo_sdks Let_def)
  then have "registrar_ids (pr_registrar p0) = [''main'' \<mapsto> 0]" by (simp only: reg(1))
  then have en: "\<forall>out q. start_process demo_world ''c.yml'' = (out, Started q) \<longrightarrow> enumerates [''main''] (registrar_ids (pr_registrar q))"
    using p0(1) by (auto simp: enumerates_def)
  have "\<exists>before after. acts = before @ [RegistrarClosed] @ after \<and> (\<forall>c. ShutDown c \<notin> set before)
    \<and> (\<forall>c. count_list after (ShutDown c) =
        (if c = Telemetry \<or> Listening c \<in> set before \<or> c = Cache \<and> cache_IsSet (c_Cache (pr_conf p)) then 1 else 0))
    \<and> (\<forall>c \<in> set (clients_in (pr_registrar p)). cl_closed c)"
    by (rule clean_shutdown [OF r _ en]) (simp_all add: demo_world_def demo_profile_def)
  then obtain before after where a: "acts = before @ [RegistrarClosed] @ after" "\<forall>c. ShutDown c \<notin> set before"
    "count_list after (ShutDown Telemetry) = 1" "\<forall>c \<in> set (clients_in (pr_registrar p)). cl_closed c" by auto
  have "count_list before (ShutDown Telemetry) = 0" using a(2) by (simp add: count_list_0_iff)
  with a r show ?thesis by auto
qed

text \<open>
  C35: a failure ends the process without any shutdown: whether the start-up fails half-way or
  a server reports an error, nothing that was started is shut down and the registrar stays open.
\<close>

theorem failure_abandons:
  assumes "run w configFile ks sched es = (acts, q, Exit 1)"
  shows "RegistrarClosed \<notin> set acts \<and> RouterClosed \<notin> set acts \<and> (\<forall>c. ShutDown c \<notin> set acts)"
proof -
  obtain out res where s: "start_process w configFile = (out, res)" by (rule prod.exhaust)
  have "opens_only acts"
  proof (cases res)
    case (Started p)
    obtain out' p' where loop: "main_loop ks sched es p = (out', p', Exit 1)" and acts: "acts = out @ out'"
      using assms by (auto simp: run_def s Started split: prod.splits)
    then show ?thesis
      using main_loop_Exit [OF loop] start_process_opens [of w configFile] s by (auto simp: exitOk_def)
  qed (use assms start_process_opens [of w configFile] s in \<open>auto simp: run_def\<close>)
  then show ?thesis by (auto simp: opens_only_def)
qed

theorem failure_abandons_witness:
  "\<exists>acts p. run demo_world ''c.yml'' (\<lambda>reg. [''main'']) id [HttpServed (ServeError ''in use'')] = (acts, Some p, Exit 1)
     \<and> Listening HttpServer \<in> set acts \<and> ShutDown HttpServer \<notin> set acts"
proof -
  obtain out p0 where p0: "start_process demo_world ''c.yml'' = (out, Started p0)" "pr_conf p0 = demo_conf"
    using demo_starts by blast
  obtain acts p where r: "run demo_world ''c.yml'' (\<lambda>reg. [''main'']) id [HttpServed (ServeError ''in use'')] = (acts, Some p, Exit 1)"
    "set out \<subseteq> set acts"
    by (auto simp: run_def p0(1) web_sent_error_def exitFailure_def split: prod.splits)
  obtain o1 o2 where o: "out = o1 @ o2" "start_services demo_world demo_conf = (o2, Started p0)"
    using start_process_Started [OF p0(1)] p0(2) by metis
  have "Listening HttpServer \<in> set o2"
    using start_services_Started(3) [OF o(2)] demo_facts(4) by (auto simp: listening_def wanted_def)
  with r failure_abandons [OF r(1)] o(1) show ?thesis by auto
qed

text \<open>
  C19: a process that has started runs a configuration that was loaded, fixed up and validated,
  and it has exactly the parts this configuration enables: the listening servers, and the router
  of the HTTP server over the process's own registrar.
\<close>

theorem started_as_configured:
  assumes "start_process w configFile = (acts, Started p)" and "enumerates (w_ids w (pr_conf p)) (c_SDKs (pr_conf p))"
  shows "LoadConfig (w_compile w) (w_files w) (w_decoders w) (w_vars w) configFile = Inr (pr_conf p)
    \<and> config_ok (w_missing w) (pr_conf p)
    \<and> {c. Listening c \<in> set acts} = set (wanted (pr_conf p)) - {Telemetry, Cache}
    \<and> pr_router p = (if http_Enabled (c_Http (pr_conf p))
        then Some (NewRouter (router_world w (pr_registrar p) (pr_telemetry p)) (c_Http (pr_conf p)) (c_Profile (pr_conf p)) (pr_log p))
        else None)
    \<and> lg_level (pr_log p) = GetLevel (c_Log (pr_conf p))"
proof -
  obtain o1 o2 where o: "start_config w configFile = (o1, Started (pr_conf p))" "start_services w (pr_conf p) = (o2, Started p)"
    "acts = o1 @ o2" using start_process_Started [OF assms(1)] by blast
  note c = start_config_Started [OF o(1)] and s = start_services_Started [OF o(2)]
  have "config_ok (w_missing w) (pr_conf p)" using c(2) validate_config_ok [OF assms(2)] by simp
  moreover have "{c. Listening c \<in> set acts} = set (wanted (pr_conf p)) - {Telemetry, Cache}"
    using c(3) s(3) by (simp add: o(3) listening_def Collect_disj_eq)
  moreover have "pr_router p = (if http_Enabled (c_Http (pr_conf p))
        then Some (NewRouter (router_world w (pr_registrar p) (pr_telemetry p)) (c_Http (pr_conf p)) (c_Profile (pr_conf p)) (pr_log p))
        else None)"
    using s(4,6) by (cases "pr_router p") auto
  ultimately show ?thesis using c(1) s(7) by simp
qed

theorem started_as_configured_witness:
  "\<exists>acts p. start_process demo_world ''c.yml'' = (acts, Started p) \<and> config_ok (\<lambda>f. False) (pr_conf p) \<and> pr_router p \<noteq> None"
proof -
  obtain acts p where p: "start_process demo_world ''c.yml'' = (acts, Started p)" "pr_conf p = demo_conf"
    using demo_starts by blast
  have "enumerates (w_ids demo_world (pr_conf p)) (c_SDKs (pr_conf p))"
    by (simp add: p(2) demo_sdks enumerates_def demo_world_def)
  from started_as_configured [OF p(1) this] p demo_facts(4) show ?thesis by (auto simp: demo_world_def)
qed

end
