(* ===== verification/Compress.thy ===== *)
theory Compress
  imports Http
begin

text \<open>
  The compressing writer of \<open>web/mware/compress.go\<close>. Theory \<open>Http\<close> keeps the body of a compressed response
  as the handler wrote it; here the handler writes through a \<open>gzipWriter\<close> whose compressor comes
  from the pool, and what reaches the connection is what the compressor emits. A handler is the
  list of its calls on the \<open>ResponseWriter\<close>. The compressor is the parameter \<open>emit\<close>: the bytes it emits
  on a call, given the calls since its last \<open>Reset\<close>.
\<close>

section \<open>Definitions\<close>

subsection \<open>The connection\<close>

text \<open>\<open>net/http\<close> sends no body with these statuses; a write or a flush sends the header first.\<close>

definition bodyAllowedForStatus :: "nat \<Rightarrow> bool" where
  "bodyAllowedForStatus status \<longleftrightarrow> \<not> (100 \<le> status \<and> status \<le> 199) \<and> status \<noteq> 204 \<and> status \<noteq> 304"

definition conn_flush :: "'e response \<Rightarrow> 'e response" where
  "conn_flush w = (if rs_code w = None then w\<lparr>rs_code := Some 200\<rparr> else w)"

definition conn_write :: "bytes \<Rightarrow> 'e response \<Rightarrow> 'e response" where
  "conn_write b w =
     (let w1 = conn_flush w
      in if bodyAllowedForStatus (status_code w1) then w1\<lparr>rs_body := rs_body w1 @ b\<rparr> else w1)"

subsection \<open>The compressor and its pool\<close>

datatype gz_call = GzWrite bytes | GzFlush | GzClose

type_synonym gz_codec = "gz_call list \<Rightarrow> gz_call \<Rightarrow> bytes"

fun gz_emitted :: "gz_codec \<Rightarrow> gz_call list \<Rightarrow> gz_call list \<Rightarrow> bytes" where
  "gz_emitted emit past [] = []"
| "gz_emitted emit past (call # calls) = emit past call @ gz_emitted emit (past @ [call]) calls"

fun gz_written :: "gz_call list \<Rightarrow> bytes" where
  "gz_written [] = []"
| "gz_written (GzWrite b # calls) = b @ gz_written calls"
| "gz_written (_ # calls) = gz_written calls"

text \<open>A pooled compressor still has the calls of its last response; \<open>Get\<close> makes one when there is none.\<close>

type_synonym gz_pool = "gz_call list list"

definition pool_Get :: "gz_pool \<Rightarrow> gz_call list \<times> gz_pool" where
  "pool_Get p = (case p of [] \<Rightarrow> ([], []) | writer # rest \<Rightarrow> (writer, rest))"

definition gz_Reset :: "gz_call list \<Rightarrow> gz_call list" where
  "gz_Reset writer = []"

subsection \<open>The writer\<close>

record 'e gzipWriter =
  gw_ResponseWriter :: "'e response"
  gw_writer :: "gz_call list"
  gw_headersDone :: bool

text \<open>What the compressor emits goes to the connection.\<close>

definition gz_do :: "gz_codec \<Rightarrow> gz_call \<Rightarrow> 'e gzipWriter \<Rightarrow> 'e gzipWriter" where
  "gz_do emit call g =
     (let b = emit (gw_writer g) call
      in g\<lparr>gw_ResponseWriter := (if b = [] then gw_ResponseWriter g else conn_write b (gw_ResponseWriter g)),
           gw_writer := gw_writer g @ [call]\<rparr>)"

definition gw_WriteHeader :: "nat \<Rightarrow> 'e gzipWriter \<Rightarrow> 'e gzipWriter" where
  "gw_WriteHeader code g =
     g\<lparr>gw_ResponseWriter := write_header code (del_header ''Content-Length'' (gw_ResponseWriter g)), gw_headersDone := True\<rparr>"

definition gw_Write :: "gz_codec \<Rightarrow> bytes \<Rightarrow> 'e gzipWriter \<Rightarrow> 'e gzipWriter" where
  "gw_Write emit b g = (let g1 = (if \<not> gw_headersDone g then gw_WriteHeader 200 g else g) in gz_do emit (GzWrite b) g1)"

definition gw_Flush :: "gz_codec \<Rightarrow> 'e gzipWriter \<Rightarrow> 'e gzipWriter" where
  "gw_Flush emit g = (let g1 = gz_do emit GzFlush g in g1\<lparr>gw_ResponseWriter := conn_flush (gw_ResponseWriter g1)\<rparr>)"

definition gw_Close :: "gz_codec \<Rightarrow> 'e gzipWriter \<Rightarrow> gz_pool \<Rightarrow> 'e gzipWriter \<times> gz_pool" where
  "gw_Close emit g p = (let g1 = gz_do emit GzClose g in (g1, gw_writer g1 # p))"

subsection \<open>Handlers as calls\<close>

datatype rw_call = RwSet string string | RwDel string | RwWriteHeader nat | RwWrite bytes | RwFlush

text \<open>On the response of theory \<open>Http\<close>, which remembers that it is compressed.\<close>

fun rw_do :: "rw_call \<Rightarrow> 'e response \<Rightarrow> 'e response" where
  "rw_do (RwSet k v) w = set_header k v w"
| "rw_do (RwDel k) w = del_header k w"
| "rw_do (RwWriteHeader code) w = write_header code w"
| "rw_do (RwWrite b) w = write_body b w"
| "rw_do RwFlush w = conn_flush w"

fun gw_do :: "gz_codec \<Rightarrow> rw_call \<Rightarrow> 'e gzipWriter \<Rightarrow> 'e gzipWriter" where
  "gw_do emit (RwSet k v) g = g\<lparr>gw_ResponseWriter := set_header k v (gw_ResponseWriter g)\<rparr>"
| "gw_do emit (RwDel k) g = g\<lparr>gw_ResponseWriter := del_header k (gw_ResponseWriter g)\<rparr>"
| "gw_do emit (RwWriteHeader code) g = gw_WriteHeader code g"
| "gw_do emit (RwWrite b) g = gw_Write emit b g"
| "gw_do emit RwFlush g = gw_Flush emit g"

definition run_calls :: "(request \<Rightarrow> rw_call list) \<Rightarrow> 'e handler" where
  "run_calls h r w = fold rw_do (h r) w"

text \<open>\<open>GZip\<close> with the pool.\<close>

definition GZip_pooled :: "gz_codec \<Rightarrow> (request \<Rightarrow> rw_call list) \<Rightarrow> request \<Rightarrow> 'e response \<times> gz_pool \<Rightarrow> 'e response \<times> gz_pool" where
  "GZip_pooled emit next r wp =
     (case wp of (w, p) \<Rightarrow>
       if str_contains (header_get r ''Accept-Encoding'') ''gzip''
       then (let w1 = set_header ''Vary'' ''Accept-Encoding'' (set_header ''Content-Encoding'' ''gzip'' w);
                 (writer, p1) = pool_Get p;
                 gz = \<lparr>gw_ResponseWriter = w1, gw_writer = gz_Reset writer, gw_headersDone = False\<rparr>;
                 (gz', p2) = gw_Close emit (fold (gw_do emit) (next r) gz) p1
             in (gw_ResponseWriter gz', p2))
       else (run_calls next r w, p))"

section \<open>Lemmas\<close>

subsection \<open>What the compressor emits\<close>

lemma gz_emitted_append: "gz_emitted emit past (a @ b) = gz_emitted emit past a @ gz_emitted emit (past @ a) b"
  by (induction a arbitrary: past) simp_all

lemma gz_written_append [simp]: "gz_written (a @ b) = gz_written a @ gz_written b"
  by (induction a rule: gz_written.induct) simp_all

text \<open>The writer and the response of theory \<open>Http\<close> after the same calls.\<close>

definition gw_matches :: "gz_codec \<Rightarrow> 'e gzipWriter \<Rightarrow> 'e response \<Rightarrow> bool" where
  "gw_matches emit g w \<longleftrightarrow> (let c = gw_ResponseWriter g in
     \<not> rs_gzip c \<and> rs_gzip w \<and> rs_header c = rs_header w \<and> rs_code c = rs_code w \<and> rs_effects c = rs_effects w
     \<and> (gw_headersDone g \<longrightarrow> rs_code w \<noteq> None) \<and> (rs_code w = None \<longrightarrow> gw_writer g = []) \<and> GzClose \<notin> set (gw_writer g)
     \<and> rs_body w = gz_written (gw_writer g)
     \<and> rs_body c = (if bodyAllowedForStatus (status_code c) then gz_emitted emit [] (gw_writer g) else []))"

lemma conn_write_simps [simp]:
  "rs_gzip (conn_write b w) = rs_gzip w" "rs_header (conn_write b w) = rs_header w" "rs_effects (conn_write b w) = rs_effects w"
  "rs_code (conn_write b w) = (case rs_code w of None \<Rightarrow> Some 200 | Some c \<Rightarrow> Some c)"
  "rs_body (conn_write b w) = (if bodyAllowedForStatus (status_code w) then rs_body w @ b else rs_body w)"
  by (simp_all add: conn_write_def conn_flush_def status_code_def Let_def split: option.splits)

lemma conn_flush_simps [simp]:
  "rs_gzip (conn_flush w) = rs_gzip w" "rs_header (conn_flush w) = rs_header w" "rs_effects (conn_flush w) = rs_effects w"
  "rs_code (conn_flush w) = (case rs_code w of None \<Rightarrow> Some 200 | Some c \<Rightarrow> Some c)" "rs_body (conn_flush w) = rs_body w"
  by (simp_all add: conn_flush_def split: option.splits)

lemma status_code_default: "rs_code w = None \<Longrightarrow> status_code w = 200"
  by (simp add: status_code_def)

text \<open>A call of the compressor on a response whose header was sent.\<close>

lemma gz_do_matches:
  assumes "gw_matches emit g w" "rs_code w \<noteq> None" "call \<noteq> GzClose"
  shows "gw_matches emit (gz_do emit call g) (w\<lparr>rs_body := rs_body w @ gz_written [call]\<rparr>)"
  using assms by (auto simp: gw_matches_def gz_do_def Let_def gz_emitted_append status_code_def)

lemma gw_WriteHeader_matches:
  assumes "gw_matches emit g w"
  shows "gw_matches emit (gw_WriteHeader code g) (write_header code w)"
  using assms
  by (cases "rs_code w") (auto simp: gw_matches_def gw_WriteHeader_def write_header_def del_header_def status_code_def Let_def)

lemma gw_do_matches:
  assumes "gw_matches emit g w"
  shows "gw_matches emit (gw_do emit call g) (rw_do call w)"
proof (cases call)
  case (RwSet k v)
  then show ?thesis using assms by (auto simp: gw_matches_def set_header_def status_code_def Let_def)
next
  case (RwDel k)
  then show ?thesis using assms by (auto simp: gw_matches_def del_header_def status_code_def Let_def)
next
  case (RwWriteHeader code)
  then show ?thesis using gw_WriteHeader_matches [OF assms] by simp
next
  case (RwWrite b)
  let ?g = "if \<not> gw_headersDone g then gw_WriteHeader 200 g else g" and ?w = "if rs_code w = None then write_header 200 w else w"
  have noop: "write_header 200 w = w" if "rs_code w \<noteq> None"
    using that by (auto simp: write_header_def del_header_def Let_def)
  have "gw_headersDone g \<Longrightarrow> rs_code w \<noteq> None" using assms by (simp add: gw_matches_def Let_def)
  then have "gw_matches emit ?g ?w" using assms gw_WriteHeader_matches [OF assms, of 200] noop by auto
  moreover have "rs_code ?w \<noteq> None" by (auto simp: write_header_def del_header_def Let_def)
  ultimately have "gw_matches emit (gz_do emit (GzWrite b) ?g) (?w\<lparr>rs_body := rs_body ?w @ b\<rparr>)"
    using gz_do_matches [of emit ?g ?w "GzWrite b"] by simp
  then show ?thesis by (simp only: RwWrite gw_do.simps rw_do.simps gw_Write_def write_body_def Let_def)
next
  case RwFlush
  then show ?thesis
    using assms by (auto simp: gw_matches_def gw_Flush_def gz_do_def Let_def gz_emitted_append status_code_def split: option.splits)
qed

lemma gw_run_matches: "gw_matches emit g w \<Longrightarrow> gw_matches emit (fold (gw_do emit) calls g) (fold rw_do calls w)"
  by (induction calls arbitrary: g w) (simp_all add: gw_do_matches)

text \<open>The header of a compressed response that was written by the handler has no length.\<close>

lemma no_length_kept:
  assumes "rs_gzip w" "rs_code w \<noteq> None \<longrightarrow> rs_header w ''Content-Length'' = None" "RwFlush \<notin> set calls"
  shows "rs_code (fold rw_do calls w) \<noteq> None \<longrightarrow> rs_header (fold rw_do calls w) ''Content-Length'' = None"
  using assms
proof (induction calls arbitrary: w)
  case (Cons call calls)
  have key: "canonical_key ''Content-Length'' = ''Content-Length''" by code_simp
  have wh: "rs_header (write_header code w) ''Content-Length'' = None \<and> rs_gzip (write_header code w)" for code
    using Cons.prems(1,2) by (cases "rs_code w") (simp_all add: write_header_def del_header_def key Let_def)
  have "rs_gzip (rw_do call w) \<and> (rs_code (rw_do call w) \<noteq> None \<longrightarrow> rs_header (rw_do call w) ''Content-Length'' = None)"
    using Cons.prems wh by (cases call) (auto simp: set_header_def del_header_def write_body_def Let_def)
  then show ?case using Cons.IH [of "rw_do call w"] Cons.prems(3) by simp
qed simp

section \<open>Properties\<close>

text \<open>
  C18: compression is transparent: what reaches the connection through the pooled compressor has the
  status, the headers and, decompressed, the body of the response that the handler wrote, and is
  empty for a status without a body; a header that the handler wrote carries no length. This holds
  for every compressor whose output decompresses to what was written, whatever the pool holds.
\<close>

theorem compression_transparent:
  fixes c w :: "'e response"
  assumes "\<And>calls. GzClose \<notin> set calls \<Longrightarrow> gunzip (gz_emitted emit [] (calls @ [GzClose])) = Some (gz_written calls)"
    and "str_contains (header_get r ''Accept-Encoding'') ''gzip''"
    and "GZip_pooled emit next r (new_response, p) = (c, p')" and "GZip (run_calls next) r new_response = w"
  shows "status_code c = status_code w \<and> rs_header c = rs_header w
    \<and> (if bodyAllowedForStatus (status_code c) then gunzip (rs_body c) = Some (rs_body w) else rs_body c = [])
    \<and> (rs_code w \<noteq> None \<and> RwFlush \<notin> set (next r) \<longrightarrow> rs_header c ''Content-Length'' = None)"
proof -
  let ?w = "set_header ''Vary'' ''Accept-Encoding'' (set_header ''Content-Encoding'' ''gzip'' (new_response :: 'e response))"
  let ?g = "\<lparr>gw_ResponseWriter = ?w, gw_writer = [], gw_headersDone = False\<rparr>"
  let ?g' = "fold (gw_do emit) (next r) ?g" and ?w' = "fold rw_do (next r) (?w\<lparr>rs_gzip := True\<rparr>)"
  have w: "w = ?w'" using assms(2,4) by (simp add: GZip_def run_calls_def)
  have c: "c = gw_ResponseWriter (gz_do emit GzClose ?g')"
    using assms(2,3) by (auto simp: GZip_pooled_def Let_def gw_Close_def gz_Reset_def split: prod.splits)
  have "gw_matches emit ?g (?w\<lparr>rs_gzip := True\<rparr>)"
    by (simp add: gw_matches_def Let_def set_header_def new_response_def)
  from gw_run_matches [OF this] have m: "gw_matches emit ?g' w" by (simp add: w)
  then have same: "status_code (gw_ResponseWriter ?g') = status_code w" by (simp add: gw_matches_def status_code_def Let_def)
  have "rs_header c = rs_header w" using m by (simp add: c gz_do_def gw_matches_def Let_def)
  moreover have "status_code c = status_code w"
    using m by (simp add: c gz_do_def gw_matches_def status_code_def Let_def split: option.splits)
  moreover have "rs_body c = (if bodyAllowedForStatus (status_code w) then gz_emitted emit [] (gw_writer ?g' @ [GzClose]) else [])"
    using m same by (auto simp: c gz_do_def gw_matches_def gz_emitted_append Let_def)
  moreover have "rs_body w = gz_written (gw_writer ?g')" using m by (simp add: gw_matches_def Let_def)
  moreover have "rs_code w \<noteq> None \<longrightarrow> rs_header w ''Content-Length'' = None" if "RwFlush \<notin> set (next r)"
    unfolding w by (rule no_length_kept [OF _ _ that]) (simp_all add: set_header_def new_response_def)
  moreover have "gunzip (gz_emitted emit [] (gw_writer ?g' @ [GzClose])) = Some (gz_written (gw_writer ?g'))"
    using m by (intro assms(1)) (simp add: gw_matches_def Let_def)
  ultimately show ?thesis by auto
qed

text \<open>
  A compressor that emits everything at the end, with a pool whose compressor was used before, and a
  handler that sets a length and writes twice.
\<close>

fun late_emit :: "gz_codec" where
  "late_emit past GzClose = CHR ''z'' # gz_written past"
| "late_emit past _ = []"

lemma late_codec:
  assumes "GzClose \<notin> set calls"
  shows "gz_emitted late_emit [] (calls @ [GzClose]) = CHR ''z'' # gz_written calls"
proof -
  have "gz_emitted late_emit past calls = []" for past
    using assms
  proof (induction calls arbitrary: past)
    case (Cons call calls)
    then show ?case by (cases call) simp_all
  qed simp
  then show ?thesis by (simp add: gz_emitted_append)
qed

definition gzip_request :: request where
  "gzip_request = \<lparr>rq_method = ''GET'', rq_path = ''/status'', rq_header = [''Accept-Encoding'' \<mapsto> ''gzip''],
     rq_path_value = (\<lambda>_. []), rq_query = (\<lambda>_. []), rq_body = Inr [], rq_basic = None\<rparr>"

theorem compression_transparent_witness:
  "\<exists>(c :: unit response) p'. GZip_pooled late_emit (\<lambda>r. [RwSet ''Content-Length'' ''4'', RwWrite ''ab'', RwWrite ''cd'']) gzip_request
       (new_response, [[GzWrite ''old'', GzClose]]) = (c, p')
     \<and> status_code c = 200 \<and> tl (rs_body c) = ''abcd'' \<and> rs_header c ''Content-Length'' = None"
proof -
  let ?next = "\<lambda>r :: request. [RwSet ''Content-Length'' ''4'', RwWrite ''ab'', RwWrite ''cd'']"
  let ?gunzip = "\<lambda>b :: bytes. Some (tl b)"
  obtain c :: "unit response" and p' where c: "GZip_pooled late_emit ?next gzip_request (new_response, [[GzWrite ''old'', GzClose]]) = (c, p')"
    by (rule prod.exhaust)
  have keys: "canonical_key ''Accept-Encoding'' = ''Accept-Encoding''" by code_simp
  have acc: "str_contains (header_get gzip_request ''Accept-Encoding'') ''gzip''"
    by (simp add: header_get_def keys gzip_request_def has_prefix_def)
  define w where "w = GZip (run_calls ?next) gzip_request (new_response :: unit response)"
  have body: "rs_body w = ''abcd''" "rs_code w = Some 200" "status_code w = 200"
    using acc by (simp_all add: w_def GZip_def run_calls_def set_header_def write_body_def write_header_def del_header_def
        new_response_def status_code_def Let_def)
  have ok: "bodyAllowedForStatus 200" by (simp add: bodyAllowedForStatus_def)
  have "status_code c = status_code w \<and> rs_header c = rs_header w
    \<and> (if bodyAllowedForStatus (status_code c) then ?gunzip (rs_body c) = Some (rs_body w) else rs_body c = [])
    \<and> (rs_code w \<noteq> None \<and> RwFlush \<notin> set (?next gzip_request) \<longrightarrow> rs_header c ''Content-Length'' = None)"
    by (rule compression_transparent [OF _ acc c w_def [symmetric]]) (simp add: late_codec)
  then have "status_code c = 200" "tl (rs_body c) = ''abcd''" "rs_header c ''Content-Length'' = None"
    using body ok by (auto split: if_splits)
  then show ?thesis using c by blast
qed

end
