(* ===== verification/ProfileServer.thy ===== *)
theory ProfileServer
  imports AutoRegistrar Http
begin

text \<open>
  The profile service that \<open>sdk/testing.go\<close> puts in the place of the dashboard: it holds a profile, serves
  it with an ETag, and lets SDKs and keys be added, rotated and removed. Against it the automatic
  registrar of theory \<open>AutoRegistrar\<close> is a closed system, except for the JSON codec and the hash.
  The keys of \<open>configcattest.RandomSDKKey\<close> are arguments, a nil dereference is \<open>None\<close>, and of the SDK
  server only the keys that it was given flags for are kept.
\<close>

section \<open>Definitions\<close>

subsection \<open>The service\<close>

record profile_server =
  th_result :: proxy_config_model
  th_flags :: "string list"

definition th_ServeHTTP ::
  "(bytes \<Rightarrow> bytes) \<Rightarrow> (proxy_config_model \<Rightarrow> bytes) \<Rightarrow> profile_server \<Rightarrow> 'e handler" where
  "th_ServeHTTP xxhash marshal h req w =
     (if rq_method req \<noteq> ''GET'' then http_error ''only GET is allowed'' 405 w
      else (let body = marshal (th_result h);
                etag = GenerateEtag xxhash body;
                w1 = set_header ''ETag'' etag w;
                receivedEtag = header_get req ''If-None-Match''
            in if receivedEtag = etag then write_header 304 w1
               else write_body body (set_header ''Content-Type'' ''application/json'' w1)))"

definition th_set_sdk :: "string \<Rightarrow> sdk_model option \<Rightarrow> profile_server \<Rightarrow> profile_server" where
  "th_set_sdk sdkId m h = h\<lparr>th_result := (th_result h)\<lparr>pm_SDKs := (pm_SDKs (th_result h))(sdkId := m)\<rparr>\<rparr>"

definition AddSdk :: "string \<Rightarrow> string \<Rightarrow> profile_server \<Rightarrow> profile_server" where
  "AddSdk sdkKey sdkId h =
     th_set_sdk sdkId (Some \<lparr>Key1 = sdkKey, Key2 = []\<rparr>) (h\<lparr>th_flags := th_flags h @ [sdkKey]\<rparr>)"

definition RotateSdkKey :: "string \<Rightarrow> string \<Rightarrow> profile_server \<Rightarrow> profile_server option" where
  "RotateSdkKey sdkKey sdkId h =
     (case pm_SDKs (th_result h) sdkId of
        None \<Rightarrow> None
      | Some m \<Rightarrow> Some (th_set_sdk sdkId (Some (m\<lparr>Key2 := sdkKey\<rparr>)) h))"

definition RemoveSdkKey :: "string \<Rightarrow> bool \<Rightarrow> profile_server \<Rightarrow> profile_server option" where
  "RemoveSdkKey sdkId primary h =
     (case pm_SDKs (th_result h) sdkId of
        None \<Rightarrow> None
      | Some m \<Rightarrow>
          Some (th_set_sdk sdkId
            (Some (if primary then m\<lparr>Key1 := Key2 m, Key2 := []\<rparr> else m\<lparr>Key2 := []\<rparr>)) h))"

definition th_RemoveSdk :: "string \<Rightarrow> profile_server \<Rightarrow> profile_server" where
  "th_RemoveSdk sdkId h = th_set_sdk sdkId None h"

definition ModifyGlobalOpts :: "options_model \<Rightarrow> profile_server \<Rightarrow> profile_server" where
  "ModifyGlobalOpts optionsModel h = h\<lparr>th_result := (th_result h)\<lparr>pm_Options := optionsModel\<rparr>\<rparr>"

subsection \<open>The exchange between the registrar and the service\<close>

text \<open>The request of \<open>fetchConfig\<close> as the service receives it.\<close>

definition profile_request :: "get_request \<Rightarrow> request" where
  "profile_request q =
     \<lparr>rq_method = ''GET'', rq_path = gr_Url q,
      rq_header = (case gr_IfNoneMatch q of None \<Rightarrow> Map.empty | Some e \<Rightarrow> [''If-None-Match'' \<mapsto> e])(''Authorization'' \<mapsto> gr_Authorization q),
      rq_path_value = (\<lambda>_. []), rq_query = (\<lambda>_. []), rq_body = Inr [], rq_basic = None\<rparr>"

definition profile_exchange ::
  "(bytes \<Rightarrow> bytes) \<Rightarrow> (proxy_config_model \<Rightarrow> bytes) \<Rightarrow> profile_server \<Rightarrow> get_request \<Rightarrow> http_reply" where
  "profile_exchange xxhash marshal h q =
     (let w = th_ServeHTTP xxhash marshal h (profile_request q) (new_response :: unit response)
      in Reply (int (status_code w)) (case rs_header w ''Etag'' of None \<Rightarrow> [] | Some e \<Rightarrow> e) (Inr (rs_body w)))"

definition served_by :: "(bytes \<Rightarrow> bytes) \<Rightarrow> (proxy_config_model \<Rightarrow> bytes) \<Rightarrow> profile_server \<Rightarrow> 'c profile_env \<Rightarrow> 'c profile_env" where
  "served_by xxhash marshal h env = env\<lparr>pe_http := profile_exchange xxhash marshal h\<rparr>"

text \<open>The profile and the configuration of \<open>NewTestAutoRegistrar\<close>.\<close>

definition new_profile_server :: "string \<Rightarrow> profile_server" where
  "new_profile_server sdkKey =
     \<lparr>th_result = \<lparr>pm_SDKs = [''test'' \<mapsto> \<lparr>Key1 = sdkKey, Key2 = []\<rparr>],
        pm_Options = \<lparr>om_PollInterval = 60, om_DataGovernance = ''global''\<rparr>\<rparr>,
      th_flags = [sdkKey]\<rparr>"

definition test_conf :: "string \<Rightarrow> string \<Rightarrow> config \<Rightarrow> config" where
  "test_conf sdkUrl configUrl conf =
     conf\<lparr>c_Profile := (c_Profile conf)\<lparr>prof_SDKs := (prof_SDKs (c_Profile conf))\<lparr>psdk_BaseUrl := sdkUrl\<rparr>,
        prof_BaseUrl := configUrl\<rparr>\<rparr>"

definition test_env :: "string \<Rightarrow> string \<Rightarrow> 'c profile_env \<Rightarrow> 'c profile_env" where
  "test_env sdkUrl configUrl env =
     env\<lparr>pe_reg := (pe_reg env)\<lparr>re_conf := test_conf sdkUrl configUrl (re_conf (pe_reg env))\<rparr>\<rparr>"

definition NewTestAutoRegistrar ::
  "(bytes \<Rightarrow> bytes) \<Rightarrow> (proxy_config_model \<Rightarrow> bytes) \<Rightarrow> string \<Rightarrow> string \<Rightarrow> string \<Rightarrow> 'c profile_env \<Rightarrow> 'c \<Rightarrow>
   (auto_registrar res option \<times> 'c) \<times> profile_server" where
  "NewTestAutoRegistrar xxhash marshal sdkKey sdkUrl configUrl env c =
     (let h = new_profile_server sdkKey
      in (newAutoRegistrar (served_by xxhash marshal h (test_env sdkUrl configUrl env)) (\<lambda>_. [''test'']) c, h))"

definition NewTestAutoRegistrarWithAutoConfig ::
  "(bytes \<Rightarrow> bytes) \<Rightarrow> (proxy_config_model \<Rightarrow> bytes) \<Rightarrow> string \<Rightarrow> string \<Rightarrow> string \<Rightarrow> profile_config \<Rightarrow>
   unit profile_env \<Rightarrow> (auto_registrar res option \<times> unit) \<times> profile_server" where
  "NewTestAutoRegistrarWithAutoConfig xxhash marshal sdkKey sdkUrl configUrl autoConf env =
     NewTestAutoRegistrar xxhash marshal sdkKey sdkUrl configUrl
       (env\<lparr>pe_reg := (pe_reg env)\<lparr>re_conf := zero_config\<lparr>c_Profile := autoConf\<rparr>, re_cache_set := False\<rparr>, pe_cache := None\<rparr>) ()"

text \<open>An offline registrar over a shared cache.\<close>

definition NewTestAutoRegistrarWithCache ::
  "int \<Rightarrow> 'c profile_env \<Rightarrow> (proxy_config_model \<Rightarrow> string list) \<Rightarrow> 'c \<Rightarrow> auto_registrar res option \<times> 'c" where
  "NewTestAutoRegistrarWithCache cachePoll env order c =
     newAutoRegistrar
       (env\<lparr>pe_reg := (pe_reg env)\<lparr>re_conf := zero_config
          \<lparr>c_Profile := (c_Profile zero_config)\<lparr>prof_Key := ''test-reg'', prof_PollInterval := 60\<rparr>,
           c_GlobalOfflineConfig := (c_GlobalOfflineConfig zero_config)\<lparr>go_CachePollInterval := cachePoll, go_Enabled := True\<rparr>\<rparr>\<rparr>\<rparr>)
       order c"

subsection \<open>The closed system\<close>

datatype th_op =
    OpAddSdk string string | OpRotateSdkKey string string | OpRemoveSdkKey string bool
  | OpRemoveSdk string | OpModifyGlobalOpts options_model

fun th_apply :: "th_op \<Rightarrow> profile_server \<Rightarrow> profile_server option" where
  "th_apply (OpAddSdk sdkKey sdkId) h = Some (AddSdk sdkKey sdkId h)"
| "th_apply (OpRotateSdkKey sdkKey sdkId) h = RotateSdkKey sdkKey sdkId h"
| "th_apply (OpRemoveSdkKey sdkId primary) h = RemoveSdkKey sdkId primary h"
| "th_apply (OpRemoveSdk sdkId) h = Some (th_RemoveSdk sdkId h)"
| "th_apply (OpModifyGlobalOpts opts) h = Some (ModifyGlobalOpts opts h)"

fun op_keys :: "th_op \<Rightarrow> string list" where
  "op_keys (OpAddSdk sdkKey sdkId) = [sdkKey]"
| "op_keys (OpRotateSdkKey sdkKey sdkId) = [sdkKey]"
| "op_keys _ = []"

text \<open>A refresh visits the SDKs of the registrar and of the profile in some order.\<close>

datatype sy_event = ServiceDoes th_op | RegistrarRefreshes "string list" "string list"

inductive sy_step ::
  "(bytes \<Rightarrow> bytes) \<Rightarrow> (proxy_config_model \<Rightarrow> bytes) \<Rightarrow> 'c profile_env \<Rightarrow>
   profile_server \<times> auto_registrar \<times> 'c \<Rightarrow> sy_event \<Rightarrow> profile_server \<times> auto_registrar \<times> 'c \<Rightarrow> bool"
  for xxhash marshal and env :: "'c profile_env" where
  service_does: "th_apply op h = Some h' \<Longrightarrow> sy_step xxhash marshal env (h, r, c) (ServiceDoes op) (h', r, c)"
| registrar_refreshes: "enumerates existing (ar_sdkClients r) \<Longrightarrow> enumerates remote (pm_SDKs (th_result h)) \<Longrightarrow>
     refreshConfig (served_by xxhash marshal h env) (\<lambda>_. existing) (\<lambda>_. remote) c r = (r', c') \<Longrightarrow>
     sy_step xxhash marshal env (h, r, c) (RegistrarRefreshes existing remote) (h, r', c')"

fun event_keys :: "sy_event \<Rightarrow> string list" where
  "event_keys (ServiceDoes op) = op_keys op"
| "event_keys _ = []"

text \<open>The profiles that the service has held.\<close>

fun th_profiles :: "sy_event list \<Rightarrow> profile_server \<Rightarrow> proxy_config_model list" where
  "th_profiles [] h = [th_result h]"
| "th_profiles (ServiceDoes op # es) h =
     th_result h # (case th_apply op h of None \<Rightarrow> [] | Some h' \<Rightarrow> th_profiles es h')"
| "th_profiles (RegistrarRefreshes existing remote # es) h = th_result h # th_profiles es h"

section \<open>Lemmas\<close>

inductive_cases sy_stepE: "sy_step xxhash marshal env s e s'"

inductive_simps sy_step_simps:
  "sy_step xxhash marshal env s (ServiceDoes op) s'"
  "sy_step xxhash marshal env s (RegistrarRefreshes existing remote) s'"

subsection \<open>What the registrar fetches\<close>

lemma served_by_simps [simp]:
  "pe_reg (served_by x m h env) = pe_reg env" "pe_cache (served_by x m h env) = pe_cache env"
  "pe_new_request (served_by x m h env) = pe_new_request env" "pe_parse (served_by x m h env) = pe_parse env"
  "pe_http (served_by x m h env) = profile_exchange x m h"
  by (simp_all add: served_by_def)

text \<open>The ETag without its weakness mark, as \<open>fetchConfig\<close> keeps it.\<close>

definition strong_etag :: "(bytes \<Rightarrow> bytes) \<Rightarrow> bytes \<Rightarrow> string" where
  "strong_etag xxhash b = [CHR 0x22] @ FastHashHex xxhash b @ [CHR 0x22]"

lemma strong_etag_eq: "strong_etag h a = strong_etag h b \<longleftrightarrow> h a = h b"
  using GenerateEtag_eq_iff [of h a b] by (simp add: strong_etag_def GenerateEtag_def)

lemma etag_strong: "GenerateEtag h b = ''W/'' @ strong_etag h b"
  by (simp add: GenerateEtag_def strong_etag_def)

lemma exchange_modified:
  assumes "gr_IfNoneMatch q \<noteq> Some (GenerateEtag x (marshal (th_result h)))"
  shows "profile_exchange x marshal h q = Reply 200 (GenerateEtag x (marshal (th_result h))) (Inr (marshal (th_result h)))"
proof -
  have key: "canonical_key ''ETag'' = ''Etag''" "canonical_key ''If-None-Match'' = ''If-None-Match''"
    "canonical_key ''Content-Type'' = ''Content-Type''" by code_simp+
  have "header_get (profile_request q) ''If-None-Match'' \<noteq> GenerateEtag x (marshal (th_result h))"
    using assms unfolding header_get_def key by (auto simp: profile_request_def GenerateEtag_def split: option.splits)
  moreover have "rq_method (profile_request q) = ''GET''" by (simp add: profile_request_def)
  ultimately show ?thesis
    by (simp add: profile_exchange_def th_ServeHTTP_def set_header_def write_body_def write_header_def new_response_def
        status_code_def key Let_def)
qed

lemma getConfig_served:
  assumes "\<not> go_Enabled (c_GlobalOfflineConfig (re_conf (pe_reg env)))" "pe_cache env = None"
    and "\<And>u. pe_new_request env u = Inr ()" "ar_etag r \<noteq> GenerateEtag x (marshal (th_result h))"
  shows "getConfig (served_by x marshal h env) c r =
    (parseConfig (pe_parse env) (marshal (th_result h)) (strong_etag x (marshal (th_result h))) r, c)"
proof -
  have "fetchConfig (served_by x marshal h env) (ar_etag r) =
      Inr (Some (marshal (th_result h)), strong_etag x (marshal (th_result h)))"
    using assms(3,4)
    by (simp add: fetchConfig_def Let_def exchange_modified fetch_request_def etag_strong has_prefix_def)
  then show ?thesis using assms(1,2) by (simp add: getConfig_def readCache_def writeCache_def)
qed

subsection \<open>The registrar follows the service\<close>

definition serves_profile :: "auto_registrar \<Rightarrow> proxy_config_model \<Rightarrow> bool" where
  "serves_profile r cfg \<longleftrightarrow>
     (\<forall>i. case pm_SDKs cfg i of None \<Rightarrow> ar_sdkClients r i = None | Some m \<Rightarrow> served r i m)"

text \<open>\<open>own\<close> gives each key the SDK that it was created for.\<close>

definition owned :: "(string \<rightharpoonup> string) \<Rightarrow> proxy_config_model \<Rightarrow> bool" where
  "owned own cfg \<longleftrightarrow> (\<forall>i m. pm_SDKs cfg i = Some m \<longrightarrow>
     two_keys (Key1 m) (Some (Key2 m)) \<and> (\<forall>k \<in> model_keys m. own k = Some i))"

lemma serves_registered: "serves_profile r cfg \<Longrightarrow> registered_keys r i = profile_keys cfg i"
  by (auto simp: serves_profile_def registered_keys_def profile_keys_def served_def dest!: spec [of _ i] matches_keys
      split: option.splits)

lemma serves_dom:
  assumes "serves_profile r cfg"
  shows "dom (ar_sdkClients r) = dom (pm_SDKs cfg)"
proof -
  have "ar_sdkClients r i = None \<longleftrightarrow> pm_SDKs cfg i = None" for i
    using assms [unfolded serves_profile_def, THEN spec, of i] by (auto simp: served_def split: option.splits)
  then show ?thesis by (simp add: dom_def)
qed

lemma owned_keys: "owned own cfg \<Longrightarrow> k \<in> profile_keys cfg i \<Longrightarrow> own k = Some i"
  by (auto simp: owned_def profile_keys_def split: option.splits)

lemma owned_no_moves:
  assumes "serves_profile r cfg" "owned own cfg" "owned own cfg'"
  shows "no_key_moves r cfg'"
proof -
  have own: "own k = Some i" if "k \<in> registered_keys r i \<union> profile_keys cfg' i" for k i
    using that owned_keys [OF assms(2)] owned_keys [OF assms(3)] by (auto simp: serves_registered [OF assms(1)])
  have "(registered_keys r i \<union> profile_keys cfg' i) \<inter> (registered_keys r j \<union> profile_keys cfg' j) = {}"
    if "i \<noteq> j" for i j
  proof (rule equals0I)
    fix k assume "k \<in> (registered_keys r i \<union> profile_keys cfg' i) \<inter> (registered_keys r j \<union> profile_keys cfg' j)"
    then have "own k = Some i" "own k = Some j" using own [of k i] own [of k j] by simp_all
    then show False using that by simp
  qed
  then show ?thesis using assms(3) by (simp add: no_key_moves_def owned_def)
qed

definition sy_inv ::
  "(bytes \<Rightarrow> bytes) \<Rightarrow> (proxy_config_model \<Rightarrow> bytes) \<Rightarrow> proxy_config_model set \<Rightarrow> (string \<rightharpoonup> string) \<Rightarrow>
   profile_server \<Rightarrow> auto_registrar \<Rightarrow> bool" where
  "sy_inv x marshal P own h r \<longleftrightarrow> keys_exact r \<and> owned own (th_result h) \<and> th_result h \<in> P
     \<and> (\<exists>cfg \<in> P. ar_etag r = strong_etag x (marshal cfg) \<and> serves_profile r cfg \<and> owned own cfg)"

text \<open>The codec and the hash on the profiles of a run.\<close>

definition codec_ok :: "(bytes \<Rightarrow> bytes) \<Rightarrow> (proxy_config_model \<Rightarrow> bytes) \<Rightarrow> (bytes \<Rightarrow> proxy_config_model res) \<Rightarrow>
    proxy_config_model set \<Rightarrow> bool" where
  "codec_ok x marshal parse P \<longleftrightarrow> (\<forall>m \<in> P. parse (marshal m) = Inr m) \<and> inj_on (\<lambda>m. x (marshal m)) P"

lemma applied_profile:
  assumes "keys_exact r" "no_key_moves r cfg" "enumerates existing (ar_sdkClients r)" "enumerates remote (pm_SDKs cfg)"
  shows "serves_profile (applyConfig env cfg existing remote r) cfg"
  using applyConfig_facts(4,5) [where env = env, OF keys_exactD(1) [OF assms(1)] exact_views [OF assms(1,2)]
      plan_fits [OF assms(2)] assms(3,4)]
  by (simp add: serves_profile_def split: option.splits)

lemma sy_refresh:
  assumes inv: "sy_inv x marshal P own h r" and codec: "codec_ok x marshal (pe_parse env) P"
    and env: "\<not> go_Enabled (c_GlobalOfflineConfig (re_conf (pe_reg env)))" "pe_cache env = None"
      "\<And>u. pe_new_request env u = Inr ()"
    and en: "enumerates existing (ar_sdkClients r)" "enumerates remote (pm_SDKs (th_result h))"
    and run: "refreshConfig (served_by x marshal h env) (\<lambda>_. existing) (\<lambda>_. remote) c r = (r', c')"
  shows "sy_inv x marshal P own h r'" "serves_profile r' (th_result h)"
proof -
  let ?cfg = "th_result h" and ?e = "strong_etag x (marshal (th_result h))"
  obtain cfg where cfg: "cfg \<in> P" "ar_etag r = strong_etag x (marshal cfg)" "serves_profile r cfg" "owned own cfg"
    and r: "keys_exact r" "owned own ?cfg" "?cfg \<in> P" using inv by (auto simp: sy_inv_def)
  have "ar_etag r \<noteq> GenerateEtag x (marshal ?cfg)" by (simp add: cfg(2) GenerateEtag_def strong_etag_def)
  note get = getConfig_served [where r = r and marshal = marshal and h = h, OF env this]
  have "serves_profile r' ?cfg \<and> sy_inv x marshal P own h r'"
  proof (cases "ar_etag r = ?e")
    case True
    then have "x (marshal cfg) = x (marshal ?cfg)" by (simp add: cfg(2) strong_etag_eq)
    with codec cfg(1) r(3) have "cfg = ?cfg" unfolding codec_ok_def inj_on_def by blast
    moreover have "r' = r" using run get True by (simp add: refreshConfig_def parseConfig_def)
    ultimately show ?thesis using cfg inv by simp
  next
    case False
    let ?r = "r\<lparr>ar_etag := ?e\<rparr>"
    have "r' = applyConfig (pe_reg env) ?cfg existing remote ?r"
      using run get False codec r(3) by (simp add: refreshConfig_def parseConfig_def codec_ok_def)
    moreover have k: "keys_exact ?r" "no_key_moves ?r ?cfg" "enumerates existing (ar_sdkClients ?r)"
      using r(1) keys_exact_cong [of ?r r] owned_no_moves [OF cfg(3,4) r(2)] en(1) by simp_all
    moreover note applied_profile [OF k en(2)] applyConfig_exact [OF k en(2)]
    ultimately show ?thesis using r by (auto simp: sy_inv_def)
  qed
  then show "sy_inv x marshal P own h r'" "serves_profile r' ?cfg" by simp_all
qed

subsection \<open>The operations of the service\<close>

lemma owned_mono: "owned own cfg \<Longrightarrow> own \<subseteq>\<^sub>m own' \<Longrightarrow> owned own' cfg"
  unfolding owned_def map_le_def by (metis domI)

lemma owned_set_sdk:
  assumes "owned own (th_result h)"
    and "\<And>n. m = Some n \<Longrightarrow> two_keys (Key1 n) (Some (Key2 n)) \<and> (\<forall>k \<in> model_keys n. own k = Some i)"
  shows "owned own (th_result (th_set_sdk i m h))"
  using assms by (auto simp: owned_def th_set_sdk_def)

lemma owned_op:
  assumes "owned own (th_result h)" "th_apply op h = Some h'" "set (op_keys op) \<inter> dom own = {}" "[] \<notin> set (op_keys op)"
  shows "\<exists>own'. own \<subseteq>\<^sub>m own' \<and> dom own' = dom own \<union> set (op_keys op) \<and> owned own' (th_result h')"
proof (cases op)
  case (OpAddSdk k i)
  let ?own = "own(k \<mapsto> i)"
  have le: "own \<subseteq>\<^sub>m ?own" using assms(3) by (simp add: OpAddSdk map_le_def dom_def)
  have "owned ?own (th_result (h\<lparr>th_flags := th_flags h @ [k]\<rparr>))" using owned_mono [OF assms(1) le] by simp
  then have "owned ?own (th_result h')"
    using assms(2,4) by (auto simp: OpAddSdk AddSdk_def two_keys_def model_keys_def intro!: owned_set_sdk)
  with le show ?thesis by (intro exI [of _ ?own]) (auto simp: OpAddSdk)
next
  case (OpRotateSdkKey k i)
  let ?own = "own(k \<mapsto> i)"
  have le: "own \<subseteq>\<^sub>m ?own" using assms(3) by (simp add: OpRotateSdkKey map_le_def dom_def)
  obtain m where m: "pm_SDKs (th_result h) i = Some m" "h' = th_set_sdk i (Some (m\<lparr>Key2 := k\<rparr>)) h"
    using assms(2) by (auto simp: OpRotateSdkKey RotateSdkKey_def split: option.splits)
  have old: "\<forall>k' \<in> model_keys m. own k' = Some i" using assms(1) m(1) by (simp add: owned_def)
  then have "Key1 m = [] \<or> Key1 m \<noteq> k" using assms(3) by (auto simp: OpRotateSdkKey model_keys_def)
  moreover have "\<forall>k' \<in> model_keys (m\<lparr>Key2 := k\<rparr>). ?own k' = Some i" using old by (auto simp: model_keys_def)
  ultimately have "owned ?own (th_result h')"
    unfolding m(2) using owned_mono [OF assms(1) le] by (intro owned_set_sdk) (auto simp: two_keys_def)
  with le show ?thesis by (intro exI [of _ ?own]) (auto simp: OpRotateSdkKey)
next
  case (OpRemoveSdkKey i primary)
  obtain m where m: "pm_SDKs (th_result h) i = Some m"
      "h' = th_set_sdk i (Some (if primary then m\<lparr>Key1 := Key2 m, Key2 := []\<rparr> else m\<lparr>Key2 := []\<rparr>)) h"
    using assms(2) by (auto simp: OpRemoveSdkKey RemoveSdkKey_def split: option.splits)
  have "\<forall>k' \<in> model_keys m. own k' = Some i" using assms(1) m(1) by (simp add: owned_def)
  then have old: "\<And>k'. k' \<in> {Key1 m, Key2 m} \<Longrightarrow> k' \<noteq> [] \<Longrightarrow> own k' = Some i" by (simp add: model_keys_def)
  have "owned own (th_result h')"
    unfolding m(2)
    by (intro owned_set_sdk [OF assms(1)], cases primary) (use old in \<open>auto simp: two_keys_def model_keys_def\<close>)
  then show ?thesis by (intro exI [of _ own]) (simp add: OpRemoveSdkKey)
next
  case (OpRemoveSdk i)
  then show ?thesis using owned_set_sdk [OF assms(1), of None i] assms(2) by (intro exI [of _ own]) (auto simp: th_RemoveSdk_def)
next
  case (OpModifyGlobalOpts opts)
  then show ?thesis using assms(1,2) by (intro exI [of _ own]) (auto simp: ModifyGlobalOpts_def owned_def)
qed

subsection \<open>Runs\<close>

lemma profiles_head: "th_result h \<in> set (th_profiles es h)"
  by (cases "(es, h)" rule: th_profiles.cases) simp_all

lemma sy_run:
  assumes "lts_run (sy_step x marshal env) (h, r, c) es (h', r', c')" "sy_inv x marshal P own h r"
    and codec: "codec_ok x marshal (pe_parse env) P"
    and env: "\<not> go_Enabled (c_GlobalOfflineConfig (re_conf (pe_reg env)))" "pe_cache env = None"
      "\<And>u. pe_new_request env u = Inr ()"
    and "set (th_profiles es h) \<subseteq> P"
    and "distinct (concat (map event_keys es))" "set (concat (map event_keys es)) \<inter> dom own = {}"
      "[] \<notin> set (concat (map event_keys es))"
  shows "\<exists>own'. sy_inv x marshal P own' h' r'"
  using assms(1,2,7-)
proof (induction es arbitrary: h r c own)
  case (Cons e es)
  obtain h1 r1 c1 where step: "sy_step x marshal env (h, r, c) e (h1, r1, c1)"
    and rest: "lts_run (sy_step x marshal env) (h1, r1, c1) es (h', r', c')"
    using Cons.prems(1) by auto
  show ?case
  proof (cases e)
    case (ServiceDoes op)
    have one: "th_apply op h = Some h1" "r1 = r" using step by (auto simp: ServiceDoes sy_step_simps)
    have inv: "owned own (th_result h)" using Cons.prems(2) by (simp add: sy_inv_def)
    obtain own' where own': "own \<subseteq>\<^sub>m own'" "dom own' = dom own \<union> set (op_keys op)" "owned own' (th_result h1)"
      using owned_op [OF inv one(1)] Cons.prems(5,6) by (auto simp: ServiceDoes)
    have P: "set (th_profiles es h1) \<subseteq> P" using Cons.prems(3) by (simp add: ServiceDoes one(1))
    have "th_result h1 \<in> P" using P profiles_head by blast
    then have "sy_inv x marshal P own' h1 r1"
      using Cons.prems(2) own'(3) owned_mono [OF _ own'(1)] by (auto simp: sy_inv_def one(2))
    then show ?thesis
      by (rule Cons.IH [OF rest]) (use P Cons.prems(4-6) own'(2) in \<open>auto simp: ServiceDoes\<close>)
  next
    case (RegistrarRefreshes existing remote)
    have "sy_inv x marshal P own h1 r1"
      using step sy_refresh(1) [OF Cons.prems(2) codec env] by (auto simp: RegistrarRefreshes sy_step_simps)
    then show ?thesis
      by (rule Cons.IH [OF rest]) (use Cons.prems(3-6) step in \<open>auto simp: RegistrarRefreshes sy_step_simps\<close>)
  qed
qed auto

text \<open>The registrar that \<open>NewTestAutoRegistrar\<close> returns.\<close>

abbreviation first_registrar ::
  "(bytes \<Rightarrow> bytes) \<Rightarrow> (proxy_config_model \<Rightarrow> bytes) \<Rightarrow> string \<Rightarrow> 'c profile_env \<Rightarrow> auto_registrar" where
  "first_registrar x marshal sdkKey env \<equiv>
     init_clients (pe_reg env) (th_result (new_profile_server sdkKey)) [''test'']
       (empty_auto\<lparr>ar_etag := strong_etag x (marshal (th_result (new_profile_server sdkKey)))\<rparr>)"

lemma NewTestAutoRegistrar_returns:
  assumes "pe_parse env (marshal (th_result (new_profile_server sdkKey))) = Inr (th_result (new_profile_server sdkKey))"
    and "\<not> go_Enabled (c_GlobalOfflineConfig (re_conf (pe_reg env)))" "pe_cache env = None"
      "\<And>u. pe_new_request env u = Inr ()"
  shows "NewTestAutoRegistrar x marshal sdkKey sdkUrl configUrl env c =
    ((Some (Inr (first_registrar x marshal sdkKey (test_env sdkUrl configUrl env))), c), new_profile_server sdkKey)"
proof -
  let ?env = "test_env sdkUrl configUrl env" and ?h = "new_profile_server sdkKey"
  have env: "pe_parse ?env = pe_parse env" "pe_cache ?env = None" "\<And>u. pe_new_request ?env u = Inr ()"
    "\<not> go_Enabled (c_GlobalOfflineConfig (re_conf (pe_reg ?env)))"
    using assms(2-4) by (simp_all add: test_env_def test_conf_def)
  have "ar_etag empty_auto \<noteq> GenerateEtag x (marshal (th_result ?h))" by (simp add: empty_auto_def GenerateEtag_def)
  note get = getConfig_served [where r = empty_auto and marshal = marshal and h = ?h, OF env(4,2,3) this]
  have "strong_etag x (marshal (th_result ?h)) \<noteq> ar_etag empty_auto" by (simp add: empty_auto_def strong_etag_def)
  then show ?thesis
    using assms(1) get env(1) by (simp add: NewTestAutoRegistrar_def Let_def newAutoRegistrar_def parseConfig_def)
qed

lemma sy_start:
  assumes "sdkKey \<noteq> []" "th_result (new_profile_server sdkKey) \<in> P"
  shows "sy_inv x marshal P [sdkKey \<mapsto> ''test''] (new_profile_server sdkKey) (first_registrar x marshal sdkKey env)"
proof -
  let ?h = "new_profile_server sdkKey" and ?r = "first_registrar x marshal sdkKey env"
  let ?cfg = "th_result ?h" and ?e = "strong_etag x (marshal (th_result ?h))"
  have own: "owned [sdkKey \<mapsto> ''test''] ?cfg"
    using assms(1) by (auto simp: new_profile_server_def owned_def two_keys_def model_keys_def)
  have en: "enumerates [''test''] (pm_SDKs ?cfg)" by (simp add: new_profile_server_def enumerates_def)
  have empty: "serves_profile empty_auto (?cfg\<lparr>pm_SDKs := Map.empty\<rparr>)" "owned own (?cfg\<lparr>pm_SDKs := Map.empty\<rparr>)" for own
    by (simp_all add: serves_profile_def empty_auto_def owned_def)
  have "distinct_profile ?cfg" unfolding distinct_profile_def by (rule owned_no_moves [OF empty own])
  have fresh: "ar_sdkClients (empty_auto\<lparr>ar_etag := ?e\<rparr>) = Map.empty" "ar_objs (empty_auto\<lparr>ar_etag := ?e\<rparr>) = []"
    "ar_sdkClientsBySdkKey (empty_auto\<lparr>ar_etag := ?e\<rparr>) = Map.empty" by (simp_all add: empty_auto_def)
  note f = init_clients_facts [where env = "pe_reg env", OF en fresh]
  have "keys_exact ?r" using f(4) \<open>distinct_profile ?cfg\<close> .
  moreover have "serves_profile ?r ?cfg"
    using f(2,3) by (simp add: serves_profile_def split: option.splits)
  moreover have "ar_etag ?r = ?e"
  proof -
    have "ar_etag (init_one env cfg i r) = ar_etag r" for env cfg i r
      by (simp add: init_one_def Let_def split: option.splits)
    then show ?thesis by (simp add: init_clients_def)
  qed
  ultimately show ?thesis using own assms(2) by (auto simp: sy_inv_def)
qed

text \<open>The registrar over the cache never asks a service.\<close>

lemma offline_registrar:
  assumes "go_Enabled (c_GlobalOfflineConfig (re_conf (pe_reg env)))"
  shows "newAutoRegistrar (env\<lparr>pe_http := f\<rparr>) order c = newAutoRegistrar env order c"
  using getConfig_offline [OF assms, of f c empty_auto, THEN conjunct1] unfolding newAutoRegistrar_def by (simp split: prod.split sum.split option.split)

lemma cached_registrar_offline:
  "NewTestAutoRegistrarWithCache n (env\<lparr>pe_http := f\<rparr>) order c = NewTestAutoRegistrarWithCache n env order c"
proof -
  define e where "e = env\<lparr>pe_reg := (pe_reg env)\<lparr>re_conf := zero_config
      \<lparr>c_Profile := (c_Profile zero_config)\<lparr>prof_Key := ''test-reg'', prof_PollInterval := 60\<rparr>,
       c_GlobalOfflineConfig := (c_GlobalOfflineConfig zero_config)\<lparr>go_CachePollInterval := n, go_Enabled := True\<rparr>\<rparr>\<rparr>\<rparr>"
  have "newAutoRegistrar (e\<lparr>pe_http := f\<rparr>) order c = newAutoRegistrar e order c"
    by (rule offline_registrar) (simp add: e_def)
  then show ?thesis by (cases env) (simp add: NewTestAutoRegistrarWithCache_def e_def)
qed

section \<open>Properties\<close>

text \<open>
  C2: the automatic registrar follows the profile service: whatever SDKs and keys are added, rotated and
  removed, and whenever it refreshes in between, after a refresh it serves exactly the SDKs of the
  profile, each with its keys, and finds a client by a key exactly when the profile has the key. The
  proxy is online and without a shared cache, keys are created once, and on the profiles of the
  run the JSON codec is faithful and the hash has no collision.
\<close>

theorem profile_followed:
  assumes "\<not> go_Enabled (c_GlobalOfflineConfig (re_conf (pe_reg env)))" and "pe_cache env = None"
    and "\<And>u. pe_new_request env u = Inr ()"
    and "NewTestAutoRegistrar xxhash marshal sdkKey sdkUrl configUrl env c = ((Some (Inr r), c0), h)"
    and "lts_run (sy_step xxhash marshal (test_env sdkUrl configUrl env)) (h, r, c0)
      (es @ [RegistrarRefreshes existing remote]) (h', r', c')"
    and "distinct (sdkKey # concat (map event_keys es))" and "[] \<notin> set (sdkKey # concat (map event_keys es))"
    and "codec_ok xxhash marshal (pe_parse env) (set (th_profiles es h))"
  shows "(\<forall>i. case pm_SDKs (th_result h') i of
        None \<Rightarrow> auto_GetSdkOrNil r' i = None
      | Some m \<Rightarrow> (\<exists>a. auto_GetSdkOrNil r' i = Some a \<and> matches i m (ar_objs r' ! a)))
    \<and> (\<forall>k a. k \<noteq> [] \<longrightarrow> (auto_GetSdkByKeyOrNil r' k = Some a \<longleftrightarrow>
        (\<exists>i. k \<in> profile_keys (th_result h') i \<and> auto_GetSdkOrNil r' i = Some a)))"
proof -
  let ?env = "test_env sdkUrl configUrl env" and ?P = "set (th_profiles es h)"
  have env: "pe_parse ?env = pe_parse env" "pe_cache ?env = None" "\<And>u. pe_new_request ?env u = Inr ()"
    "\<not> go_Enabled (c_GlobalOfflineConfig (re_conf (pe_reg ?env)))"
    using assms(1-3) by (simp_all add: test_env_def test_conf_def)
  have h: "h = new_profile_server sdkKey" using assms(4) by (simp add: NewTestAutoRegistrar_def Let_def)
  have P: "th_result (new_profile_server sdkKey) \<in> ?P" using profiles_head [of h es] by (simp add: h)
  then have "pe_parse env (marshal (th_result (new_profile_server sdkKey))) = Inr (th_result (new_profile_server sdkKey))"
    using assms(8) by (simp add: codec_ok_def)
  from trans [OF NewTestAutoRegistrar_returns [where marshal = marshal and sdkKey = sdkKey, OF this assms(1-3), symmetric] assms(4)]
  have "r = first_registrar xxhash marshal sdkKey ?env" by (auto simp only: prod.inject option.inject sum.inject)
  then have start: "sy_inv xxhash marshal ?P [sdkKey \<mapsto> ''test''] h r"
    using sy_start [OF _ P] assms(7) unfolding h by auto
  obtain h1 r1 c1 where s1: "lts_run (sy_step xxhash marshal ?env) (h, r, c0) es (h1, r1, c1)"
    "sy_step xxhash marshal ?env (h1, r1, c1) (RegistrarRefreshes existing remote) (h', r', c')"
    using assms(5) by (auto simp: lts_run_append)
  have codec: "codec_ok xxhash marshal (pe_parse ?env) ?P" using assms(8) env(1) by simp
  obtain own where inv: "sy_inv xxhash marshal ?P own h1 r1"
    using sy_run [OF s1(1) start codec env(4,2,3)] assms(6,7) by auto
  have fin: "sy_inv xxhash marshal ?P own h' r'" "serves_profile r' (th_result h')"
    using s1(2) sy_refresh [OF inv codec env(4,2,3)] by (auto simp: sy_step_simps)
  then have "keys_exact r'" by (simp add: sy_inv_def)
  then have "auto_GetSdkByKeyOrNil r' k = Some a \<longleftrightarrow>
      (\<exists>i. k \<in> registered_keys r' i \<and> auto_GetSdkOrNil r' i = Some a)" if "k \<noteq> []" for k a
    using that unfolding keys_exact_def auto_GetSdkByKeyOrNil_def auto_GetSdkOrNil_def registered_keys_def
    by (auto split: option.splits)
  then show ?thesis
    using fin(2) serves_registered [OF fin(2)]
    unfolding serves_profile_def served_def auto_GetSdkOrNil_def by simp
qed

text \<open>The service gets a second SDK, and the registrar refreshes. The codec names the two profiles.\<close>

definition two_profiles :: "proxy_config_model \<Rightarrow> bytes" where
  "two_profiles m = (if pm_SDKs m ''other'' = None then ''one'' else ''two'')"

definition two_env :: "unit profile_env" where
  "two_env = \<lparr>pe_reg = plain_reg, pe_cache = None, pe_new_request = (\<lambda>u. Inr ()), pe_http = (\<lambda>q. TransportError []),
     pe_parse = (\<lambda>b. Inr (th_result (if b = ''one'' then new_profile_server ''k1'' else AddSdk ''k2'' ''other'' (new_profile_server ''k1''))))\<rparr>"

theorem profile_followed_witness:
  "\<exists>r h' r' a. NewTestAutoRegistrar (\<lambda>b. b) two_profiles ''k1'' ''sdk'' ''profile'' two_env () = ((Some (Inr r), ()), new_profile_server ''k1'')
     \<and> lts_run (sy_step (\<lambda>b. b) two_profiles (test_env ''sdk'' ''profile'' two_env)) (new_profile_server ''k1'', r, ())
         [ServiceDoes (OpAddSdk ''k2'' ''other''), RegistrarRefreshes [''test''] [''test'', ''other'']] (h', r', ())
     \<and> auto_GetSdkByKeyOrNil r' ''k2'' = Some a \<and> auto_GetSdkOrNil r' ''other'' = Some a"
proof -
  let ?x = "\<lambda>b. b :: bytes" and ?env = "test_env ''sdk'' ''profile'' two_env" and ?h = "new_profile_server ''k1''"
  let ?r = "first_registrar ?x two_profiles ''k1'' ?env" and ?t = "AddSdk ''k2'' ''other'' ?h"
  let ?es = "[ServiceDoes (OpAddSdk ''k2'' ''other'')]"
  have env: "\<not> go_Enabled (c_GlobalOfflineConfig (re_conf (pe_reg two_env)))" "pe_cache two_env = None"
    "\<And>u. pe_new_request two_env u = Inr ()" by (simp_all add: two_env_def plain_reg_def zero_config_def)
  have sdks: "pm_SDKs (th_result ?h) = [''test'' \<mapsto> \<lparr>Key1 = ''k1'', Key2 = []\<rparr>]"
    "pm_SDKs (th_result ?t) = [''test'' \<mapsto> \<lparr>Key1 = ''k1'', Key2 = []\<rparr>, ''other'' \<mapsto> \<lparr>Key1 = ''k2'', Key2 = []\<rparr>]"
    by (simp_all add: new_profile_server_def AddSdk_def th_set_sdk_def)
  have codes: "two_profiles (th_result ?h) = ''one''" "two_profiles (th_result ?t) = ''two''"
    by (simp_all add: two_profiles_def sdks)
  have codec: "codec_ok ?x two_profiles (pe_parse two_env) (set (th_profiles ?es ?h))"
    by (auto simp: codec_ok_def codes inj_on_def two_env_def)
  have new: "NewTestAutoRegistrar ?x two_profiles ''k1'' ''sdk'' ''profile'' two_env () = ((Some (Inr ?r), ()), ?h)"
    by (rule NewTestAutoRegistrar_returns [where marshal = two_profiles, OF _ env]) (simp add: codes two_env_def)
  have "sy_inv ?x two_profiles {th_result ?h} [''k1'' \<mapsto> ''test''] ?h ?r" by (rule sy_start) simp_all
  then have "serves_profile ?r (th_result ?h)" by (simp add: sy_inv_def)
  then have en: "enumerates [''test''] (ar_sdkClients ?r)" "enumerates [''test'', ''other''] (pm_SDKs (th_result ?t))"
    by (simp_all add: enumerates_def serves_dom sdks insert_commute)
  define res where "res = refreshConfig (served_by ?x two_profiles ?t ?env) (\<lambda>_. [''test'']) (\<lambda>_. [''test'', ''other'']) () ?r"
  define r' where "r' = fst res"
  have r': "refreshConfig (served_by ?x two_profiles ?t ?env) (\<lambda>_. [''test'']) (\<lambda>_. [''test'', ''other'']) () ?r = (r', ())"
    unfolding r'_def res_def by (rule prod_eqI) simp_all
  have run: "lts_run (sy_step ?x two_profiles ?env) (?h, ?r, ()) (?es @ [RegistrarRefreshes [''test''] [''test'', ''other'']]) (?t, r', ())"
    using registrar_refreshes [OF en r'] service_does [of "OpAddSdk ''k2'' ''other''" ?h ?t ?x two_profiles ?env ?r "()"]
    by (simp only: append_Cons append_Nil lts_run.simps th_apply.simps) blast
  have facts: "(\<forall>i. case pm_SDKs (th_result ?t) i of
        None \<Rightarrow> auto_GetSdkOrNil r' i = None
      | Some m \<Rightarrow> (\<exists>a. auto_GetSdkOrNil r' i = Some a \<and> matches i m (ar_objs r' ! a)))
    \<and> (\<forall>k a. k \<noteq> [] \<longrightarrow> (auto_GetSdkByKeyOrNil r' k = Some a \<longleftrightarrow>
        (\<exists>i. k \<in> profile_keys (th_result ?t) i \<and> auto_GetSdkOrNil r' i = Some a)))"
    by (rule profile_followed [OF env new run _ _ codec]) simp_all
  from facts [THEN conjunct1, THEN spec, of "''other''"] obtain a where a: "auto_GetSdkOrNil r' ''other'' = Some a"
    by (auto simp: sdks)
  have "''k2'' \<in> profile_keys (th_result ?t) ''other''" by (simp add: profile_keys_def sdks model_keys_def)
  with facts a have "auto_GetSdkByKeyOrNil r' ''k2'' = Some a" by blast
  with new run a show ?thesis by (simp del: lts_run.simps) blast
qed

end
