(* ===== verification/TestRegistrars.thy ===== *)
theory TestRegistrars
  imports Process ProfileServer
begin

text \<open>
  The registrars that \<open>sdk/testing.go\<close> builds for the tests of the other packages: a registrar with the one
  SDK \<open>test\<close>, over a configuration of its own or over a server whose address and key are
  arguments here. The flags of the server, and closing it at the end of a test, are left out.
\<close>

section \<open>Definitions\<close>

definition NewTestSdkContext :: "sdk_config \<Rightarrow> bool \<Rightarrow> client_ctx" where
  "NewTestSdkContext conf cached =
     \<lparr>cx_SdkId = ''test'', cx_SecondarySdkKey = None, cx_SDKConf = conf, cx_GlobalDefaultAttrs = None,
      cx_ExternalCache = cached, cx_EvalReporter = False\<rparr>"

text \<open>The error of \<open>NewRegistrar\<close> is dropped.\<close>

definition NewTestRegistrarWithStatusReporter :: "sdk_config \<Rightarrow> unit profile_env \<Rightarrow> registrar option" where
  "NewTestRegistrarWithStatusReporter conf env =
     (case fst (NewRegistrar (env\<lparr>pe_reg := (pe_reg env)\<lparr>re_conf := zero_config\<lparr>c_SDKs := [''test'' \<mapsto> Some conf]\<rparr>\<rparr>\<rparr>)
         (\<lambda>_. []) [''test''] ()) of
        Some (Inr reg) \<Rightarrow> Some reg
      | _ \<Rightarrow> None)"

definition NewTestRegistrarTWithStatusReporter :: "string \<Rightarrow> string \<Rightarrow> unit profile_env \<Rightarrow> registrar option" where
  "NewTestRegistrarTWithStatusReporter key url env =
     NewTestRegistrarWithStatusReporter (zero_sdk\<lparr>sdk_BaseUrl := url, sdk_Key := key\<rparr>)
       (env\<lparr>pe_reg := (pe_reg env)\<lparr>re_cache_set := False\<rparr>\<rparr>)"

definition NewTestSdkClient :: "string \<Rightarrow> string \<Rightarrow> unit profile_env \<Rightarrow> (string \<rightharpoonup> nat) option" where
  "NewTestSdkClient key url env = map_option registrar_ids (NewTestRegistrarTWithStatusReporter key url env)"

section \<open>Lemmas\<close>

text \<open>The one client has the context that \<open>NewTestSdkContext\<close> gives, and is found by its id and by its key.\<close>

lemma test_registrar:
  shows "\<exists>r. NewTestRegistrarWithStatusReporter conf env = Some (ManualReg r)
    \<and> mr_objs r = [new_client ((pe_reg env)\<lparr>re_conf := zero_config\<lparr>c_SDKs := [''test'' \<mapsto> Some conf]\<rparr>\<rparr>)
          (NewTestSdkContext conf (re_cache_set (pe_reg env)))]
    \<and> manual_GetSdkOrNil r ''test'' = Some 0 \<and> manual_GetSdkByKeyOrNil r (sdk_Key conf) = Some 0
    \<and> manual_GetAll r = [''test'' \<mapsto> 0]"
  by (simp add: NewTestRegistrarWithStatusReporter_def NewRegistrar_def profile_IsSet_def zero_config_def
      newManualRegistrar_def manual_GetSdkOrNil_def manual_GetSdkByKeyOrNil_def manual_GetAll_def NewTestSdkContext_def)

lemma test_clients: "NewTestSdkClient key url env = Some [''test'' \<mapsto> 0]"
proof -
  obtain r where "NewTestRegistrarTWithStatusReporter key url env = Some (ManualReg r)" "manual_GetAll r = [''test'' \<mapsto> 0]"
    using test_registrar [of "zero_sdk\<lparr>sdk_BaseUrl := url, sdk_Key := key\<rparr>" "env\<lparr>pe_reg := (pe_reg env)\<lparr>re_cache_set := False\<rparr>\<rparr>"]
    by (auto simp: NewTestRegistrarTWithStatusReporter_def)
  then show ?thesis by (simp add: NewTestSdkClient_def manual_GetAll_def)
qed

end
