(* ===== verification/Lookups.thy ===== *)
theory Lookups
  imports AutoLoop WebApi
begin

text \<open>
  The lookups of both registrars, whatever the keys of the profiles and of the configuration are: keys that move
  from one SDK to another, that two SDKs share or that an SDK has twice. A lookup may then miss a client, but
  it never yields one that is closed, that has another identifier or that does not have the key. For the
  automatic registrar this is an invariant of its loop (theory \<open>AutoLoop\<close>), so it holds between any two steps
  of \<open>run\<close>, \<open>Refresh\<close> and \<open>Close\<close>, for the manual one it holds until \<open>Close\<close>.
\<close>

section \<open>Definitions\<close>

text \<open>A lookup by identifier or key finds an open client with this identifier or key.\<close>

definition index_sound :: "(string \<rightharpoonup> nat) \<Rightarrow> (string \<rightharpoonup> nat) \<Rightarrow> client list \<Rightarrow> bool" where
  "index_sound ids idx objs \<longleftrightarrow> heap_ok ids objs
     \<and> (\<forall>k a. k \<noteq> [] \<and> idx k = Some a \<longrightarrow> (\<exists>i. ids i = Some a \<and> k \<in> keys_of_client (objs ! a)))"

abbreviation lookups_sound :: "auto_registrar \<Rightarrow> bool" where
  "lookups_sound r \<equiv> index_sound (ar_sdkClients r) (ar_sdkClientsBySdkKey r) (ar_objs r)"

text \<open>The registrar that \<open>newAutoRegistrar\<close> builds; the order enumerates the SDKs of the profile it has loaded.\<close>

definition auto_started :: "'c profile_env \<Rightarrow> auto_registrar \<Rightarrow> 'c \<Rightarrow> bool" where
  "auto_started env r c' \<longleftrightarrow> (\<exists>order c. newAutoRegistrar env order c = (Some (Inr r), c') \<and>
     (\<forall>cfg r0 c0. getConfig env c empty_auto = ((Inr (Some cfg), r0), c0) \<longrightarrow> enumerates (order cfg) (pm_SDKs cfg)))"

text \<open>What the handlers see of a registrar that is at work: the automatic one in any state of its loop, or the manual one.\<close>

definition registrar_at_work :: "'c profile_env \<Rightarrow> registrar_view \<Rightarrow> bool" where
  "registrar_at_work env rv \<longleftrightarrow>
     (\<exists>r c es s. auto_started env r c \<and> lts_run (auto_step env) (loop_start r c) es s
        \<and> rv = auto_view (al_reg s))
     \<or> (\<exists>ks r. distinct ks \<and> newManualRegistrar (pe_reg env) ks = Some r \<and> rv = manual_view r)"

section \<open>Lemmas\<close>

subsection \<open>One index\<close>

lemma index_soundD:
  assumes "index_sound ids idx objs"
  shows "heap_ok ids objs" "k \<noteq> [] \<Longrightarrow> idx k = Some a \<Longrightarrow> \<exists>i. ids i = Some a \<and> k \<in> keys_of_client (objs ! a)"
  using assms unfolding index_sound_def by blast+

lemma index_soundI:
  assumes "heap_ok ids objs"
    and "\<And>k a. k \<noteq> [] \<Longrightarrow> idx k = Some a \<Longrightarrow> \<exists>i. ids i = Some a \<and> k \<in> keys_of_client (objs ! a)"
  shows "index_sound ids idx objs"
  using assms unfolding index_sound_def by blast

lemma index_sound_close:
  assumes "index_sound ids idx objs" "ids i = Some a"
  shows "index_sound (ids(i := None)) (delete_keys (SdkKeys (objs ! a)) idx) (close_at a objs)"
proof (rule index_soundI [OF heap_ok_close [OF index_soundD(1) [OF assms(1)] assms(2)]])
  fix k b assume k: "k \<noteq> []" "delete_keys (SdkKeys (objs ! a)) idx k = Some b"
  then have old: "k \<notin> keys_of_client (objs ! a)" "idx k = Some b" by (auto simp: delete_keys_eq split: if_splits)
  then obtain j where j: "ids j = Some b" "k \<in> keys_of_client (objs ! b)"
    using index_soundD(2) [OF assms(1) k(1)] by blast
  with old(1) have "b \<noteq> a" "j \<noteq> i" using assms(2) by auto
  then show "\<exists>j. (ids(i := None)) j = Some b \<and> k \<in> keys_of_client (close_at a objs ! b)"
    using j by (intro exI [of _ j]) (simp add: close_at_nth)
qed

lemma index_sound_store:
  assumes "index_sound ids idx objs" "ids i = None" "matches i m c" "\<not> cl_closed c"
  shows "index_sound (ids(i \<mapsto> length objs)) (store_keys m (length objs) idx) (objs @ [c])"
proof (rule index_soundI [OF heap_ok_fresh [OF index_soundD(1) [OF assms(1)] assms(2) _ assms(4)]])
  show "cx_SdkId (cl_ctx c) = i" using assms(3) by (simp add: matches_def)
  fix k b assume k: "k \<noteq> []" "store_keys m (length objs) idx k = Some b"
  show "\<exists>j. (ids(i \<mapsto> length objs)) j = Some b \<and> k \<in> keys_of_client ((objs @ [c]) ! b)"
  proof (cases "k \<in> model_keys m")
    case True
    then have "b = length objs" using k by (simp add: store_keys_eq)
    then show ?thesis using True matches_keys [OF assms(3)] by (intro exI [of _ i]) simp
  next
    case False
    then have "idx k = Some b" using k by (simp add: store_keys_eq)
    then obtain j where j: "ids j = Some b" "k \<in> keys_of_client (objs ! b)"
      using index_soundD(2) [OF assms(1) k(1)] by blast
    then have "b < length objs" "j \<noteq> i" using heap_okD(1) [OF index_soundD(1) [OF assms(1)]] assms(2) by auto
    then show ?thesis using j by (intro exI [of _ j]) (simp add: nth_append)
  qed
qed

subsection \<open>The operations of the automatic registrar\<close>

lemma sound_delete: "lookups_sound r \<Longrightarrow> lookups_sound (delete_one i r)"
  using index_sound_close by (simp add: delete_one_def split: option.splits)

lemma sound_add: "lookups_sound r \<Longrightarrow> lookups_sound (add_one env cfg i r)"
  using index_sound_store [OF _ _ build_matches] by (simp add: add_one_def Let_def split: option.splits)

lemma sound_reset:
  assumes "lookups_sound r"
  shows "lookups_sound (reset_one env cfg i r)"
proof (cases "pm_SDKs cfg i")
  case (Some m)
  define c where "c = buildSdkClient env i (buildSdkConfig (re_conf env) (ar_options r) i m) m"
  have c: "matches i m c" "\<not> cl_closed c" unfolding c_def by (rule build_matches) simp
  show ?thesis
  proof (cases "ar_sdkClients r i")
    case None
    then show ?thesis
      using index_sound_store [OF assms None c] Some by (simp add: reset_one_def Let_def c_def)
  next
    case (Some a)
    have lt: "a < length (ar_objs r)" using heap_okD(1) [OF index_soundD(1) [OF assms] Some] .
    have "(ar_sdkClients r)(i := None, i \<mapsto> length (ar_objs r)) = (ar_sdkClients r)(i \<mapsto> length (ar_objs r))" by simp
    with index_sound_store [OF index_sound_close [OF assms Some] _ c] \<open>pm_SDKs cfg i = Some m\<close> Some lt
    show ?thesis
      by (simp add: reset_one_def Let_def close_at_append nth_append flip: c_def) (simp add: close_at_def)
  qed
qed (simp add: reset_one_def assms)

lemma index_sound_secondary:
  assumes "index_sound ids idx objs" "ids i = Some a"
    and "idx' = idx \<and> snd (SdkKeys (objs ! a)) = None \<or> snd (SdkKeys (objs ! a)) = Some k2 \<and> idx' = idx(k2 := None)"
  shows "index_sound ids (idx'(key \<mapsto> a)) (objs[a := SetSecondarySdkKey key (objs ! a)])"
proof (rule index_soundI)
  let ?c = "SetSecondarySdkKey key (objs ! a)"
  note heap = index_soundD(1) [OF assms(1)]
  have lt: "a < length objs" using heap_okD(1) [OF heap assms(2)] .
  show "heap_ok ids (objs[a := ?c])" by (rule heap_ok_update [OF heap]) simp_all
  fix k b assume k: "k \<noteq> []" "(idx'(key \<mapsto> a)) k = Some b"
  show "\<exists>j. ids j = Some b \<and> k \<in> keys_of_client (objs[a := ?c] ! b)"
  proof (cases "k = key")
    case True
    then show ?thesis using k assms(2) lt by (intro exI [of _ i]) (simp add: keys_of_client_def)
  next
    case False
    then have old: "idx k = Some b" "snd (SdkKeys (objs ! a)) \<noteq> Some k" using k(2) assms(3) by (auto split: if_splits)
    then obtain j where j: "ids j = Some b" "k \<in> keys_of_client (objs ! b)"
      using index_soundD(2) [OF assms(1) k(1)] by blast
    then show ?thesis
      using old(2) lt by (intro exI [of _ j]) (cases "b = a"; auto simp: keys_of_client_def)
  qed
qed

lemma sound_keys:
  assumes "lookups_sound (fst st)"
  shows "lookups_sound (fst (keys_iteration cfg st i))"
proof -
  obtain r ks where st: "st = (r, ks)" by fastforce
  show ?thesis
  proof (cases "ar_sdkClients r i = None \<or> pm_SDKs cfg i = None")
    case True
    then show ?thesis using assms by (auto simp: st keys_iteration_def split: option.splits)
  next
    case False
    then obtain a m where a: "ar_sdkClients r i = Some a" "pm_SDKs cfg i = Some m" by auto
    have r: "lookups_sound r" using assms st by simp
    show ?thesis
      unfolding st keys_iteration_eq fst_conv
    proof (rule keys_one_cases [OF a])
      fix idx
      assume eq: "keys_one cfg i r = r\<lparr>ar_objs := (ar_objs r)[a := SetSecondarySdkKey (Key2 m) (ar_objs r ! a)],
          ar_sdkClientsBySdkKey := idx(Key2 m \<mapsto> a), ar_published := ar_published r @ [i]\<rparr>"
        and idx: "snd (SdkKeys (ar_objs r ! a)) = None \<and> Key2 m \<noteq> [] \<and> idx = ar_sdkClientsBySdkKey r \<or>
          (\<exists>k2. snd (SdkKeys (ar_objs r ! a)) = Some k2 \<and> k2 \<noteq> Key2 m \<and> idx = (ar_sdkClientsBySdkKey r)(k2 := None))"
      from idx have "\<exists>k2. idx = ar_sdkClientsBySdkKey r \<and> snd (SdkKeys (ar_objs r ! a)) = None \<or>
          snd (SdkKeys (ar_objs r ! a)) = Some k2 \<and> idx = (ar_sdkClientsBySdkKey r)(k2 := None)" by blast
      then show "lookups_sound (keys_one cfg i r)"
        using index_sound_secondary [OF r a(1)] by (auto simp: eq)
    qed (use r in simp_all)
  qed
qed

lemma foldl_sound:
  "(\<And>r i. P r \<Longrightarrow> P (f r i)) \<Longrightarrow> P r \<Longrightarrow> P (foldl f r is)"
  by (induction "is" arbitrary: r) simp_all

lemma sound_apply:
  assumes "lookups_sound r"
  shows "lookups_sound (applyConfig env cfg existing remote r)"
proof -
  have loops: "lookups_sound r' \<Longrightarrow> lookups_sound (deleteSdkClients ks r')"
    "lookups_sound r' \<Longrightarrow> lookups_sound (resetSdkClients env cfg ks r')"
    "lookups_sound r' \<Longrightarrow> lookups_sound (addSdkClients env cfg ks r')" for r' ks
    unfolding deleteSdkClients_def resetSdkClients_def addSdkClients_def
    by (rule foldl_sound [where P = lookups_sound], simp_all add: sound_delete sound_reset sound_add)+
  have keys: "lookups_sound r' \<Longrightarrow> lookups_sound (fst (foldl (keys_iteration cfg) (r', ks) is))" for r' ks "is"
    by (rule foldl_sound [where P = "\<lambda>st. lookups_sound (fst st)"]) (simp_all add: sound_keys)
  show ?thesis
    unfolding applyConfig_def Let_def case_prod_beta
    by (intro loops(3)) (use loops keys assms in \<open>auto split: if_splits\<close>)
qed

lemma sound_started:
  assumes "auto_started env r c'"
  shows "lookups_sound r"
proof -
  obtain order c where new: "newAutoRegistrar env order c = (Some (Inr r), c')"
    and order: "\<And>cfg r0 c0. getConfig env c empty_auto = ((Inr (Some cfg), r0), c0) \<Longrightarrow> enumerates (order cfg) (pm_SDKs cfg)"
    using assms unfolding auto_started_def by blast
  obtain res r0 c0 where g: "getConfig env c empty_auto = ((res, r0), c0)" by (metis surj_pair)
  with new obtain cfg where cfg: "res = Inr (Some cfg)" "r = init_clients (pe_reg env) cfg (order cfg) r0"
    by (auto simp: newAutoRegistrar_def split: sum.splits option.splits)
  let ?r0 = "r0\<lparr>ar_options := pm_Options cfg\<rparr>"
  have r0: "ar_sdkClients ?r0 = Map.empty" "ar_objs ?r0 = []" "ar_sdkClientsBySdkKey ?r0 = Map.empty"
    using getConfig_cases [OF g] by (auto simp: empty_auto_def)
  have "distinct (order cfg)" using order g cfg(1) by (auto simp: enumerates_def)
  then have "r = addSdkClients (pe_reg env) cfg (order cfg) ?r0\<lparr>ar_published := ar_published ?r0\<rparr>"
    unfolding cfg(2) init_clients_def addSdkClients_def by (rule init_fold_add) (simp add: r0)
  moreover have "lookups_sound ?r0" unfolding r0 by (simp add: index_sound_def heap_ok_def)
  then have "lookups_sound (addSdkClients (pe_reg env) cfg (order cfg) ?r0)"
    unfolding addSdkClients_def by (rule foldl_sound [where P = lookups_sound, rotated]) (rule sound_add)
  ultimately show ?thesis by simp
qed

definition loop_lookups :: "'c auto_loop \<Rightarrow> bool" where
  "loop_lookups s \<longleftrightarrow> lookups_sound (al_reg s)"

interpretation lookups: lts_invariant "auto_step env" loop_lookups for env
proof
  fix s e s' assume inv: "loop_lookups s" and step: "auto_step env s e s'"
  have load: "loop_lookups (load_profile env f t)" if "al_reg t = al_reg s" for f t
    by (rule load_profile_cases [of env f t]) (use inv that in \<open>simp_all add: loop_lookups_def\<close>)
  from step show "loop_lookups s'"
  proof cases
    case (apply_profile cfg existing remote)
    then show ?thesis using inv sound_apply by (simp add: loop_lookups_def)
  next
    case (close_clients ks)
    have "reg_inv (auto_Close ks (al_reg s))"
      by (rule Close_inv) (use inv close_clients(5) in \<open>simp_all add: loop_lookups_def index_sound_def reg_inv_def\<close>)
    then show ?thesis
      by (simp add: close_clients loop_lookups_def index_sound_def reg_inv_def) (simp add: auto_Close_def)
  qed (use inv load in \<open>simp_all add: loop_lookups_def\<close>)
qed

subsection \<open>The manual registrar\<close>

lemma manual_sound:
  "manual_loop env ks r = Some r' \<Longrightarrow> distinct ks \<Longrightarrow> (\<And>k. k \<in> set ks \<Longrightarrow> mr_sdkClients r k = None) \<Longrightarrow>
   index_sound (mr_sdkClients r) (mr_sdkClientsBySdkKey r) (mr_objs r) \<Longrightarrow>
   index_sound (mr_sdkClients r') (mr_sdkClientsBySdkKey r') (mr_objs r')"
proof (induction ks arbitrary: r)
  case (Cons k ks)
  show ?case
  proof (cases "c_SDKs (re_conf env) k")
    case None
    then show ?thesis using Cons.IH [of r] Cons.prems by simp
  next
    case (Some sc)
    then obtain x where x: "c_SDKs (re_conf env) k = Some (Some x)" using Cons.prems(1) by (cases sc) auto
    define c where "c = new_client env \<lparr>cx_SdkId = k, cx_SecondarySdkKey = None, cx_SDKConf = x,
      cx_GlobalDefaultAttrs = c_DefaultAttrs (re_conf env), cx_ExternalCache = re_cache_set env, cx_EvalReporter = False\<rparr>"
    let ?m = "\<lparr>Key1 = sdk_Key x, Key2 = []\<rparr>" and ?a = "length (mr_objs r)"
    let ?r = "\<lparr>mr_sdkClients = (mr_sdkClients r)(k \<mapsto> ?a),
      mr_sdkClientsBySdkKey = (mr_sdkClientsBySdkKey r)(sdk_Key x \<mapsto> ?a),
      mr_objs = mr_objs r @ [c], mr_status = mr_status r @ [CallRegister k x]\<rparr>"
    have loop: "manual_loop env ks ?r = Some r'" using Cons.prems(1) x by (simp add: Let_def c_def)
    have c: "matches k ?m c" "\<not> cl_closed c"
      by (simp_all add: c_def matches_def SdkKeys_def new_client_def NewClient_def)
    have stored: "index_sound (mr_sdkClients ?r) (store_keys ?m ?a (mr_sdkClientsBySdkKey r)) (mr_objs ?r)"
      using index_sound_store [OF Cons.prems(4) _ c] Cons.prems(3) by simp
    have "store_keys ?m ?a (mr_sdkClientsBySdkKey r) key = mr_sdkClientsBySdkKey ?r key" if "key \<noteq> []" for key
      using that by (auto simp: store_keys_eq model_keys_def)
    then have "index_sound (mr_sdkClients ?r) (mr_sdkClientsBySdkKey ?r) (mr_objs ?r)"
      using stored unfolding index_sound_def by metis
    note sound = this
    have fresh: "mr_sdkClients ?r k' = None" if "k' \<in> set ks" for k'
      using Cons.prems(2,3) that by auto
    show ?thesis by (rule Cons.IH [OF loop _ fresh sound]) (use Cons.prems(2) in simp)
  qed
qed simp

lemma manual_registrar_sound:
  assumes "newManualRegistrar env ks = Some r" "distinct ks"
  shows "index_sound (mr_sdkClients r) (mr_sdkClientsBySdkKey r) (mr_objs r)"
  by (rule manual_sound [OF assms(1) [unfolded newManualRegistrar_def] assms(2)]) (simp_all add: index_sound_def heap_ok_def)

subsection \<open>What the handlers see\<close>

definition view_sound :: "registrar_view \<Rightarrow> bool" where
  "view_sound rv \<longleftrightarrow>
     (\<forall>i a c. rv_GetSdkOrNil rv i = Some (a, c) \<longrightarrow> \<not> cl_closed c \<and> cx_SdkId (cl_ctx c) = i)
     \<and> (\<forall>k a c. k \<noteq> [] \<and> rv_GetSdkByKeyOrNil rv k = Some (a, c) \<longrightarrow>
          k \<in> keys_of_client c \<and> rv_GetSdkOrNil rv (cx_SdkId (cl_ctx c)) = Some (a, c))"

lemma index_view:
  assumes "index_sound ids idx objs"
  shows "view_sound \<lparr>rv_GetSdkOrNil = (\<lambda>i. map_option (\<lambda>a. (a, objs ! a)) (ids i)),
    rv_GetSdkByKeyOrNil = (\<lambda>k. map_option (\<lambda>a. (a, objs ! a)) (idx k))\<rparr>"
  using index_soundD(2) [OF assms] heap_okD(2,3) [OF index_soundD(1) [OF assms]]
  unfolding view_sound_def by fastforce

lemma work_sound:
  assumes "registrar_at_work env rv"
  shows "view_sound rv"
  using assms unfolding registrar_at_work_def
proof (elim disjE exE conjE)
  fix r c es s
  assume a: "auto_started env r c" "lts_run (auto_step env) (loop_start r c) es s" "rv = auto_view (al_reg s)"
  have "loop_lookups (loop_start r c)" using sound_started [OF a(1)] by (simp add: loop_lookups_def loop_start_def)
  then have "lookups_sound (al_reg s)" using lookups.run_inv [OF _ a(2)] by (simp add: loop_lookups_def)
  from index_view [OF this] show "view_sound rv"
    by (simp add: a(3) auto_view_def auto_GetSdkOrNil_def auto_GetSdkByKeyOrNil_def)
next
  fix ks r
  assume m: "distinct ks" "newManualRegistrar (pe_reg env) ks = Some r" "rv = manual_view r"
  from index_view [OF manual_registrar_sound [OF m(2,1)]] show "view_sound rv"
    by (simp add: m(3) manual_view_def manual_GetSdkOrNil_def manual_GetSdkByKeyOrNil_def)
qed

lemma api_view_sound:
  assumes "view_sound rv" "api_getSDKClient rv r = Inr (a, c)"
  shows "\<not> cl_closed c \<and> IsInValidState c \<and> rv_GetSdkOrNil rv (cx_SdkId (cl_ctx c)) = Some (a, c) \<and>
    (if rq_path_value r ''sdkId'' \<noteq> [] then cx_SdkId (cl_ctx c) = rq_path_value r ''sdkId''
     else header_get r SdkKeyHeader \<in> keys_of_client c)"
proof -
  have found: "(if rq_path_value r ''sdkId'' = [] then rv_GetSdkByKeyOrNil rv (header_get r SdkKeyHeader)
      else rv_GetSdkOrNil rv (rq_path_value r ''sdkId'')) = Some (a, c)" "IsInValidState c"
    "rq_path_value r ''sdkId'' = [] \<longrightarrow> header_get r SdkKeyHeader \<noteq> []"
    using assms(2) by (auto simp: api_getSDKClient_def Let_def split: if_splits option.splits)
  show ?thesis
  proof (cases "rq_path_value r ''sdkId'' = []")
    case True
    then have k: "header_get r SdkKeyHeader \<noteq> []" "rv_GetSdkByKeyOrNil rv (header_get r SdkKeyHeader) = Some (a, c)"
      using found by simp_all
    then have "header_get r SdkKeyHeader \<in> keys_of_client c" "rv_GetSdkOrNil rv (cx_SdkId (cl_ctx c)) = Some (a, c)"
      using assms(1) unfolding view_sound_def by blast+
    moreover from this(2) have "\<not> cl_closed c" using assms(1) unfolding view_sound_def by blast
    ultimately show ?thesis using True found(2) by simp
  next
    case False
    then have "rv_GetSdkOrNil rv (rq_path_value r ''sdkId'') = Some (a, c)" using found by simp
    then show ?thesis using assms(1) False found(2) unfolding view_sound_def by auto
  qed
qed

section \<open>Properties\<close>


text \<open>
  A request with a key at the automatic registrar after the profile \<open>k2\<close> has been loaded and applied, and at
  a manual registrar with one SDK.
\<close>

definition key_request :: "string \<Rightarrow> request" where
  "key_request k = \<lparr>rq_method = ''GET'', rq_path = [], rq_header = [''X-Configcat-Sdkkey'' \<mapsto> k],
    rq_path_value = (\<lambda>n. []), rq_query = (\<lambda>n. []), rq_body = Inr [], rq_basic = None\<rparr>"

definition one_manual :: reg_env where
  "one_manual = plain_reg\<lparr>re_conf := zero_config\<lparr>c_SDKs := [''main'' \<mapsto> Some (zero_sdk\<lparr>sdk_Key := ''k1''\<rparr>)]\<rparr>\<rparr>"

lemma key_request_get: "header_get (key_request k) SdkKeyHeader = k" "rq_path_value (key_request k) n = []"
proof -
  have "canonical_key SdkKeyHeader = ''X-Configcat-Sdkkey''" by code_simp
  then show "header_get (key_request k) SdkKeyHeader = k" by (simp add: header_get_def key_request_def)
qed (simp add: key_request_def)

lemma started_options: "ar_options (started k) = \<lparr>om_PollInterval = 60, om_DataGovernance = ''global''\<rparr>"
  by (simp add: started_def init_clients_def init_one_def main_profile_def empty_auto_def Let_def)

lemma plain_client_valid: "IsInValidState (buildSdkClient plain_reg i conf m)"
  by (simp add: buildSdkClient_def new_client_def NewClient_def IsInValidState_def GetCachedJson_def plain_reg_def)


end
