(* ===== verification/Spec2Isabelle.thy ===== *)
theory Spec2Isabelle
  imports Validate Logger Status PubSub FileStore Client ExternalCache AutoRegistrar StreamServer
    Router Grpc AutoLoop StreamLoop ClientLoop Delivery FileLoop Frontends Process Compress TestRegistrars
    Lookups
begin

text \<open>
  A verification library for the ConfigCat Proxy (Go). The proxy holds one ConfigCat SDK client per
  configured SDK, keeps their configuration up to date from the network, from a shared cache or
  from a file, and serves evaluations over HTTP (API, CDN, OFREP, SSE, webhook) and gRPC.

  The parts and how they interact. \<open>config\<close> is read from defaults, a file and the environment,
  fixed up and validated. A \<open>registrar\<close> (manual or automatic) owns the SDK clients; the automatic
  one polls a proxy profile and adds, removes, rebuilds and re-keys clients, and publishes the
  identifiers it touched. Each client reads through a store, is told of changes by a notifier and
  publishes them through a \<open>publisher\<close>. A \<open>stream server\<close> keeps one stream per client, follows the
  registrar's publications, and each stream pushes evaluations to its connections. The web and
  gRPC servers look a client or a stream up in the registrar or in the stream server. The
  \<open>status\<close> reporter collects outcomes of all of them, the \<open>telemetry\<close> reporter instruments them. The
  process starts these parts in a fixed order, waits for a signal or for the failure of a server,
  and shuts them down.

  Theories, in the order of dependence:

  \<^item> \<open>Prelude\<close>: strings, results \<open>string + 'a\<close>, enumerations of maps, the locales for step
    relations and operations that keep an invariant.
  \<^item> \<open>Utils\<close> (\<open>internal/utils\<close>), \<open>UserAttrs\<close> (\<open>model\<close>): obfuscation, list operations, ETags,
    Base64; attributes, their decoding, merging and the discriminator on 64-bit words.
  \<^item> \<open>Config\<close>, \<open>Env\<close>, \<open>Validate\<close> (\<open>config\<close>): one record per struct, the defaults and fix-ups,
    \<open>loadEnv\<close> of every struct, every \<open>validate\<close> with the order of its checks, and the loader.
    \<open>Validate\<close> also states when a configuration is accepted (\<open>config_ok\<close>), without any order, and what
    the fix-ups make of a loaded one (\<open>level_or\<close>, \<open>version_or\<close>, \<open>sdk_fixed\<close>).
  \<^item> \<open>Logger\<close> (\<open>log\<close>), \<open>Status\<close> (\<open>diag/status\<close>), \<open>PubSub\<close> (\<open>pubsub\<close>): what a log call prints; the
    records and the health of an SDK and of the proxy, with the health as a function of the last
    reports (\<open>history_status\<close>, \<open>overall\<close>); the publisher as a step relation of one goroutine and
    blocking callers.
  \<^item> \<open>Store\<close>, \<open>FileStore\<close> (\<open>sdk/store\<close>), \<open>ExternalCache\<close> (\<open>cache\<close>): the stores and their reload,
    the polling loop with the notifier and the listening client as a step relation, the
    backends.
  \<^item> \<open>FileLoop\<close> (\<open>sdk/store/file\<close>): the goroutines of the watcher and of the file store with the notifiers
    between them, over a file that is written and renamed at any time; a change that the watcher can
    see is on its way until the store has it (\<open>fl_inv\<close>).
  \<^item> \<open>Client\<close>, \<open>Registrar\<close>, \<open>AutoRegistrar\<close> (\<open>sdk\<close>): the client around the third-party SDK, both
    registrars over a heap of client objects, profile loading and refresh.
  \<^item> \<open>ClientLoop\<close> (\<open>sdk/sdk.go\<close>): the goroutines of a client (initial refresh, \<open>poll\<close>, \<open>listen\<close>, the hook for
    loaded configurations, callers in \<open>ensureReady\<close>, \<open>Close\<close>) as a step relation, with the accounts of
    loaded and published configurations (\<open>account\<close>) and of the callers that wait (\<open>waiters_inv\<close>).
  \<^item> \<open>AutoLoop\<close> (\<open>sdk/sdk_auto_registrar.go\<close>): the goroutine of the automatic registrar with the
    calls of \<open>Refresh\<close> and \<open>Close\<close> beside it, as a step relation. Loading a profile and applying it
    are two steps; at every \<open>select\<close> the registrar is a state of the sequential refreshes
    (\<open>sound_loop\<close>) if no profile moves a key between SDKs, and once closed it stays closed unless a
    profile was waiting (\<open>shut_loop\<close>).
  \<^item> \<open>Lookups\<close>: what both registrars promise a handler without any condition on keys: a lookup by identifier
    or key never yields a closed or a wrong client (\<open>index_sound\<close>), in every state of the loop.
  \<^item> \<open>ProfileServer\<close> (\<open>sdk/testing.go\<close>): the profile service that the tests put in the place of the dashboard,
    with the operations on its SDKs and keys, and its closed system with the automatic registrar
    (\<open>sy_step\<close>), in which the HTTP exchange is no longer a parameter; the invariant \<open>sy_inv\<close> says which profile
    the registrar serves. \<open>TestRegistrars\<close>: the registrars that the tests of other packages start.
  \<^item> \<open>Channel\<close>, \<open>Stream\<close>, \<open>StreamServer\<close> (\<open>stream\<close>): channels, the events of a stream, the
    server that follows the registrar.
  \<^item> \<open>StreamLoop\<close> (\<open>stream/stream.go\<close>, \<open>stream/connection.go\<close>): the goroutine of a stream with its
    callers, the buffers of 64 messages and the handlers that read them, as a step relation. It
    follows the events of \<open>Stream\<close> (\<open>calm_stream\<close>) as long as no configuration is loaded in the middle
    of a notification, and keeps its invariant in any case (\<open>stream_goroutine\<close>).
  \<^item> \<open>Delivery\<close>: the product of \<open>ClientLoop\<close>, \<open>PubSub\<close> and \<open>StreamLoop\<close>, which meet in the publications of
    the client, the signals of the publisher and the evaluations of the stream. Its invariants say that the
    parts are in step (\<open>in_step\<close>) and that a channel that is not up to date has a change on its way
    (\<open>told\<close>); a client that replaces another breaks the second one (\<open>unnoticed\<close>). What is on its way
    arrives by steps of the proxy alone (\<open>delivery_completes\<close>).
  \<^item> \<open>Http\<close>, \<open>WebApi\<close>, \<open>Webhook\<close>, \<open>Sse\<close>, \<open>Router\<close> (\<open>web\<close>): middlewares and handlers as functions on a
    response under construction, the handlers of the API, the CDN proxy and OFREP, the webhook,
    server-sent events, and the routes with the standard library's multiplexer.
  \<^item> \<open>Compress\<close> (\<open>web/mware/compress.go\<close>): the compressing writer over a pooled compressor, and that the
    compressed responses of \<open>Http\<close>, whose bodies are kept as written, are what a client decompresses
    (\<open>gw_matches\<close>).
  \<^item> \<open>Grpc\<close> (\<open>grpc\<close>): the flag service, its streaming loops, the interceptors, the health check.
  \<^item> \<open>Frontends\<close> (\<open>web\<close>, \<open>grpc\<close>): construction and close of the servers behind the router and of the flag
    service, and what closing does to the streams.
  \<^item> \<open>Telemetry\<close> (\<open>diag/telemetry\<close>), \<open>Servers\<close> (\<open>web/server.go\<close>, \<open>diag/server.go\<close>, \<open>grpc/server.go\<close>): the
    exporters a configuration starts, the options handed to the instrumented libraries, what is
    recorded; the construction, the listening and the shutdown of the three servers.
  \<^item> \<open>Process\<close> (\<open>main.go\<close>): the start-up in its order, with the actions it takes and every exit, the
    main loop over the events it waits for, and the shutdown. The outside world is the record
    \<open>world\<close>.

  State and identity. Structs are records; a Go map is a HOL map, and the order in which the code
  ranges over it is a list argument, which a theorem constrains with \<open>enumerates\<close>. Objects whose
  identity matters (clients, streams) live in a list indexed by address, because two maps of a
  registrar must lead to the same object and the secondary key of a client is set in place.
  Effects (published identifiers, calls of the reporter, messages sent, responses) are logged in
  the state in the order in which they happen. Errors are the left values of a sum, a panic is
  \<open>Panics\<close> or \<open>None\<close>. Go's \<open>int\<close> is unbounded except where its width decides (keep-alive durations, the
  discriminator, gRPC integers, \<open>strconv.Atoi\<close>). Go strings are byte strings.

  What the groups of lemmas show. Interfaces are locales of the theories that use them: what keeps
  an invariant (\<open>Prelude\<close>), what a reloadable source promises its loop (\<open>Store\<close>), what a channel
  promises a stream (\<open>Channel\<close>, \<open>Stream\<close>), what a registrar promises a lookup (\<open>Registrar\<close>); each
  is interpreted on the model's own definitions. The properties proved with them stand at the
  end of each theory and, where they span components, at the end of this one.

  Bounds and fuel: no definition uses fuel. Loops are structural recursions over the lists they
  range over; the goroutines are step relations, about whose finite runs the theorems speak.

  Not modelled: the third-party ConfigCat SDK, database drivers, gRPC, OpenTelemetry, file
  watching and cryptographic hashes are parameters with the facts the code relies on as explicit
  hypotheses. JSON, YAML and regular expressions are parameters as well. In \<open>ClientLoop\<close> a refresh of
  the third-party SDK is what it wrote to its cache and the snapshot it evaluates with afterwards; it
  runs the hook once for every configuration it loads while it is online, and it caches only what
  it evaluates with. In \<open>FileLoop\<close> each watched directory reports a write in place as a write and a
  rename as another event. In \<open>Compress\<close> the compressor is a parameter that decompresses to what was
  written. What a listening socket or a third-party constructor returns is an input of \<open>Servers\<close>,
  \<open>Telemetry\<close> and \<open>Process\<close>; the pprof handlers are names. Generated protobuf code and the timeouts and
  temporary files of \<open>internal/testutils\<close> are left out. Log lines of the other components are not part
  of their models; what a line looks like is theory \<open>Logger\<close>.
\<close>

section \<open>Properties\<close>

text \<open>
  C4: when the stream server has handled every identifier that a refresh of the registrar has
  published, it serves the refreshed registrar exactly: an SDK has a stream if and only if the
  registrar has a client for it, the stream points to that client and is open, and an SDK key
  leads to the stream of the SDK that has the key. The keys of different SDKs differ, before
  and after, and no client that stays changes its keys in place.
\<close>

theorem streams_follow_refresh:
  assumes "server_inv (ar_objs r) (clients_of r) sv" and "\<forall>i. synced (auto_GetSdkOrNil r) sv i"
    and "reg_inv r" and "enumerates existing (ar_sdkClients r)" and "enumerates remote (pm_SDKs cfg)"
    and "r' = applyConfig env cfg existing remote r" and "ar_published r' = ar_published r @ ids"
    and "keys_apart (ar_objs r') (\<lambda>i. clients_of r i \<union> clients_of r' i)"
    and "\<forall>i a. ar_sdkClients r i = Some a \<longrightarrow> keys_of_client (ar_objs r' ! a) = keys_of_client (ar_objs r ! a)"
  shows "let sv' = handle_all (auto_GetSdkOrNil r') (ar_objs r') ids sv in
    (\<forall>i s. GetStreamOrNil sv' i = Some s \<longrightarrow>
      auto_GetSdkOrNil r' i = Some (so_client (ss_objs sv' ! s)) \<and> \<not> so_closed (ss_objs sv' ! s))
    \<and> (\<forall>i. GetStreamOrNil sv' i = None \<longleftrightarrow> auto_GetSdkOrNil r' i = None)
    \<and> (\<forall>k s. GetStreamBySdkKeyOrNil sv' k = Some s \<longleftrightarrow>
      (\<exists>i a. GetStreamOrNil sv' i = Some s \<and> auto_GetSdkOrNil r' i = Some a \<and> k \<in> keys_of_client (ar_objs r' ! a)))"
proof -
  let ?sv = "handle_all (auto_GetSdkOrNil r') (ar_objs r') ids sv"
  have "changed_sdks r r' \<subseteq> set ids"
    using applyConfig_announces [OF assms(3-5), of env] assms(6,7) by (auto simp: announces_def)
  from follow_changes [OF assms(1,2,8,9) this]
  have f: "server_inv (ar_objs r') (clients_of r') ?sv" "\<forall>i. synced (auto_GetSdkOrNil r') ?sv i" by blast+
  have "\<forall>i s. GetStreamOrNil ?sv i = Some s \<longrightarrow>
      auto_GetSdkOrNil r' i = Some (so_client (ss_objs ?sv ! s)) \<and> \<not> so_closed (ss_objs ?sv ! s)"
    using f(2) server_invD(3) [OF f(1)] by (auto simp: synced_def GetStreamOrNil_def)
  moreover have "\<forall>i. GetStreamOrNil ?sv i = None \<longleftrightarrow> auto_GetSdkOrNil r' i = None"
    using f(2) by (auto simp: synced_def GetStreamOrNil_def)
  ultimately show ?thesis
    using synced_lookup [OF f] unfolding Let_def by blast
qed

theorem streams_follow_refresh_witness:
  "\<exists>r' ids s. r' = applyConfig plain_reg (main_profile ''k'') [] [''main''] empty_auto \<and>
    ar_published r' = ids \<and> auto_GetSdkOrNil r' ''main'' = Some 0 \<and>
    GetStreamBySdkKeyOrNil (handle_all (auto_GetSdkOrNil r') (ar_objs r') ids (NewServer [] [])) ''k'' = Some s"
proof -
  define r' where "r' = applyConfig plain_reg (main_profile ''k'') [] [''main''] empty_auto"
  let ?sv = "handle_all (auto_GetSdkOrNil r') (ar_objs r') (ar_published r') (NewServer [] [])"
  have cl: "ar_sdkClients r' = [''main'' \<mapsto> 0]" "keys_of_client (ar_objs r' ! 0) = {''k''}"
    by (auto simp: r'_def applyConfig_def main_profile_def empty_auto_def Let_def shouldUpdateOptions_def
        deleteSdkClients_def resetSdkClients_def addSdkClients_def add_one_def keys_of_client_def SdkKeys_def
        buildSdkClient_def new_client_def NewClient_def buildSdkConfig_def plain_reg_def zero_config_def zero_sdk_def
        zero_offline_def)
  have nobody: "clients_of empty_auto = (\<lambda>i. {})" by (simp add: clients_of_def empty_auto_def fun_eq_iff)
  have one: "clients_of r' = (\<lambda>i. if i = ''main'' then {0} else {})"
    by (auto simp: clients_of_def cl fun_eq_iff)
  have "server_inv [] (\<lambda>i. {}) (NewServer [] []) \<and> (\<forall>i. synced (map_of []) (NewServer [] []) i)"
    by (rule NewServer_inv) (simp_all add: keys_apart_def)
  then have new: "server_inv (ar_objs empty_auto) (clients_of empty_auto) (NewServer [] [])"
    "\<forall>i. synced (auto_GetSdkOrNil empty_auto) (NewServer [] []) i"
    unfolding nobody by (simp_all add: empty_auto_def auto_GetSdkOrNil_def synced_def)
  have en: "enumerates [] (ar_sdkClients empty_auto)" by (simp add: empty_auto_def)
  have apart: "keys_apart (ar_objs r') (\<lambda>i. clients_of empty_auto i \<union> clients_of r' i)"
    by (simp add: keys_apart_def nobody one)
  have pub: "ar_published r' = ar_published empty_auto @ ar_published r'" by (simp add: empty_auto_def)
  have stable: "\<forall>i a. ar_sdkClients empty_auto i = Some a \<longrightarrow>
      keys_of_client (ar_objs r' ! a) = keys_of_client (ar_objs empty_auto ! a)" by (simp add: empty_auto_def)
  have main: "auto_GetSdkOrNil r' ''main'' = Some 0" by (simp add: auto_GetSdkOrNil_def cl)
  note f = streams_follow_refresh [OF new keys_exactD(1) [OF empty_auto_exact] en enumerates_main r'_def pub apart stable,
      unfolded Let_def]
  from f main obtain s where "GetStreamOrNil ?sv ''main'' = Some s" by fastforce
  then have "GetStreamBySdkKeyOrNil ?sv ''k'' = Some s"
    using f main cl(2) by blast
  with main show ?thesis unfolding r'_def by blast
qed

text \<open>
  C26: validation and storage fit together. In a validated configuration whose shared cache could
  be set up, every SDK that is offline gets a store that is watched for changes, reading the
  local file or polling the cache; it never gets the store the SDK writes through to the shared
  cache.
\<close>

theorem offline_storage_watched:
  assumes "enumerates ids (c_SDKs c)" and "validate_config missing ids c = Valid"
    and "SetupExternalCache load connect create_index load_aws (c_Cache c) = Inr backend"
    and "c_SDKs c i = Some (Some s)" and "off_Enabled (sdk_Offline s)"
    and "cx_SDKConf cx = s" and "cx_ExternalCache cx \<longleftrightarrow> backend \<noteq> None"
  shows "is_notifying (client_storage ProduceCacheKey cx) \<and> client_storage ProduceCacheKey cx \<noteq> CacheStorage"
proof -
  have "config_ok missing c" using validate_config_ok [OF assms(1)] assms(2) by blast
  then have ok: "offline_ok missing (c_Cache c) (sdk_Offline s)"
    using assms(4) unfolding config_ok_def sdk_ok_def by (metis option.inject)
  have "backend \<noteq> None \<longleftrightarrow> cache_IsSet (c_Cache c)" using SetupExternalCache_selects [OF assms(3)] by blast
  then show ?thesis
    using ok assms(5-7) by (auto simp: client_storage_def offline_ok_def Let_def)
qed

theorem offline_storage_watched_witness:
  "is_notifying (client_storage (\<lambda>k. k) \<lparr>cx_SdkId = ''main'', cx_SecondarySdkKey = None,
     cx_SDKConf = zero_sdk\<lparr>sdk_Key := ''key'', sdk_Offline := zero_offline\<lparr>off_Enabled := True, off_Local := zero_local\<lparr>FilePath := ''f''\<rparr>\<rparr>\<rparr>,
     cx_GlobalDefaultAttrs = None, cx_ExternalCache = False, cx_EvalReporter = False\<rparr>)"
proof -
  let ?s = "zero_sdk\<lparr>sdk_Key := ''key'', sdk_Offline := zero_offline\<lparr>off_Enabled := True, off_Local := zero_local\<lparr>FilePath := ''f''\<rparr>\<rparr>\<rparr>"
  let ?c = "(setDefaults zero_config)\<lparr>c_SDKs := [''main'' \<mapsto> Some ?s]\<rparr>"
  have en: "enumerates [''main''] (c_SDKs ?c)" by (simp add: enumerates_def)
  have v: "validate_config (\<lambda>f. False) [''main''] ?c = Valid"
    by (rule example_valid) (simp_all add: zero_sdk_def zero_offline_def zero_local_def validate_offline_def
        validate_local_def check_def)
  have x: "SetupExternalCache (\<lambda>a b. Inl []) (\<lambda>a. Inl []) (\<lambda>a b. Inl []) (Inl []) (c_Cache ?c) = Inr (None :: unit backend option)"
    by (simp add: SetupExternalCache_def setDefaults_def setDefaults_cache_def zero_config_def zero_cache_def)
  have m: "c_SDKs ?c ''main'' = Some (Some ?s)" by simp
  show ?thesis by (rule offline_storage_watched [OF en v x m, THEN conjunct1]) simp_all
qed

end
